(* ===== verification/Prelude.thy ===== *)
theory Prelude
  imports Main "HOL-Library.Word"
begin

text \<open>
  What every component theory shares: the fixed-width integer types of Rust, the outcome type
  that carries a panic or an error value, Rust's checked and saturating arithmetic, and the
  generic lemmas on lists and folds the components use.

  The kernel is built with the \<open>dev\<close> profile by default (\<open>BUILD ?= debug\<close> in the Makefile), in
  which an overflowing \<open>+\<close>, \<open>-\<close> or \<open>*\<close> panics and \<open>debug_assert!\<close> is checked. Addresses and
  sizes (\<open>usize\<close>, \<open>u64\<close> used as an address) are natural numbers below \<open>2 ^ 64\<close>, with every
  arithmetic operation of the source that can overflow written as one of the checked operations
  below. Bytes and register values that are taken apart bit by bit are words.
\<close>

unbundle bit_operations_syntax

section \<open>Integer types\<close>

type_synonym u8 = "8 word"
type_synonym u16 = "16 word"
type_synonym u32 = "32 word"
type_synonym u64 = "64 word"
type_synonym usize = nat

section \<open>Outcomes\<close>

text \<open>The panics the modelled code can raise, by their cause.\<close>

datatype panic =
    ArithOverflow
  | DivByZero
  | IndexOutOfBounds
  | UnwrapFailed
  | AssertFailed
  | ExplicitPanic

type_synonym 'a res = "panic + 'a"

named_theorems res_simps \<open>evaluation of outcomes and of checked arithmetic\<close>

text \<open>Sequencing: the first panic (or error value) ends the computation.\<close>

definition res_bind :: "'e + 'a \<Rightarrow> ('a \<Rightarrow> 'e + 'b) \<Rightarrow> 'e + 'b" where
  "res_bind m f = (case m of Inl e \<Rightarrow> Inl e | Inr x \<Rightarrow> f x)"

lemma res_bind_Inr [simp, res_simps]: "res_bind (Inr x) f = f x"
  by (simp add: res_bind_def)

lemma res_bind_Inl [simp, res_simps]: "res_bind (Inl e) f = Inl e"
  by (simp add: res_bind_def)

lemma res_bind_eq_Inr [simp]:
  "res_bind m f = Inr y \<longleftrightarrow> (\<exists>x. m = Inr x \<and> f x = Inr y)"
  by (cases m) auto

lemma res_bind_assoc: "res_bind (res_bind m f) g = res_bind m (\<lambda>x. res_bind (f x) g)"
  by (cases m) simp_all

lemma res_bind_cong_fun: "(\<And>x. f x = g x) \<Longrightarrow> res_bind m f = res_bind m g"
  by (cases m) simp_all

lemma res_bind_eq_Inl:
  "res_bind m f = Inl e \<longleftrightarrow> m = Inl e \<or> (\<exists>x. m = Inr x \<and> f x = Inl e)"
  by (cases m) auto

text \<open>\<open>assert!(b)\<close> and \<open>debug_assert!(b)\<close>; \<open>Option::unwrap\<close>; indexing a slice.\<close>

definition assert_that :: "bool \<Rightarrow> unit res" where
  "assert_that b = (if b then Inr () else Inl AssertFailed)"

definition unwrap :: "'a option \<Rightarrow> 'a res" where
  "unwrap v = (case v of None \<Rightarrow> Inl UnwrapFailed | Some x \<Rightarrow> Inr x)"

definition index_at :: "'a list \<Rightarrow> nat \<Rightarrow> 'a res" where
  "index_at xs i = (if i < length xs then Inr (xs ! i) else Inl IndexOutOfBounds)"

definition store_at :: "'a list \<Rightarrow> nat \<Rightarrow> 'a \<Rightarrow> 'a list res" where
  "store_at xs i v = (if i < length xs then Inr (xs[i := v]) else Inl IndexOutOfBounds)"

lemma assert_that_simps [simp, res_simps]:
  "b \<Longrightarrow> assert_that b = Inr ()"
  "\<not> b \<Longrightarrow> assert_that b = Inl AssertFailed"
  by (simp_all add: assert_that_def)

lemma assert_that_eq_Inr [simp]: "assert_that b = Inr u \<longleftrightarrow> b"
  by (simp add: assert_that_def)

lemma unwrap_simps [simp, res_simps]:
  "unwrap None = Inl UnwrapFailed"
  "unwrap (Some x) = Inr x"
  by (simp_all add: unwrap_def)

lemma unwrap_eq_Inr [simp]: "unwrap v = Inr x \<longleftrightarrow> v = Some x"
  by (cases v) auto

lemma index_at_simps [simp, res_simps]:
  "i < length xs \<Longrightarrow> index_at xs i = Inr (xs ! i)"
  "length xs \<le> i \<Longrightarrow> index_at xs i = Inl IndexOutOfBounds"
  by (simp_all add: index_at_def)

lemma index_at_eq_Inr [simp]: "index_at xs i = Inr v \<longleftrightarrow> i < length xs \<and> v = xs ! i"
  by (auto simp: index_at_def)

lemma store_at_simps [simp, res_simps]:
  "i < length xs \<Longrightarrow> store_at xs i v = Inr (xs[i := v])"
  "length xs \<le> i \<Longrightarrow> store_at xs i v = Inl IndexOutOfBounds"
  by (simp_all add: store_at_def)

lemma store_at_eq_Inr [simp]: "store_at xs i v = Inr ys \<longleftrightarrow> i < length xs \<and> ys = xs[i := v]"
  by (auto simp: store_at_def)

section \<open>Checked arithmetic on usize\<close>

definition usize_add :: "usize \<Rightarrow> usize \<Rightarrow> usize res" where
  "usize_add a b = (if a + b < 2 ^ 64 then Inr (a + b) else Inl ArithOverflow)"

definition usize_sub :: "usize \<Rightarrow> usize \<Rightarrow> usize res" where
  "usize_sub a b = (if b \<le> a then Inr (a - b) else Inl ArithOverflow)"

definition usize_mul :: "usize \<Rightarrow> usize \<Rightarrow> usize res" where
  "usize_mul a b = (if a * b < 2 ^ 64 then Inr (a * b) else Inl ArithOverflow)"

definition usize_rem :: "usize \<Rightarrow> usize \<Rightarrow> usize res" where
  "usize_rem a b = (if b = 0 then Inl DivByZero else Inr (a mod b))"

lemma usize_add_simps [simp, res_simps]:
  "a + b < 2 ^ 64 \<Longrightarrow> usize_add a b = Inr (a + b)"
  "2 ^ 64 \<le> a + b \<Longrightarrow> usize_add a b = Inl ArithOverflow"
  by (simp_all add: usize_add_def)

lemma usize_sub_simps [simp, res_simps]:
  "b \<le> a \<Longrightarrow> usize_sub a b = Inr (a - b)"
  "a < b \<Longrightarrow> usize_sub a b = Inl ArithOverflow"
  by (simp_all add: usize_sub_def)

lemma usize_mul_simps [simp, res_simps]:
  "a * b < 2 ^ 64 \<Longrightarrow> usize_mul a b = Inr (a * b)"
  "2 ^ 64 \<le> a * b \<Longrightarrow> usize_mul a b = Inl ArithOverflow"
  by (simp_all add: usize_mul_def)

lemma usize_rem_simps [simp, res_simps]:
  "0 < b \<Longrightarrow> usize_rem a b = Inr (a mod b)"
  "usize_rem a 0 = Inl DivByZero"
  by (simp_all add: usize_rem_def)

lemma usize_add_eq_Inr [simp]: "usize_add a b = Inr c \<longleftrightarrow> c = a + b \<and> a + b < 2 ^ 64"
  by (auto simp: usize_add_def)

lemma usize_sub_eq_Inr [simp]: "usize_sub a b = Inr c \<longleftrightarrow> c = a - b \<and> b \<le> a"
  by (auto simp: usize_sub_def)

lemma usize_mul_eq_Inr [simp]: "usize_mul a b = Inr c \<longleftrightarrow> c = a * b \<and> a * b < 2 ^ 64"
  by (auto simp: usize_mul_def)

lemma usize_rem_eq_Inr [simp]: "usize_rem a b = Inr c \<longleftrightarrow> c = a mod b \<and> 0 < b"
  by (auto simp: usize_rem_def)

section \<open>Bits of a word\<close>

text \<open>The two idioms of the source for testing bit \<open>n\<close> of a register value.\<close>

lemma and_push_bit_1: "(b AND push_bit n 1 \<noteq> 0) = bit b n" for b :: "'a::len word"
  by (simp add: and_exp_eq_0_iff_not_bit push_bit_eq_mult)

lemma drop_bit_and_1: "(drop_bit n b AND 1 \<noteq> 0) = bit b n" for b :: "'a::len word"
  by (simp add: and_one_eq bit_iff_odd_drop_bit odd_iff_mod_2_eq_one)

lemmas mask_bits = and_push_bit_1 drop_bit_and_1

section \<open>Folding a fallible step over a list\<close>

text \<open>A \<open>for\<close> loop whose body may panic.\<close>

fun res_fold :: "('a \<Rightarrow> 's \<Rightarrow> 'e + 's) \<Rightarrow> 'a list \<Rightarrow> 's \<Rightarrow> 'e + 's" where
  "res_fold f [] s = Inr s"
| "res_fold f (x # xs) s = res_bind (f x s) (res_fold f xs)"

lemma res_fold_append:
  "res_fold f (xs @ ys) s = res_bind (res_fold f xs s) (res_fold f ys)"
  by (induction xs arbitrary: s) (auto simp: res_bind_def split: sum.splits)

lemma res_fold_inv:
  assumes "res_fold f xs s = Inr t" and "P s"
    and "\<And>x s t. x \<in> set xs \<Longrightarrow> P s \<Longrightarrow> f x s = Inr t \<Longrightarrow> P t"
  shows "P t"
  using assms
proof (induction xs arbitrary: s)
  case (Cons x xs)
  then obtain u where u: "f x s = Inr u" "res_fold f xs u = Inr t" by auto
  have "P u" using Cons.prems(2,3) u(1) by auto
  then show ?case using Cons.IH[OF u(2)] Cons.prems(3) by auto
qed simp

lemma res_fold_total:
  assumes "P s"
    and "\<And>x s. x \<in> set xs \<Longrightarrow> P s \<Longrightarrow> \<exists>t. f x s = Inr t \<and> P t"
  shows "\<exists>t. res_fold f xs s = Inr t \<and> P t"
  using assms
proof (induction xs arbitrary: s)
  case (Cons x xs)
  then obtain u where u: "f x s = Inr u" "P u" by fastforce
  with Cons.IH[OF u(2)] Cons.prems(2) show ?case by auto
qed simp

section \<open>Programs that talk to hardware\<close>

text \<open>
  A program on a state \<open>'s\<close> that holds the hardware: it may fail with an error value, and a loop
  in it may never end, which is the outcome \<open>None\<close>.
\<close>

type_synonym ('s, 'e, 'a) io = "'s \<Rightarrow> (('e + 'a) \<times> 's) option"

definition io_return :: "'a \<Rightarrow> ('s, 'e, 'a) io" where
  "io_return x s = Some (Inr x, s)"

definition io_fail :: "'e \<Rightarrow> ('s, 'e, 'a) io" where
  "io_fail e s = Some (Inl e, s)"

definition io_bind :: "('s, 'e, 'a) io \<Rightarrow> ('a \<Rightarrow> ('s, 'e, 'b) io) \<Rightarrow> ('s, 'e, 'b) io" where
  "io_bind m f s =
     (case m s of
        None \<Rightarrow> None
      | Some (Inl e, s') \<Rightarrow> Some (Inl e, s')
      | Some (Inr x, s') \<Rightarrow> f x s')"

text \<open>An operation that always returns; a change of the state.\<close>

definition io_step :: "('s \<Rightarrow> 'a \<times> 's) \<Rightarrow> ('s, 'e, 'a) io" where
  "io_step f s = (case f s of (x, s') \<Rightarrow> Some (Inr x, s'))"

definition io_modify :: "('s \<Rightarrow> 's) \<Rightarrow> ('s, 'e, unit) io" where
  "io_modify f s = Some (Inr (), f s)"

definition io_when :: "bool \<Rightarrow> ('s, 'e, unit) io \<Rightarrow> ('s, 'e, unit) io" where
  "io_when b m = (if b then m else io_return ())"

lemma io_run_simps [simp]:
  "io_return x s = Some (Inr x, s)"
  "io_fail e s = Some (Inl e, s)"
  "io_modify f s = Some (Inr (), f s)"
  "io_step g s = Some (Inr (fst (g s)), snd (g s))"
  by (simp_all add: io_return_def io_fail_def io_modify_def io_step_def case_prod_beta)

lemma io_when_simps [simp]:
  "io_when True m = m"
  "io_when False m = io_return ()"
  by (simp_all add: io_when_def)

lemma io_bind_outcomes [simp]:
  "m s = Some (Inr x, s') \<Longrightarrow> io_bind m f s = f x s'"
  "m s = Some (Inl e, s') \<Longrightarrow> io_bind m f s = Some (Inl e, s')"
  "m s = None \<Longrightarrow> io_bind m f s = None"
  by (simp_all add: io_bind_def)

lemma io_bind_eq_Some:
  "io_bind m f s = Some (r, t) \<longleftrightarrow>
     (\<exists>e. m s = Some (Inl e, t) \<and> r = Inl e) \<or> (\<exists>x u. m s = Some (Inr x, u) \<and> f x u = Some (r, t))"
  by (auto simp: io_bind_def split: option.splits sum.splits)

text \<open>
  A program that always returns and keeps \<open>P\<close>, and the rules that compose such programs.
\<close>

definition io_ends :: "('s \<Rightarrow> bool) \<Rightarrow> ('s, 'e, 'a) io \<Rightarrow> bool" where
  "io_ends P m \<longleftrightarrow> (\<forall>s. P s \<longrightarrow> (\<exists>r t. m s = Some (r, t) \<and> P t))"

named_theorems io_ends_intros \<open>programs that always return\<close>

lemma io_ends_return [io_ends_intros]: "io_ends P (io_return x)"
  by (simp add: io_ends_def)

lemma io_ends_fail [io_ends_intros]: "io_ends P (io_fail e)"
  by (simp add: io_ends_def)

lemma io_ends_bind [io_ends_intros]:
  assumes "io_ends P m" "\<And>x. io_ends P (f x)"
  shows "io_ends P (io_bind m f)"
  unfolding io_ends_def
proof (intro allI impI)
  fix s
  assume "P s"
  then obtain r t where m: "m s = Some (r, t)" "P t" using assms(1) unfolding io_ends_def by blast
  then show "\<exists>r t. io_bind m f s = Some (r, t) \<and> P t"
    using assms(2) unfolding io_ends_def by (cases r) auto
qed

lemma io_ends_when [io_ends_intros]: "io_ends P m \<Longrightarrow> io_ends P (io_when b m)"
  by (cases b) (simp_all add: io_ends_return)

lemma io_ends_if [io_ends_intros]:
  "(b \<Longrightarrow> io_ends P m) \<Longrightarrow> (\<not> b \<Longrightarrow> io_ends P n) \<Longrightarrow> io_ends P (if b then m else n)"
  by simp

text \<open>
  What holds of the outcome when the program returns, in the style of a weakest precondition:
  \<open>io_post Q m s\<close> reduces, rule by rule, to the posts of the parts.
\<close>

definition io_post :: "('e + 'a \<Rightarrow> 's \<Rightarrow> bool) \<Rightarrow> ('s, 'e, 'a) io \<Rightarrow> 's \<Rightarrow> bool" where
  "io_post Q m s \<longleftrightarrow> (\<forall>r t. m s = Some (r, t) \<longrightarrow> Q r t)"

named_theorems io_post_intros \<open>postconditions of programs\<close>

lemma io_postD: "io_post Q m s \<Longrightarrow> m s = Some (r, t) \<Longrightarrow> Q r t"
  by (simp add: io_post_def)

lemma io_post_return [io_post_intros]: "Q (Inr x) s \<Longrightarrow> io_post Q (io_return x) s"
  by (simp add: io_post_def)

lemma io_post_fail [io_post_intros]: "Q (Inl e) s \<Longrightarrow> io_post Q (io_fail e) s"
  by (simp add: io_post_def)

lemma io_post_modify [io_post_intros]: "Q (Inr ()) (f s) \<Longrightarrow> io_post Q (io_modify f) s"
  by (simp add: io_post_def)

text \<open>Sequencing, by the form of the first program, so that the rules apply without search.\<close>

lemma io_post_bind:
  "io_post (\<lambda>r t. case r of Inl e \<Rightarrow> Q (Inl e) t | Inr x \<Rightarrow> io_post Q (f x) t) m s
     \<Longrightarrow> io_post Q (io_bind m f) s"
  by (auto simp: io_post_def io_bind_eq_Some)

lemma io_post_bind_return [io_post_intros]: "io_post Q (f x) s \<Longrightarrow> io_post Q (io_bind (io_return x) f) s"
  by (simp add: io_post_def)

lemma io_post_bind_fail [io_post_intros]: "Q (Inl e) s \<Longrightarrow> io_post Q (io_bind (io_fail e) f) s"
  by (simp add: io_post_def)

lemma io_post_bind_modify [io_post_intros]:
  "io_post Q (f ()) (g s) \<Longrightarrow> io_post Q (io_bind (io_modify g) f) s"
  by (simp add: io_post_def)

lemma io_post_bind_step [io_post_intros]:
  "io_post Q (f (fst (g s))) (snd (g s)) \<Longrightarrow> io_post Q (io_bind (io_step g) f) s"
  by (simp add: io_post_def)

lemma io_bind_assoc: "io_bind (io_bind m g) f = io_bind m (\<lambda>x. io_bind (g x) f)"
  by (rule ext) (auto simp: io_bind_def split: option.splits sum.splits)

lemma io_post_bind_bind [io_post_intros]:
  "io_post Q (io_bind m (\<lambda>x. io_bind (g x) f)) s \<Longrightarrow> io_post Q (io_bind (io_bind m g) f) s"
  by (simp add: io_bind_assoc)

lemma io_post_bind_if [io_post_intros]:
  "(b \<Longrightarrow> io_post Q (io_bind m f) s) \<Longrightarrow> (\<not> b \<Longrightarrow> io_post Q (io_bind n f) s)
     \<Longrightarrow> io_post Q (io_bind (if b then m else n) f) s"
  by simp

lemma io_post_bind_when [io_post_intros]:
  "(b \<Longrightarrow> io_post Q (io_bind m f) s) \<Longrightarrow> (\<not> b \<Longrightarrow> io_post Q (f ()) s)
     \<Longrightarrow> io_post Q (io_bind (io_when b m) f) s"
  by (cases b) (simp_all add: io_post_bind_return)

lemma io_post_when [io_post_intros]:
  "(b \<Longrightarrow> io_post Q m s) \<Longrightarrow> (\<not> b \<Longrightarrow> Q (Inr ()) s) \<Longrightarrow> io_post Q (io_when b m) s"
  by (cases b) (simp_all add: io_post_return)

lemma io_post_if [io_post_intros]:
  "(b \<Longrightarrow> io_post Q m s) \<Longrightarrow> (\<not> b \<Longrightarrow> io_post Q n s) \<Longrightarrow> io_post Q (if b then m else n) s"
  by simp

section \<open>Polling loops\<close>

definition io_gets :: "('h \<Rightarrow> 'a) \<Rightarrow> ('h, 'e, 'a) io" where
  "io_gets f h = Some (Inr (f h), h)"

text \<open>The unbounded polling loops of the drivers: read a register until its value is as wanted.\<close>

partial_function (option) spin_until ::
    "('h \<Rightarrow> 'v \<times> 'h) \<Rightarrow> ('v \<Rightarrow> bool) \<Rightarrow> 'h \<Rightarrow> ('v \<times> 'h) option" where
  "spin_until rd p h = (case rd h of (v, h') \<Rightarrow> if p v then Some (v, h') else spin_until rd p h')"

lemma spin_until_returns:
  assumes "p (fst (rd (((snd \<circ> rd) ^^ n) h)))"
  shows "\<exists>k\<le>n. spin_until rd p h = Some (rd (((snd \<circ> rd) ^^ k) h)) \<and> p (fst (rd (((snd \<circ> rd) ^^ k) h)))"
  using assms
proof (induction n arbitrary: h)
  case 0
  then show ?case by (subst spin_until.simps) (simp add: case_prod_beta)
next
  case (Suc n)
  show ?case
  proof (cases "p (fst (rd h))")
    case True
    then show ?thesis by (subst spin_until.simps) (auto simp: case_prod_beta intro!: exI[of _ 0])
  next
    case False
    have "spin_until rd p h = spin_until rd p (snd (rd h))"
      using False by (subst spin_until.simps) (simp add: case_prod_beta)
    moreover have sh: "((snd \<circ> rd) ^^ k) (snd (rd h)) = ((snd \<circ> rd) ^^ Suc k) h" for k
      by (simp add: funpow_swap1)
    ultimately show ?thesis using Suc.IH[of "snd (rd h)"] Suc.prems unfolding sh by (metis Suc_le_mono)
  qed
qed

lemma spin_until_now: "p (fst (rd h)) \<Longrightarrow> spin_until rd p h = Some (rd h)"
  by (subst spin_until.simps) (simp add: case_prod_beta)

end
