(* ===== verification/Snalloc.thy ===== *)
theory Snalloc
  imports Prelude
begin

text \<open>
  The heap allocator: \<open>crates/snalloc/src/lib.rs\<close> (a size-class allocator of seven slabs with a
  linked-list fallback) and its use by \<open>kernel/src/allocator.rs\<close>.

  A slab hands out cells of one size from a region. A free cell stores, in its first word, the
  address of the next free cell; a cell never handed out holds 0 there and stands for "the cell
  right after me". Memory maps the address of a machine word to the word stored there; the
  allocator reads and writes it at the bases of cells only, where a \<open>SlabCell\<close> lies.
\<close>

section \<open>Layouts and memory\<close>

record Layout =
  lsize :: usize
  lalign :: usize

type_synonym memory = "usize \<Rightarrow> usize"

section \<open>SlabAllocator\<close>

record SlabAllocator =
  sl_start :: usize
  sl_end :: usize
  sl_next :: usize
  sl_size :: usize
  sl_used :: usize

definition SlabAllocator_new :: "usize \<Rightarrow> SlabAllocator" where
  "SlabAllocator_new sz =
     \<lparr>sl_start = 0, sl_end = 0, sl_next = 0, sl_size = sz, sl_used = 0\<rparr>"

definition SlabAllocator_init :: "SlabAllocator \<Rightarrow> usize \<Rightarrow> usize \<Rightarrow> SlabAllocator res" where
  "SlabAllocator_init self start sz =
     res_bind (usize_rem (sl_start self) (sl_size self)) (\<lambda>r.
     res_bind (assert_that (r = 0)) (\<lambda>_.
     res_bind (usize_add start sz) (\<lambda>end.
       Inr (self\<lparr>sl_start := start, sl_end := end, sl_next := start\<rparr>))))"

definition SlabAllocator_used :: "SlabAllocator \<Rightarrow> usize" where
  "SlabAllocator_used self = sl_used self"

definition SlabAllocator_size :: "SlabAllocator \<Rightarrow> usize res" where
  "SlabAllocator_size self = usize_sub (sl_end self) (sl_start self)"

text \<open>\<open>alloc\<close> returns the pointer (0 is the null pointer), the slab and the memory.\<close>

definition SlabAllocator_alloc ::
    "SlabAllocator \<Rightarrow> Layout \<Rightarrow> memory \<Rightarrow> (usize \<times> SlabAllocator \<times> memory) res" where
  "SlabAllocator_alloc self layout m =
     res_bind (assert_that (lsize layout \<le> sl_size self)) (\<lambda>_.
     res_bind (assert_that (lalign layout \<le> sl_size self)) (\<lambda>_.
     if sl_end self \<le> sl_next self then Inr (0, self, m)
     else
       (let cell = sl_next self;
            cell_next = m cell;
            m' = m(cell := 0)
        in res_bind (if cell_next = 0 then usize_add (sl_next self) (sl_size self)
                     else Inr cell_next) (\<lambda>next.
           res_bind (usize_add (sl_used self) (lsize layout)) (\<lambda>used.
             Inr (cell, self\<lparr>sl_next := next, sl_used := used\<rparr>, m'))))))"

definition SlabAllocator_dealloc ::
    "SlabAllocator \<Rightarrow> usize \<Rightarrow> Layout \<Rightarrow> memory \<Rightarrow> (SlabAllocator \<times> memory) res" where
  "SlabAllocator_dealloc self ptr layout m =
     res_bind (assert_that (lsize layout \<le> sl_size self)) (\<lambda>_.
     res_bind (assert_that (lalign layout \<le> sl_size self)) (\<lambda>_.
       let cell = ptr;
           m' = m(cell := sl_next self)
       in res_bind (usize_sub (sl_used self) (lsize layout)) (\<lambda>used.
            Inr (self\<lparr>sl_next := cell, sl_used := used\<rparr>, m'))))"

section \<open>The invariant of a slab\<close>

text \<open>
  \<open>cell s i\<close> is the base of the \<open>i\<close>-th cell. The free list is the chain of freed cells \<open>fs\<close> that
  starts at \<open>sl_next\<close> and ends at the frontier \<open>cell s k\<close>, the first cell never handed out.
  \<open>live\<close> records, for each pointer handed out and not yet returned, the layout it was asked with.
\<close>

definition cell :: "SlabAllocator \<Rightarrow> nat \<Rightarrow> usize" where
  "cell s i = sl_start s + i * sl_size s"

fun chain :: "memory \<Rightarrow> usize \<Rightarrow> usize list \<Rightarrow> usize \<Rightarrow> bool" where
  "chain m p [] q = (p = q)"
| "chain m p (c # cs) q = (p = c \<and> m c \<noteq> 0 \<and> chain m (m c) cs q)"

definition slab_wf :: "SlabAllocator \<Rightarrow> bool" where
  "slab_wf s \<longleftrightarrow> 0 < sl_start s \<and> 8 \<le> sl_size s \<and> sl_start s \<le> sl_end s
     \<and> sl_end s + sl_size s < 2 ^ 64"

definition fits :: "SlabAllocator \<Rightarrow> Layout \<Rightarrow> bool" where
  "fits s l \<longleftrightarrow> lsize l \<le> sl_size s \<and> lalign l \<le> sl_size s"

definition all_cells :: "SlabAllocator \<Rightarrow> usize set" where
  "all_cells s = {cell s i | i. cell s i < sl_end s}"

definition slab_inv_with ::
    "SlabAllocator \<Rightarrow> memory \<Rightarrow> (usize \<rightharpoonup> Layout) \<Rightarrow> usize list \<Rightarrow> nat \<Rightarrow> bool" where
  "slab_inv_with s m live fs k \<longleftrightarrow>
     slab_wf s
   \<and> (\<forall>i<k. cell s i < sl_end s)
   \<and> chain m (sl_next s) fs (cell s k)
   \<and> distinct fs
   \<and> dom live \<union> set fs = cell s ` {..<k}
   \<and> dom live \<inter> set fs = {}
   \<and> (\<forall>i\<ge>k. cell s i < sl_end s \<longrightarrow> m (cell s i) = 0)
   \<and> (\<forall>p l. live p = Some l \<longrightarrow> fits s l)
   \<and> sl_used s = (\<Sum>p\<in>dom live. lsize (the (live p)))"

definition slab_inv :: "SlabAllocator \<Rightarrow> memory \<Rightarrow> (usize \<rightharpoonup> Layout) \<Rightarrow> bool" where
  "slab_inv s m live \<longleftrightarrow> (\<exists>fs k. slab_inv_with s m live fs k)"

lemma cell_inj [simp]: "slab_wf s \<Longrightarrow> cell s i = cell s j \<longleftrightarrow> i = j"
  by (auto simp: cell_def slab_wf_def)

lemma cell_mono: "slab_wf s \<Longrightarrow> cell s i \<le> cell s j \<longleftrightarrow> i \<le> j"
  by (auto simp: cell_def slab_wf_def)

lemma cell_pos [simp]: "slab_wf s \<Longrightarrow> 0 < cell s i"
  by (simp add: cell_def slab_wf_def)

lemma cell_Suc: "cell s (Suc i) = cell s i + sl_size s"
  by (simp add: cell_def)

lemma chain_upd [simp]: "a \<notin> set cs \<Longrightarrow> chain (m(a := v)) p cs q = chain m p cs q"
  by (induction cs arbitrary: p) auto

lemma chain_cong: "(\<And>c. c \<in> set cs \<Longrightarrow> m' c = m c) \<Longrightarrow> chain m' p cs q = chain m p cs q"
  by (induction cs arbitrary: p) auto


lemmas slab_inv_unfold = slab_inv_with_def fits_def

lemma slab_inv_wf: "slab_inv s m live \<Longrightarrow> slab_wf s"
  by (auto simp: slab_inv_def slab_inv_with_def)

lemma live_finite: "slab_inv s m live \<Longrightarrow> finite (dom live)"
proof -
  assume "slab_inv s m live"
  then obtain fs k where "dom live \<union> set fs = cell s ` {..<k}"
    by (auto simp: slab_inv_def slab_inv_with_def)
  then have "dom live \<subseteq> cell s ` {..<k}" by blast
  then show ?thesis by (rule finite_subset) simp
qed

lemma inv_cell:
  assumes "slab_inv_with s m live fs k" and "p \<in> dom live \<union> set fs"
  obtains i where "i < k" "p = cell s i" "cell s i < sl_end s"
  using assms unfolding slab_inv_with_def by blast

lemma live_cells: "slab_inv s m live \<Longrightarrow> dom live \<subseteq> all_cells s"
  unfolding slab_inv_def slab_inv_with_def all_cells_def by blast

text \<open>Two different cells never overlap, so neither do two live blocks.\<close>

lemma cells_apart:
  assumes "slab_wf s" and "p \<in> all_cells s" and "q \<in> all_cells s" and "p \<noteq> q"
  shows "p + sl_size s \<le> q \<or> q + sl_size s \<le> p"
proof -
  from assms(2,3) obtain i j where ij: "p = cell s i" "q = cell s j"
    by (auto simp: all_cells_def)
  with assms(4) have "i < j \<or> j < i" by (metis nat_neq_iff)
  then have "Suc i \<le> j \<or> Suc j \<le> i" by auto
  with assms(1) have "cell s (Suc i) \<le> cell s j \<or> cell s (Suc j) \<le> cell s i"
    by (simp only: cell_mono)
  with ij show ?thesis by (simp add: cell_Suc)
qed

text \<open>The accounting of \<open>used\<close> cannot overflow: a slab holds at most its region.\<close>

lemma used_bound:
  assumes "slab_inv_with s m live fs k"
  shows "sl_used s \<le> (k - length fs) * sl_size s"
proof -
  from assms have wf: "slab_wf s" and un: "dom live \<union> set fs = cell s ` {..<k}"
    and disj: "dom live \<inter> set fs = {}" and dist: "distinct fs"
    and fit: "\<And>p l. live p = Some l \<Longrightarrow> lsize l \<le> sl_size s"
    and used: "sl_used s = (\<Sum>p\<in>dom live. lsize (the (live p)))"
    by (auto simp: slab_inv_unfold)
  have fin: "finite (dom live)"
    using un by (metis finite_Un finite_imageI finite_lessThan)
  have "card (dom live) + card (set fs) = card (cell s ` {..<k})"
    using fin disj un by (metis card_Un_disjoint List.finite_set)
  also have "\<dots> = k" using wf by (subst card_image) (auto simp: inj_on_def)
  finally have "card (dom live) = k - length fs" using distinct_card[OF dist] by simp
  moreover have "sl_used s \<le> card (dom live) * sl_size s"
    unfolding used using fit by (intro sum_bounded_above[where K = "sl_size s", simplified]) auto
  ultimately show ?thesis by simp
qed

lemma frontier_bound:
  assumes "slab_inv_with s m live fs k"
  shows "k * sl_size s \<le> sl_end s - sl_start s + sl_size s"
proof (cases k)
  case (Suc j)
  with assms have "cell s j < sl_end s" by (auto simp: slab_inv_unfold)
  with Suc show ?thesis by (auto simp: cell_def)
qed simp

lemma chain_Nil_iff:
  assumes "slab_inv_with s m live fs k"
  shows "sl_end s \<le> sl_next s \<longleftrightarrow> fs = [] \<and> sl_end s \<le> cell s k"
proof (cases fs)
  case Nil
  with assms show ?thesis by (auto simp: slab_inv_unfold)
next
  case (Cons c cs)
  with assms have "sl_next s = c" "c \<in> cell s ` {..<k}" by (auto simp: slab_inv_unfold)
  with assms have "sl_next s < sl_end s" by (auto simp: slab_inv_unfold)
  with Cons show ?thesis by simp
qed

section \<open>What alloc does\<close>

lemma used_room:
  assumes inv: "slab_inv_with s m live fs k" and "sl_next s < sl_end s"
    and "lsize l \<le> sl_size s"
  shows "sl_used s + lsize l < 2 ^ 64"
proof -
  have wf: "slab_wf s" using inv by (simp add: slab_inv_unfold)
  have "sl_used s + lsize l \<le> sl_end s - sl_start s + sl_size s"
  proof (cases fs)
    case Nil
    with inv have "sl_next s = cell s k" by (simp add: slab_inv_unfold)
    with assms(2) wf have "k * sl_size s \<le> sl_end s - sl_start s" by (simp add: cell_def)
    with used_bound[OF inv] Nil assms(3) show ?thesis by simp
  next
    case (Cons c cs)
    have "sl_used s \<le> (k - 1) * sl_size s"
      using used_bound[OF inv] Cons by (metis (no_types, lifting) One_nat_def diff_le_mono2
          le_add1 length_Cons mult_le_mono1 order_trans plus_1_eq_Suc)
    moreover have "0 < k" using inv Cons by (auto simp: slab_inv_unfold)
    ultimately have "sl_used s + sl_size s \<le> k * sl_size s"
      by (cases k) auto
    with frontier_bound[OF inv] assms(3) show ?thesis by simp
  qed
  with wf show ?thesis unfolding slab_wf_def by linarith
qed

lemma alloc_freed:
  assumes inv: "slab_inv_with s m live (c # cs) k" and fit: "fits s l"
  shows "\<exists>s'. SlabAllocator_alloc s l m = Inr (c, s', m(c := 0))
     \<and> slab_inv_with s' (m(c := 0)) (live(c \<mapsto> l)) cs k
     \<and> sl_start s' = sl_start s \<and> sl_end s' = sl_end s \<and> sl_size s' = sl_size s"
proof -
  let ?s' = "s\<lparr>sl_next := m c, sl_used := sl_used s + lsize l\<rparr>"
  have nx: "sl_next s = c" and mc: "m c \<noteq> 0" and cnew: "c \<notin> dom live"
    using inv by (auto simp: slab_inv_unfold)
  have lt: "sl_next s < sl_end s" using chain_Nil_iff[OF inv] by (simp add: not_le)
  have room: "sl_used s + lsize l < 2 ^ 64"
    using used_room[OF inv lt, of l] fit by (simp add: fits_def)
  have fin: "finite (dom live)"
    using inv by (intro live_finite) (auto simp: slab_inv_def)
  have "SlabAllocator_alloc s l m = Inr (c, ?s', m(c := 0))"
    using lt room mc fit by (simp add: SlabAllocator_alloc_def nx fits_def Let_def)
  moreover have "slab_inv_with ?s' (m(c := 0)) (live(c \<mapsto> l)) cs k"
    unfolding slab_inv_with_def
  proof (intro conjI)
    show "dom (live(c \<mapsto> l)) \<union> set cs = cell ?s' ` {..<k}"
      using inv by (auto simp: slab_inv_with_def cell_def)
    show "sl_used ?s' = (\<Sum>p\<in>dom (live(c \<mapsto> l)). lsize (the ((live(c \<mapsto> l)) p)))"
      using inv fin cnew by (auto simp: slab_inv_with_def intro!: sum.cong)
    show "\<forall>i\<ge>k. cell ?s' i < sl_end ?s' \<longrightarrow> (m(c := 0)) (cell ?s' i) = 0"
      using inv by (auto simp: slab_inv_with_def cell_def)
  qed (use inv fit in \<open>auto simp: slab_inv_unfold slab_wf_def cell_def\<close>)
  ultimately show ?thesis by auto
qed

lemma alloc_fresh:
  assumes inv: "slab_inv_with s m live [] k" and fit: "fits s l" and lt: "cell s k < sl_end s"
  shows "\<exists>s'. SlabAllocator_alloc s l m = Inr (cell s k, s', m(cell s k := 0))
     \<and> slab_inv_with s' (m(cell s k := 0)) (live(cell s k \<mapsto> l)) [] (Suc k)
     \<and> sl_start s' = sl_start s \<and> sl_end s' = sl_end s \<and> sl_size s' = sl_size s"
proof -
  let ?c = "cell s k"
  let ?s' = "s\<lparr>sl_next := ?c + sl_size s, sl_used := sl_used s + lsize l\<rparr>"
  have wf: "slab_wf s" and nx: "sl_next s = ?c" and mc: "m ?c = 0"
    using inv lt by (auto simp: slab_inv_unfold)
  have cnew: "?c \<notin> dom live"
    using inv wf by (auto simp: slab_inv_unfold)
  have room: "sl_used s + lsize l < 2 ^ 64"
    using used_room[OF inv, of l] fit lt nx by (simp add: fits_def)
  have nov: "?c + sl_size s < 2 ^ 64" using wf lt by (simp add: slab_wf_def)
  have fin: "finite (dom live)"
    using inv by (intro live_finite) (auto simp: slab_inv_def)
  have "SlabAllocator_alloc s l m = Inr (?c, ?s', m(?c := 0))"
    using lt room mc fit nov by (simp add: SlabAllocator_alloc_def nx fits_def Let_def)
  moreover have "slab_inv_with ?s' (m(?c := 0)) (live(?c \<mapsto> l)) [] (Suc k)"
    unfolding slab_inv_with_def
  proof (intro conjI)
    show "dom (live(?c \<mapsto> l)) \<union> set [] = cell ?s' ` {..<Suc k}"
      using inv by (auto simp: slab_inv_with_def cell_def lessThan_Suc)
    show "sl_used ?s' = (\<Sum>p\<in>dom (live(?c \<mapsto> l)). lsize (the ((live(?c \<mapsto> l)) p)))"
      using inv fin cnew by (auto simp: slab_inv_with_def intro!: sum.cong)
    show "\<forall>i\<ge>Suc k. cell ?s' i < sl_end ?s' \<longrightarrow> (m(?c := 0)) (cell ?s' i) = 0"
      using inv by (auto simp: slab_inv_with_def cell_def)
    show "\<forall>i<Suc k. cell ?s' i < sl_end ?s'"
      using inv lt by (auto simp: slab_inv_with_def cell_def less_Suc_eq)
  qed (use inv fit in \<open>auto simp: slab_inv_unfold slab_wf_def cell_def\<close>)
  ultimately show ?thesis by auto
qed

text \<open>The geometry of a slab (its region and its cell size) never changes after \<open>init\<close>.\<close>

definition same_slab :: "SlabAllocator \<Rightarrow> SlabAllocator \<Rightarrow> bool" where
  "same_slab s s' \<longleftrightarrow> sl_start s' = sl_start s \<and> sl_end s' = sl_end s \<and> sl_size s' = sl_size s"

lemma same_slab_cells: "same_slab s s' \<Longrightarrow> all_cells s' = all_cells s"
  by (auto simp: same_slab_def all_cells_def cell_def)

lemma alloc_full:
  assumes inv: "slab_inv_with s m live [] k" and fit: "fits s l" and "sl_end s \<le> cell s k"
  shows "SlabAllocator_alloc s l m = Inr (0, s, m) \<and> dom live = all_cells s"
proof
  have wf: "slab_wf s" using inv by (simp add: slab_inv_unfold)
  show "SlabAllocator_alloc s l m = Inr (0, s, m)"
    using assms by (simp add: SlabAllocator_alloc_def fits_def slab_inv_unfold)
  have "all_cells s = cell s ` {..<k}"
  proof
    show "all_cells s \<subseteq> cell s ` {..<k}"
    proof
      fix p assume "p \<in> all_cells s"
      then obtain i where i: "p = cell s i" "cell s i < sl_end s" by (auto simp: all_cells_def)
      with assms(3) have "\<not> cell s k \<le> cell s i" by linarith
      with i wf show "p \<in> cell s ` {..<k}" by (simp add: cell_mono)
    qed
    show "cell s ` {..<k} \<subseteq> all_cells s"
      using inv by (auto simp: slab_inv_unfold all_cells_def)
  qed
  with inv show "dom live = all_cells s" by (simp add: slab_inv_unfold)
qed

lemma alloc_cases:
  assumes "slab_inv s m live" and "fits s l"
  obtains (cell) p s' where "SlabAllocator_alloc s l m = Inr (p, s', m(p := 0))"
      "p \<in> all_cells s" "p \<notin> dom live" "slab_inv s' (m(p := 0)) (live(p \<mapsto> l))" "same_slab s s'"
  | (full) "SlabAllocator_alloc s l m = Inr (0, s, m)" "dom live = all_cells s"
proof -
  from assms(1) obtain fs k where inv: "slab_inv_with s m live fs k"
    by (auto simp: slab_inv_def)
  have fs_cells: "set fs \<subseteq> all_cells s - dom live"
  proof
    fix p assume p: "p \<in> set fs"
    then obtain i where "p = cell s i" "cell s i < sl_end s" using inv by (blast elim: inv_cell)
    with p inv show "p \<in> all_cells s - dom live"
      by (auto simp: slab_inv_unfold all_cells_def)
  qed
  show thesis
  proof (cases fs)
    case (Cons c cs)
    obtain s' where "SlabAllocator_alloc s l m = Inr (c, s', m(c := 0))"
      "slab_inv_with s' (m(c := 0)) (live(c \<mapsto> l)) cs k" "same_slab s s'"
      using alloc_freed[of s m live c cs k l] inv assms(2) Cons by (auto simp: same_slab_def)
    moreover have "c \<in> all_cells s" "c \<notin> dom live" using fs_cells Cons by auto
    ultimately show thesis using cell[of c s'] by (simp add: slab_inv_def) blast
  next
    case Nil
    note inv' = inv[unfolded Nil]
    show thesis
    proof (cases "cell s k < sl_end s")
      case True
      obtain s' where "SlabAllocator_alloc s l m = Inr (cell s k, s', m(cell s k := 0))"
        "slab_inv_with s' (m(cell s k := 0)) (live(cell s k \<mapsto> l)) [] (Suc k)" "same_slab s s'"
        using alloc_fresh[OF inv' assms(2) True] by (auto simp: same_slab_def)
      moreover have "cell s k \<in> all_cells s" using True by (auto simp: all_cells_def)
      moreover have "cell s k \<notin> dom live"
        using inv' by (auto simp: slab_inv_unfold)
      ultimately show thesis using cell[of "cell s k" s'] by (simp add: slab_inv_def) blast
    next
      case False
      with alloc_full[OF inv' assms(2)] full show thesis by simp
    qed
  qed
qed

section \<open>What dealloc does\<close>

lemma next_pos:
  assumes inv: "slab_inv_with s m live fs k"
  shows "0 < sl_next s"
proof (cases fs)
  case Nil
  with inv show ?thesis by (simp add: slab_inv_unfold)
next
  case (Cons c cs)
  then obtain i where "c = cell s i" using inv by (auto elim: inv_cell[where p = c])
  with inv Cons show ?thesis by (simp add: slab_inv_unfold)
qed

lemma dealloc_with:
  assumes inv: "slab_inv_with s m live fs k" and lp: "live p = Some l"
  shows "\<exists>s'. SlabAllocator_dealloc s p l m = Inr (s', m(p := sl_next s))
     \<and> slab_inv_with s' (m(p := sl_next s)) (live(p := None)) (p # fs) k \<and> same_slab s s'"
proof -
  let ?s' = "s\<lparr>sl_next := p, sl_used := sl_used s - lsize l\<rparr>"
  have fin: "finite (dom live)"
    using inv by (intro live_finite) (auto simp: slab_inv_def)
  have pin: "p \<in> dom live" and pfs: "p \<notin> set fs" and fit: "fits s l"
    using lp inv by (auto simp: slab_inv_with_def)
  have sum: "sl_used s = lsize l + (\<Sum>q\<in>dom live - {p}. lsize (the (live q)))"
    using inv lp sum.remove[OF fin pin, of "\<lambda>q. lsize (the (live q))"]
    by (simp add: slab_inv_with_def)
  have pcell: "\<exists>i<k. p = cell s i"
    using inv pin by (auto simp: slab_inv_with_def)
  have "SlabAllocator_dealloc s p l m = Inr (?s', m(p := sl_next s))"
    using sum fit by (simp add: SlabAllocator_dealloc_def fits_def Let_def)
  moreover have "slab_inv_with ?s' (m(p := sl_next s)) (live(p := None)) (p # fs) k"
    unfolding slab_inv_with_def
  proof (intro conjI)
    show "dom (live(p := None)) \<union> set (p # fs) = cell ?s' ` {..<k}"
      using inv pin by (auto simp: slab_inv_with_def cell_def)
    show "sl_used ?s' = (\<Sum>q\<in>dom (live(p := None)). lsize (the ((live(p := None)) q)))"
      using sum by (auto intro!: sum.cong)
    show "\<forall>i\<ge>k. cell ?s' i < sl_end ?s' \<longrightarrow> (m(p := sl_next s)) (cell ?s' i) = 0"
      using inv pcell by (auto simp: slab_inv_with_def cell_def slab_wf_def)
    show "chain (m(p := sl_next s)) (sl_next ?s') (p # fs) (cell ?s' k)"
      using inv pfs next_pos[OF inv] by (auto simp: slab_inv_with_def cell_def)
  qed (use inv pfs in \<open>auto simp: slab_inv_unfold slab_wf_def cell_def\<close>)
  ultimately show ?thesis by (auto simp: same_slab_def)
qed

lemma dealloc_ok:
  assumes "slab_inv s m live" and "live p = Some l"
  obtains s' where "SlabAllocator_dealloc s p l m = Inr (s', m(p := sl_next s))"
    "slab_inv s' (m(p := sl_next s)) (live(p := None))" "same_slab s s'"
  using assms dealloc_with by (meson slab_inv_def)

text \<open>The block just freed is the next one handed out.\<close>

lemma dealloc_alloc:
  assumes "slab_inv s m live" and "live p = Some l" and "fits s l'"
    and "SlabAllocator_dealloc s p l m = Inr (s', m')"
  shows "\<exists>s'' m''. SlabAllocator_alloc s' l' m' = Inr (p, s'', m'') \<and> sl_next s'' = sl_next s"
proof -
  from assms(1) obtain fs k where inv: "slab_inv_with s m live fs k"
    by (auto simp: slab_inv_def)
  from dealloc_with[OF inv assms(2)] assms(4)
  have m': "m' = m(p := sl_next s)" and inv': "slab_inv_with s' m' (live(p := None)) (p # fs) k"
    and same: "same_slab s s'"
    by auto
  have "fits s' l'" using assms(3) same by (simp add: fits_def same_slab_def)
  from alloc_freed[OF inv' this] obtain s'' where
    "SlabAllocator_alloc s' l' m' = Inr (p, s'', m'(p := 0))"
    "slab_inv_with s'' (m'(p := 0)) ((live(p := None))(p \<mapsto> l')) fs k" "sl_start s'' = sl_start s'"
    "sl_size s'' = sl_size s'"
    by auto
  moreover from this have "sl_next s'' = sl_next s"
    using inv same by (cases fs) (auto simp: slab_inv_unfold cell_def same_slab_def)
  ultimately show ?thesis by blast
qed

section \<open>The owner of a block writes to it\<close>

text \<open>
  A client may write anything inside a block it holds: every word outside keeps its value.
\<close>

definition writes_only :: "usize \<Rightarrow> usize \<Rightarrow> memory \<Rightarrow> memory \<Rightarrow> bool" where
  "writes_only p sz m m' \<longleftrightarrow> (\<forall>a. a < p \<or> p + sz \<le> a \<longrightarrow> m' a = m a)"

lemma client_write_inv:
  assumes inv: "slab_inv s m live" and p: "p \<in> dom live" and w: "writes_only p (sl_size s) m m'"
  shows "slab_inv s m' live"
proof -
  from inv obtain fs k where ik: "slab_inv_with s m live fs k" by (auto simp: slab_inv_def)
  then have wf: "slab_wf s" by (simp add: slab_inv_with_def)
  have same: "m' q = m q" if ne: "q \<noteq> p" and ex: "\<exists>j. q = cell s j" for q
  proof -
    obtain i j where ij: "p = cell s i" "q = cell s j"
      using p ik ex by (blast elim: inv_cell)
    with ne have "Suc i \<le> j \<or> Suc j \<le> i" by (metis not_less_eq_eq le_antisym)
    with wf have "cell s (Suc i) \<le> cell s j \<or> cell s (Suc j) \<le> cell s i"
      by (simp only: cell_mono)
    with ij wf have "q < p \<or> p + sl_size s \<le> q"
      by (auto simp: cell_Suc slab_wf_def)
    with w show ?thesis by (auto simp: writes_only_def)
  qed
  have "chain m' (sl_next s) fs (cell s k) = chain m (sl_next s) fs (cell s k)"
  proof (rule chain_cong)
    fix c assume c: "c \<in> set fs"
    with ik have "c \<in> cell s ` {..<k}" by (auto simp: slab_inv_with_def)
    moreover from c ik p have "c \<noteq> p" by (auto simp: slab_inv_with_def)
    ultimately show "m' c = m c" by (auto intro: same)
  qed
  moreover have "m' (cell s i) = m (cell s i)" if "k \<le> i" for i
  proof (rule same)
    obtain j where "j < k" "p = cell s j" using inv_cell[OF ik] p by blast
    then show "cell s i \<noteq> p" using wf that by simp
  qed auto
  ultimately have "slab_inv_with s m' live fs k"
    using ik by (simp add: slab_inv_with_def)
  then show ?thesis by (auto simp: slab_inv_def)
qed

lemma slab_inv_frame:
  assumes inv: "slab_inv s m live" and eq: "\<And>a. sl_start s \<le> a \<Longrightarrow> a < sl_end s \<Longrightarrow> m' a = m a"
  shows "slab_inv s m' live"
proof -
  from inv obtain fs k where ik: "slab_inv_with s m live fs k" by (auto simp: slab_inv_def)
  have cells: "m' (cell s i) = m (cell s i)" if "cell s i < sl_end s" for i
    using that by (intro eq) (simp_all add: cell_def)
  have "chain m' (sl_next s) fs (cell s k) = chain m (sl_next s) fs (cell s k)"
  proof (rule chain_cong)
    fix c assume "c \<in> set fs"
    then obtain i where "c = cell s i" "cell s i < sl_end s" using inv_cell[OF ik] by blast
    then show "m' c = m c" by (simp add: cells)
  qed
  with ik cells have "slab_inv_with s m' live fs k" by (simp add: slab_inv_with_def)
  then show ?thesis by (auto simp: slab_inv_def)
qed

section \<open>Allocator\<close>

text \<open>
  The fallback heap is the crate \<open>linked_list_allocator\<close>: its operations are the fields of a
  record the definitions below take as an argument. It keeps its free list inside the memory it
  manages, so its operations read and write memory.
\<close>

record 'f fallback_api =
  fb_empty :: 'f
  fb_init :: "'f \<Rightarrow> usize \<Rightarrow> usize \<Rightarrow> memory \<Rightarrow> 'f \<times> memory"
  fb_alloc :: "'f \<Rightarrow> Layout \<Rightarrow> memory \<Rightarrow> usize option \<times> 'f \<times> memory"
  fb_dealloc :: "'f \<Rightarrow> usize \<Rightarrow> Layout \<Rightarrow> memory \<Rightarrow> 'f \<times> memory"
  fb_used :: "'f \<Rightarrow> usize"
  fb_size :: "'f \<Rightarrow> usize"

record 'f Inner =
  in_start :: usize
  in_size :: usize
  in_slabs :: "SlabAllocator list"
  in_fallback :: 'f

text \<open>\<open>Inner::slab\<close>: the index of the first slab whose cells are large enough.\<close>

definition Inner_slab :: "'f Inner \<Rightarrow> Layout \<Rightarrow> nat option" where
  "Inner_slab self layout =
     (let needed = max (lsize layout) (lalign layout)
      in find (\<lambda>i. needed \<le> sl_size (in_slabs self ! i)) [0..<length (in_slabs self)])"

definition Inner_stats :: "'f fallback_api \<Rightarrow> 'f Inner \<Rightarrow> (usize \<times> usize) list res" where
  "Inner_stats api self =
     res_bind
       (res_fold (\<lambda>i acc. res_bind (index_at (in_slabs self) i) (\<lambda>slab.
            res_bind (SlabAllocator_size slab) (\<lambda>n. Inr (acc @ [(SlabAllocator_used slab, n)]))))
          [0..<7] [])
       (\<lambda>stats. Inr (stats @ [(fb_used api (in_fallback self), fb_size api (in_fallback self))]))"

definition Allocator_new :: "'f fallback_api \<Rightarrow> 'f Inner" where
  "Allocator_new api =
     \<lparr>in_start = 0, in_size = 0,
      in_slabs = map SlabAllocator_new [16, 32, 64, 128, 256, 512, 2048],
      in_fallback = fb_empty api\<rparr>"

definition Allocator_init ::
    "'f fallback_api \<Rightarrow> 'f Inner \<Rightarrow> usize \<Rightarrow> usize \<Rightarrow> memory \<Rightarrow> ('f Inner \<times> memory) res" where
  "Allocator_init api inner start sz m =
     (let n = length (in_slabs inner);
          region_size = sz div (n + 1)
      in res_bind
           (res_fold (\<lambda>i slabs.
               res_bind (usize_mul region_size i) (\<lambda>off.
               res_bind (usize_add start off) (\<lambda>st.
               res_bind (SlabAllocator_init (slabs ! i) st region_size) (\<lambda>slab.
                 Inr (slabs[i := slab])))))
             [0..<n] (in_slabs inner)) (\<lambda>slabs.
         res_bind (usize_mul region_size n) (\<lambda>off.
         res_bind (usize_add start off) (\<lambda>st.
           let (fallback, m') = fb_init api (in_fallback inner) st region_size m
           in Inr (inner\<lparr>in_start := start, in_size := sz, in_slabs := slabs,
                        in_fallback := fallback\<rparr>, m')))))"

definition Allocator_stats :: "'f fallback_api \<Rightarrow> 'f Inner \<Rightarrow> (usize \<times> usize) list res" where
  "Allocator_stats api inner = Inner_stats api inner"

definition Allocator_alloc ::
    "'f fallback_api \<Rightarrow> 'f Inner \<Rightarrow> Layout \<Rightarrow> memory \<Rightarrow> (usize \<times> 'f Inner \<times> memory) res" where
  "Allocator_alloc api inner layout m =
     (case Inner_slab inner layout of
        Some i \<Rightarrow>
          res_bind (SlabAllocator_alloc (in_slabs inner ! i) layout m) (\<lambda>(p, slab, m').
            Inr (p, inner\<lparr>in_slabs := (in_slabs inner)[i := slab]\<rparr>, m'))
      | None \<Rightarrow>
          (case fb_alloc api (in_fallback inner) layout m of
             (Some p, fallback, m') \<Rightarrow> Inr (p, inner\<lparr>in_fallback := fallback\<rparr>, m')
           | (None, fallback, m') \<Rightarrow> Inr (0, inner\<lparr>in_fallback := fallback\<rparr>, m')))"

definition Allocator_dealloc ::
    "'f fallback_api \<Rightarrow> 'f Inner \<Rightarrow> usize \<Rightarrow> Layout \<Rightarrow> memory \<Rightarrow> ('f Inner \<times> memory) res" where
  "Allocator_dealloc api inner ptr layout m =
     (case Inner_slab inner layout of
        Some i \<Rightarrow>
          res_bind (SlabAllocator_dealloc (in_slabs inner ! i) ptr layout m) (\<lambda>(slab, m').
            Inr (inner\<lparr>in_slabs := (in_slabs inner)[i := slab]\<rparr>, m'))
      | None \<Rightarrow>
          if ptr = 0 then Inr (inner, m)
          else (case fb_dealloc api (in_fallback inner) ptr layout m of
                  (fallback, m') \<Rightarrow> Inr (inner\<lparr>in_fallback := fallback\<rparr>, m')))"

text \<open>\<open>kernel/src/allocator.rs\<close>: the managed range and the initialisation of the global allocator.\<close>

definition MANAGED_START :: usize where "MANAGED_START = 0x0000100000000000"

definition MANAGED_END :: usize where "MANAGED_END = 0x00007ffffffff000"

definition allocator_init :: "'f fallback_api \<Rightarrow> memory \<Rightarrow> ('f Inner \<times> memory) res" where
  "allocator_init api m =
     res_bind (usize_sub MANAGED_END MANAGED_START) (\<lambda>sz.
       Allocator_init api (Allocator_new api) MANAGED_START sz m)"

section \<open>The invariant of the whole heap\<close>

text \<open>
  The part of the slabs that never changes: the region and the cell size of each. A good
  geometry has the seven size classes in order, in disjoint regions below the fallback's region;
  the cells of all classes but the last tile their region exactly and are aligned to their size.
\<close>

definition class_sizes :: "usize list" where
  "class_sizes = [16, 32, 64, 128, 256, 512, 2048]"

definition good_slabs :: "SlabAllocator list \<Rightarrow> usize \<Rightarrow> bool" where
  "good_slabs slabs fstart \<longleftrightarrow>
     map sl_size slabs = class_sizes
   \<and> (\<forall>j<7. \<forall>i<j. sl_end (slabs ! i) \<le> sl_start (slabs ! j))
   \<and> (\<forall>i<7. sl_end (slabs ! i) \<le> fstart)
   \<and> (\<forall>i<6. sl_size (slabs ! i) dvd sl_start (slabs ! i) \<and> sl_size (slabs ! i) dvd sl_end (slabs ! i))"

lemma good_slabs_length:
  assumes "good_slabs slabs f"
  shows "length slabs = 7"
proof -
  have "length (map sl_size slabs) = length class_sizes"
    using assms by (simp add: good_slabs_def)
  then show ?thesis by (simp add: class_sizes_def)
qed

lemma upt_7: "[0..<7] = [0, 1, 2, 3, 4, 5, 6 :: nat]"
  by (simp add: upt_rec)

lemma same_slab_list_update:
  assumes "i < length slabs" and "same_slab (slabs ! i) s'" and "j < length slabs"
  shows "same_slab (slabs ! j) (slabs[i := s'] ! j)"
  using assms by (cases "i = j") (auto simp: same_slab_def)

lemma good_slabs_update:
  assumes g: "good_slabs slabs f" and i: "i < 7" and same: "same_slab (slabs ! i) s'"
  shows "good_slabs (slabs[i := s']) f"
proof -
  have len: "length slabs = 7" using g by (rule good_slabs_length)
  have eq: "sl_start (slabs[i := s'] ! j) = sl_start (slabs ! j)"
    "sl_end (slabs[i := s'] ! j) = sl_end (slabs ! j)"
    "sl_size (slabs[i := s'] ! j) = sl_size (slabs ! j)" if "j < 7" for j
    using same_slab_list_update[of i slabs s' j] i same that len by (auto simp: same_slab_def)
  have "map sl_size (slabs[i := s']) = map sl_size slabs"
    using eq len by (intro nth_equalityI) auto
  with g eq show ?thesis by (simp add: good_slabs_def)
qed

text \<open>The class a layout belongs to is a function of the layout alone.\<close>

definition class_of :: "Layout \<Rightarrow> nat option" where
  "class_of l = find (\<lambda>i. max (lsize l) (lalign l) \<le> class_sizes ! i) [0..<7]"

lemma Inner_slab_class:
  assumes "good_slabs (in_slabs inner) f"
  shows "Inner_slab inner l = class_of l"
proof -
  have len: "length (in_slabs inner) = 7" using assms by (rule good_slabs_length)
  have "sl_size (in_slabs inner ! i) = class_sizes ! i" if "i < 7" for i
    using assms len that by (metis good_slabs_def nth_map)
  then show ?thesis
    by (auto simp: Inner_slab_def class_of_def len Let_def intro!: find_cong)
qed

lemma class_of_Some:
  assumes "class_of l = Some i"
  shows "i < 7" and "lsize l \<le> class_sizes ! i" and "lalign l \<le> class_sizes ! i"
  using assms by (auto simp: class_of_def find_Some_iff)

lemma find_class_None: "find (\<lambda>i. n \<le> class_sizes ! i) [0..<7] = None \<longleftrightarrow> 2048 < n"
  by (simp add: upt_7 class_sizes_def)

lemma class_of_bound: "class_of l = None \<longleftrightarrow> 2048 < max (lsize l) (lalign l)"
  unfolding class_of_def by (rule find_class_None)

lemma class_of_least:
  assumes "class_of l = Some i" and "j < i"
  shows "class_sizes ! j < max (lsize l) (lalign l)"
  using assms by (auto simp: class_of_def find_Some_iff not_le)

record 'f heap =
  hp_inner :: "'f Inner"
  hp_mem :: memory
  hp_live :: "nat \<Rightarrow> usize \<rightharpoonup> Layout"

definition heap_inv :: "('f \<Rightarrow> usize) \<Rightarrow> 'f heap \<Rightarrow> bool" where
  "heap_inv bottom h \<longleftrightarrow>
     good_slabs (in_slabs (hp_inner h)) (bottom (in_fallback (hp_inner h)))
   \<and> (\<forall>i<7. slab_inv (in_slabs (hp_inner h) ! i) (hp_mem h) (hp_live h i))
   \<and> (\<forall>i p l. hp_live h i p = Some l \<longrightarrow> class_of l = Some i)"

lemma heap_inv_fits:
  assumes "good_slabs slabs f" and "class_of l = Some i"
  shows "fits (slabs ! i) l"
  using assms class_of_Some[OF assms(2)] good_slabs_length[OF assms(1)]
  by (metis fits_def good_slabs_def nth_map)

text \<open>Replacing one slab and changing memory inside its region keeps the other slabs' invariants.\<close>

lemma heap_inv_update:
  assumes inv: "heap_inv f h" and i: "i < 7" and same: "same_slab (in_slabs (hp_inner h) ! i) s'"
    and s': "slab_inv s' m' lv"
    and mem: "\<And>a. a < sl_start s' \<or> sl_end s' \<le> a \<Longrightarrow> m' a = hp_mem h a"
    and cls: "\<And>p l. lv p = Some l \<Longrightarrow> class_of l = Some i"
    and inner: "inner' = (hp_inner h)\<lparr>in_slabs := (in_slabs (hp_inner h))[i := s']\<rparr>"
  shows "heap_inv f \<lparr>hp_inner = inner', hp_mem = m', hp_live = (hp_live h)(i := lv)\<rparr>"
proof -
  let ?slabs = "in_slabs (hp_inner h)"
  let ?f = "f (in_fallback (hp_inner h))"
  have g: "good_slabs ?slabs ?f" using inv by (simp add: heap_inv_def)
  have len: "length ?slabs = 7" using g by (rule good_slabs_length)
  have "slab_inv (?slabs[i := s'] ! j) m' (((hp_live h)(i := lv)) j)" if j: "j < 7" for j
  proof (cases "j = i")
    case True
    with s' len i show ?thesis by simp
  next
    case False
    have "slab_inv (?slabs ! j) (hp_mem h) (hp_live h j)" using inv j by (simp add: heap_inv_def)
    then have "slab_inv (?slabs ! j) m' (hp_live h j)"
    proof (rule slab_inv_frame)
      fix a assume a: "sl_start (?slabs ! j) \<le> a" "a < sl_end (?slabs ! j)"
      have "sl_end (?slabs ! j) \<le> sl_start (?slabs ! i) \<or> sl_end (?slabs ! i) \<le> sl_start (?slabs ! j)"
        using g i j False by (metis good_slabs_def nat_neq_iff)
      with a same show "m' a = hp_mem h a"
        by (intro mem) (auto simp: same_slab_def)
    qed
    with False show ?thesis by simp
  qed
  moreover have "good_slabs (?slabs[i := s']) ?f" using g i same by (rule good_slabs_update)
  ultimately show ?thesis
    using inv cls inner by (auto simp: heap_inv_def)
qed

section \<open>Steps of the heap\<close>

text \<open>
  What the allocator relies on from \<open>linked_list_allocator\<close>: a heap initialised at an address
  keeps to the memory from there on, for its bookkeeping and for the blocks it hands out.
\<close>

definition fallback_spec :: "'f fallback_api \<Rightarrow> ('f \<Rightarrow> usize) \<Rightarrow> bool" where
  "fallback_spec api bottom \<longleftrightarrow>
     (\<forall>f st sz m. bottom (fst (fb_init api f st sz m)) = st
        \<and> (\<forall>a < st. snd (fb_init api f st sz m) a = m a))
   \<and> (\<forall>f l m r f' m'. fb_alloc api f l m = (r, f', m') \<longrightarrow>
        bottom f' = bottom f \<and> (\<forall>a<bottom f. m' a = m a) \<and> (\<forall>p. r = Some p \<longrightarrow> bottom f \<le> p))
   \<and> (\<forall>f p l m f' m'. fb_dealloc api f p l m = (f', m') \<longrightarrow> bottom f \<le> p \<longrightarrow>
        bottom f' = bottom f \<and> (\<forall>a<bottom f. m' a = m a))"

text \<open>
  A run of the kernel heap: it starts at \<open>allocator_init\<close> over zeroed memory, and the kernel
  allocates, frees blocks it holds, and writes inside blocks it holds. \<open>hp_live\<close> is the record of
  the blocks it holds, by size class; the blocks of the fallback are not recorded.
\<close>

inductive heap_step :: "'f fallback_api \<Rightarrow> ('f \<Rightarrow> usize) \<Rightarrow> 'f heap \<Rightarrow> 'f heap \<Rightarrow> bool"
  for api :: "'f fallback_api" and bottom :: "'f \<Rightarrow> usize" where
  step_alloc: "\<lbrakk>Inner_slab (hp_inner h) l = Some i;
      Allocator_alloc api (hp_inner h) l (hp_mem h) = Inr (p, inner', m')\<rbrakk> \<Longrightarrow>
    heap_step api bottom h \<lparr>hp_inner = inner', hp_mem = m',
      hp_live = (if p = 0 then hp_live h else (hp_live h)(i := (hp_live h i)(p \<mapsto> l)))\<rparr>"
| step_alloc_fallback: "\<lbrakk>Inner_slab (hp_inner h) l = None;
      Allocator_alloc api (hp_inner h) l (hp_mem h) = Inr (p, inner', m')\<rbrakk> \<Longrightarrow>
    heap_step api bottom h \<lparr>hp_inner = inner', hp_mem = m', hp_live = hp_live h\<rparr>"
| step_dealloc: "\<lbrakk>hp_live h i p = Some l;
      Allocator_dealloc api (hp_inner h) p l (hp_mem h) = Inr (inner', m')\<rbrakk> \<Longrightarrow>
    heap_step api bottom h \<lparr>hp_inner = inner', hp_mem = m',
      hp_live = (hp_live h)(i := (hp_live h i)(p := None))\<rparr>"
| step_dealloc_fallback: "\<lbrakk>Inner_slab (hp_inner h) l = None; bottom (in_fallback (hp_inner h)) \<le> p;
      Allocator_dealloc api (hp_inner h) p l (hp_mem h) = Inr (inner', m')\<rbrakk> \<Longrightarrow>
    heap_step api bottom h \<lparr>hp_inner = inner', hp_mem = m', hp_live = hp_live h\<rparr>"
| step_write: "\<lbrakk>hp_live h i p = Some l; writes_only p (lsize l) (hp_mem h) m'\<rbrakk> \<Longrightarrow>
    heap_step api bottom h (h\<lparr>hp_mem := m'\<rparr>)"
| step_write_fallback: "\<lbrakk>\<forall>a<bottom (in_fallback (hp_inner h)). m' a = hp_mem h a\<rbrakk> \<Longrightarrow>
    heap_step api bottom h (h\<lparr>hp_mem := m'\<rparr>)"

inductive heap_reach :: "'f fallback_api \<Rightarrow> ('f \<Rightarrow> usize) \<Rightarrow> 'f heap \<Rightarrow> bool"
  for api :: "'f fallback_api" and bottom :: "'f \<Rightarrow> usize" where
  heap_start: "allocator_init api (\<lambda>_. 0) = Inr (inner, m) \<Longrightarrow>
    heap_reach api bottom \<lparr>hp_inner = inner, hp_mem = m, hp_live = (\<lambda>_. Map.empty)\<rparr>"
| heap_next: "heap_reach api bottom h \<Longrightarrow> heap_step api bottom h h' \<Longrightarrow> heap_reach api bottom h'"

lemma heap_inv_slab:
  assumes "heap_inv bottom h" and "i < 7"
  shows "slab_inv (in_slabs (hp_inner h) ! i) (hp_mem h) (hp_live h i)"
  using assms by (simp add: heap_inv_def)

lemma heap_inv_class:
  assumes "heap_inv bottom h"
  shows "Inner_slab (hp_inner h) l = class_of l"
  using assms Inner_slab_class by (auto simp: heap_inv_def)

lemma all_cells_region:
  "p \<in> all_cells s \<Longrightarrow> sl_start s \<le> p \<and> p < sl_end s"
  by (auto simp: all_cells_def cell_def)

lemma heap_alloc_cases:
  assumes inv: "heap_inv bottom h" and cls: "class_of l = Some i"
  obtains (cell) p inner' m' where "Allocator_alloc api (hp_inner h) l (hp_mem h) = Inr (p, inner', m')"
      "p \<in> all_cells (in_slabs (hp_inner h) ! i)" "p \<notin> dom (hp_live h i)" "0 < p"
      "heap_inv bottom \<lparr>hp_inner = inner', hp_mem = m',
         hp_live = (hp_live h)(i := (hp_live h i)(p \<mapsto> l))\<rparr>"
  | (full) "Allocator_alloc api (hp_inner h) l (hp_mem h) = Inr (0, hp_inner h, hp_mem h)"
      "dom (hp_live h i) = all_cells (in_slabs (hp_inner h) ! i)"
proof -
  let ?s = "in_slabs (hp_inner h) ! i"
  have i: "i < 7" using class_of_Some[OF cls] by simp
  have sinv: "slab_inv ?s (hp_mem h) (hp_live h i)" using heap_inv_slab[OF inv i] .
  have sel: "Inner_slab (hp_inner h) l = Some i" using heap_inv_class[OF inv] cls by simp
  have fit: "fits ?s l" using inv cls heap_inv_fits by (auto simp: heap_inv_def)
  from sinv fit show thesis
  proof (cases rule: alloc_cases)
    case (cell p s')
    let ?inner = "(hp_inner h)\<lparr>in_slabs := (in_slabs (hp_inner h))[i := s']\<rparr>"
    have "Allocator_alloc api (hp_inner h) l (hp_mem h) = Inr (p, ?inner, (hp_mem h)(p := 0))"
      using cell(1) sel by (simp add: Allocator_alloc_def)
    moreover have "0 < p" using cell(2) slab_inv_wf[OF sinv] by (auto simp: all_cells_def)
    moreover have "heap_inv bottom \<lparr>hp_inner = ?inner, hp_mem = (hp_mem h)(p := 0),
         hp_live = (hp_live h)(i := (hp_live h i)(p \<mapsto> l))\<rparr>"
    proof (rule heap_inv_update[OF inv i cell(5) cell(4)])
      fix a assume "a < sl_start s' \<or> sl_end s' \<le> a"
      then show "((hp_mem h)(p := 0)) a = hp_mem h a"
        using all_cells_region[OF cell(2)] cell(5) by (auto simp: same_slab_def)
    next
      fix q k assume "((hp_live h i)(p \<mapsto> l)) q = Some k"
      then show "class_of k = Some i"
        using inv cls by (auto simp: heap_inv_def split: if_splits)
    qed simp
    ultimately show thesis using that(1) cell(2,3) by blast
  next
    case full
    have "(in_slabs (hp_inner h))[i := ?s] = in_slabs (hp_inner h)" by simp
    with full that(2) sel show thesis by (simp add: Allocator_alloc_def)
  qed
qed

lemma heap_dealloc_ok:
  assumes inv: "heap_inv bottom h" and lp: "hp_live h i p = Some l"
  obtains inner' m' where "Allocator_dealloc api (hp_inner h) p l (hp_mem h) = Inr (inner', m')"
    "heap_inv bottom \<lparr>hp_inner = inner', hp_mem = m',
       hp_live = (hp_live h)(i := (hp_live h i)(p := None))\<rparr>"
proof -
  let ?s = "in_slabs (hp_inner h) ! i"
  have cls: "class_of l = Some i" using inv lp by (simp add: heap_inv_def)
  have i: "i < 7" using class_of_Some[OF cls] by simp
  have sinv: "slab_inv ?s (hp_mem h) (hp_live h i)" using heap_inv_slab[OF inv i] .
  have sel: "Inner_slab (hp_inner h) l = Some i" using heap_inv_class[OF inv] cls by simp
  have preg: "p \<in> all_cells ?s" using live_cells[OF sinv] lp by auto
  from sinv lp obtain s' where d: "SlabAllocator_dealloc ?s p l (hp_mem h) = Inr (s', (hp_mem h)(p := sl_next ?s))"
    "slab_inv s' ((hp_mem h)(p := sl_next ?s)) ((hp_live h i)(p := None))" "same_slab ?s s'"
    by (rule dealloc_ok)
  let ?inner = "(hp_inner h)\<lparr>in_slabs := (in_slabs (hp_inner h))[i := s']\<rparr>"
  have "Allocator_dealloc api (hp_inner h) p l (hp_mem h) = Inr (?inner, (hp_mem h)(p := sl_next ?s))"
    using d(1) sel by (simp add: Allocator_dealloc_def)
  moreover have "heap_inv bottom \<lparr>hp_inner = ?inner, hp_mem = (hp_mem h)(p := sl_next ?s),
       hp_live = (hp_live h)(i := (hp_live h i)(p := None))\<rparr>"
  proof (rule heap_inv_update[OF inv i d(3) d(2)])
    fix a assume "a < sl_start s' \<or> sl_end s' \<le> a"
    then show "((hp_mem h)(p := sl_next ?s)) a = hp_mem h a"
      using all_cells_region[OF preg] d(3) by (auto simp: same_slab_def)
  next
    fix q k assume "((hp_live h i)(p := None)) q = Some k"
    then show "class_of k = Some i"
      using inv by (auto simp: heap_inv_def split: if_splits)
  qed simp
  ultimately show thesis using that by blast
qed

text \<open>
  A cell of every class but the last lies wholly inside its region, because the region is a whole
  number of cells. (The last class is different: see \<open>last_class_spills\<close> below.)
\<close>

lemma cell_inside:
  assumes g: "good_slabs slabs f" and i: "i < 6" and p: "p \<in> all_cells (slabs ! i)"
  shows "p + sl_size (slabs ! i) \<le> sl_end (slabs ! i)" and "sl_size (slabs ! i) dvd p"
proof -
  let ?s = "slabs ! i"
  from p obtain j where j: "p = cell ?s j" "p < sl_end ?s" by (auto simp: all_cells_def)
  from g i obtain a b where ab: "sl_start ?s = sl_size ?s * a" "sl_end ?s = sl_size ?s * b"
    unfolding good_slabs_def dvd_def by blast
  then have pa: "p = sl_size ?s * (a + j)" using j by (simp add: cell_def algebra_simps)
  then show "sl_size ?s dvd p" by simp
  from pa j ab have "a + j < b" by simp
  then have "sl_size ?s * Suc (a + j) \<le> sl_size ?s * b" by (intro mult_le_mono2) simp
  with pa ab show "p + sl_size ?s \<le> sl_end ?s" by simp
qed

lemma heap_inv_mem:
  assumes inv: "heap_inv bottom h"
    and same: "\<And>j a. j < 7 \<Longrightarrow> j \<noteq> i \<Longrightarrow> sl_start (in_slabs (hp_inner h) ! j) \<le> a \<Longrightarrow>
       a < sl_end (in_slabs (hp_inner h) ! j) \<Longrightarrow> m' a = hp_mem h a"
    and self: "i < 7 \<Longrightarrow> slab_inv (in_slabs (hp_inner h) ! i) m' (hp_live h i)"
  shows "heap_inv bottom (h\<lparr>hp_mem := m'\<rparr>)"
proof -
  have "slab_inv (in_slabs (hp_inner h) ! j) m' (hp_live h j)" if j: "j < 7" for j
  proof (cases "j = i")
    case False
    with heap_inv_slab[OF inv j] same[OF j] show ?thesis by (auto intro: slab_inv_frame)
  qed (use self j in simp)
  with inv show ?thesis by (simp add: heap_inv_def)
qed

lemma heap_write_inv:
  assumes inv: "heap_inv bottom h" and lp: "hp_live h i p = Some l"
    and w: "writes_only p (lsize l) (hp_mem h) m'"
  shows "heap_inv bottom (h\<lparr>hp_mem := m'\<rparr>)"
proof (rule heap_inv_mem[OF inv])
  let ?slabs = "in_slabs (hp_inner h)"
  have g: "good_slabs ?slabs (bottom (in_fallback (hp_inner h)))" using inv by (simp add: heap_inv_def)
  have cls: "class_of l = Some i" using inv lp by (simp add: heap_inv_def)
  have i: "i < 7" using class_of_Some[OF cls] by simp
  have fit: "lsize l \<le> sl_size (?slabs ! i)"
    using heap_inv_fits[OF g cls] by (simp add: fits_def)
  have w': "writes_only p (sl_size (?slabs ! i)) (hp_mem h) m'"
    using w fit by (auto simp: writes_only_def)
  have pc: "p \<in> all_cells (?slabs ! i)" using live_cells[OF heap_inv_slab[OF inv i]] lp by auto
  show "slab_inv (?slabs ! i) m' (hp_live h i)"
    using client_write_inv[OF heap_inv_slab[OF inv i] _ w'] lp by auto
  fix j a assume j: "j < 7" "j \<noteq> i" "sl_start (?slabs ! j) \<le> a" "a < sl_end (?slabs ! j)"
  have "a < p \<or> p + sl_size (?slabs ! i) \<le> a"
  proof (cases "j < i")
    case True
    then have "sl_end (?slabs ! j) \<le> sl_start (?slabs ! i)" using g i by (simp add: good_slabs_def)
    with j all_cells_region[OF pc] show ?thesis by simp
  next
    case False
    with j have ij: "i < j" and i6: "i < 6" by auto
    then have "sl_end (?slabs ! i) \<le> sl_start (?slabs ! j)" using g j by (simp add: good_slabs_def)
    with cell_inside(1)[OF g i6 pc] j show ?thesis by simp
  qed
  with w' show "m' a = hp_mem h a" by (auto simp: writes_only_def)
qed

lemma heap_inv_low_mem:
  assumes inv: "heap_inv bottom h" and eq: "\<forall>a<bottom (in_fallback (hp_inner h)). m' a = hp_mem h a"
    and "in_slabs inner' = in_slabs (hp_inner h)"
    and "bottom (in_fallback inner') = bottom (in_fallback (hp_inner h))"
  shows "heap_inv bottom \<lparr>hp_inner = inner', hp_mem = m', hp_live = hp_live h\<rparr>"
proof -
  have "slab_inv (in_slabs (hp_inner h) ! j) m' (hp_live h j)" if j: "j < 7" for j
  proof (rule slab_inv_frame[OF heap_inv_slab[OF inv j]])
    fix a assume "a < sl_end (in_slabs (hp_inner h) ! j)"
    moreover have "sl_end (in_slabs (hp_inner h) ! j) \<le> bottom (in_fallback (hp_inner h))"
      using inv j by (simp add: heap_inv_def good_slabs_def)
    ultimately show "m' a = hp_mem h a" using eq by simp
  qed
  with inv assms(3,4) show ?thesis by (simp add: heap_inv_def)
qed

lemma heap_step_inv:
  assumes spec: "fallback_spec api bottom" and step: "heap_step api bottom h h'"
    and inv: "heap_inv bottom h"
  shows "heap_inv bottom h'"
  using step
proof cases
  case (step_alloc l i p inner' m')
  then have cls: "class_of l = Some i" using heap_inv_class[OF inv] by simp
  from inv cls show ?thesis
  proof (cases rule: heap_alloc_cases[where api = api])
    case cell
    with step_alloc show ?thesis by auto
  next
    case full
    with step_alloc inv show ?thesis by (auto simp: heap_inv_def)
  qed
next
  case (step_alloc_fallback l p inner' m')
  obtain r f' m'' where fb: "fb_alloc api (in_fallback (hp_inner h)) l (hp_mem h) = (r, f', m'')"
    by (metis prod_cases3)
  with step_alloc_fallback have "inner' = (hp_inner h)\<lparr>in_fallback := f'\<rparr>" "m' = m''"
    by (auto simp: Allocator_alloc_def split: option.splits)
  with spec fb step_alloc_fallback(1) inv show ?thesis
    by (auto simp: fallback_spec_def intro!: heap_inv_low_mem)
next
  case (step_dealloc i p l inner' m')
  from inv step_dealloc(2) obtain inner'' m'' where
    "Allocator_dealloc api (hp_inner h) p l (hp_mem h) = Inr (inner'', m'')"
    "heap_inv bottom \<lparr>hp_inner = inner'', hp_mem = m'',
       hp_live = (hp_live h)(i := (hp_live h i)(p := None))\<rparr>"
    by (rule heap_dealloc_ok)
  with step_dealloc show ?thesis by simp
next
  case (step_dealloc_fallback l p inner' m')
  obtain f' m'' where fb: "fb_dealloc api (in_fallback (hp_inner h)) p l (hp_mem h) = (f', m'')"
    by (metis surj_pair)
  show ?thesis
  proof (cases "p = 0")
    case True
    with step_dealloc_fallback inv show ?thesis
      by (auto simp: Allocator_dealloc_def heap_inv_def)
  next
    case False
    with step_dealloc_fallback fb have "inner' = (hp_inner h)\<lparr>in_fallback := f'\<rparr>" "m' = m''"
      by (auto simp: Allocator_dealloc_def)
    with spec fb step_dealloc_fallback inv show ?thesis
      by (auto simp: fallback_spec_def intro!: heap_inv_low_mem)
  qed
next
  case (step_write i p l m')
  with inv show ?thesis by (auto intro: heap_write_inv)
next
  case (step_write_fallback m')
  then show ?thesis
    using heap_inv_low_mem[OF inv, of m' "hp_inner h"] by (simp add: heap_inv_def)
qed

section \<open>Initialisation\<close>

lemma slab_inv_init:
  assumes "slab_wf s" and "sl_next s = sl_start s" and "sl_used s = 0"
    and "\<And>i. cell s i < sl_end s \<Longrightarrow> m (cell s i) = 0"
  shows "slab_inv s m Map.empty"
proof -
  have "slab_inv_with s m Map.empty [] 0"
    using assms by (auto simp: slab_inv_with_def cell_def)
  then show ?thesis by (auto simp: slab_inv_def)
qed

text \<open>The kernel's region size: an eighth of the managed range.\<close>

definition kernel_region :: usize where
  "kernel_region = 0xdfffffffe00"

definition kernel_slab :: "nat \<Rightarrow> SlabAllocator" where
  "kernel_slab i =
     \<lparr>sl_start = MANAGED_START + kernel_region * i,
      sl_end = MANAGED_START + kernel_region * i + kernel_region,
      sl_next = MANAGED_START + kernel_region * i, sl_size = class_sizes ! i, sl_used = 0\<rparr>"

definition kernel_fallback :: usize where
  "kernel_fallback = MANAGED_START + kernel_region * 7"

lemmas kernel_consts = MANAGED_START_def MANAGED_END_def kernel_region_def kernel_slab_def
  kernel_fallback_def class_sizes_def

lemma kernel_init:
  "allocator_init api m =
     (let (f, m') = fb_init api (fb_empty api) kernel_fallback kernel_region m
      in Inr (\<lparr>in_start = MANAGED_START, in_size = MANAGED_END - MANAGED_START,
               in_slabs = map kernel_slab [0..<7], in_fallback = f\<rparr>, m'))"
  by (simp add: allocator_init_def Allocator_init_def Allocator_new_def SlabAllocator_new_def
      SlabAllocator_init_def kernel_consts upt_7 Let_def)

lemma all_less_upt: "(\<forall>i<n. P i) \<longleftrightarrow> list_all P [0..<n]"
  by (auto simp: list_all_iff)

lemma upt_6: "[0..<6] = [0, 1, 2, 3, 4, 5 :: nat]"
  by (simp add: upt_rec)

lemma kernel_slabs_good: "good_slabs (map kernel_slab [0..<7]) kernel_fallback"
  unfolding good_slabs_def
proof (intro conjI)
  show "map sl_size (map kernel_slab [0..<7]) = class_sizes"
    by (simp add: upt_7 kernel_consts)
  show "\<forall>j<7. \<forall>i<j. sl_end (map kernel_slab [0..<7] ! i) \<le> sl_start (map kernel_slab [0..<7] ! j)"
    by (auto simp: kernel_slab_def kernel_region_def)
  show "\<forall>i<7. sl_end (map kernel_slab [0..<7] ! i) \<le> kernel_fallback"
    by (auto simp: kernel_slab_def kernel_region_def kernel_fallback_def)
  show "\<forall>i<6. sl_size (map kernel_slab [0..<7] ! i) dvd sl_start (map kernel_slab [0..<7] ! i) \<and>
      sl_size (map kernel_slab [0..<7] ! i) dvd sl_end (map kernel_slab [0..<7] ! i)"
    unfolding all_less_upt upt_6 by (simp add: upt_7 kernel_consts)
qed

lemma kernel_slab_wf: "i < 7 \<Longrightarrow> slab_wf (kernel_slab i)"
proof -
  have "\<forall>i<7. slab_wf (kernel_slab i)"
    unfolding all_less_upt upt_7 by (simp add: kernel_consts slab_wf_def)
  then show "i < 7 \<Longrightarrow> slab_wf (kernel_slab i)" by blast
qed

lemma heap_start_inv:
  assumes spec: "fallback_spec api bottom" and init: "allocator_init api (\<lambda>_. 0) = Inr (inner, m)"
  shows "heap_inv bottom \<lparr>hp_inner = inner, hp_mem = m, hp_live = (\<lambda>_. Map.empty)\<rparr>"
proof -
  obtain f m' where fi: "fb_init api (fb_empty api) kernel_fallback kernel_region (\<lambda>_. 0) = (f, m')"
    by (metis surj_pair)
  with init have eq: "in_slabs inner = map kernel_slab [0..<7]" "in_fallback inner = f" "m = m'"
    by (auto simp: kernel_init)
  from spec fi have bot: "bottom f = kernel_fallback" and zero: "\<forall>a<kernel_fallback. m a = 0"
    using eq unfolding fallback_spec_def by (metis fst_conv, metis snd_conv)
  have "slab_inv (kernel_slab i) m Map.empty" if i: "i < 7" for i
  proof (rule slab_inv_init[OF kernel_slab_wf[OF i]])
    fix j assume "cell (kernel_slab i) j < sl_end (kernel_slab i)"
    moreover have "sl_end (kernel_slab i) \<le> kernel_fallback"
      using kernel_slabs_good i by (simp add: good_slabs_def)
    ultimately show "m (cell (kernel_slab i) j) = 0" using zero by simp
  qed (simp_all add: kernel_slab_def)
  with kernel_slabs_good bot eq show ?thesis by (simp add: heap_inv_def)
qed

lemma heap_reach_inv:
  assumes "heap_reach api bottom h" and "fallback_spec api bottom"
  shows "heap_inv bottom h"
  using assms by (induction rule: heap_reach.induct) (auto intro: heap_start_inv heap_step_inv)

section \<open>Properties of the kernel heap\<close>

text \<open>
  A concrete run for the witnesses: a fallback that never has memory, and the heap after \<open>n\<close>
  allocations of 12 bytes.
\<close>

definition demo_api :: "usize fallback_api" where
  "demo_api = \<lparr>fb_empty = 0, fb_init = (\<lambda>_ st _ m. (st, m)), fb_alloc = (\<lambda>f _ m. (None, f, m)),
     fb_dealloc = (\<lambda>f _ _ m. (f, m)), fb_used = (\<lambda>_. 0), fb_size = (\<lambda>_. 0)\<rparr>"

definition demo_layout :: Layout where "demo_layout = \<lparr>lsize = 12, lalign = 8\<rparr>"

definition demo_inner :: "nat \<Rightarrow> usize Inner" where
  "demo_inner n = \<lparr>in_start = MANAGED_START, in_size = MANAGED_END - MANAGED_START,
     in_slabs = (map kernel_slab [0..<7])
       [0 := (kernel_slab 0)\<lparr>sl_next := MANAGED_START + 16 * n, sl_used := 12 * n\<rparr>],
     in_fallback = kernel_fallback\<rparr>"

primrec demo_live :: "nat \<Rightarrow> usize \<rightharpoonup> Layout" where
  "demo_live 0 = Map.empty"
| "demo_live (Suc n) = (demo_live n)(MANAGED_START + 16 * n \<mapsto> demo_layout)"

definition demo_heap :: "nat \<Rightarrow> usize heap" where
  "demo_heap n = \<lparr>hp_inner = demo_inner n, hp_mem = (\<lambda>_. 0),
     hp_live = (\<lambda>_. Map.empty)(0 := demo_live n)\<rparr>"

lemma demo_spec: "fallback_spec demo_api id"
  by (simp add: fallback_spec_def demo_api_def)

lemma demo_class: "class_of demo_layout = Some 0"
  by (simp add: class_of_def demo_layout_def class_sizes_def upt_7)

lemma demo_start: "heap_reach demo_api id (demo_heap 0)"
proof -
  have "allocator_init demo_api (\<lambda>_. 0) = Inr (demo_inner 0, \<lambda>_. 0)"
    by (simp add: kernel_init demo_api_def demo_inner_def) (simp add: upt_7 kernel_slab_def)
  from heap_start[OF this, of id] show ?thesis by (simp add: demo_heap_def fun_upd_idem)
qed

lemma demo_alloc:
  assumes "n < 10"
  shows "Inner_slab (hp_inner (demo_heap n)) demo_layout = Some 0"
    "Allocator_alloc demo_api (hp_inner (demo_heap n)) demo_layout (hp_mem (demo_heap n))
     = Inr (MANAGED_START + 16 * n, demo_inner (Suc n), \<lambda>_. 0)"
proof -
  show sel: "Inner_slab (hp_inner (demo_heap n)) demo_layout = Some 0"
    by (simp add: Inner_slab_def demo_heap_def demo_inner_def demo_layout_def upt_7 kernel_consts)
  show "Allocator_alloc demo_api (hp_inner (demo_heap n)) demo_layout (hp_mem (demo_heap n))
     = Inr (MANAGED_START + 16 * n, demo_inner (Suc n), \<lambda>_. 0)"
    unfolding Allocator_alloc_def sel using assms
    by (simp add: SlabAllocator_alloc_def demo_heap_def demo_inner_def demo_layout_def upt_7
        kernel_consts fun_upd_idem)
qed

lemma demo_next: "n < 10 \<Longrightarrow> heap_step demo_api id (demo_heap n) (demo_heap (Suc n))"
  using step_alloc[OF demo_alloc, of n id] by (simp add: demo_heap_def kernel_consts)

lemma demo_reach: "n \<le> 10 \<Longrightarrow> heap_reach demo_api id (demo_heap n)"
  by (induction n) (auto intro: demo_start heap_next[OF _ demo_next])

text \<open>
  C1. In every state the kernel heap can reach, the blocks handed out by the slabs and not yet
  returned are pairwise disjoint, whatever the order of allocations and frees and whatever
  the owners write into their blocks, for every fallback heap that keeps to its own memory.
\<close>

theorem heap_live_disjoint:
  assumes "fallback_spec api bottom" and "heap_reach api bottom h"
    and "hp_live h i p = Some l" and "hp_live h j q = Some k" and "p \<noteq> q \<or> i \<noteq> j"
  shows "p + lsize l \<le> q \<or> q + lsize k \<le> p"
proof -
  have inv: "heap_inv bottom h" using assms(1,2) by (intro heap_reach_inv)
  let ?slabs = "in_slabs (hp_inner h)"
  have g: "good_slabs ?slabs (bottom (in_fallback (hp_inner h)))" using inv by (simp add: heap_inv_def)
  have blk: "i < 7 \<and> p \<in> all_cells (?slabs ! i) \<and> lsize l \<le> sl_size (?slabs ! i)"
    if "hp_live h i p = Some l" for i p l
  proof -
    have c: "class_of l = Some i" using inv that by (simp add: heap_inv_def)
    with class_of_Some[OF c] heap_inv_fits[OF g c] live_cells[OF heap_inv_slab[OF inv]] that
    show ?thesis by (auto simp: fits_def)
  qed
  have lower: "p + lsize l \<le> q"
    if "i < j" and "hp_live h i p = Some l" and "hp_live h j q = Some k" for i j p q l k
  proof -
    have "i < 6" using that blk[of j q k] by auto
    with cell_inside(1)[OF g, of i p] blk[of i p l] that have "p + lsize l \<le> sl_end (?slabs ! i)"
      by fastforce
    also have "\<dots> \<le> sl_start (?slabs ! j)" using g blk[of j q k] that by (simp add: good_slabs_def)
    also have "\<dots> \<le> q" using all_cells_region blk[of j q k] that by blast
    finally show ?thesis .
  qed
  show ?thesis
  proof (cases "i = j")
    case True
    have "slab_wf (?slabs ! i)" using blk[OF assms(3)] heap_inv_slab[OF inv] slab_inv_wf by blast
    with cells_apart[of "?slabs ! i" p q] blk[OF assms(3)] blk[OF assms(4)] True assms(5)
    show ?thesis by force
  next
    case False
    then show ?thesis using lower[of i j p l q k] lower[of j i q k p l] assms(3,4) by linarith
  qed
qed

theorem heap_live_disjoint_witness:
  "MANAGED_START + 12 \<le> MANAGED_START + 16 \<or> MANAGED_START + 16 + 12 \<le> MANAGED_START"
  using heap_live_disjoint[OF demo_spec demo_reach[of 2], of 0 MANAGED_START demo_layout 0
      "MANAGED_START + 16" demo_layout]
  by (simp add: demo_heap_def numeral_2_eq_2 demo_layout_def)

text \<open>
  Allocation from a size class never panics in a reachable state. It returns null exactly
  when every cell of the class is handed out; otherwise it returns a cell of the class that nobody
  holds and, for the classes up to 512 bytes, that is aligned to the cell size, hence to every
  power of two up to it.
\<close>

theorem heap_alloc_sound:
  assumes "fallback_spec api bottom" and "heap_reach api bottom h" and "class_of l = Some i"
  shows "\<exists>p inner' m'. Allocator_alloc api (hp_inner h) l (hp_mem h) = Inr (p, inner', m')
     \<and> (p = 0 \<longleftrightarrow> dom (hp_live h i) = all_cells (in_slabs (hp_inner h) ! i))
     \<and> (p \<noteq> 0 \<longrightarrow> p \<in> all_cells (in_slabs (hp_inner h) ! i) \<and> hp_live h i p = None
          \<and> (i < 6 \<longrightarrow> class_sizes ! i dvd p))"
proof -
  have inv: "heap_inv bottom h" using assms(1,2) by (intro heap_reach_inv)
  have g: "good_slabs (in_slabs (hp_inner h)) (bottom (in_fallback (hp_inner h)))"
    using inv by (simp add: heap_inv_def)
  have i: "i < 7" using class_of_Some[OF assms(3)] by simp
  have sz: "sl_size (in_slabs (hp_inner h) ! i) = class_sizes ! i"
    using g i good_slabs_length[OF g] by (metis good_slabs_def nth_map)
  from inv assms(3) show ?thesis
  proof (cases rule: heap_alloc_cases[where api = api])
    case (cell p inner' m')
    moreover have "class_sizes ! i dvd p" if "i < 6"
      using cell_inside(2)[OF g that] cell(2) sz by simp
    ultimately show ?thesis by auto
  next
    case full
    then show ?thesis by simp
  qed
qed

theorem heap_alloc_sound_witness:
  "\<exists>p inner' m'. Allocator_alloc demo_api (demo_inner 1) demo_layout (\<lambda>_. 0) = Inr (p, inner', m')
     \<and> (p = 0 \<longleftrightarrow> dom (demo_live 1) = all_cells (in_slabs (demo_inner 1) ! 0))
     \<and> (p \<noteq> 0 \<longrightarrow> p \<in> all_cells (in_slabs (demo_inner 1) ! 0) \<and> demo_live 1 p = None
          \<and> ((0::nat) < 6 \<longrightarrow> class_sizes ! 0 dvd p))"
  using heap_alloc_sound[OF demo_spec demo_reach[of 1] demo_class] by (simp add: demo_heap_def)

text \<open>
  Returning a block the kernel holds never panics (the accounting of used bytes does not
  underflow), and the very next allocation from the same class hands the same block out again.
\<close>

theorem heap_free_then_alloc:
  assumes "fallback_spec api bottom" and "heap_reach api bottom h"
    and "hp_live h i p = Some l" and "class_of k = Some i"
  shows "\<exists>inner' m' inner'' m''.
     Allocator_dealloc api (hp_inner h) p l (hp_mem h) = Inr (inner', m')
     \<and> Allocator_alloc api inner' k m' = Inr (p, inner'', m'')"
proof -
  have inv: "heap_inv bottom h" using assms(1,2) by (intro heap_reach_inv)
  let ?slabs = "in_slabs (hp_inner h)"
  have g: "good_slabs ?slabs (bottom (in_fallback (hp_inner h)))" using inv by (simp add: heap_inv_def)
  have i: "i < 7" using class_of_Some[OF assms(4)] by simp
  have cls: "class_of l = Some i" using inv assms(3) by (simp add: heap_inv_def)
  have sinv: "slab_inv (?slabs ! i) (hp_mem h) (hp_live h i)" using heap_inv_slab[OF inv i] .
  obtain s' where d: "SlabAllocator_dealloc (?slabs ! i) p l (hp_mem h) = Inr (s', (hp_mem h)(p := sl_next (?slabs ! i)))"
    and same: "same_slab (?slabs ! i) s'"
    using dealloc_ok[OF sinv assms(3)] by metis
  obtain s'' m'' where a: "SlabAllocator_alloc s' k ((hp_mem h)(p := sl_next (?slabs ! i))) = Inr (p, s'', m'')"
    using dealloc_alloc[OF sinv assms(3) heap_inv_fits[OF g assms(4)] d] by blast
  let ?inner = "(hp_inner h)\<lparr>in_slabs := ?slabs[i := s']\<rparr>"
  have "Inner_slab ?inner k = Some i"
    using Inner_slab_class[of ?inner] good_slabs_update[OF g i same] assms(4) by simp
  with d a i cls good_slabs_length[OF g] heap_inv_class[OF inv] show ?thesis
    by (simp add: Allocator_dealloc_def Allocator_alloc_def)
qed

theorem heap_free_then_alloc_witness:
  "\<exists>inner' m' inner'' m''.
     Allocator_dealloc demo_api (demo_inner 2) MANAGED_START demo_layout (\<lambda>_. 0) = Inr (inner', m')
     \<and> Allocator_alloc demo_api inner' demo_layout m' = Inr (MANAGED_START, inner'', m'')"
  using heap_free_then_alloc[OF demo_spec demo_reach[of 2], of 0 MANAGED_START demo_layout demo_layout]
  by (simp add: demo_heap_def numeral_2_eq_2 demo_class)

text \<open>
  The bytes a slab reports as used are the sum of the sizes the held blocks were asked with,
  and \<open>stats\<close> never panics.
\<close>

theorem heap_stats_exact:
  assumes "fallback_spec api bottom" and "heap_reach api bottom h"
  shows "\<exists>st. Allocator_stats api (hp_inner h) = Inr st \<and> length st = 8
     \<and> (\<forall>i<7. fst (st ! i) = (\<Sum>p\<in>dom (hp_live h i). lsize (the (hp_live h i p))))"
proof -
  have inv: "heap_inv bottom h" using assms by (intro heap_reach_inv)
  have g: "good_slabs (in_slabs (hp_inner h)) (bottom (in_fallback (hp_inner h)))"
    using inv by (simp add: heap_inv_def)
  have len: "length (in_slabs (hp_inner h)) = 7" using good_slabs_length[OF g] .
  let ?u = "\<lambda>i. sl_used (in_slabs (hp_inner h) ! i)"
  let ?n = "\<lambda>i. sl_end (in_slabs (hp_inner h) ! i) - sl_start (in_slabs (hp_inner h) ! i)"
  have ord: "sl_start (in_slabs (hp_inner h) ! i) \<le> sl_end (in_slabs (hp_inner h) ! i)" if "i < 7" for i
    using slab_inv_wf[OF heap_inv_slab[OF inv that]] by (simp add: slab_wf_def)
  have fold: "res_fold (\<lambda>i acc. res_bind (index_at (in_slabs (hp_inner h)) i) (\<lambda>slab.
            res_bind (SlabAllocator_size slab) (\<lambda>n. Inr (acc @ [(SlabAllocator_used slab, n)])))) xs acc
     = Inr (acc @ map (\<lambda>i. (?u i, ?n i)) xs)" if "set xs \<subseteq> {..<7}" for xs acc
    using that
    by (induction xs arbitrary: acc) (auto simp: len ord SlabAllocator_size_def SlabAllocator_used_def)
  have "?u i = (\<Sum>p\<in>dom (hp_live h i). lsize (the (hp_live h i p)))" if "i < 7" for i
    using heap_inv_slab[OF inv that] by (auto simp: slab_inv_def slab_inv_with_def)
  moreover have "Allocator_stats api (hp_inner h) = Inr (map (\<lambda>i. (?u i, ?n i)) [0..<7]
     @ [(fb_used api (in_fallback (hp_inner h)), fb_size api (in_fallback (hp_inner h)))])"
    unfolding Allocator_stats_def Inner_stats_def by (subst fold) auto
  ultimately show ?thesis by (auto simp: nth_append)
qed

theorem heap_stats_exact_witness:
  "\<exists>st. Allocator_stats demo_api (demo_inner 2) = Inr st \<and> length st = 8
     \<and> (\<forall>i<7. fst (st ! i) = (\<Sum>p\<in>dom (hp_live (demo_heap 2) i). lsize (the (hp_live (demo_heap 2) i p))))"
  using heap_stats_exact[OF demo_spec demo_reach[of 2]] by (simp add: demo_heap_def)

text \<open>
  The last size class is not aligned: \<open>SlabAllocator::init\<close> asserts the alignment of the
  region the slab had before (still 0), not of the region it is given. After the kernel's
  initialisation, the first allocation of 2048 bytes aligned to 2048 returns an address that is
  1024 off the requested alignment, and the last cell of that class reaches into the
  fallback's region.
\<close>

theorem last_class_misaligned:
  "(\<exists>inner m p inner' m'. allocator_init api mem = Inr (inner, m)
     \<and> Allocator_alloc api inner \<lparr>lsize = 2048, lalign = 2048\<rparr> (\<lambda>_. 0) = Inr (p, inner', m')
     \<and> p mod 2048 = 1024)
   \<and> (\<exists>p \<in> all_cells (kernel_slab 6). kernel_fallback < p + 2048)"
proof
  let ?l = "\<lparr>lsize = 2048, lalign = 2048\<rparr>"
  obtain f m' where fi: "fb_init api (fb_empty api) kernel_fallback kernel_region mem = (f, m')"
    by (metis surj_pair)
  let ?inner = "\<lparr>in_start = MANAGED_START, in_size = MANAGED_END - MANAGED_START,
               in_slabs = map kernel_slab [0..<7], in_fallback = f\<rparr>"
  have "allocator_init api mem = Inr (?inner, m')" by (simp add: kernel_init fi)
  moreover have sel: "Inner_slab ?inner ?l = Some 6"
    by (simp add: Inner_slab_def upt_7 kernel_consts)
  have "\<exists>inner' m''. Allocator_alloc api ?inner ?l (\<lambda>_. 0) = Inr (sl_start (kernel_slab 6), inner', m'')"
    unfolding Allocator_alloc_def sel by (simp add: SlabAllocator_alloc_def upt_7 kernel_consts)
  moreover have "sl_start (kernel_slab 6) mod 2048 = 1024" by (simp add: kernel_consts)
  ultimately show "\<exists>inner m p inner' m'. allocator_init api mem = Inr (inner, m)
     \<and> Allocator_alloc api inner ?l (\<lambda>_. 0) = Inr (p, inner', m') \<and> p mod 2048 = 1024"
    by blast
  have "cell (kernel_slab 6) (kernel_region div 2048) \<in> all_cells (kernel_slab 6)"
    unfolding all_cells_def by (rule CollectI, rule exI, rule conjI[OF refl])
      (simp add: cell_def kernel_consts)
  moreover have "kernel_fallback < cell (kernel_slab 6) (kernel_region div 2048) + 2048"
    by (simp add: cell_def kernel_consts)
  ultimately show "\<exists>p \<in> all_cells (kernel_slab 6). kernel_fallback < p + 2048" by blast
qed

end
