(* ===== verification/Stack_Allocator.thy ===== *)
theory Stack_Allocator
  imports Snalloc
begin

text \<open>
  The bump allocator \<open>kernel/src/stack_allocator.rs\<close>, which backs the frame allocator before the
  heap exists. The allocator owns a buffer of \<open>SIZE\<close> bytes at a fixed address; \<open>current\<close> bytes of it
  are used. \<open>sa_objs\<close> holds the typed objects that \<open>own\<close> has written, by their address.
\<close>

section \<open>Model\<close>

record 'v StackAllocator =
  sa_base :: usize
  sa_len :: usize
  sa_current :: usize
  sa_objs :: "usize \<rightharpoonup> 'v"

definition StackAllocator_new :: "usize \<Rightarrow> usize \<Rightarrow> 'v StackAllocator" where
  "StackAllocator_new base SIZE = \<lparr>sa_base = base, sa_len = SIZE, sa_current = 0, sa_objs = Map.empty\<rparr>"

definition StackAllocator_used :: "'v StackAllocator \<Rightarrow> usize" where
  "StackAllocator_used self = sa_current self"

text \<open>\<open>allocate\<close>: \<open>None\<close> is \<open>Err(AllocError)\<close>; a success is the address and the length of the slice.\<close>

definition StackAllocator_allocate ::
    "Layout \<Rightarrow> 'v StackAllocator \<Rightarrow> ((usize \<times> usize) option \<times> 'v StackAllocator) res" where
  "StackAllocator_allocate layout self =
     res_bind (usize_add (sa_current self) (lsize layout)) (\<lambda>end.
     if sa_len self \<le> end then Inr (None, self)
     else
       res_bind (assert_that (sa_current self < sa_len self)) (\<lambda>_.
       let ptr = sa_base self + sa_current self
       in Inr (Some (ptr, lsize layout), self\<lparr>sa_current := end\<rparr>)))"

definition StackAllocator_deallocate :: "usize \<Rightarrow> Layout \<Rightarrow> 'v StackAllocator \<Rightarrow> 'v StackAllocator" where
  "StackAllocator_deallocate ptr layout self = self"

definition StackAllocator_own ::
    "Layout \<Rightarrow> 'v \<Rightarrow> 'v StackAllocator \<Rightarrow> (usize \<times> 'v StackAllocator) res" where
  "StackAllocator_own layout value self =
     res_bind (StackAllocator_allocate layout self) (\<lambda>(slice, self').
     res_bind (unwrap slice) (\<lambda>(ptr, len).
       Inr (ptr, self'\<lparr>sa_objs := (sa_objs self')(ptr \<mapsto> value)\<rparr>)))"

section \<open>Invariant and exact behaviour\<close>

definition stack_wf :: "'v StackAllocator \<Rightarrow> bool" where
  "stack_wf s \<longleftrightarrow> 0 < sa_base s \<and> (sa_current s = 0 \<or> sa_current s < sa_len s) \<and> sa_base s + sa_len s < 2 ^ 64
     \<and> (\<forall>p\<in>dom (sa_objs s). sa_base s \<le> p \<and> p < sa_base s + sa_current s)"

lemma StackAllocator_allocate_exact:
  assumes "stack_wf s" and "0 < lsize l" and "lsize l < 2 ^ 63" and "sa_len s < 2 ^ 63"
  shows "StackAllocator_allocate l s =
    (if sa_current s + lsize l < sa_len s
     then Inr (Some (sa_base s + sa_current s, lsize l), s\<lparr>sa_current := sa_current s + lsize l\<rparr>)
     else Inr (None, s))"
  using assms by (auto simp: StackAllocator_allocate_def stack_wf_def)

lemma StackAllocator_own_exact:
  assumes "stack_wf s" and "0 < lsize l" and "lsize l < 2 ^ 63" and "sa_len s < 2 ^ 63"
  shows "StackAllocator_own l v s =
    (if sa_current s + lsize l < sa_len s
     then Inr (sa_base s + sa_current s,
               s\<lparr>sa_current := sa_current s + lsize l,
                 sa_objs := (sa_objs s)(sa_base s + sa_current s \<mapsto> v)\<rparr>)
     else Inl UnwrapFailed)"
  by (simp add: StackAllocator_own_def StackAllocator_allocate_exact[OF assms])

lemma StackAllocator_own_fresh:
  assumes "stack_wf s" and "StackAllocator_own l v s = Inr (p, s')" and "0 < lsize l"
  shows "sa_objs s p = None \<and> 0 < p \<and> stack_wf s'
    \<and> sa_objs s' = (sa_objs s)(p \<mapsto> v) \<and> sa_current s' = sa_current s + lsize l
    \<and> sa_base s' = sa_base s \<and> sa_len s' = sa_len s"
proof -
  have cur: "sa_current s + lsize l < sa_len s" and p: "p = sa_base s + sa_current s"
    and s': "s' = s\<lparr>sa_current := sa_current s + lsize l, sa_objs := (sa_objs s)(p \<mapsto> v)\<rparr>"
    using assms(2) by (auto simp: StackAllocator_own_def StackAllocator_allocate_def split: if_splits)
  have "p \<notin> dom (sa_objs s)" using assms(1) p unfolding stack_wf_def by fastforce
  moreover have "q < sa_base s + (sa_current s + lsize l)" if "q \<in> dom (sa_objs s)" for q
  proof -
    have "q < sa_base s + sa_current s" using that assms(1) unfolding stack_wf_def by blast
    then show ?thesis by simp
  qed
  ultimately show ?thesis using assms(1,3) cur unfolding s' p stack_wf_def
    by (auto simp: domIff)
qed

section \<open>Properties\<close>

text \<open>A sequence of requests, by their layouts: the slices handed out, stopping at a panic.\<close>

fun stack_allocs :: "Layout list \<Rightarrow> 'v StackAllocator \<Rightarrow> ((usize \<times> usize) list \<times> 'v StackAllocator) res" where
  "stack_allocs [] s = Inr ([], s)"
| "stack_allocs (l # ls) s =
     res_bind (StackAllocator_allocate l s) (\<lambda>(r, s').
     res_bind (stack_allocs ls s') (\<lambda>(rs, s'').
       Inr ((case r of None \<Rightarrow> rs | Some sl \<Rightarrow> sl # rs), s'')))"

definition slices_ok :: "usize \<Rightarrow> usize \<Rightarrow> (usize \<times> usize) list \<Rightarrow> bool" where
  "slices_ok lo hi sls \<longleftrightarrow>
     (\<forall>(p, n)\<in>set sls. lo \<le> p \<and> p + n \<le> hi)
   \<and> (\<forall>i j. i < j \<longrightarrow> j < length sls \<longrightarrow> fst (sls ! i) + snd (sls ! i) \<le> fst (sls ! j))"

lemma slices_ok_Cons:
  assumes "slices_ok (p + n) hi sls" and "lo \<le> p" and "p + n \<le> hi"
  shows "slices_ok lo hi ((p, n) # sls)"
  unfolding slices_ok_def
proof (intro conjI allI impI)
  show "\<forall>(q, m)\<in>set ((p, n) # sls). lo \<le> q \<and> q + m \<le> hi"
    using assms by (auto simp: slices_ok_def)
next
  fix i j
  assume ij: "i < j" "j < length ((p, n) # sls)"
  then obtain j' where j': "j = Suc j'" "j' < length sls" by (cases j) auto
  show "fst (((p, n) # sls) ! i) + snd (((p, n) # sls) ! i) \<le> fst (((p, n) # sls) ! j)"
  proof (cases i)
    case 0
    have "sls ! j' \<in> set sls" using j' by simp
    then have "p + n \<le> fst (sls ! j')" using assms(1) unfolding slices_ok_def by fastforce
    then show ?thesis using 0 j' by simp
  next
    case (Suc i')
    then show ?thesis using assms(1) ij j' by (auto simp: slices_ok_def)
  qed
qed

text \<open>
  The slices the bump allocator hands out, over any sequence of requests of any layouts, lie
  inside its buffer (never touching the last byte) and follow one another without overlap.
\<close>

theorem stack_slices_disjoint:
  assumes "stack_allocs ls s = Inr (sls, s')" and "stack_wf s"
  shows "slices_ok (sa_base s + sa_current s) (sa_base s + sa_len s) sls"
  using assms
proof (induction ls arbitrary: s sls)
  case Nil
  then show ?case by (simp add: slices_ok_def)
next
  case (Cons l ls)
  then obtain r s1 rs where st: "StackAllocator_allocate l s = Inr (r, s1)" "stack_allocs ls s1 = Inr (rs, s')"
    "sls = (case r of None \<Rightarrow> rs | Some sl \<Rightarrow> sl # rs)" by auto
  show ?case
  proof (cases r)
    case None
    then have "s1 = s" using st(1) by (auto simp: StackAllocator_allocate_def split: if_splits)
    then show ?thesis using Cons.IH[OF st(2)] Cons.prems(2) st(3) None by simp
  next
    case (Some sl)
    then have sl: "sl = (sa_base s + sa_current s, lsize l)" "s1 = s\<lparr>sa_current := sa_current s + lsize l\<rparr>"
      "sa_current s + lsize l < sa_len s"
      using st(1) by (auto simp: StackAllocator_allocate_def split: if_splits)
    have "stack_wf s1" using Cons.prems(2) sl(3) unfolding stack_wf_def sl(2) by (auto intro: trans_less_add1 simp: add.assoc[symmetric])
    from Cons.IH[OF st(2) this] show ?thesis
      using st(3) Some sl by (auto simp: add.assoc intro: slices_ok_Cons)
  qed
qed

theorem stack_slices_disjoint_witness:
  "slices_ok 4096 (4096 + 2048) [(4096, 24), (4120, 16)]"
  using stack_slices_disjoint[of "[\<lparr>lsize = 24, lalign = 8\<rparr>, \<lparr>lsize = 16, lalign = 8\<rparr>, \<lparr>lsize = 2008, lalign = 8\<rparr>]"
      "StackAllocator_new 4096 2048"]
  by (simp add: StackAllocator_new_def StackAllocator_allocate_def stack_wf_def)

text \<open>
  The alignment of a layout is never looked at: after a request for one byte, a request for a
  layout of alignment 8 gets an address that is not a multiple of 8.
\<close>

theorem stack_ignores_align:
  assumes "base mod 8 = 0" and "0 < base" and "base < 2 ^ 63" and "9 < SIZE" and "SIZE < 2 ^ 63"
  shows "\<exists>s. stack_allocs [\<lparr>lsize = 1, lalign = 1\<rparr>, \<lparr>lsize = 8, lalign = 8\<rparr>] (StackAllocator_new base SIZE)
    = Inr ([(base, 1), (base + 1, 8)], s) \<and> (base + 1) mod 8 \<noteq> 0"
  using assms by (simp add: StackAllocator_new_def StackAllocator_allocate_def) presburger

theorem stack_ignores_align_witness:
  "\<exists>s. stack_allocs [\<lparr>lsize = 1, lalign = 1\<rparr>, \<lparr>lsize = 8, lalign = 8\<rparr>] (StackAllocator_new 4096 2048)
    = Inr ([(4096, 1), (4096 + 1, 8)], s) \<and> (4096 + 1) mod (8 :: nat) \<noteq> 0"
  by (rule stack_ignores_align) simp_all

end
