(* ===== verification/Pool.thy ===== *)
theory Pool
  imports Prelude
begin

text \<open>
  What an allocator promises: a pool of resources. The specification is a relation on what clients see \<dash> a
  resource taken, a request refused, a resource given back \<dash> over the set of resources taken. The interface
  of an allocator is a locale: its operations, the abstraction to the set of resources taken, and the laws
  that make every run of the allocator a run of the pool.
\<close>

section \<open>The specification\<close>

datatype 'r pool_event = Taken 'r | Refused | Given 'r

text \<open>\<open>U\<close> is the set of all resources. A request is refused only when all of them are taken.\<close>

inductive pool_run :: "'r set \<Rightarrow> 'r set \<Rightarrow> 'r pool_event list \<Rightarrow> 'r set \<Rightarrow> bool" for U where
  stop: "pool_run U T [] T"
| taken: "r \<in> U \<Longrightarrow> r \<notin> T \<Longrightarrow> pool_run U (insert r T) es T' \<Longrightarrow> pool_run U T (Taken r # es) T'"
| refused: "U \<subseteq> T \<Longrightarrow> pool_run U T es T' \<Longrightarrow> pool_run U T (Refused # es) T'"
| given: "r \<in> T \<Longrightarrow> pool_run U (T - {r}) es T' \<Longrightarrow> pool_run U T (Given r # es) T'"

inductive_simps pool_run_simps [simp]:
  "pool_run U T [] T'" "pool_run U T (Taken r # es) T'" "pool_run U T (Refused # es) T'" "pool_run U T (Given r # es) T'"

text \<open>A client that gives back only what it has taken.\<close>

fun client_ok :: "'r set \<Rightarrow> 'r pool_event list \<Rightarrow> bool" where
  "client_ok T [] = True"
| "client_ok T (Taken r # es) = client_ok (insert r T) es"
| "client_ok T (Refused # es) = client_ok T es"
| "client_ok T (Given r # es) = (r \<in> T \<and> client_ok (T - {r}) es)"

lemma pool_run_append:
  "pool_run U T (es @ fs) T' \<longleftrightarrow> (\<exists>T1. pool_run U T es T1 \<and> pool_run U T1 fs T')"
proof (induction es arbitrary: T)
  case (Cons e es)
  then show ?case by (cases e) auto
qed simp

lemma pool_run_within: "pool_run U T es T' \<Longrightarrow> T \<subseteq> U \<Longrightarrow> T' \<subseteq> U"
  by (induction rule: pool_run.induct) auto

lemma pool_run_keeps: "pool_run U T es T' \<Longrightarrow> r \<in> T \<Longrightarrow> Given r \<notin> set es \<Longrightarrow> r \<in> T'"
  by (induction rule: pool_run.induct) auto

text \<open>A resource is handed out a second time only after it was given back.\<close>

definition exclusive_use :: "'r pool_event list \<Rightarrow> bool" where
  "exclusive_use es \<longleftrightarrow> (\<forall>r as bs cs. es = as @ Taken r # bs @ Taken r # cs \<longrightarrow> Given r \<in> set bs)"

lemma pool_run_exclusive:
  assumes "pool_run U T es T'"
  shows "exclusive_use es"
  unfolding exclusive_use_def
proof (intro allI impI)
  fix r as bs cs
  assume "es = as @ Taken r # bs @ Taken r # cs"
  then obtain T1 T2 where "pool_run U (insert r T1) bs T2" "r \<notin> T2" using assms by (auto simp: pool_run_append)
  then show "Given r \<in> set bs" using pool_run_keeps[of U "insert r T1" bs T2 r] by auto
qed

lemma pool_run_balance:
  assumes "pool_run U T es T'" "finite T"
  shows "finite T' \<and> card T' + length (filter (\<lambda>e. \<exists>r. e = Given r) es) = card T + length (filter (\<lambda>e. \<exists>r. e = Taken r) es)"
  using assms
proof (induction rule: pool_run.induct)
  case (given r T es T')
  then have "card T = Suc (card (T - {r}))" by (intro card.remove) auto
  then show ?case using given by auto
qed auto

section \<open>Implementations\<close>

text \<open>
  A run of an implementation: requests, releases, and whatever else happens to its state (\<open>other\<close>). A request
  carries a description that has to satisfy \<open>ask\<close>.
\<close>

inductive impl_run ::
    "('q \<Rightarrow> bool) \<Rightarrow> ('q \<Rightarrow> 's \<Rightarrow> ('r option \<times> 's) res) \<Rightarrow> ('r \<Rightarrow> 's \<Rightarrow> 's res) \<Rightarrow> ('s \<Rightarrow> 's \<Rightarrow> bool)
     \<Rightarrow> 's \<Rightarrow> 'r pool_event list \<Rightarrow> 's \<Rightarrow> bool"
  for ask alloc release other where
  impl_stop: "impl_run ask alloc release other s [] s"
| impl_taken: "ask q \<Longrightarrow> alloc q s = Inr (Some r, s1) \<Longrightarrow> impl_run ask alloc release other s1 es s'
    \<Longrightarrow> impl_run ask alloc release other s (Taken r # es) s'"
| impl_refused: "ask q \<Longrightarrow> alloc q s = Inr (None, s1) \<Longrightarrow> impl_run ask alloc release other s1 es s'
    \<Longrightarrow> impl_run ask alloc release other s (Refused # es) s'"
| impl_given: "release r s = Inr s1 \<Longrightarrow> impl_run ask alloc release other s1 es s'
    \<Longrightarrow> impl_run ask alloc release other s (Given r # es) s'"
| impl_other: "other s s1 \<Longrightarrow> impl_run ask alloc release other s1 es s'
    \<Longrightarrow> impl_run ask alloc release other s es s'"

locale pool =
  fixes U :: "'r set" and rel :: "'s \<Rightarrow> 'r set \<Rightarrow> bool" and ask :: "'q \<Rightarrow> bool"
    and alloc :: "'q \<Rightarrow> 's \<Rightarrow> ('r option \<times> 's) res" and release :: "'r \<Rightarrow> 's \<Rightarrow> 's res"
    and other :: "'s \<Rightarrow> 's \<Rightarrow> bool"
  assumes alloc_law: "rel s T \<Longrightarrow> ask q \<Longrightarrow> \<exists>r s'. alloc q s = Inr (r, s')
      \<and> (case r of None \<Rightarrow> U \<subseteq> T \<and> rel s' T | Some x \<Rightarrow> x \<in> U \<and> x \<notin> T \<and> rel s' (insert x T))"
    and release_law: "rel s T \<Longrightarrow> x \<in> T \<Longrightarrow> release x s = Inr s' \<Longrightarrow> rel s' (T - {x})"
    and other_law: "rel s T \<Longrightarrow> other s s' \<Longrightarrow> rel s' T"
begin

lemma refines:
  assumes "impl_run ask alloc release other s es s'" "rel s T" "client_ok T es"
  shows "\<exists>T'. pool_run U T es T' \<and> rel s' T'"
  using assms
proof (induction arbitrary: T rule: impl_run.induct)
  case (impl_stop s)
  then show ?case by auto
next
  case (impl_taken q s r s1 es s')
  then have "r \<in> U \<and> r \<notin> T \<and> rel s1 (insert r T)" using alloc_law[of s T q] by auto
  then show ?case using impl_taken.IH[of "insert r T"] impl_taken.prems by auto
next
  case (impl_refused q s s1 es s')
  then have "U \<subseteq> T \<and> rel s1 T" using alloc_law[of s T q] by auto
  then show ?case using impl_refused.IH[of T] impl_refused.prems by auto
next
  case (impl_given r s s1 es s')
  then have "rel s1 (T - {r})" "r \<in> T" using release_law[of s T r s1] by auto
  then show ?case using impl_given.IH[of "T - {r}"] impl_given.prems by auto
next
  case (impl_other s s1 es s')
  then show ?case using other_law by blast
qed

lemma exclusive:
  "impl_run ask alloc release other s es s' \<Longrightarrow> rel s T \<Longrightarrow> client_ok T es \<Longrightarrow> exclusive_use es"
  using refines pool_run_exclusive by metis

lemma never_stuck: "rel s T \<Longrightarrow> ask q \<Longrightarrow> \<exists>r s'. alloc q s = Inr (r, s')"
  using alloc_law by blast

end

end
