(* ===== verification/Memory.thy ===== *)
theory Memory
  imports Stack_Allocator Pool
begin

text \<open>
  Physical frames and page mappings, \<open>kernel/src/arch/x86_64/memory.rs\<close>.

  The page table walker (\<open>OffsetPageTable\<close> of the crate \<open>x86_64\<close>) is a parameter: its state \<open>'pt\<close>
  and the operations \<open>translate_addr\<close> and \<open>map_to\<close>, with the hypothesis \<open>mapper_spec\<close>. \<open>map_to\<close> may
  take frames for page tables, so it is handed the frame allocator. The address types of that
  crate panic on addresses out of range; those checks are written out.
\<close>

section \<open>Addresses\<close>

definition align_down :: "usize \<Rightarrow> usize \<Rightarrow> usize" where
  "align_down a n = a - a mod n"

text \<open>\<open>PhysAddr::new\<close> panics above 52 bits; \<open>VirtAddr::new\<close> on addresses that are not canonical.\<close>

definition phys_new :: "usize \<Rightarrow> usize res" where
  "phys_new a = (if a < 2 ^ 52 then Inr a else Inl ExplicitPanic)"

definition canonical :: "usize \<Rightarrow> bool" where
  "canonical a \<longleftrightarrow> a < 2 ^ 47 \<or> (2 ^ 64 - 2 ^ 47 \<le> a \<and> a < 2 ^ 64)"

definition virt_add :: "usize \<Rightarrow> usize \<Rightarrow> usize res" where
  "virt_add a b = res_bind (usize_add a b) (\<lambda>c. if canonical c then Inr c else Inl ExplicitPanic)"

section \<open>The frame allocator\<close>

datatype MemoryMapEntryType = Usable | NotUsable nat

record MemmapEntry =
  me_base :: usize
  me_len :: usize
  me_typ :: MemoryMapEntryType

record FreePhysFrame =
  ff_frame :: usize
  ff_next :: usize

text \<open>
  The boxed iterator: the addresses left in the current region and the regions not yet looked
  at. \<open>fa_free_frames\<close> is a pointer into the stack allocator's objects, 0 for null.
\<close>

record BootInfoFrameAllocator =
  fa_cur :: "usize list"
  fa_regions :: "MemmapEntry list"
  fa_free_frames :: usize

type_synonym frames = "BootInfoFrameAllocator \<times> FreePhysFrame StackAllocator"

text \<open>\<open>(base..end).step_by(4096)\<close>.\<close>

definition step_range :: "usize \<Rightarrow> usize \<Rightarrow> usize list" where
  "step_range b e = map (\<lambda>i. b + i * 4096) [0..<(e - b + 4095) div 4096]"

fun frame_iter_next :: "usize list \<Rightarrow> MemmapEntry list \<Rightarrow> (usize option \<times> usize list \<times> MemmapEntry list) res" where
  "frame_iter_next (a # as) rs =
     res_bind (phys_new a) (\<lambda>p. Inr (Some (align_down p 4096), as, rs))"
| "frame_iter_next [] (r # rs) =
     (if me_typ r = Usable
      then res_bind (usize_add (me_base r) (me_len r)) (\<lambda>e. frame_iter_next (step_range (me_base r) e) rs)
      else frame_iter_next [] rs)"
| "frame_iter_next [] [] = Inr (None, [], [])"

text \<open>
  \<open>BootInfoFrameAllocator::init\<close>: the size of the usable memory is summed up for the log, then the
  iterator is boxed in the stack allocator; \<open>iter_layout\<close> is the layout of the iterator type.
\<close>

definition BootInfoFrameAllocator_init ::
    "Layout \<Rightarrow> MemmapEntry list \<Rightarrow> FreePhysFrame StackAllocator \<Rightarrow> frames res" where
  "BootInfoFrameAllocator_init iter_layout regions sa =
     res_bind (res_fold usize_add (map me_len (filter (\<lambda>r. me_typ r = Usable) regions)) 0) (\<lambda>_.
     res_bind (StackAllocator_allocate iter_layout sa) (\<lambda>(slice, sa').
     case slice of
       None \<Rightarrow> Inl ExplicitPanic
     | Some _ \<Rightarrow> Inr (\<lparr>fa_cur = [], fa_regions = regions, fa_free_frames = 0\<rparr>, sa')))"

definition FreePhysFrame_layout :: Layout where
  "FreePhysFrame_layout = \<lparr>lsize = 16, lalign = 8\<rparr>"

definition deallocate_frame :: "usize \<Rightarrow> frames \<Rightarrow> frames res" where
  "deallocate_frame frame fr =
     (case fr of (self, sa) \<Rightarrow>
        let next = fa_free_frames self
        in res_bind (StackAllocator_own FreePhysFrame_layout \<lparr>ff_frame = frame, ff_next = next\<rparr> sa) (\<lambda>(p, sa').
             Inr (self\<lparr>fa_free_frames := p\<rparr>, sa')))"

text \<open>A dangling pointer would be undefined behaviour; the model panics there.\<close>

definition allocate_frame :: "frames \<Rightarrow> (usize option \<times> frames) res" where
  "allocate_frame fr =
     (case fr of (self, sa) \<Rightarrow>
        if fa_free_frames self \<noteq> 0
        then res_bind (unwrap (sa_objs sa (fa_free_frames self))) (\<lambda>node.
               Inr (Some (ff_frame node), self\<lparr>fa_free_frames := ff_next node\<rparr>, sa))
        else res_bind (frame_iter_next (fa_cur self) (fa_regions self)) (\<lambda>(r, cur, regions).
               Inr (r, self\<lparr>fa_cur := cur, fa_regions := regions\<rparr>, sa)))"

section \<open>The memory state and the page table\<close>

datatype page_flag = PRESENT | WRITABLE | USER_ACCESSIBLE

record 'pt mapper_api =
  pt_translate :: "'pt \<Rightarrow> usize \<Rightarrow> usize option"
  pt_map_to :: "usize \<Rightarrow> usize \<Rightarrow> page_flag set \<Rightarrow> 'pt \<times> frames \<Rightarrow> (bool \<times> 'pt \<times> frames) res"
  pt_phys_offset :: "'pt \<Rightarrow> usize"

text \<open>
  \<open>MAPPER\<close> and \<open>FRAME_ALLOCATOR\<close> (none before \<open>init\<close>), the bytes reachable through the mapping,
  and the number of TLB shootdowns sent to the other cores.
\<close>

record 'pt memory_state =
  mm_mapper :: "'pt option"
  mm_frames :: "frames option"
  mm_bytes :: "usize \<Rightarrow> u8"
  mm_flushes :: nat

definition memory_init ::
    "'pt \<Rightarrow> Layout \<Rightarrow> MemmapEntry list \<Rightarrow> FreePhysFrame StackAllocator \<Rightarrow> 'pt memory_state \<Rightarrow> 'pt memory_state res" where
  "memory_init table iter_layout regions sa st =
     res_bind (BootInfoFrameAllocator_init iter_layout regions sa) (\<lambda>fr.
       Inr (st\<lparr>mm_mapper := Some table, mm_frames := Some fr\<rparr>))"

definition available :: "'pt mapper_api \<Rightarrow> 'pt memory_state \<Rightarrow> usize \<Rightarrow> bool res" where
  "available ma st addr =
     res_bind (unwrap (mm_mapper st)) (\<lambda>pt. Inr (pt_translate ma pt addr = None \<and> addr \<noteq> 0))"

text \<open>The loop of \<open>search_free_addr_from\<close> over the pages of the region, with \<open>cnt\<close> and \<open>start\<close>.\<close>

fun search_loop :: "(usize \<Rightarrow> bool res) \<Rightarrow> usize \<Rightarrow> usize list \<Rightarrow> usize \<Rightarrow> usize option \<Rightarrow> usize option res" where
  "search_loop avail n [] cnt start = Inr None"
| "search_loop avail n (addr # pages) cnt start =
     res_bind (avail addr) (\<lambda>free.
     if free
     then (let start = (if start = None then Some addr else start) in
           res_bind (usize_add cnt 1) (\<lambda>cnt.
           if n \<le> cnt then Inr start else search_loop avail n pages cnt start))
     else search_loop avail n pages 0 None)"

text \<open>A \<open>PageRange\<close>: the base addresses of its pages, the end excluded.\<close>

definition page_range :: "usize \<Rightarrow> usize \<Rightarrow> usize list" where
  "page_range start end = map (\<lambda>i. start + i * 4096) [0..<(end - start) div 4096]"

definition search_free_addr_from ::
    "'pt mapper_api \<Rightarrow> 'pt memory_state \<Rightarrow> usize \<Rightarrow> usize list \<Rightarrow> usize option res" where
  "search_free_addr_from ma st num_pages region = search_loop (available ma st) num_pages region 0 None"

text \<open>\<open>Bytes::as_num_of_pages\<close>.\<close>

definition num_of_pages :: "usize \<Rightarrow> usize" where
  "num_of_pages bytes = (bytes + 4095) div 4096"

text \<open>One round of the mapping loop of \<open>map_pages_from\<close>; the closure's \<open>unwrap\<close> is on \<open>map_to\<close>.\<close>

definition map_one ::
    "'pt mapper_api \<Rightarrow> usize \<Rightarrow> usize \<Rightarrow> nat \<Rightarrow> 'pt \<times> frames \<Rightarrow> ('pt \<times> frames) res" where
  "map_one ma virt start_frame i s =
     res_bind (virt_add virt (4096 * i)) (\<lambda>va.
     res_bind (phys_new (start_frame + 4096 * i)) (\<lambda>pa.
     res_bind (pt_map_to ma (align_down va 4096) (align_down pa 4096) {PRESENT, WRITABLE, USER_ACCESSIBLE} s)
       (\<lambda>(ok, s'). if ok then Inr s' else Inl UnwrapFailed)))"

definition map_pages_from ::
    "'pt mapper_api \<Rightarrow> usize \<Rightarrow> usize \<Rightarrow> usize list \<Rightarrow> 'pt memory_state \<Rightarrow> (usize \<times> 'pt memory_state) res" where
  "map_pages_from ma start object_size region st =
     (let start_frame_addr = align_down start 4096 in
      res_bind (usize_add start object_size) (\<lambda>e.
      res_bind (phys_new e) (\<lambda>e.
      let end_frame_addr = align_down e 4096 in
      res_bind (usize_sub end_frame_addr start_frame_addr) (\<lambda>len.
      let num_pages = num_of_pages (len + 1) in
      res_bind (search_free_addr_from ma st num_pages region) (\<lambda>found.
      res_bind (unwrap found) (\<lambda>virt.
      res_bind (unwrap (mm_mapper st)) (\<lambda>pt.
      res_bind (unwrap (mm_frames st)) (\<lambda>fr.
      res_bind (res_fold (map_one ma virt start_frame_addr) [0..<num_pages] (pt, fr)) (\<lambda>(pt', fr').
      let page_offset = start mod 4096 in
      res_bind (virt_add virt page_offset) (\<lambda>va.
        Inr (va, st\<lparr>mm_mapper := Some pt', mm_frames := Some fr', mm_flushes := mm_flushes st + 1\<rparr>)))))))))))"

definition map_address ::
    "'pt mapper_api \<Rightarrow> usize \<Rightarrow> usize \<Rightarrow> 'pt memory_state \<Rightarrow> (usize \<times> 'pt memory_state) res" where
  "map_address ma phys sz st =
     map_pages_from ma phys sz (page_range 0xFFFF800000000000 0xFFFFFFFFFFFFF000) st"

definition translate_virt_addr :: "'pt mapper_api \<Rightarrow> usize \<Rightarrow> 'pt memory_state \<Rightarrow> usize option res" where
  "translate_virt_addr ma addr st = res_bind (unwrap (mm_mapper st)) (\<lambda>pt. Inr (pt_translate ma pt addr))"

definition translate_phys_addr :: "'pt mapper_api \<Rightarrow> usize \<Rightarrow> 'pt memory_state \<Rightarrow> usize res" where
  "translate_phys_addr ma addr st =
     res_bind (unwrap (mm_mapper st)) (\<lambda>pt. virt_add (pt_phys_offset ma pt) addr)"

definition lazy_map :: "'pt mapper_api \<Rightarrow> usize \<Rightarrow> 'pt memory_state \<Rightarrow> (bool \<times> 'pt memory_state) res" where
  "lazy_map ma address st =
     (if address < MANAGED_START \<or> MANAGED_END \<le> address then Inr (False, st)
      else
        res_bind (unwrap (mm_mapper st)) (\<lambda>pt.
        if pt_translate ma pt address \<noteq> None then Inr (False, st)
        else
          res_bind (unwrap (mm_frames st)) (\<lambda>fr.
          let page = align_down address 4096 in
          res_bind (allocate_frame fr) (\<lambda>(f, fr1).
          res_bind (unwrap f) (\<lambda>frame.
          res_bind (pt_map_to ma page frame {PRESENT, WRITABLE} (pt, fr1)) (\<lambda>(ok, pt', fr').
          if \<not> ok then Inl UnwrapFailed
          else
            Inr (True, st\<lparr>mm_mapper := Some pt', mm_frames := Some fr', mm_flushes := mm_flushes st + 1,
              mm_bytes := (\<lambda>a. if page \<le> a \<and> a < page + 4096 then 0 else mm_bytes st a)\<rparr>)))))))"

section \<open>Frames: what the iterator yields\<close>

text \<open>
  The memory map as the boot protocol documents it: entries sorted by address, usable ones page
  aligned, within the physical address range and not overlapping.
\<close>

definition usable :: "MemmapEntry list \<Rightarrow> MemmapEntry list" where
  "usable regions = filter (\<lambda>r. me_typ r = Usable) regions"

definition memmap_ok :: "MemmapEntry list \<Rightarrow> bool" where
  "memmap_ok regions \<longleftrightarrow>
     (\<forall>r\<in>set (usable regions). me_base r mod 4096 = 0 \<and> me_len r mod 4096 = 0 \<and> me_base r + me_len r \<le> 2 ^ 52)
   \<and> sorted_wrt (\<lambda>r s. me_base r + me_len r \<le> me_base s) (usable regions)"

definition region_frames :: "MemmapEntry \<Rightarrow> usize list" where
  "region_frames r = step_range (me_base r) (me_base r + me_len r)"

definition all_frames :: "MemmapEntry list \<Rightarrow> usize list" where
  "all_frames regions = concat (map region_frames (usable regions))"

definition frame_ok :: "usize \<Rightarrow> bool" where
  "frame_ok f \<longleftrightarrow> f mod 4096 = 0 \<and> f < 2 ^ 52"

lemma step_range_bounds:
  assumes "a \<in> set (step_range b e)"
  shows "b \<le> a \<and> a < e"
proof -
  obtain i where i: "a = b + i * 4096" "i < (e - b + 4095) div 4096"
    using assms by (auto simp: step_range_def)
  then have "i * 4096 < e - b" by linarith
  then show ?thesis using i by linarith
qed

lemma region_frames_ok:
  assumes "me_base r mod 4096 = 0" "me_base r + me_len r \<le> 2 ^ 52" "a \<in> set (region_frames r)"
  shows "frame_ok a \<and> me_base r \<le> a \<and> a < me_base r + me_len r"
  using assms step_range_bounds[of a "me_base r" "me_base r + me_len r"]
  by (auto simp: region_frames_def frame_ok_def step_range_def)

lemma sorted_region_frames: "sorted_wrt (<) (region_frames r)"
  by (simp add: region_frames_def step_range_def sorted_wrt_map sorted_wrt_iff_nth_less)

lemma all_frames_region:
  assumes "memmap_ok regions" "a \<in> set (all_frames regions)"
  obtains r where "r \<in> set (usable regions)" "me_len r mod 4096 = 0" "me_base r mod 4096 = 0"
    "frame_ok a" "me_base r \<le> a" "a < me_base r + me_len r"
proof -
  obtain r where r: "r \<in> set (usable regions)" "a \<in> set (region_frames r)"
    using assms(2) by (auto simp: all_frames_def)
  have ok: "me_base r mod 4096 = 0" "me_len r mod 4096 = 0" "me_base r + me_len r \<le> 2 ^ 52"
    using assms(1) r(1) unfolding memmap_ok_def by blast+
  from region_frames_ok[OF ok(1,3) r(2)] show thesis
    by (intro that[OF r(1) ok(2,1)]) simp_all
qed

lemma all_frames_ok: "memmap_ok regions \<Longrightarrow> a \<in> set (all_frames regions) \<Longrightarrow> frame_ok a"
  by (erule all_frames_region)

text \<open>Every frame lies, as a whole, in one usable region.\<close>

lemma all_frames_in_region:
  assumes "memmap_ok regions" "a \<in> set (all_frames regions)"
  shows "\<exists>r\<in>set regions. me_typ r = Usable \<and> me_base r \<le> a \<and> a + 4096 \<le> me_base r + me_len r"
proof -
  obtain r where r: "r \<in> set (usable regions)" "me_len r mod 4096 = 0" "me_base r mod 4096 = 0"
    "frame_ok a" "me_base r \<le> a" "a < me_base r + me_len r"
    using assms by (rule all_frames_region)
  have "4096 dvd me_base r + me_len r - a"
    using r unfolding frame_ok_def by (intro dvd_diff_nat) (auto simp: mod_eq_0_iff_dvd)
  then have "4096 \<le> me_base r + me_len r - a" using r(6) by (intro dvd_imp_le) auto
  then show ?thesis using r(1,5,6) by (intro bexI[of _ r]) (auto simp: usable_def)
qed

lemma sorted_all_frames: "memmap_ok regions \<Longrightarrow> sorted_wrt (<) (all_frames regions)"
proof (induction regions)
  case (Cons r rs)
  have ok: "memmap_ok rs" using Cons.prems by (auto simp: memmap_ok_def usable_def split: if_splits)
  show ?case
  proof (cases "me_typ r = Usable")
    case True
    have "a < b" if ab: "a \<in> set (region_frames r)" "b \<in> set (all_frames rs)" for a b
    proof -
      obtain s where s: "s \<in> set (usable rs)" "b \<in> set (region_frames s)"
        using ab(2) by (auto simp: all_frames_def)
      have "me_base r + me_len r \<le> me_base s" using Cons.prems True s(1)
        by (auto simp: memmap_ok_def usable_def)
      then show ?thesis
        using step_range_bounds ab(1) s(2) unfolding region_frames_def by (meson le_less_trans less_le_trans not_le)
    qed
    then show ?thesis using Cons.IH[OF ok] True sorted_region_frames[of r]
      by (simp add: all_frames_def usable_def sorted_wrt_append)
  next
    case False
    then show ?thesis using Cons.IH[OF ok] by (simp add: all_frames_def usable_def)
  qed
qed (simp add: all_frames_def usable_def)

lemma distinct_all_frames: "memmap_ok regions \<Longrightarrow> distinct (all_frames regions)"
  using sorted_all_frames strict_sorted_iff by blast

lemma align_down_frame [simp]: "frame_ok a \<Longrightarrow> align_down a 4096 = a"
  by (simp add: align_down_def frame_ok_def)

text \<open>The iterator never panics and yields the frames of the regions one after the other.\<close>

lemma frame_iter_next_exact:
  assumes "\<forall>a\<in>set cur. frame_ok a" and "memmap_ok rs"
  shows "\<exists>cur' rs'. frame_iter_next cur rs
      = Inr (case cur @ all_frames rs of [] \<Rightarrow> None | f # _ \<Rightarrow> Some f, cur', rs')
    \<and> cur' @ all_frames rs' = tl (cur @ all_frames rs)
    \<and> (\<forall>a\<in>set cur'. frame_ok a) \<and> memmap_ok rs'"
  using assms
proof (induction cur rs rule: frame_iter_next.induct)
  case (1 a as rs)
  then show ?case by (auto simp: phys_new_def frame_ok_def[of a] simp flip: frame_ok_def)
next
  case (2 r rs)
  have ok: "memmap_ok rs" using "2.prems" by (auto simp: memmap_ok_def usable_def split: if_splits)
  show ?case
  proof (cases "me_typ r = Usable")
    case True
    then have reg: "me_base r mod 4096 = 0" "me_base r + me_len r \<le> 2 ^ 52"
      using "2.prems" by (auto simp: memmap_ok_def usable_def)
    then have lt: "me_base r + me_len r < 2 ^ 64" by simp
    have "\<forall>a\<in>set (step_range (me_base r) (me_base r + me_len r)). frame_ok a"
      using region_frames_ok[OF reg] by (simp add: region_frames_def)
    moreover have "usize_add (me_base r) (me_len r) = Inr (me_base r + me_len r)" using lt by simp
    ultimately show ?thesis using "2.IH"(1)[OF True _ ok] True lt
      by (simp add: all_frames_def usable_def region_frames_def)
  next
    case False
    then show ?thesis using "2.IH"(2)[OF False _ ok] by (simp add: all_frames_def usable_def)
  qed
qed (simp add: all_frames_def usable_def memmap_ok_def)

section \<open>Frames: allocation and release\<close>

text \<open>The list of released frames that hangs off a pointer.\<close>

fun free_chain :: "(usize \<rightharpoonup> FreePhysFrame) \<Rightarrow> usize \<Rightarrow> usize list \<Rightarrow> bool" where
  "free_chain objs p [] \<longleftrightarrow> p = 0"
| "free_chain objs p (f # fs) \<longleftrightarrow>
     p \<noteq> 0 \<and> (\<exists>n. objs p = Some \<lparr>ff_frame = f, ff_next = n\<rparr> \<and> free_chain objs n fs)"

lemma free_chain_fresh: "objs q = None \<Longrightarrow> free_chain objs p fs \<Longrightarrow> free_chain (objs(q \<mapsto> x)) p fs"
  by (induction fs arbitrary: p) auto

text \<open>
  \<open>out\<close> are the frames handed out and not released, \<open>n\<close> counts the releases. Released frames,
  outstanding frames and the frames the iterator has left are all the frames of the memory map,
  each once; the stack allocator has given 16 bytes per release after the iterator's own.
\<close>

definition frames_inv :: "usize \<Rightarrow> MemmapEntry list \<Rightarrow> frames \<Rightarrow> usize set \<Rightarrow> nat \<Rightarrow> bool" where
  "frames_inv isz regions fr out n \<longleftrightarrow>
     (case fr of (self, sa) \<Rightarrow>
        stack_wf sa \<and> sa_len sa = 2048 \<and> sa_current sa = isz + 16 * n
      \<and> memmap_ok (fa_regions self) \<and> (\<forall>a\<in>set (fa_cur self). frame_ok a)
      \<and> (\<exists>fs. free_chain (sa_objs sa) (fa_free_frames self) fs
           \<and> distinct (fs @ fa_cur self @ all_frames (fa_regions self))
           \<and> out \<inter> set (fs @ fa_cur self @ all_frames (fa_regions self)) = {}
           \<and> out \<union> set (fs @ fa_cur self @ all_frames (fa_regions self)) = set (all_frames regions)))"

inductive frames_reach ::
    "Layout \<Rightarrow> MemmapEntry list \<Rightarrow> usize \<Rightarrow> frames \<Rightarrow> usize set \<Rightarrow> nat \<Rightarrow> bool"
  for il regions base where
  boot: "BootInfoFrameAllocator_init il regions (StackAllocator_new base 2048) = Inr fr \<Longrightarrow>
    frames_reach il regions base fr {} 0"
| alloc: "frames_reach il regions base fr out n \<Longrightarrow> allocate_frame fr = Inr (Some f, fr') \<Longrightarrow>
    frames_reach il regions base fr' (insert f out) n"
| alloc_none: "frames_reach il regions base fr out n \<Longrightarrow> allocate_frame fr = Inr (None, fr') \<Longrightarrow>
    frames_reach il regions base fr' out n"
| dealloc: "frames_reach il regions base fr out n \<Longrightarrow> f \<in> out \<Longrightarrow> deallocate_frame f fr = Inr fr' \<Longrightarrow>
    frames_reach il regions base fr' (out - {f}) (Suc n)"

text \<open>The start of the system: a sound memory map and a buffer at a sensible address.\<close>

definition boot_ok :: "Layout \<Rightarrow> MemmapEntry list \<Rightarrow> usize \<Rightarrow> bool" where
  "boot_ok il regions base \<longleftrightarrow> memmap_ok regions \<and> 0 < base \<and> base + 2048 < 2 ^ 64 \<and> 0 < lsize il"

lemma frames_inv_boot:
  assumes "boot_ok il regions base"
    and "BootInfoFrameAllocator_init il regions (StackAllocator_new base 2048) = Inr fr"
  shows "frames_inv (lsize il) regions fr {} 0"
proof -
  have fr: "fr = (\<lparr>fa_cur = [], fa_regions = regions, fa_free_frames = 0\<rparr>,
      (StackAllocator_new base 2048)\<lparr>sa_current := lsize il\<rparr>)" "lsize il < 2048"
    using assms(2)
    by (auto simp: BootInfoFrameAllocator_init_def StackAllocator_allocate_def StackAllocator_new_def
        split: option.splits if_splits)
  have "free_chain Map.empty 0 []" by simp
  then show ?thesis using assms(1) fr(2) distinct_all_frames
    unfolding frames_inv_def fr boot_ok_def stack_wf_def StackAllocator_new_def
    by (auto intro!: exI[of _ "[]"])
qed

text \<open>
  What \<open>allocate_frame\<close> does in any good state: it never panics; it returns the head of the
  released frames, else of the iterator; and \<open>None\<close> only when every frame is out.
\<close>

lemma allocate_frame_exact:
  assumes "frames_inv isz regions fr out n"
  shows "\<exists>r fr'. allocate_frame fr = Inr (r, fr')
    \<and> (case r of
         None \<Rightarrow> out = set (all_frames regions) \<and> frames_inv isz regions fr' out n
       | Some f \<Rightarrow> f \<notin> out \<and> f \<in> set (all_frames regions) \<and> frames_inv isz regions fr' (insert f out) n)"
proof -
  obtain self sa where fr: "fr = (self, sa)" by (cases fr)
  obtain fs where inv: "stack_wf sa" "sa_len sa = 2048" "sa_current sa = isz + 16 * n"
    "memmap_ok (fa_regions self)" "\<forall>a\<in>set (fa_cur self). frame_ok a"
    "free_chain (sa_objs sa) (fa_free_frames self) fs"
    "distinct (fs @ fa_cur self @ all_frames (fa_regions self))"
    "out \<inter> set (fs @ fa_cur self @ all_frames (fa_regions self)) = {}"
    "out \<union> set (fs @ fa_cur self @ all_frames (fa_regions self)) = set (all_frames regions)"
    using assms unfolding frames_inv_def fr by auto
  show ?thesis
  proof (cases fs)
    case (Cons f fs')
    then obtain nx where nx: "fa_free_frames self \<noteq> 0"
      "sa_objs sa (fa_free_frames self) = Some \<lparr>ff_frame = f, ff_next = nx\<rparr>" "free_chain (sa_objs sa) nx fs'"
      using inv(6) by auto
    have "allocate_frame fr = Inr (Some f, self\<lparr>fa_free_frames := nx\<rparr>, sa)"
      using nx by (simp add: allocate_frame_def fr)
    moreover have "frames_inv isz regions (self\<lparr>fa_free_frames := nx\<rparr>, sa) (insert f out) n"
      using inv nx(3) Cons unfolding frames_inv_def by (auto intro!: exI[of _ fs'])
    ultimately show ?thesis using inv(8,9) Cons by auto
  next
    case Nil
    let ?it = "fa_cur self @ all_frames (fa_regions self)"
    have null: "fa_free_frames self = 0" using inv(6) Nil by simp
    obtain cur' rs' where it: "frame_iter_next (fa_cur self) (fa_regions self)
        = Inr (case ?it of [] \<Rightarrow> None | f # _ \<Rightarrow> Some f, cur', rs')"
      "cur' @ all_frames rs' = tl ?it" "\<forall>a\<in>set cur'. frame_ok a" "memmap_ok rs'"
      using frame_iter_next_exact[OF inv(5,4)] by blast
    let ?fr' = "(self\<lparr>fa_cur := cur', fa_regions := rs'\<rparr>, sa)"
    have al: "allocate_frame fr = Inr (case ?it of [] \<Rightarrow> None | f # _ \<Rightarrow> Some f, ?fr')"
      using null it(1) by (simp add: allocate_frame_def fr)
    show ?thesis
    proof (cases ?it)
      case it0: Nil
      then have "frames_inv isz regions ?fr' out n"
        using inv it(2-4) Nil unfolding frames_inv_def by (auto intro!: exI[of _ "[]"])
      then show ?thesis using al it0 inv(9) Nil by auto
    next
      case (Cons f it')
      have "frames_inv isz regions ?fr' (insert f out) n"
        using inv it(2-4) Nil Cons unfolding frames_inv_def by (auto intro!: exI[of _ "[]"])
      then show ?thesis using al Cons inv(8,9) Nil by auto
    qed
  qed
qed

lemma deallocate_frame_exact:
  assumes "frames_inv isz regions (self, sa) out n" and "f \<in> out"
  shows "if isz + 16 * Suc n < 2048
    then \<exists>self' sa'. deallocate_frame f (self, sa) = Inr (self', sa')
      \<and> frames_inv isz regions (self', sa') (out - {f}) (Suc n)
      \<and> allocate_frame (self', sa') = Inr (Some f, self, sa')
    else deallocate_frame f (self, sa) = Inl UnwrapFailed"
proof -
  obtain fs where inv: "stack_wf sa" "sa_len sa = 2048" "sa_current sa = isz + 16 * n"
    "memmap_ok (fa_regions self)" "\<forall>a\<in>set (fa_cur self). frame_ok a"
    "free_chain (sa_objs sa) (fa_free_frames self) fs"
    "distinct (fs @ fa_cur self @ all_frames (fa_regions self))"
    "out \<inter> set (fs @ fa_cur self @ all_frames (fa_regions self)) = {}"
    "out \<union> set (fs @ fa_cur self @ all_frames (fa_regions self)) = set (all_frames regions)"
    using assms unfolding frames_inv_def by auto
  let ?node = "\<lparr>ff_frame = f, ff_next = fa_free_frames self\<rparr>"
  let ?p = "sa_base sa + sa_current sa"
  let ?sa' = "sa\<lparr>sa_current := sa_current sa + 16, sa_objs := (sa_objs sa)(?p \<mapsto> ?node)\<rparr>"
  have own: "StackAllocator_own FreePhysFrame_layout ?node sa =
      (if sa_current sa + 16 < 2048 then Inr (?p, ?sa') else Inl UnwrapFailed)"
    using StackAllocator_own_exact[OF inv(1), of FreePhysFrame_layout ?node] inv(2)
    by (simp add: FreePhysFrame_layout_def)
  show ?thesis
  proof (cases "isz + 16 * Suc n < 2048")
    case True
    then have o: "StackAllocator_own FreePhysFrame_layout ?node sa = Inr (?p, ?sa')"
      using own inv(3) by simp
    have fresh: "sa_objs sa ?p = None" "0 < ?p" "stack_wf ?sa'"
      using StackAllocator_own_fresh[OF inv(1) o] by (simp_all add: FreePhysFrame_layout_def)
    have ch: "free_chain ((sa_objs sa)(?p \<mapsto> ?node)) ?p (f # fs)"
      using free_chain_fresh[OF fresh(1) inv(6), of ?node] fresh(2) by simp
    have "deallocate_frame f (self, sa) = Inr (self\<lparr>fa_free_frames := ?p\<rparr>, ?sa')"
      using o by (simp add: deallocate_frame_def)
    moreover have "frames_inv isz regions (self\<lparr>fa_free_frames := ?p\<rparr>, ?sa') (out - {f}) (Suc n)"
      using inv fresh(3) ch assms(2) unfolding frames_inv_def
      by (auto intro!: exI[of _ "f # fs"] simp del: free_chain.simps)
    moreover have "allocate_frame (self\<lparr>fa_free_frames := ?p\<rparr>, ?sa') = Inr (Some f, self, ?sa')"
      using fresh(2) by (simp add: allocate_frame_def)
    ultimately show ?thesis using True by auto
  next
    case False
    then show ?thesis using own inv(3) by (simp add: deallocate_frame_def)
  qed
qed

lemma frames_reach_inv:
  assumes "boot_ok il regions base" and "frames_reach il regions base fr out n"
  shows "frames_inv (lsize il) regions fr out n"
  using assms(2)
proof induction
  case (boot fr)
  then show ?case using assms(1) frames_inv_boot by blast
next
  case (alloc fr out n f fr')
  then show ?case using allocate_frame_exact[OF alloc.IH] by auto
next
  case (alloc_none fr out n fr')
  then show ?case using allocate_frame_exact[OF alloc_none.IH] by auto
next
  case (dealloc fr out n f fr')
  obtain self sa where fr: "fr = (self, sa)" by (cases fr)
  show ?case using deallocate_frame_exact[of "lsize il" regions self sa out n f] dealloc fr
    by (auto split: if_splits)
qed

section \<open>Properties of the frame allocator\<close>

text \<open>
  In every state the frame allocator can reach, \<open>allocate_frame\<close> returns (it never panics); the
  frame it returns is page aligned, lies as a whole in a usable region of the memory map and is
  not in use; and it returns none only when every frame of every usable region is in use.
\<close>

theorem frame_alloc_sound:
  assumes "boot_ok il regions base" and "frames_reach il regions base fr out n"
  shows "\<exists>r fr'. allocate_frame fr = Inr (r, fr')
    \<and> (case r of
         None \<Rightarrow> out = set (all_frames regions)
       | Some f \<Rightarrow> f \<notin> out \<and> f mod 4096 = 0
           \<and> (\<exists>r\<in>set regions. me_typ r = Usable \<and> me_base r \<le> f \<and> f + 4096 \<le> me_base r + me_len r))"
proof -
  have ok: "memmap_ok regions" using assms(1) by (simp add: boot_ok_def)
  show ?thesis
    using allocate_frame_exact[OF frames_reach_inv[OF assms]]
      all_frames_ok[OF ok] all_frames_in_region[OF ok]
    unfolding frame_ok_def by (fastforce split: option.splits)
qed

text \<open>
  A released frame is the next one handed out, but a release takes 16 bytes of a 2048-byte
  buffer that are never given back: the release panics as soon as the buffer is used up, however
  many of the released frames have been allocated again in between.
\<close>

theorem frame_release_budget:
  assumes "boot_ok il regions base" and "frames_reach il regions base fr out n" and "f \<in> out"
  shows "(deallocate_frame f fr = Inl UnwrapFailed \<longleftrightarrow> 2048 \<le> lsize il + 16 * Suc n)
    \<and> n \<le> 127
    \<and> (\<forall>fr'. deallocate_frame f fr = Inr fr' \<longrightarrow> (\<exists>fr''. allocate_frame fr' = Inr (Some f, fr'')))"
proof -
  obtain self sa where fr: "fr = (self, sa)" by (cases fr)
  note inv = frames_reach_inv[OF assms(1,2), unfolded fr]
  have "0 < lsize il" using assms(1) by (simp add: boot_ok_def)
  then have "n \<le> 127" using inv unfolding frames_inv_def stack_wf_def by auto
  then show ?thesis using deallocate_frame_exact[OF inv assms(3)] unfolding fr by (auto split: if_splits)
qed

subsection \<open>A small machine\<close>

definition small_map :: "MemmapEntry list" where
  "small_map = [\<lparr>me_base = 0, me_len = 4096, me_typ = NotUsable 1\<rparr>,
                \<lparr>me_base = 1048576, me_len = 8192, me_typ = Usable\<rparr>]"

definition small_layout :: Layout where
  "small_layout = \<lparr>lsize = 96, lalign = 8\<rparr>"

abbreviation small_fr :: "usize list \<Rightarrow> MemmapEntry list \<Rightarrow> frames" where
  "small_fr cur rs \<equiv> (\<lparr>fa_cur = cur, fa_regions = rs, fa_free_frames = 0\<rparr>,
     (StackAllocator_new 4096 2048)\<lparr>sa_current := 96\<rparr>)"

lemma small_boot_ok: "boot_ok small_layout small_map 4096"
  by (simp add: boot_ok_def small_map_def small_layout_def memmap_ok_def usable_def)

lemma small_reach:
  "frames_reach small_layout small_map 4096 (small_fr [1052672] []) {1048576} 0"
proof -
  have "frames_reach small_layout small_map 4096 (small_fr [] small_map) {} 0"
    by (rule frames_reach.boot)
      (simp add: BootInfoFrameAllocator_init_def small_map_def small_layout_def StackAllocator_new_def
        StackAllocator_allocate_def)
  then show ?thesis
    by (rule frames_reach.alloc)
      (simp add: allocate_frame_def small_map_def step_range_def phys_new_def align_down_def upt_conv_Cons)
qed

theorem frame_alloc_sound_witness:
  "\<exists>r fr'. allocate_frame (small_fr [1052672] []) = Inr (r, fr')
    \<and> (case r of
         None \<Rightarrow> {1048576} = set (all_frames small_map)
       | Some f \<Rightarrow> f \<notin> {1048576} \<and> f mod 4096 = 0
           \<and> (\<exists>r\<in>set small_map. me_typ r = Usable \<and> me_base r \<le> f \<and> f + 4096 \<le> me_base r + me_len r))"
  by (rule frame_alloc_sound[OF small_boot_ok small_reach])

theorem frame_release_budget_witness:
  "deallocate_frame 1048576 (small_fr [1052672] []) \<noteq> Inl UnwrapFailed"
  using frame_release_budget[OF small_boot_ok small_reach, of 1048576] by (simp add: small_layout_def)

section \<open>The frame allocator is a pool\<close>

interpretation frame_pool: pool "set (all_frames regions)" "\<lambda>fr out. \<exists>n. frames_inv isz regions fr out n" "\<lambda>_ :: unit. True"
    "\<lambda>_. allocate_frame" deallocate_frame "\<lambda>_ _. False"
proof
  fix fr out
  assume "\<exists>n. frames_inv isz regions fr out n"
  then obtain n where "frames_inv isz regions fr out n" by blast
  from allocate_frame_exact[OF this] show "\<exists>r fr'. allocate_frame fr = Inr (r, fr')
      \<and> (case r of None \<Rightarrow> set (all_frames regions) \<subseteq> out \<and> (\<exists>n. frames_inv isz regions fr' out n)
         | Some x \<Rightarrow> x \<in> set (all_frames regions) \<and> x \<notin> out \<and> (\<exists>n. frames_inv isz regions fr' (insert x out) n))"
    by (fastforce split: option.splits)
next
  fix fr fr' out f
  assume "\<exists>n. frames_inv isz regions fr out n" "f \<in> out" "deallocate_frame f fr = Inr fr'"
  then show "\<exists>n. frames_inv isz regions fr' (out - {f}) n"
    using deallocate_frame_exact by (cases fr) (fastforce split: if_splits)
qed simp

text \<open>
  C3. The frame allocator implements a pool of the frames of usable memory. In any run of allocations and
  releases from a state it can reach, with clients that release only frames they hold: a frame handed out
  belongs to the pool and is not held, an allocation never panics and fails only when all frames are held, and
  no frame is handed out twice without having been released in between. The frames of the pool are page
  aligned and lie as a whole in a usable region of the memory map.
\<close>

theorem frames_refine_pool:
  assumes "boot_ok il regions base" "frames_reach il regions base fr out n"
    and "impl_run (\<lambda>_ :: unit. True) (\<lambda>_. allocate_frame) deallocate_frame (\<lambda>_ _. False) fr es fr'" "client_ok out es"
  shows "(\<exists>out'. pool_run (set (all_frames regions)) out es out' \<and> out' \<subseteq> set (all_frames regions)
        \<and> (\<exists>m. frames_inv (lsize il) regions fr' out' m))
    \<and> exclusive_use es \<and> (\<exists>r fr''. allocate_frame fr' = Inr (r, fr''))
    \<and> (\<forall>f\<in>set (all_frames regions). f mod 4096 = 0
          \<and> (\<exists>r\<in>set regions. me_typ r = Usable \<and> me_base r \<le> f \<and> f + 4096 \<le> me_base r + me_len r))"
proof -
  have inv: "frames_inv (lsize il) regions fr out n" using frames_reach_inv[OF assms(1,2)] .
  then obtain out' where o: "pool_run (set (all_frames regions)) out es out'" "\<exists>m. frames_inv (lsize il) regions fr' out' m"
    using frame_pool.refines[OF assms(3) _ assms(4)] by blast
  moreover have "out' \<subseteq> set (all_frames regions)" using o(2) by (auto simp: frames_inv_def)
  moreover have "\<exists>r fr''. allocate_frame fr' = Inr (r, fr'')" using frame_pool.never_stuck[OF o(2)] by simp
  moreover have ok: "memmap_ok regions" using assms(1) by (simp add: boot_ok_def)
  moreover have "f mod 4096 = 0 \<and> (\<exists>r\<in>set regions. me_typ r = Usable \<and> me_base r \<le> f \<and> f + 4096 \<le> me_base r + me_len r)"
    if "f \<in> set (all_frames regions)" for f
    using all_frames_ok[OF ok that] all_frames_in_region[OF ok that] by (simp add: frame_ok_def)
  ultimately show ?thesis using pool_run_exclusive[OF o(1)] by blast
qed

text \<open>On the small machine: the second and last frame is taken, and the next request is refused.\<close>

theorem frames_refine_pool_witness:
  "\<exists>fr'. impl_run (\<lambda>_ :: unit. True) (\<lambda>_. allocate_frame) deallocate_frame (\<lambda>_ _. False)
      (small_fr [1052672] []) [Taken 1052672, Refused] fr'
    \<and> pool_run (set (all_frames small_map)) {1048576} [Taken 1052672, Refused] {1048576, 1052672}"
proof -
  have run: "impl_run (\<lambda>_ :: unit. True) (\<lambda>_. allocate_frame) deallocate_frame (\<lambda>_ _. False)
      (small_fr [1052672] []) [Taken 1052672, Refused] (small_fr [] [])"
  proof (rule impl_taken[of _ "()"])
    show "allocate_frame (small_fr [1052672] []) = Inr (Some 1052672, small_fr [] [])"
      by (simp add: allocate_frame_def phys_new_def align_down_def)
    have "allocate_frame (small_fr [] []) = Inr (None, small_fr [] [])" by (simp add: allocate_frame_def)
    then show "impl_run (\<lambda>_ :: unit. True) (\<lambda>_. allocate_frame) deallocate_frame (\<lambda>_ _. False)
        (small_fr [] []) [Refused] (small_fr [] [])" by (intro impl_refused[of _ "()", OF _ _ impl_stop]) simp_all
  qed simp
  from frames_refine_pool[OF small_boot_ok small_reach run] show ?thesis using run by (auto simp: insert_commute)
qed

section \<open>Searching for a run of free pages\<close>

text \<open>The reference: the first page that starts \<open>n\<close> free pages in a row.\<close>

fun first_fit :: "('a \<Rightarrow> bool) \<Rightarrow> nat \<Rightarrow> 'a list \<Rightarrow> 'a option" where
  "first_fit free n [] = None"
| "first_fit free n (p # ps) =
     (if length (take n (p # ps)) = n \<and> list_all free (take n (p # ps)) then Some p
      else first_fit free n ps)"

lemma first_fit_short: "length ps < n \<Longrightarrow> first_fit free n ps = None"
  by (induction ps) auto

lemma first_fit_skip:
  "\<not> free p \<Longrightarrow> length run < n \<Longrightarrow> first_fit free n (run @ p # ps) = first_fit free n ps"
proof (induction run)
  case Nil
  then show ?case by (cases n) auto
next
  case (Cons r run)
  then have "p \<in> set (take n (r # run @ p # ps))" by (cases n) (auto simp: take_Cons' split: if_splits)
  then have "\<not> list_all free (take n (r # run @ p # ps))" using Cons.prems by (auto simp: list_all_iff)
  then show ?case using Cons by simp
qed

lemma search_loop_first_fit:
  assumes "\<And>a. a \<in> set ps \<Longrightarrow> avail a = Inr (free a)"
    and "length run < n" "n < 2 ^ 64" "list_all free run"
  shows "search_loop avail n ps (length run) (if run = [] then None else Some (hd run))
       = Inr (first_fit free n (run @ ps))"
  using assms
proof (induction ps arbitrary: run)
  case Nil
  then show ?case by (simp add: first_fit_short)
next
  case (Cons p ps)
  have av: "avail p = Inr (free p)" using Cons.prems(1) by simp
  have start: "(if (if run = [] then None else Some (hd run)) = None then Some p
      else if run = [] then None else Some (hd run)) = Some (hd (run @ [p]))" by simp
  show ?case
  proof (cases "free p")
    case True
    have lt: "length run + 1 < 2 ^ 64" using Cons.prems(2,3) by linarith
    show ?thesis
    proof (cases "n \<le> length run + 1")
      case le: True
      then have n: "n = Suc (length run)" using Cons.prems(2) by simp
      have "first_fit free n (run @ p # ps) = Some (hd (run @ [p]))"
        using Cons.prems(4) True by (cases run) (simp_all add: n)
      then show ?thesis using av True lt le by (simp add: n) 
    next
      case False
      then have "search_loop avail n ps (length (run @ [p])) (if run @ [p] = [] then None else Some (hd (run @ [p])))
          = Inr (first_fit free n ((run @ [p]) @ ps))"
        using Cons.IH[of "run @ [p]"] Cons.prems True by simp
      then show ?thesis using av True lt False by (simp add: start Let_def hd_append)
    qed
  next
    case False
    then show ?thesis using av Cons.IH[of "[]"] Cons.prems first_fit_skip[of free p run n ps] by simp
  qed
qed

text \<open>What the reference promises.\<close>

lemma first_fit_Some:
  assumes "first_fit free n ps = Some a" and "0 < n"
  shows "\<exists>i. i + n \<le> length ps \<and> ps ! i = a \<and> (\<forall>j<n. free (ps ! (i + j)))"
  using assms(1)
proof (induction ps)
  case (Cons p ps)
  show ?case
  proof (cases "length (take n (p # ps)) = n \<and> list_all free (take n (p # ps))")
    case True
    then have "\<forall>j<n. free ((p # ps) ! j)" by (metis length_take list_all_length min_less_iff_conj nth_take)
    then show ?thesis using True Cons.prems by (intro exI[of _ 0]) auto
  next
    case False
    then have "first_fit free n ps = Some a" using Cons.prems unfolding first_fit.simps by (simp only: if_False)
    then obtain i where "i + n \<le> length ps" "ps ! i = a" "\<forall>j<n. free (ps ! (i + j))"
      using Cons.IH by blast
    then show ?thesis by (intro exI[of _ "Suc i"]) auto
  qed
qed simp

text \<open>
  The search of the page range is a first fit: on an initialised memory system it never
  panics, and it returns what the reference search returns, the first page that starts
  \<open>num_pages\<close> consecutive pages that are not mapped and not the null page.
\<close>

theorem search_is_first_fit:
  assumes "mm_mapper st = Some pt" and "0 < num_pages" and "num_pages < 2 ^ 64"
  shows "search_free_addr_from ma st num_pages region
    = Inr (first_fit (\<lambda>a. pt_translate ma pt a = None \<and> a \<noteq> 0) num_pages region)"
  using search_loop_first_fit[of region "available ma st" "\<lambda>a. pt_translate ma pt a = None \<and> a \<noteq> 0" "[]" num_pages] assms
  by (simp add: search_free_addr_from_def available_def)

section \<open>Mappings\<close>

text \<open>
  The hypothesis on the page table: a successful \<open>map_to\<close> of a page makes that page translate to
  the frame, byte by byte, and leaves the translation of every other address as it was; and a page is mapped as a whole.
\<close>

definition mapper_spec :: "'pt mapper_api \<Rightarrow> bool" where
  "mapper_spec ma \<longleftrightarrow>
     (\<forall>page frame flags pt fr pt' fr'.
        page mod 4096 = 0 \<longrightarrow> pt_map_to ma page frame flags (pt, fr) = Inr (True, pt', fr') \<longrightarrow>
        (\<forall>a. pt_translate ma pt' a =
           (if page \<le> a \<and> a < page + 4096 then Some (frame + (a - page)) else pt_translate ma pt a)))
   \<and> (\<forall>pt a. pt_translate ma pt (align_down a 4096) = None \<longrightarrow> pt_translate ma pt a = None)"

lemma mapper_specD:
  assumes "mapper_spec ma" "page mod 4096 = 0" "pt_map_to ma page frame flags (pt, fr) = Inr (True, pt', fr')"
  shows "pt_translate ma pt' a =
    (if page \<le> a \<and> a < page + 4096 then Some (frame + (a - page)) else pt_translate ma pt a)"
  using assms unfolding mapper_spec_def by metis

lemma map_loop_translates:
  assumes "mapper_spec ma" and "virt mod 4096 = 0" and "sf mod 4096 = 0"
    and "res_fold (map_one ma virt sf) [0..<n] (pt, fr) = Inr (pt', fr')"
  shows "pt_translate ma pt' a =
    (if virt \<le> a \<and> a < virt + 4096 * n then Some (sf + (a - virt)) else pt_translate ma pt a)"
  using assms(4)
proof (induction n arbitrary: pt' fr')
  case (Suc n)
  then obtain pt1 fr1 where st: "res_fold (map_one ma virt sf) [0..<n] (pt, fr) = Inr (pt1, fr1)"
    "map_one ma virt sf n (pt1, fr1) = Inr (pt', fr')"
    by (auto simp: res_fold_append)
  have al: "align_down (virt + 4096 * n) 4096 = virt + 4096 * n" "align_down (sf + 4096 * n) 4096 = sf + 4096 * n"
    using assms(2,3) by (simp_all add: align_down_def)
  have "pt_map_to ma (virt + 4096 * n) (sf + 4096 * n) {PRESENT, WRITABLE, USER_ACCESSIBLE} (pt1, fr1)
      = Inr (True, pt', fr')"
    using st(2) by (auto simp: map_one_def virt_add_def phys_new_def al split: if_splits)
  then have "pt_translate ma pt' a = (if virt + 4096 * n \<le> a \<and> a < virt + 4096 * n + 4096
      then Some (sf + 4096 * n + (a - (virt + 4096 * n))) else pt_translate ma pt1 a)"
    using mapper_specD[OF assms(1)] assms(2) by (metis mod_mult_self2)
  then show ?case using Suc.IH[OF st(1)] by auto
qed auto

lemma num_of_pages_covers:
  fixes start sz :: usize
  defines "sf \<equiv> align_down start 4096"
  defines "n \<equiv> num_of_pages (align_down (start + sz) 4096 - sf + 1)"
  shows "start + sz < sf + 4096 * n" "4096 * n \<le> start mod 4096 + sz + 4096" "0 < n"
proof -
  have d: "4096 dvd (align_down (start + sz) 4096 - sf)"
    unfolding align_down_def sf_def minus_mod_eq_mult_div by (intro dvd_diff_nat dvd_triv_left)
  then obtain k where k: "align_down (start + sz) 4096 - sf = 4096 * k" by (rule dvdE)
  then have n: "n = k + 1" by (simp add: n_def num_of_pages_def)
  have le: "sf \<le> align_down (start + sz) 4096"
    unfolding sf_def align_down_def minus_mod_eq_div_mult by (simp add: div_le_mono)
  have e: "align_down (start + sz) 4096 = sf + 4096 * k" using k le by simp
  have mod: "(start + sz) mod 4096 < 4096" by simp
  have sz: "start + sz = align_down (start + sz) 4096 + (start + sz) mod 4096"
    by (simp add: align_down_def)
  show "start + sz < sf + 4096 * n" using sz mod unfolding e n by simp
  have "start = sf + start mod 4096" by (simp add: sf_def align_down_def)
  then show "4096 * n \<le> start mod 4096 + sz + 4096" using sz unfolding e n by simp
  show "0 < n" by (simp add: n)
qed

lemma page_range_run:
  assumes "first_fit free n (page_range lo hi) = Some v" and "0 < n"
  shows "\<exists>i. v = lo + i * 4096 \<and> v + 4096 * n \<le> hi \<and> (\<forall>j<n. free (v + 4096 * j))"
proof -
  obtain i where i: "i + n \<le> length (page_range lo hi)" "page_range lo hi ! i = v"
    "\<forall>j<n. free (page_range lo hi ! (i + j))"
    using first_fit_Some[OF assms] by blast
  have len: "i + n \<le> (hi - lo) div 4096" using i(1) by (simp add: page_range_def)
  have nth: "page_range lo hi ! (i + j) = lo + (i + j) * 4096" if "j < n" for j
    using that len by (simp add: page_range_def)
  have v: "v = lo + i * 4096" using nth[of 0] i(2) assms(2) by simp
  have "(i + n) * 4096 \<le> hi - lo"
    using mult_le_mono1[OF len, of 4096] div_times_less_eq_dividend le_trans by blast
  moreover have "0 < (i + n) * 4096" using assms(2) by simp
  ultimately have "v + 4096 * n \<le> hi" unfolding v add_mult_distrib by linarith
  then show ?thesis using v i(3) nth by (intro exI[of _ i]) (auto simp: algebra_simps)
qed

lemma page_of:
  assumes "v \<le> a" "a < v + 4096 * n" "v mod 4096 = 0"
  shows "\<exists>j<n. align_down a 4096 = v + 4096 * j"
proof -
  let ?j = "(a - v) div 4096"
  have "?j < n" using assms(1,2) by (simp add: less_mult_imp_div_less mult.commute)
  moreover have "align_down a 4096 = v + 4096 * ?j"
  proof -
    obtain q where q: "v = 4096 * q" using assms(3) by auto
    then have "a div 4096 = q + ?j" using assms(1)
      by (metis add_diff_inverse_nat add.commute div_mult_self4 not_le zero_neq_numeral)
    then show ?thesis unfolding align_down_def minus_mod_eq_mult_div q by simp
  qed
  ultimately show ?thesis by blast
qed

text \<open>
  C4. Mapping a physical object: on success every byte of the object, its end included, is
  reachable through the returned address, which lies in the range that was searched; no
  translation that existed before has changed; and the other cores are told to flush.
\<close>

theorem map_pages_from_sound:
  assumes spec: "mapper_spec ma" and pt: "mm_mapper st = Some pt"
    and call: "map_pages_from ma start sz (page_range lo hi) st = Inr (va, st')"
    and lo: "lo mod 4096 = 0"
  shows "\<exists>pt'. mm_mapper st' = Some pt' \<and> mm_flushes st' = mm_flushes st + 1
    \<and> (\<forall>k. k \<le> sz \<longrightarrow> pt_translate ma pt' (va + k) = Some (start + k))
    \<and> (\<forall>a b. pt_translate ma pt a = Some b \<longrightarrow> pt_translate ma pt' a = Some b)
    \<and> lo \<le> va \<and> va + sz < hi"
proof -
  let ?sf = "align_down start 4096"
  define n where "n = num_of_pages (align_down (start + sz) 4096 - ?sf + 1)"
  let ?free = "\<lambda>a. pt_translate ma pt a = None \<and> a \<noteq> 0"
  have np: "start + sz < ?sf + 4096 * n" "0 < n" using num_of_pages_covers[of start sz] by (simp_all add: n_def)
  obtain virt fr pt' fr' where steps: "start + sz < 2 ^ 52"
    "search_free_addr_from ma st n (page_range lo hi) = Inr (Some virt)"
    "res_fold (map_one ma virt ?sf) [0..<n] (pt, fr) = Inr (pt', fr')"
    "va = virt + start mod 4096"
    "st' = st\<lparr>mm_mapper := Some pt', mm_frames := Some fr', mm_flushes := mm_flushes st + 1\<rparr>"
    using call pt by (auto simp: map_pages_from_def phys_new_def virt_add_def Let_def n_def split: if_splits)
  have "n < 2 ^ 64" using num_of_pages_covers(2)[of start sz] steps(1) by (simp add: n_def)
  then have "first_fit ?free n (page_range lo hi) = Some virt"
    using search_loop_first_fit[of "page_range lo hi" "available ma st" ?free "[]" n] np(2) pt steps(2)
    by (simp add: search_free_addr_from_def available_def)
  from page_range_run[OF this np(2)] obtain i where v: "virt = lo + i * 4096" "virt + 4096 * n \<le> hi"
    "\<forall>j<n. ?free (virt + 4096 * j)" by blast
  have va0: "virt mod 4096 = 0" using v(1) lo by simp
  have sf0: "?sf mod 4096 = 0" by (simp add: align_down_def dvd_minus_mod flip: dvd_eq_mod_eq_0)
  note tr = map_loop_translates[OF spec va0 sf0 steps(3)]
  have off: "start = ?sf + start mod 4096" by (simp add: align_down_def)
  have obj: "start mod 4096 + sz < 4096 * n" using np(1) off by linarith
  have "pt_translate ma pt' (va + k) = Some (start + k)" if "k \<le> sz" for k
    using that tr[of "va + k"] obj off unfolding steps(4) by simp
  moreover have "pt_translate ma pt' a = Some b" if ab: "pt_translate ma pt a = Some b" for a b
  proof -
    have "\<not> (virt \<le> a \<and> a < virt + 4096 * n)"
      using page_of[of virt a n] va0 v(3) spec ab unfolding mapper_spec_def by (metis option.distinct(1))
    then show ?thesis using tr[of a] ab by argo
  qed
  ultimately show ?thesis using steps(4,5) v(1,2) obj by auto
qed

text \<open>
  C5. Demand paging of the heap: outside the heap range, or on an address that is mapped, a
  page fault is left alone and nothing changes. Inside it, success means that the page of the
  address is now backed by a frame that \<open>allocate_frame\<close> returned, that the whole page reads as zero,
  that the faulting address translates, and that no other page and no other byte has changed.
\<close>

theorem lazy_map_sound:
  assumes spec: "mapper_spec ma" and pt: "mm_mapper st = Some pt"
    and call: "lazy_map ma address st = Inr (r, st')"
  shows "(r \<longleftrightarrow> MANAGED_START \<le> address \<and> address < MANAGED_END \<and> pt_translate ma pt address = None)
    \<and> (\<not> r \<longrightarrow> st' = st)
    \<and> (r \<longrightarrow> (\<exists>fr fr1 frame pt'. mm_frames st = Some fr \<and> allocate_frame fr = Inr (Some frame, fr1)
          \<and> mm_mapper st' = Some pt' \<and> mm_flushes st' = mm_flushes st + 1
          \<and> pt_translate ma pt' address = Some (frame + address mod 4096)
          \<and> (\<forall>a. align_down a 4096 = align_down address 4096 \<longrightarrow> mm_bytes st' a = 0)
          \<and> (\<forall>a. align_down a 4096 \<noteq> align_down address 4096 \<longrightarrow>
               pt_translate ma pt' a = pt_translate ma pt a \<and> mm_bytes st' a = mm_bytes st a)))"
proof -
  let ?page = "align_down address 4096"
  have page0: "?page mod 4096 = 0" by (simp add: align_down_def dvd_minus_mod flip: dvd_eq_mod_eq_0)
  have split: "a = align_down a 4096 + a mod 4096" "a mod 4096 < 4096" for a
    by (simp_all add: align_down_def)
  have in_page: "?page \<le> a \<and> a < ?page + 4096 \<longleftrightarrow> align_down a 4096 = ?page" for a
  proof
    assume "?page \<le> a \<and> a < ?page + 4096"
    then show "align_down a 4096 = ?page" using page_of[of ?page a 1] page0 by auto
  next
    assume "align_down a 4096 = ?page"
    then show "?page \<le> a \<and> a < ?page + 4096" using split[of a] by linarith
  qed
  show ?thesis
  proof (cases r)
    case False
    then show ?thesis using call pt by (auto simp: lazy_map_def Let_def split: if_splits)
  next
    case True
    then obtain fr fr1 frame pt' fr' where s: "MANAGED_START \<le> address" "address < MANAGED_END"
      "pt_translate ma pt address = None" "mm_frames st = Some fr" "allocate_frame fr = Inr (Some frame, fr1)"
      "pt_map_to ma ?page frame {PRESENT, WRITABLE} (pt, fr1) = Inr (True, pt', fr')"
      "st' = st\<lparr>mm_mapper := Some pt', mm_frames := Some fr', mm_flushes := mm_flushes st + 1,
              mm_bytes := (\<lambda>a. if ?page \<le> a \<and> a < ?page + 4096 then 0 else mm_bytes st a)\<rparr>"
      using call pt by (auto simp: lazy_map_def Let_def not_less not_le split: if_splits)
    have tr: "pt_translate ma pt' a = (if align_down a 4096 = ?page then Some (frame + (a - ?page))
        else pt_translate ma pt a)" for a
      using mapper_specD[OF spec page0 s(6), of a] unfolding in_page .
    have off: "address - ?page = address mod 4096" by (simp add: align_down_def)
    show ?thesis using True s tr in_page off by auto
  qed
qed

subsection \<open>A page table as a function\<close>

definition fun_mapper :: "(usize \<Rightarrow> usize option) mapper_api" where
  "fun_mapper =
     \<lparr>pt_translate = (\<lambda>pt a. map_option (\<lambda>f. f + a mod 4096) (pt (align_down a 4096))),
      pt_map_to = (\<lambda>page frame flags (pt, fr).
        if pt page = None then Inr (True, pt(page \<mapsto> frame), fr) else Inr (False, pt, fr)),
      pt_phys_offset = (\<lambda>_. 0)\<rparr>"

lemma fun_mapper_spec: "mapper_spec fun_mapper"
proof -
  have in_page: "align_down a 4096 = page \<longleftrightarrow> page \<le> a \<and> a < page + 4096" if "page mod 4096 = 0" for a page
    using page_of[of page a 1] that mod_less_divisor[of 4096 a] by (auto simp: align_down_def)
  have off: "a mod 4096 = a - page" if "align_down a 4096 = page" for a page
    using that by (auto simp: align_down_def)
  have idem: "align_down (align_down a 4096) 4096 = align_down a 4096" for a
    by (simp add: align_down_def minus_mod_eq_mult_div)
  show ?thesis
    unfolding mapper_spec_def
    by (auto simp: fun_mapper_def idem in_page[symmetric] off split: if_splits prod.splits)
qed

definition small_state :: "(usize \<Rightarrow> usize option) memory_state" where
  "small_state = \<lparr>mm_mapper = Some Map.empty, mm_frames = Some (small_fr [1052672] []),
     mm_bytes = (\<lambda>_. 0xCC), mm_flushes = 0\<rparr>"

theorem search_is_first_fit_witness:
  "search_free_addr_from fun_mapper small_state 2 [0, 4096, 8192] = Inr (Some 4096)"
  using search_is_first_fit[of small_state Map.empty 2 fun_mapper "[0, 4096, 8192]"]
  by (simp add: small_state_def fun_mapper_def)

lemma small_map_call:
  "map_pages_from fun_mapper 4273995792 32 (page_range 65536 81920) small_state
     = Inr (65552, small_state\<lparr>mm_mapper := Some [65536 \<mapsto> 4273995776], mm_flushes := 1\<rparr>)"
  by (simp add: map_pages_from_def small_state_def fun_mapper_def align_down_def phys_new_def num_of_pages_def
      search_free_addr_from_def page_range_def available_def map_one_def virt_add_def canonical_def upt_conv_Cons)

theorem map_pages_from_sound_witness:
  "pt_translate fun_mapper [65536 \<mapsto> 4273995776] (65552 + 32) = Some (4273995792 + 32)"
proof -
  have pt: "mm_mapper small_state = Some Map.empty" by (simp add: small_state_def)
  obtain pt' where "[65536 \<mapsto> 4273995776] = pt'" "\<forall>k. k \<le> 32 \<longrightarrow> pt_translate fun_mapper pt' (65552 + k) = Some (4273995792 + k)"
    using map_pages_from_sound[OF fun_mapper_spec pt small_map_call] by auto
  then show ?thesis by blast
qed

lemma small_lazy_call:
  "lazy_map fun_mapper (MANAGED_START + 5) small_state
     = Inr (True, small_state\<lparr>mm_mapper := Some [MANAGED_START \<mapsto> 1052672], mm_frames := Some (small_fr [] []), mm_flushes := 1,
         mm_bytes := (\<lambda>a. if MANAGED_START \<le> a \<and> a < MANAGED_START + 4096 then 0 else 0xCC)\<rparr>)"
  by (simp add: lazy_map_def small_state_def fun_mapper_def align_down_def allocate_frame_def phys_new_def
      MANAGED_START_def MANAGED_END_def fun_eq_iff)

theorem lazy_map_sound_witness:
  "\<exists>pt'. pt_translate fun_mapper pt' (MANAGED_START + 5) = Some (1052672 + (MANAGED_START + 5) mod 4096)"
proof -
  have pt: "mm_mapper small_state = Some Map.empty" by (simp add: small_state_def)
  show ?thesis using lazy_map_sound[OF fun_mapper_spec pt small_lazy_call]
    by (auto simp: small_state_def allocate_frame_def phys_new_def align_down_def)
qed

end
