(* ===== verification/Contracts.thy ===== *)
theory Contracts
  imports Prelude
begin

text \<open>
  The interfaces several components share, as locales.

  \<^item> \<open>machine\<close>: a device-side state machine that takes one input byte (or event) at a time and
    answers; its contract is an invariant every step keeps. \<open>absorbing_machine\<close> adds a set of
    states that are never left and that stay silent.
  \<^item> \<open>ring\<close>: a cursor that walks round a ring of descriptors or a circular log.
  \<^item> \<open>bits_codec\<close>: an enumeration stored in the bits of a register, decoded by
    \<open>try_from_bits\<close> and encoded by \<open>into_bits\<close>.
  \<^item> \<open>registering_poll\<close>: a poll function that has registered the waker whenever it is not ready.

  Each is interpreted on the model's own definitions in the theory of the component that provides
  the operations.
\<close>

section \<open>State machines driven by inputs\<close>

text \<open>Feed a list of inputs to a step function and collect what it answers.\<close>

fun run_machine :: "('i \<Rightarrow> 's \<Rightarrow> 'o \<times> 's) \<Rightarrow> 'i list \<Rightarrow> 's \<Rightarrow> 'o list \<times> 's" where
  "run_machine step [] s = ([], s)"
| "run_machine step (i # is) s =
     (let (out, s') = step i s; (outs, s'') = run_machine step is s' in (out # outs, s''))"

lemma run_machine_append:
  "run_machine step (is @ js) s =
     (let (xs, s') = run_machine step is s; (ys, s'') = run_machine step js s'
      in (xs @ ys, s''))"
  by (induction "is" arbitrary: s) (auto simp: Let_def split: prod.splits)

lemma length_run_machine [simp]: "length (fst (run_machine step is s)) = length is"
  by (induction "is" arbitrary: s) (auto simp: Let_def split: prod.splits, metis fst_conv)

lemma run_machine_Cons_snd [simp]:
  "snd (run_machine step (b # bs) s) = snd (run_machine step bs (snd (step b s)))"
  by (simp add: Let_def case_prod_beta)

locale machine =
  fixes step :: "'i \<Rightarrow> 's \<Rightarrow> 'o \<times> 's"
    and inv :: "'s \<Rightarrow> bool"
  assumes inv_step: "inv s \<Longrightarrow> inv (snd (step i s))"
begin

lemma inv_run: "inv s \<Longrightarrow> inv (snd (run_machine step is s))"
proof (induction "is" arbitrary: s)
  case (Cons i "is")
  from Cons.IH[OF inv_step[OF Cons.prems, of i]] show ?case
    by (simp add: Let_def case_prod_beta)
qed simp

end

locale absorbing_machine = machine step inv
  for step :: "'i \<Rightarrow> 's \<Rightarrow> 'o \<times> 's" and inv :: "'s \<Rightarrow> bool" +
  fixes dead :: "'s \<Rightarrow> bool" and quiet :: 'o
  assumes dead_step: "dead s \<Longrightarrow> step i s = (quiet, s)"
begin

lemma dead_run: "dead s \<Longrightarrow> run_machine step is s = (replicate (length is) quiet, s)"
  by (induction "is") (simp_all add: dead_step)

end

section \<open>Ring cursors\<close>

text \<open>
  A cursor advanced by \<open>(cur + 1) mod n\<close>. After any number of advances it is inside the ring,
  and \<open>n\<close> consecutive advances visit each slot once, which is what lets a driver reuse the slot
  under the cursor after a full turn.
\<close>

locale ring =
  fixes advance :: "nat \<Rightarrow> nat" and n :: nat
  assumes n_pos: "0 < n"
    and advance_mod: "cur < n \<Longrightarrow> advance cur = (cur + 1) mod n"
begin

lemma advance_less: "cur < n \<Longrightarrow> advance cur < n"
  using n_pos by (simp add: advance_mod)

lemma advance_pow: "cur < n \<Longrightarrow> (advance ^^ k) cur = (cur + k) mod n"
proof (induction k)
  case (Suc k)
  then have "(advance ^^ Suc k) cur = ((cur + k) mod n + 1) mod n"
    using n_pos by (simp add: advance_mod)
  then show ?case by (simp add: mod_Suc_eq)
qed simp

lemma advance_turn: "cur < n \<Longrightarrow> (advance ^^ n) cur = cur"
  by (simp add: advance_pow)

lemma advance_distinct:
  assumes "cur < n" "i < k" "k < i + n"
  shows "(advance ^^ i) cur \<noteq> (advance ^^ k) cur"
proof
  assume "(advance ^^ i) cur = (advance ^^ k) cur"
  then have "(cur + k) mod n = (cur + i) mod n" using assms(1) by (simp add: advance_pow)
  then have "n dvd cur + k - (cur + i)" using assms(2) by (subst (asm) mod_eq_dvd_iff_nat) auto
  then have "n \<le> k - i" using assms(2) by (intro dvd_imp_le) auto
  then show False using assms(2,3) by linarith
qed

lemma advance_onto:
  assumes "cur < n" "slot < n"
  shows "\<exists>k<n. (advance ^^ k) cur = slot"
proof -
  have "(cur + (slot + n - cur) mod n) mod n = (cur + (slot + n - cur)) mod n"
    by (simp add: mod_add_right_eq)
  also have "\<dots> = slot" using assms by simp
  finally show ?thesis using assms n_pos by (intro exI[of _ "(slot + n - cur) mod n"]) (simp add: advance_pow)
qed

end

section \<open>Enumerations stored in register bits\<close>

text \<open>
  \<open>encode\<close> fits in the \<open>width\<close> bits of the field and \<open>decode\<close> reads it back; the derived facts
  are what makes a register that was written with one value read back as that value.
\<close>

locale bits_codec =
  fixes encode :: "'a \<Rightarrow> u8" and decode :: "u8 \<Rightarrow> 'e + 'a" and width :: nat
  assumes encode_fits: "unat (encode x) < 2 ^ width"
    and decode_encode: "decode (encode x) = Inr x"
begin

lemma encode_inj: "encode x = encode y \<longleftrightarrow> x = y"
  using decode_encode by (metis sum.inject(2))

end

section \<open>Poll functions\<close>

text \<open>
  A future that is polled again only after its waker was called. Between two polls the environment
  changes the state; \<open>await\<close> polls until the future is ready or the given changes are used up.
\<close>

datatype 'r poll = Ready 'r | Pending

fun await :: "('s \<Rightarrow> 'r poll \<times> 's) \<Rightarrow> ('s \<Rightarrow> 's) list \<Rightarrow> 's \<Rightarrow> 'r poll \<times> 's" where
  "await poll [] s = poll s"
| "await poll (e # es) s =
     (case poll s of (Ready r, t) \<Rightarrow> (Ready r, t) | (Pending, t) \<Rightarrow> await poll es (e t))"

text \<open>
  The contract of a poll function: when it is not ready it has registered the waker; then a task that
  waits for it is never asleep unregistered.
\<close>

locale registering_poll =
  fixes poll :: "'s \<Rightarrow> 'r poll \<times> 's" and registered :: "'s \<Rightarrow> bool"
  assumes pending_registered: "poll s = (Pending, t) \<Longrightarrow> registered t"
begin

lemma await_registered: "await poll es s = (Pending, t) \<Longrightarrow> registered t"
  by (induction es arbitrary: s) (auto split: prod.splits poll.splits intro: pending_registered)

end

end
