(* ===== verification/Mouse.thy ===== *)
theory Mouse
  imports Contracts
begin

text \<open>
  The PS/2 mouse decoder, \<open>crates/i8042/src/mouse.rs\<close>: a state machine that collects three-byte
  packets and turns them into absolute coordinates that saturate at the edges of \<open>u16\<close>. The
  \<open>i16\<close> deltas are integers; \<open>get_signed_9_bounds\<close> shows that they and their negation fit.
\<close>

section \<open>Model\<close>

datatype MouseKind = MouseStandard | MouseScroll | MouseFiveButton

datatype mouse_wait =
    MAck
  | MIdle
  | MWaitByte2 u8
  | MWaitByte3 u8 u8

record MouseState =
  ms_x :: u16
  ms_y :: u16
  ms_left :: bool
  ms_right :: bool
  ms_middle :: bool

record Mouse =
  mouse_wait_state :: mouse_wait
  mouse_state :: MouseState

definition Mouse_new :: "MouseKind \<Rightarrow> u8 option \<times> Mouse" where
  "Mouse_new kind =
     (Some 0xF4,
      \<lparr>mouse_wait_state = MAck,
       mouse_state = \<lparr>ms_x = 0, ms_y = 0, ms_left = False, ms_right = False, ms_middle = False\<rparr>\<rparr>)"

definition get_signed_9 :: "bool \<Rightarrow> bool \<Rightarrow> u8 \<Rightarrow> int" where
  "get_signed_9 overflow sign val =
     (if sign then (if overflow then - 256 else uint val - 0x100)
      else if overflow then 256 else uint val)"

text \<open>\<open>u16::saturating_add_signed\<close>.\<close>

definition saturating_add_signed :: "u16 \<Rightarrow> int \<Rightarrow> u16" where
  "saturating_add_signed v d = word_of_int (max 0 (min 65535 (uint v + d)))"

definition Mouse_handle_data :: "u8 \<Rightarrow> Mouse \<Rightarrow> MouseState option \<times> Mouse" where
  "Mouse_handle_data data self =
     (case mouse_wait_state self of
        MAck \<Rightarrow> (None, self\<lparr>mouse_wait_state := MIdle\<rparr>)
      | MIdle \<Rightarrow>
          (None, if data AND push_bit 3 1 \<noteq> 0 then self\<lparr>mouse_wait_state := MWaitByte2 data\<rparr> else self)
      | MWaitByte2 b1 \<Rightarrow> (None, self\<lparr>mouse_wait_state := MWaitByte3 b1 data\<rparr>)
      | MWaitByte3 b1 b2 \<Rightarrow>
          (let dx = get_signed_9 (drop_bit 6 b1 AND 1 \<noteq> 0) (drop_bit 4 b1 AND 1 \<noteq> 0) b2;
               dy = get_signed_9 (drop_bit 7 b1 AND 1 \<noteq> 0) (drop_bit 5 b1 AND 1 \<noteq> 0) data;
               new_state = \<lparr>ms_x = saturating_add_signed (ms_x (mouse_state self)) dx,
                            ms_y = saturating_add_signed (ms_y (mouse_state self)) (- dy),
                            ms_left = b1 AND push_bit 0 1 \<noteq> 0,
                            ms_right = b1 AND push_bit 1 1 \<noteq> 0,
                            ms_middle = b1 AND push_bit 2 1 \<noteq> 0\<rparr>;
               self' = self\<lparr>mouse_wait_state := MIdle\<rparr>
           in if new_state \<noteq> mouse_state self
              then (Some new_state, self'\<lparr>mouse_state := new_state\<rparr>)
              else (None, self')))"

section \<open>Deltas and coordinates\<close>

lemma uint_u8_less: "uint (v :: u8) < 256"
  using uint_lt2p[of v] by simp

lemma uint_u16_less: "uint (v :: u16) < 65536"
  using uint_lt2p[of v] by simp

lemma get_signed_9_bounds: "- 256 \<le> get_signed_9 ov sg v \<and> get_signed_9 ov sg v \<le> 256"
  using uint_u8_less[of v] uint_ge_0[of v] unfolding get_signed_9_def by (simp del: uint_ge_0; linarith)

lemma uint_saturating_add_signed:
  "uint (saturating_add_signed v d) = max 0 (min 65535 (uint v + d))"
  by (simp add: saturating_add_signed_def uint_word_of_int_eq take_bit_eq_mod max_def min_def)

text \<open>
  Without the overflow bit, \<open>get_signed_9\<close> is the two's complement reading of the nine bits
  \<open>sign\<close> and \<open>val\<close>.
\<close>

definition signed_9_spec :: "bool \<Rightarrow> u8 \<Rightarrow> int" where
  "signed_9_spec sign val = signed_take_bit 8 (uint val + (if sign then 256 else 0))"

lemma get_signed_9_twos_complement: "get_signed_9 False sg v = signed_9_spec sg v"
proof -
  have b8: "\<not> bit (uint v) 8" using bit_uint_iff[of v 8] by simp
  have id: "take_bit 8 (uint v) = uint v" using uint_u8_less[of v] by (simp add: take_bit_eq_mod)
  show ?thesis
  proof (cases sg)
    case True
    have "signed_take_bit 8 (uint v + 256) = (uint v + 256 + 256) mod 512 - 256"
      by (simp add: signed_take_bit_eq_take_bit_shift take_bit_eq_mod)
    also have "\<dots> = uint v - 256" using uint_u8_less[of v] by (simp)
    finally show ?thesis using True by (simp add: get_signed_9_def signed_9_spec_def)
  next
    case False
    then show ?thesis using b8 id by (simp add: get_signed_9_def signed_9_spec_def signed_take_bit_eq_if_positive)
  qed
qed

section \<open>Packets\<close>

text \<open>
  The abstract contract of the decoder: a packet is three bytes, the first with bit 3 set, and it
  moves the pointer by two nine-bit deltas, clamped to the \<open>u16\<close> range, with \<open>y\<close> growing
  downwards.
\<close>

type_synonym packet = "u8 \<times> u8 \<times> u8"

definition clamp_u16 :: "int \<Rightarrow> int" where
  "clamp_u16 v = max 0 (min 65535 v)"

definition move :: "packet \<Rightarrow> MouseState \<Rightarrow> MouseState" where
  "move p s = (case p of (b1, b2, b3) \<Rightarrow>
     \<lparr>ms_x = word_of_int (clamp_u16 (uint (ms_x s) + get_signed_9 (bit b1 6) (bit b1 4) b2)),
      ms_y = word_of_int (clamp_u16 (uint (ms_y s) - get_signed_9 (bit b1 7) (bit b1 5) b3)),
      ms_left = bit b1 0, ms_right = bit b1 1, ms_middle = bit b1 2\<rparr>)"

fun packet_bytes :: "packet \<Rightarrow> u8 list" where
  "packet_bytes (b1, b2, b3) = [b1, b2, b3]"

definition packet_ok :: "packet \<Rightarrow> bool" where
  "packet_ok p \<longleftrightarrow> bit (fst p) 3"

definition report :: "packet \<Rightarrow> MouseState \<Rightarrow> MouseState option list" where
  "report p s = [None, None, if move p s = s then None else Some (move p s)]"

fun reports :: "packet list \<Rightarrow> MouseState \<Rightarrow> MouseState option list" where
  "reports [] s = []"
| "reports (p # ps) s = report p s @ reports ps (move p s)"

abbreviation idle :: "MouseState \<Rightarrow> Mouse" where
  "idle s \<equiv> \<lparr>mouse_wait_state = MIdle, mouse_state = s\<rparr>"

text \<open>The step with its masks read as bits, and with the new state written as \<open>move\<close>.\<close>

lemma Mouse_handle_data_bits:
  "Mouse_handle_data data self =
     (case mouse_wait_state self of
        MAck \<Rightarrow> (None, self\<lparr>mouse_wait_state := MIdle\<rparr>)
      | MIdle \<Rightarrow> (None, if bit data 3 then self\<lparr>mouse_wait_state := MWaitByte2 data\<rparr> else self)
      | MWaitByte2 b1 \<Rightarrow> (None, self\<lparr>mouse_wait_state := MWaitByte3 b1 data\<rparr>)
      | MWaitByte3 b1 b2 \<Rightarrow>
          (let new_state = move (b1, b2, data) (mouse_state self);
               self' = self\<lparr>mouse_wait_state := MIdle\<rparr>
           in if new_state \<noteq> mouse_state self
              then (Some new_state, self'\<lparr>mouse_state := new_state\<rparr>)
              else (None, self')))"
  unfolding Mouse_handle_data_def mask_bits move_def Let_def saturating_add_signed_def clamp_u16_def
    prod.case diff_conv_add_uminus
  by (rule refl)

lemma run_packet:
  assumes "packet_ok p"
  shows "run_machine Mouse_handle_data (packet_bytes p) (idle s) = (report p s, idle (move p s))"
proof -
  obtain b1 b2 b3 where p: "p = (b1, b2, b3)" by (cases p)
  have "bit b1 3" using assms by (simp add: packet_ok_def p)
  then show ?thesis
    by (simp add: p Mouse_handle_data_bits report_def Let_def)
qed

lemma run_packets:
  assumes "\<forall>p\<in>set ps. packet_ok p"
  shows "run_machine Mouse_handle_data (concat (map packet_bytes ps)) (idle s)
           = (reports ps s, idle (fold move ps s))"
  using assms
proof (induction ps arbitrary: s)
  case (Cons p ps)
  then show ?case by (simp add: run_machine_append run_packet)
qed simp



section \<open>The machine\<close>

text \<open>A byte is remembered as the first of a packet only when its bit 3 is set.\<close>

definition mouse_wf :: "Mouse \<Rightarrow> bool" where
  "mouse_wf m = (case mouse_wait_state m of
     MWaitByte2 b1 \<Rightarrow> bit b1 3 | MWaitByte3 b1 b2 \<Rightarrow> bit b1 3 | _ \<Rightarrow> True)"

interpretation mouse: machine Mouse_handle_data mouse_wf
  by unfold_locales
    (auto simp: mouse_wf_def Mouse_handle_data_bits Let_def split: mouse_wait.splits)

text \<open>
  The pointer never jumps by more than one packet's worth: whatever byte arrives in whatever
  state, each coordinate changes by at most 256 and never wraps around the \<open>u16\<close> range.
\<close>

theorem mouse_step_bounded:
  "\<bar>uint (ms_x (mouse_state (snd (Mouse_handle_data d m)))) - uint (ms_x (mouse_state m))\<bar> \<le> 256
   \<and> \<bar>uint (ms_y (mouse_state (snd (Mouse_handle_data d m)))) - uint (ms_y (mouse_state m))\<bar> \<le> 256"
proof -
  have sat: "\<bar>uint (saturating_add_signed v e) - uint v\<bar> \<le> 256" if "- 256 \<le> e" "e \<le> 256" for v e
    using that uint_u16_less[of v] uint_ge_0[of v]
    unfolding uint_saturating_add_signed by linarith
  have sx: "\<bar>uint (saturating_add_signed v (get_signed_9 ov sg b)) - uint v\<bar> \<le> 256" for v ov sg b
    using sat get_signed_9_bounds by simp
  have sy: "\<bar>uint (saturating_add_signed v (- get_signed_9 ov sg b)) - uint v\<bar> \<le> 256" for v ov sg b
    using sat get_signed_9_bounds[of ov sg b] by simp
  show ?thesis
    by (cases "mouse_wait_state m") (simp_all add: Mouse_handle_data_def Let_def sx sy)
qed

end
