(* ===== verification/Keyboard.thy ===== *)
theory Keyboard
  imports Contracts
begin

text \<open>
  The PS/2 keyboard driver, \<open>crates/i8042/src/keyboard.rs\<close>: after the port has identified a
  keyboard, a handshake asks for its scancode set and enables scanning; then every byte that is
  not a protocol response goes to the scancode decoder.

  The decoder is the crate \<open>pc_keyboard\<close>, a parameter: for each scancode set the state
  \<open>PcKeyboard::new\<close> returns, and the methods \<open>add_byte\<close> (an error, or an optional key event) and
  \<open>process_keyevent\<close> (an optional decoded key). Nothing is assumed about it.
\<close>

section \<open>Model\<close>

record ('k1, 'k2, 'ev, 'er, 'key) pc_keyboard =
  pk_new1 :: 'k1
  pk_new2 :: 'k2
  pk_add_byte1 :: "u8 \<Rightarrow> 'k1 \<Rightarrow> ('er + 'ev option) \<times> 'k1"
  pk_add_byte2 :: "u8 \<Rightarrow> 'k2 \<Rightarrow> ('er + 'ev option) \<times> 'k2"
  pk_process1 :: "'ev \<Rightarrow> 'k1 \<Rightarrow> 'key option \<times> 'k1"
  pk_process2 :: "'ev \<Rightarrow> 'k2 \<Rightarrow> 'key option \<times> 'k2"

datatype KeyboardKind = MF2 | Short | N97 | K122 | MF2Emul | JapG | JapP | JapA | Sun

datatype ('k1, 'k2) SomeKeyboard = Set1 'k1 | Set2 'k2

datatype kbd_init = ReqScancodeSetAck | ReqScancodeSetRsp | EnableAck u8

datatype ('k1, 'k2) kbd_state_t =
    KDisabled
  | KInit kbd_init
  | KNormal "('k1, 'k2) SomeKeyboard"

record ('k1, 'k2) Keyboard =
  kbd_state :: "('k1, 'k2) kbd_state_t"

text \<open>
  \<open>SomeKeyboard::handle_data\<close>; the macro \<open>get_kbd!\<close> selects the decoder of the variant twice.
\<close>

fun SomeKeyboard_handle_data ::
    "('k1, 'k2, 'ev, 'er, 'key) pc_keyboard \<Rightarrow> u8 \<Rightarrow> ('k1, 'k2) SomeKeyboard
       \<Rightarrow> 'key option \<times> ('k1, 'k2) SomeKeyboard" where
  "SomeKeyboard_handle_data pk data (Set1 k) =
     (case pk_add_byte1 pk data k of
        (Inr (Some event), k') \<Rightarrow> (case pk_process1 pk event k' of (key, k'') \<Rightarrow> (key, Set1 k''))
      | (_, k') \<Rightarrow> (None, Set1 k'))"
| "SomeKeyboard_handle_data pk data (Set2 k) =
     (case pk_add_byte2 pk data k of
        (Inr (Some event), k') \<Rightarrow> (case pk_process2 pk event k' of (key, k'') \<Rightarrow> (key, Set2 k''))
      | (_, k') \<Rightarrow> (None, Set2 k'))"

definition Keyboard_new :: "KeyboardKind \<Rightarrow> u8 option \<times> ('k1, 'k2) Keyboard" where
  "Keyboard_new kind =
     (if kind = MF2 then (Some 0xF0, \<lparr>kbd_state = KInit ReqScancodeSetAck\<rparr>)
      else (None, \<lparr>kbd_state = KDisabled\<rparr>))"

text \<open>The bytes that are responses of the device and never scancodes.\<close>

definition kbd_response :: "u8 \<Rightarrow> bool" where
  "kbd_response data \<longleftrightarrow>
     data = 0x00 \<or> data = 0xFF \<or> data = 0xAA \<or> data = 0xFC \<or> data = 0xFD \<or> data = 0xEE
     \<or> data = 0xFA \<or> data = 0xFE"

definition Keyboard_handle_data ::
    "('k1, 'k2, 'ev, 'er, 'key) pc_keyboard \<Rightarrow> u8 \<Rightarrow> ('k1, 'k2) Keyboard
       \<Rightarrow> (u8 option \<times> 'key option) \<times> ('k1, 'k2) Keyboard" where
  "Keyboard_handle_data pk data self =
     (case kbd_state self of
        KDisabled \<Rightarrow> ((None, None), self)
      | KInit init \<Rightarrow>
          (case init of
             ReqScancodeSetAck \<Rightarrow>
               ((Some 0x00, None), self\<lparr>kbd_state := KInit ReqScancodeSetRsp\<rparr>)
           | ReqScancodeSetRsp \<Rightarrow>
               (if data = 1 \<or> data = 2 \<or> data = 3
                then ((Some 0xF4, None), self\<lparr>kbd_state := KInit (EnableAck data)\<rparr>)
                else if data = 0xFA then ((None, None), self)
                else ((None, None), self\<lparr>kbd_state := KDisabled\<rparr>))
           | EnableAck scset \<Rightarrow>
               (if data = 0xFA
                then (if scset = 1
                      then ((None, None), self\<lparr>kbd_state := KNormal (Set1 (pk_new1 pk))\<rparr>)
                      else if scset = 2
                      then ((None, None), self\<lparr>kbd_state := KNormal (Set2 (pk_new2 pk))\<rparr>)
                      else ((None, None), self\<lparr>kbd_state := KDisabled\<rparr>))
                else ((None, None), self\<lparr>kbd_state := KDisabled\<rparr>)))
      | KNormal keyboard \<Rightarrow>
          (if kbd_response data then ((None, None), self)
           else (case SomeKeyboard_handle_data pk data keyboard of
                   (key, keyboard') \<Rightarrow> ((None, key), self\<lparr>kbd_state := KNormal keyboard'\<rparr>))))"

section \<open>The machine\<close>

text \<open>The set remembered while the enable command is acknowledged is 1, 2 or 3.\<close>

definition kbd_wf :: "('k1, 'k2) Keyboard \<Rightarrow> bool" where
  "kbd_wf k = (case kbd_state k of KInit (EnableAck scset) \<Rightarrow> scset = 1 \<or> scset = 2 \<or> scset = 3 | _ \<Rightarrow> True)"

definition kbd_disabled :: "('k1, 'k2) Keyboard \<Rightarrow> bool" where
  "kbd_disabled k \<longleftrightarrow> kbd_state k = KDisabled"

interpretation kbd: absorbing_machine "Keyboard_handle_data pk" kbd_wf kbd_disabled "(None, None)"
  by unfold_locales
    (auto simp: kbd_wf_def kbd_disabled_def Keyboard_handle_data_def
      split: kbd_state_t.splits kbd_init.splits prod.splits)

abbreviation kbd_run where
  "kbd_run pk bytes s \<equiv> run_machine (Keyboard_handle_data pk) bytes \<lparr>kbd_state = s\<rparr>"

abbreviation kbd_final where
  "kbd_final pk bytes s \<equiv> kbd_state (snd (kbd_run pk bytes s))"

abbreviation is_normal where
  "is_normal s \<equiv> \<exists>k. s = KNormal k"

lemma kbd_run_disabled [simp]:
  "kbd_run pk bytes KDisabled = (replicate (length bytes) (None, None), \<lparr>kbd_state = KDisabled\<rparr>)"
  by (rule kbd.dead_run) (simp add: kbd_disabled_def)

text \<open>One step, state by state.\<close>

lemma kbd_step_simps [simp]:
  "Keyboard_handle_data pk b \<lparr>kbd_state = KDisabled\<rparr> = ((None, None), \<lparr>kbd_state = KDisabled\<rparr>)"
  "Keyboard_handle_data pk b \<lparr>kbd_state = KInit ReqScancodeSetAck\<rparr>
     = ((Some 0x00, None), \<lparr>kbd_state = KInit ReqScancodeSetRsp\<rparr>)"
  "Keyboard_handle_data pk b \<lparr>kbd_state = KInit ReqScancodeSetRsp\<rparr>
     = (if b = 1 \<or> b = 2 \<or> b = 3 then ((Some 0xF4, None), \<lparr>kbd_state = KInit (EnableAck b)\<rparr>)
        else ((None, None), \<lparr>kbd_state = if b = 0xFA then KInit ReqScancodeSetRsp else KDisabled\<rparr>))"
  "Keyboard_handle_data pk b \<lparr>kbd_state = KInit (EnableAck scset)\<rparr>
     = ((None, None), \<lparr>kbd_state =
          if b = 0xFA \<and> scset = 1 then KNormal (Set1 (pk_new1 pk))
          else if b = 0xFA \<and> scset = 2 then KNormal (Set2 (pk_new2 pk)) else KDisabled\<rparr>)"
  "Keyboard_handle_data pk b \<lparr>kbd_state = KNormal k\<rparr>
     = (if kbd_response b then ((None, None), \<lparr>kbd_state = KNormal k\<rparr>)
        else ((None, fst (SomeKeyboard_handle_data pk b k)),
              \<lparr>kbd_state = KNormal (snd (SomeKeyboard_handle_data pk b k))\<rparr>))"
  by (simp_all add: Keyboard_handle_data_def case_prod_beta)

section \<open>The decoder sees exactly the scancodes\<close>

definition keys_of :: "(u8 option \<times> 'key option) list \<Rightarrow> 'key list" where
  "keys_of outs = List.map_filter snd outs"

definition replies_of :: "(u8 option \<times> 'key option) list \<Rightarrow> u8 list" where
  "replies_of outs = List.map_filter fst outs"

lemma keys_of_simps [simp]:
  "keys_of [] = []" "keys_of ((r, None) # os) = keys_of os"
  "keys_of ((r, Some k) # os) = k # keys_of os"
  by (simp_all add: keys_of_def List.map_filter_simps)

lemma replies_of_simps [simp]:
  "replies_of [] = []" "replies_of ((None, k) # os) = replies_of os"
  "replies_of ((Some r, k) # os) = r # replies_of os"
  by (simp_all add: replies_of_def List.map_filter_simps)

text \<open>
  Once the keyboard is in its normal state it stays there, and the keys it reports are
  those the scancode decoder reports on the input with the device's response bytes removed; it
  sends nothing back.
\<close>

theorem keyboard_decodes_scancodes:
  "case kbd_run pk bytes (KNormal k) of (outs, self) \<Rightarrow>
   case run_machine (SomeKeyboard_handle_data pk) (filter (\<lambda>b. \<not> kbd_response b) bytes) k of (keys, k') \<Rightarrow>
     kbd_state self = KNormal k' \<and> keys_of outs = List.map_filter id keys \<and> replies_of outs = []"
proof (induction bytes arbitrary: k)
  case (Cons b bs)
  show ?case
  proof (cases "kbd_response b")
    case True
    then show ?thesis using Cons[of k] by (simp add: case_prod_beta)
  next
    case False
    obtain key k' where h: "SomeKeyboard_handle_data pk b k = (key, k')" by force
    show ?thesis using Cons[of k'] False h
      by (cases key) (simp_all add: case_prod_beta List.map_filter_simps)
  qed
qed (simp add: List.map_filter_simps)

section \<open>The handshake\<close>

text \<open>The byte sequences that take a fresh keyboard to its normal state.\<close>

definition kbd_handshake :: "u8 list \<Rightarrow> bool" where
  "kbd_handshake bytes \<longleftrightarrow>
     (\<exists>ack n scset rest. bytes = ack # replicate n 0xFA @ scset # 0xFA # rest \<and> (scset = 1 \<or> scset = 2))"

lemma kbd_final_normal: "is_normal (kbd_final pk bytes (KNormal k))"
  by (induction bytes arbitrary: k) (simp_all del: run_machine.simps(2))

lemma kbd_final_enable:
  "is_normal (kbd_final pk bytes (KInit (EnableAck scset)))
     \<longleftrightarrow> (scset = 1 \<or> scset = 2) \<and> (\<exists>rest. bytes = 0xFA # rest)"
  by (cases bytes) (auto simp: kbd_final_normal simp del: run_machine.simps(2))

lemma replicate_Cons_conv:
  "(\<exists>n. x # xs = replicate n a @ ys) \<longleftrightarrow> (x = a \<and> (\<exists>n. xs = replicate n a @ ys)) \<or> x # xs = ys"
proof
  assume "\<exists>n. x # xs = replicate n a @ ys"
  then obtain n where "x # xs = replicate n a @ ys" by blast
  then show "(x = a \<and> (\<exists>n. xs = replicate n a @ ys)) \<or> x # xs = ys" by (cases n) auto
next
  assume "(x = a \<and> (\<exists>n. xs = replicate n a @ ys)) \<or> x # xs = ys"
  then show "\<exists>n. x # xs = replicate n a @ ys"
    by (metis append_Cons append_Nil replicate_0 replicate_Suc)
qed

lemma kbd_final_rsp:
  "is_normal (kbd_final pk bytes (KInit ReqScancodeSetRsp))
     \<longleftrightarrow> (\<exists>scset rest. (scset = 1 \<or> scset = 2) \<and> (\<exists>n. bytes = replicate n 0xFA @ scset # 0xFA # rest))"
proof (induction bytes)
  case (Cons b bs)
  then show ?case
    by (cases "b = 1 \<or> b = 2 \<or> b = 3")
      (auto simp: replicate_Cons_conv kbd_final_enable simp del: run_machine.simps(2))
qed simp

text \<open>
  A fresh MF2 keyboard reaches its normal state exactly on the byte sequences of the
  handshake: an acknowledgement, further acknowledgements (if any), a scancode set of 1 or 2, and
  the acknowledgement of the enable command. The commands sent are then \<open>0xF0 0x00 0xF4\<close>; any
  other keyboard kind stays disabled for ever.
\<close>

theorem keyboard_handshake_exact:
  "(is_normal (kbd_state (snd (run_machine (Keyboard_handle_data pk) bytes (snd (Keyboard_new kind)))))
      \<longleftrightarrow> kind = MF2 \<and> kbd_handshake bytes)
   \<and> (\<forall>ack n scset. scset \<in> {1, 2} \<longrightarrow>
        replies_of ((fst (Keyboard_new MF2), None) #
          fst (run_machine (Keyboard_handle_data pk) (ack # replicate n 0xFA @ [scset, 0xFA])
            (snd (Keyboard_new MF2)))) = [0xF0, 0x00, 0xF4])"
proof
  show "is_normal (kbd_state (snd (run_machine (Keyboard_handle_data pk) bytes (snd (Keyboard_new kind)))))
      \<longleftrightarrow> kind = MF2 \<and> kbd_handshake bytes"
  proof (cases bytes)
    case (Cons b bs)
    then show ?thesis
      by (auto simp: Keyboard_new_def kbd_handshake_def kbd_final_rsp simp del: run_machine.simps(2))
  qed (simp add: Keyboard_new_def kbd_handshake_def)
  have acks: "replies_of (fst (kbd_run pk (replicate n 0xFA @ [scset, 0xFA]) (KInit ReqScancodeSetRsp))) = [0xF4]"
    if "scset = 1 \<or> scset = 2" for n scset
    using that by (induction n) (auto simp: case_prod_beta)
  show "\<forall>ack n scset. scset \<in> {1, 2} \<longrightarrow>
        replies_of ((fst (Keyboard_new MF2), None) #
          fst (run_machine (Keyboard_handle_data pk) (ack # replicate n 0xFA @ [scset, 0xFA])
            (snd (Keyboard_new MF2)))) = [0xF0, 0x00, 0xF4]"
    using acks by (simp add: Keyboard_new_def case_prod_beta)
qed

text \<open>A decoder whose keys are the bytes themselves.\<close>

definition echo_keyboard :: "(unit, unit, u8, unit, u8) pc_keyboard" where
  "echo_keyboard =
     \<lparr>pk_new1 = (), pk_new2 = (),
      pk_add_byte1 = (\<lambda>b k. (Inr (Some b), k)), pk_add_byte2 = (\<lambda>b k. (Inr (Some b), k)),
      pk_process1 = (\<lambda>e k. (Some e, k)), pk_process2 = (\<lambda>e k. (Some e, k))\<rparr>"

theorem keyboard_handshake_exact_witness:
  "is_normal (kbd_state (snd (run_machine (Keyboard_handle_data echo_keyboard) [0xFA, 0xFA, 2, 0xFA, 0x1C]
     (snd (Keyboard_new MF2)))))
   \<and> replies_of ((fst (Keyboard_new MF2), None) #
          fst (run_machine (Keyboard_handle_data echo_keyboard) [0xFA, 0xFA, 2, 0xFA]
            (snd (Keyboard_new MF2)))) = [0xF0, 0x00, 0xF4]"
proof
  have hs: "kbd_handshake [0xFA, 0xFA, 2, 0xFA, 0x1C]"
    unfolding kbd_handshake_def
    by (intro exI[of _ "0xFA"] exI[of _ 1] exI[of _ 2] exI[of _ "[0x1C]"]) simp
  show "is_normal (kbd_state (snd (run_machine (Keyboard_handle_data echo_keyboard) [0xFA, 0xFA, 2, 0xFA, 0x1C]
     (snd (Keyboard_new MF2)))))"
    using keyboard_handshake_exact[of echo_keyboard "[0xFA, 0xFA, 2, 0xFA, 0x1C]" MF2] hs by blast
  show "replies_of ((fst (Keyboard_new MF2), None) #
          fst (run_machine (Keyboard_handle_data echo_keyboard) [0xFA, 0xFA, 2, 0xFA]
            (snd (Keyboard_new MF2)))) = [0xF0, 0x00, 0xF4]"
    using conjunct2[OF keyboard_handshake_exact, rule_format, of 2 echo_keyboard "0xFA" 1] by simp
qed

end
