(* ===== verification/I8042.thy ===== *)
theory I8042
  imports Mouse Keyboard
begin

text \<open>
  The 8042 controller driver, \<open>crates/i8042/src/lib.rs\<close>: bounded waiting on the status register,
  initialisation, the enumeration state machine of a port, and the interrupt handler.

  The trait \<open>Impl\<close> is the record \<open>impl_8042\<close> of the four port accesses, on a hardware state
  \<open>'h\<close>; nothing is assumed of it except where a theorem says so.
\<close>

section \<open>Data\<close>

datatype i8042_error = TimedOut | SelfTestFailed | NoPorts

datatype Irq = Irq1 | Irq12

record 'h impl_8042 =
  im_write_cmd :: "u8 \<Rightarrow> 'h \<Rightarrow> 'h"
  im_read_status :: "'h \<Rightarrow> u8 \<times> 'h"
  im_write_data :: "u8 \<Rightarrow> 'h \<Rightarrow> 'h"
  im_read_data :: "'h \<Rightarrow> u8 \<times> 'h"

datatype 'key Change = ChangeKeyboard 'key | ChangeMouse MouseState

datatype EnumWaitState = DSAck | IdentAck | IdentB1 | IdentB2 u8

datatype ('k1, 'k2) PortState =
    PNone
  | PUnknown
  | PEnumerating EnumWaitState
  | PKeyboard "('k1, 'k2) Keyboard"
  | PMouse Mouse

record ('k1, 'k2) Port =
  port_state :: "('k1, 'k2) PortState"

record ('h, 'k1, 'k2) Driver8042 =
  drv_impl :: 'h
  drv_port1 :: "('k1, 'k2) Port option"
  drv_port2 :: "('k1, 'k2) Port option"

section \<open>Port\<close>

definition Port_new :: "('k1, 'k2) Port" where
  "Port_new = \<lparr>port_state = PNone\<rparr>"

definition Port_new_keyboard :: "KeyboardKind \<Rightarrow> u8 option \<times> ('k1, 'k2) PortState option" where
  "Port_new_keyboard kind = (case Keyboard_new kind of (data, keyboard) \<Rightarrow> (data, Some (PKeyboard keyboard)))"

definition Port_new_mouse :: "MouseKind \<Rightarrow> u8 option \<times> ('k1, 'k2) PortState option" where
  "Port_new_mouse kind = (case Mouse_new kind of (data, mouse) \<Rightarrow> (data, Some (PMouse mouse)))"

text \<open>The part of \<open>handle_data\<close> that enumerates the device: the reply and the next state.\<close>

definition Port_enumerate :: "EnumWaitState \<Rightarrow> u8 \<Rightarrow> u8 option \<times> ('k1, 'k2) PortState option" where
  "Port_enumerate state data =
     (case state of
        DSAck \<Rightarrow>
          (if data = 0xFA then (Some 0xF2, Some (PEnumerating IdentAck))
           else if data = 0x00 then (None, None)
           else (None, Some PUnknown))
      | IdentAck \<Rightarrow>
          (if data = 0xFA then (None, Some (PEnumerating IdentB1)) else (None, Some PUnknown))
      | IdentB1 \<Rightarrow>
          (if data = 0x00 then Port_new_mouse MouseStandard
           else if data = 0x03 then Port_new_mouse MouseScroll
           else if data = 0x04 then Port_new_mouse MouseFiveButton
           else if data = 0xAB then (None, Some (PEnumerating (IdentB2 data)))
           else (None, Some PUnknown))
      | IdentB2 b1 \<Rightarrow>
          (if b1 = 0xAB \<and> data = 0x41 then Port_new_keyboard MF2Emul
           else if b1 = 0xAB \<and> data = 0x83 then Port_new_keyboard MF2
           else if b1 = 0xAB \<and> data = 0x84 then Port_new_keyboard Short
           else if b1 = 0xAB \<and> data = 0x85 then Port_new_keyboard N97
           else if b1 = 0xAB \<and> data = 0x86 then Port_new_keyboard K122
           else if b1 = 0xAB \<and> data = 0x90 then Port_new_keyboard JapG
           else if b1 = 0xAB \<and> data = 0x91 then Port_new_keyboard JapP
           else if b1 = 0xAB \<and> data = 0x92 then Port_new_keyboard JapA
           else if b1 = 0xAB \<and> data = 0xA1 then Port_new_keyboard Sun
           else if b1 = 0xAB \<and> data = 0xC1 then Port_new_keyboard MF2Emul
           else (None, Some PUnknown)))"

definition Port_handle_data ::
    "('k1, 'k2, 'ev, 'er, 'key) pc_keyboard \<Rightarrow> u8 \<Rightarrow> ('k1, 'k2) Port
       \<Rightarrow> (u8 option \<times> 'key Change option) \<times> ('k1, 'k2) Port" where
  "Port_handle_data pk data self =
     (let enumerated = (\<lambda>(rv, state).
            ((rv, None), case state of None \<Rightarrow> self | Some st \<Rightarrow> self\<lparr>port_state := st\<rparr>))
      in case port_state self of
        PNone \<Rightarrow>
          enumerated (if data = 0xFA then (None, None)
                      else if data = 0xAA then (Some 0xF5, Some (PEnumerating DSAck))
                      else (None, None))
      | PUnknown \<Rightarrow> enumerated (None, None)
      | PEnumerating state \<Rightarrow> enumerated (Port_enumerate state data)
      | PKeyboard keyboard \<Rightarrow>
          (case Keyboard_handle_data pk data keyboard of
             ((reply, key), keyboard') \<Rightarrow>
               ((reply, map_option ChangeKeyboard key), self\<lparr>port_state := PKeyboard keyboard'\<rparr>))
      | PMouse mouse \<Rightarrow>
          (case Mouse_handle_data data mouse of
             (state, mouse') \<Rightarrow>
               ((None, map_option ChangeMouse state), self\<lparr>port_state := PMouse mouse'\<rparr>)))"

section \<open>Driver8042: waiting and transfers\<close>

definition Driver8042_new :: "'h \<Rightarrow> ('h, 'k1, 'k2) Driver8042" where
  "Driver8042_new impl = \<lparr>drv_impl = impl, drv_port1 = None, drv_port2 = None\<rparr>"

definition poll_out :: "'h impl_8042 \<Rightarrow> 'h \<Rightarrow> bool \<times> 'h" where
  "poll_out im h = (case im_read_status im h of (st, h') \<Rightarrow> (st AND 2 = 0, h'))"

definition poll_in :: "'h impl_8042 \<Rightarrow> 'h \<Rightarrow> bool \<times> 'h" where
  "poll_in im h = (case im_read_status im h of (st, h') \<Rightarrow> (st AND 1 \<noteq> 0, h'))"

text \<open>
  The loop shared by \<open>wait_out\<close> and \<open>wait_in\<close>; the counter is what is left of \<open>MAX_SPINS\<close>, which
  is positive at the first call, so that the first equation is never used.
\<close>

fun wait_loop :: "('h \<Rightarrow> bool \<times> 'h) \<Rightarrow> nat \<Rightarrow> 'h \<Rightarrow> (i8042_error + unit) \<times> 'h" where
  "wait_loop poll 0 h = (Inl TimedOut, h)"
| "wait_loop poll (Suc left) h =
     (case poll h of (ready, h') \<Rightarrow>
        if ready then (Inr (), h')
        else if left = 0 then (Inl TimedOut, h')
        else wait_loop poll left h')"

definition wait_out :: "'h impl_8042 \<Rightarrow> ('h, i8042_error, unit) io" where
  "wait_out im h = Some (wait_loop (poll_out im) 1000 h)"

definition wait_in :: "'h impl_8042 \<Rightarrow> ('h, i8042_error, unit) io" where
  "wait_in im h = Some (wait_loop (poll_in im) (100 * 1000) h)"

definition write_cmd :: "'h impl_8042 \<Rightarrow> u8 \<Rightarrow> ('h, i8042_error, unit) io" where
  "write_cmd im cmd = io_bind (wait_out im) (\<lambda>_. io_modify (im_write_cmd im cmd))"

definition write_data :: "'h impl_8042 \<Rightarrow> u8 \<Rightarrow> ('h, i8042_error, unit) io" where
  "write_data im data = io_bind (wait_out im) (\<lambda>_. io_modify (im_write_data im data))"

definition read_data :: "'h impl_8042 \<Rightarrow> ('h, i8042_error, u8) io" where
  "read_data im = io_bind (wait_in im) (\<lambda>_. io_step (im_read_data im))"

text \<open>\<open>flush\<close> reads until the output buffer is empty; on a device that never runs dry it never ends.\<close>

partial_function (option) flush_loop :: "'h impl_8042 \<Rightarrow> 'h \<Rightarrow> 'h option" where
  "flush_loop im h =
     (case poll_in im h of (ready, h') \<Rightarrow>
        if ready then flush_loop im (snd (im_read_data im h')) else Some h')"

definition flush :: "'h impl_8042 \<Rightarrow> ('h, i8042_error, unit) io" where
  "flush im h = map_option (\<lambda>h'. (Inr (), h')) (flush_loop im h)"

section \<open>Driver8042: initialisation and interrupts\<close>

text \<open>
  A transfer of the driver acts on its hardware only; \<open>io_try\<close> is a \<open>match\<close> on a \<open>Result\<close>, which
  keeps the error as a value.
\<close>

definition on_impl :: "('h, 'e, 'a) io \<Rightarrow> (('h, 'k1, 'k2) Driver8042, 'e, 'a) io" where
  "on_impl m d = map_option (\<lambda>(r, h). (r, d\<lparr>drv_impl := h\<rparr>)) (m (drv_impl d))"

definition io_try :: "('s, 'e, 'a) io \<Rightarrow> ('s, 'e, 'e + 'a) io" where
  "io_try m s = map_option (\<lambda>(r, s'). (Inr r, s')) (m s)"

definition Driver8042_init :: "'h impl_8042 \<Rightarrow> (('h, 'k1, 'k2) Driver8042, i8042_error, unit) io" where
  "Driver8042_init im =
     (let cmd = (\<lambda>c. on_impl (write_cmd im c));
          write = (\<lambda>b. on_impl (write_data im b));
          read = on_impl (read_data im);
          flush = on_impl (flush im)
      in io_bind (cmd 0xAD) (\<lambda>_.
         io_bind (cmd 0xA7) (\<lambda>_.
         io_bind flush (\<lambda>_.
         io_bind (cmd 0x20) (\<lambda>_.
         io_bind read (\<lambda>config.
           let config = config AND NOT (push_bit 0 1 OR push_bit 1 1 OR push_bit 6 1);
               can_have_second_port = config AND push_bit 5 1 \<noteq> 0
           in
         io_bind (cmd 0x60) (\<lambda>_.
         io_bind (write config) (\<lambda>_.
         io_bind (cmd 0xAA) (\<lambda>_.
         io_bind (io_try read) (\<lambda>test.
         io_bind (if test = Inr 0x55 then io_return () else io_fail SelfTestFailed) (\<lambda>_.
         io_bind (if can_have_second_port
                  then io_bind (cmd 0xA8) (\<lambda>_.
                       io_bind (cmd 0x20) (\<lambda>_.
                       io_bind read (\<lambda>config.
                       io_bind (cmd 0xA7) (\<lambda>_.
                         io_return (config AND push_bit 5 1 = 0)))))
                  else io_return False) (\<lambda>has_second_port.
         io_bind flush (\<lambda>_.
         io_bind (cmd 0xAB) (\<lambda>_.
         io_bind read (\<lambda>r1.
           let port1_works = r1 = 0x00 in
         io_bind (if has_second_port
                  then io_bind (cmd 0xA9) (\<lambda>_. io_bind read (\<lambda>r2. io_return (r2 = 0x00)))
                  else io_return False) (\<lambda>port2_works.
         io_bind (if \<not> port1_works \<and> \<not> port2_works then io_fail NoPorts else io_return ()) (\<lambda>_.
         io_bind (cmd 0x20) (\<lambda>_.
         io_bind read (\<lambda>config.
           let config = (if port1_works then config OR push_bit 0 1 else config);
               config = (if port2_works then config OR push_bit 1 1 else config)
           in
         io_bind (cmd 0x60) (\<lambda>_.
         io_bind (write config) (\<lambda>_.
         io_bind (io_when port1_works
                   (io_bind (io_modify (drv_port1_update (\<lambda>_. Some Port_new))) (\<lambda>_.
                    io_bind (cmd 0xAE) (\<lambda>_. write 0xFF)))) (\<lambda>_.
           io_when port2_works
             (io_bind (io_modify (drv_port2_update (\<lambda>_. Some Port_new))) (\<lambda>_.
              io_bind (cmd 0xA8) (\<lambda>_.
              io_bind (cmd 0xD4) (\<lambda>_. write 0xFF))))))))))))))))))))))))))"

text \<open>
  The handler does not wait: it looks at the status register once and, when it replies, writes
  straight to the ports.
\<close>

definition Driver8042_interrupt ::
    "'h impl_8042 \<Rightarrow> ('k1, 'k2, 'ev, 'er, 'key) pc_keyboard \<Rightarrow> Irq \<Rightarrow> ('h, 'k1, 'k2) Driver8042
       \<Rightarrow> 'key Change option \<times> ('h, 'k1, 'k2) Driver8042" where
  "Driver8042_interrupt im pk irq self =
     (let mask = (case irq of Irq1 \<Rightarrow> 0x01 | Irq12 \<Rightarrow> 0x20);
          (st, h1) = im_read_status im (drv_impl self)
      in if st AND mask = 0 then (None, self\<lparr>drv_impl := h1\<rparr>)
         else
           (let (data, h2) = im_read_data im h1;
                port = (case irq of Irq1 \<Rightarrow> drv_port1 self | Irq12 \<Rightarrow> drv_port2 self)
            in case port of
                 Some port \<Rightarrow>
                   (let ((reply, key), port') = Port_handle_data pk data port;
                        h3 = (case reply of
                                Some data \<Rightarrow>
                                  im_write_data im data (if irq = Irq12 then im_write_cmd im 0xD4 h2 else h2)
                              | None \<Rightarrow> h2);
                        self' = (case irq of
                                   Irq1 \<Rightarrow> self\<lparr>drv_impl := h3, drv_port1 := Some port'\<rparr>
                                 | Irq12 \<Rightarrow> self\<lparr>drv_impl := h3, drv_port2 := Some port'\<rparr>)
                    in (key, self'))
               | None \<Rightarrow> (None, self\<lparr>drv_impl := h2\<rparr>)))"

section \<open>Bounded waiting\<close>

text \<open>The hardware after \<open>i\<close> polls, and whether the \<open>i\<close>-th poll finds it ready.\<close>

definition polled :: "('h \<Rightarrow> bool \<times> 'h) \<Rightarrow> 'h \<Rightarrow> nat \<Rightarrow> 'h" where
  "polled poll h i = ((snd \<circ> poll) ^^ i) h"

definition ready_at :: "('h \<Rightarrow> bool \<times> 'h) \<Rightarrow> 'h \<Rightarrow> nat \<Rightarrow> bool" where
  "ready_at poll h i = fst (poll (polled poll h i))"

lemma polled_Suc: "polled poll h (Suc i) = polled poll (snd (poll h)) i"
  by (simp add: polled_def funpow_swap1)

lemma ready_at_Suc: "ready_at poll h (Suc i) = ready_at poll (snd (poll h)) i"
  by (simp add: ready_at_def polled_Suc)

definition first_ready :: "('h \<Rightarrow> bool \<times> 'h) \<Rightarrow> 'h \<Rightarrow> nat" where
  "first_ready poll h = (LEAST i. ready_at poll h i)"

text \<open>The loop stops after the first ready poll, or after all of them when none is ready.\<close>

lemma wait_loop_spec:
  "wait_loop poll n h =
     (if \<exists>i<n. ready_at poll h i then (Inr (), polled poll h (Suc (first_ready poll h)))
      else (Inl TimedOut, polled poll h n))"
proof (induction n arbitrary: h)
  case (Suc n)
  show ?case
  proof (cases "fst (poll h)")
    case True
    then have "ready_at poll h 0" by (simp add: ready_at_def polled_def)
    then show ?thesis using True Least_eq_0[of "ready_at poll h"]
      by (auto simp: case_prod_beta first_ready_def polled_def)
  next
    case False
    then have r0: "\<not> ready_at poll h 0" by (simp add: ready_at_def polled_def)
    have first: "first_ready poll h = Suc (first_ready poll (snd (poll h)))"
      if "ready_at poll (snd (poll h)) i" for i
      using that Least_Suc[of "ready_at poll h" "Suc i"] r0
      by (simp add: first_ready_def ready_at_Suc)
    have "wait_loop poll (Suc n) h = wait_loop poll n (snd (poll h))"
      using False by (cases n) (auto simp: case_prod_beta)
    then show ?thesis using r0 first
      by (auto simp: Suc.IH Ex_less_Suc2 ready_at_Suc polled_Suc)
  qed
qed (simp add: polled_def)

text \<open>
  A command is written only right after a status read that found the input buffer empty:
  \<open>write_cmd\<close> always returns; it writes the command once after the first of at most 1000 polls
  that finds the controller ready, and otherwise fails with \<open>TimedOut\<close> having written nothing.
\<close>

theorem write_cmd_waits:
  "write_cmd im c h =
     Some (if \<exists>i<1000. ready_at (poll_out im) h i
           then (Inr (), im_write_cmd im c (polled (poll_out im) h (Suc (first_ready (poll_out im) h))))
           else (Inl TimedOut, polled (poll_out im) h 1000))"
  by (simp add: write_cmd_def wait_out_def wait_loop_spec io_bind_def)

section \<open>Initialisation\<close>

text \<open>
  The hypothesis under which \<open>flush\<close> ends: the device has finitely many bytes to deliver, a status
  read adds none, and a data read while the output buffer is full takes one away.
\<close>

definition i8042_drains :: "'h impl_8042 \<Rightarrow> ('h \<Rightarrow> nat) \<Rightarrow> bool" where
  "i8042_drains im pending \<longleftrightarrow>
     (\<forall>h. pending (snd (im_read_status im h)) = pending h
        \<and> (fst (im_read_status im h) AND 1 \<noteq> 0 \<longrightarrow>
              pending (snd (im_read_data im (snd (im_read_status im h)))) < pending h))"

lemma flush_loop_returns:
  assumes "i8042_drains im pending"
  shows "\<exists>h'. flush_loop im h = Some h'"
proof (induction "pending h" arbitrary: h rule: less_induct)
  case less
  let ?h1 = "snd (im_read_status im h)"
  show ?case
  proof (cases "fst (im_read_status im h) AND 1 \<noteq> 0")
    case True
    then have "pending (snd (im_read_data im ?h1)) < pending h"
      using assms unfolding i8042_drains_def by blast
    with True less show ?thesis
      by (subst flush_loop.simps) (simp add: poll_in_def case_prod_beta)
  next
    case False
    then show ?thesis by (subst flush_loop.simps) (simp add: poll_in_def case_prod_beta)
  qed
qed

lemma on_impl_ends: "io_ends (\<lambda>_. True) m \<Longrightarrow> io_ends (\<lambda>_. True) (on_impl m)"
  by (fastforce simp: io_ends_def on_impl_def)

lemma io_try_ends: "io_ends P m \<Longrightarrow> io_ends P (io_try m)"
  by (fastforce simp: io_ends_def io_try_def)

lemma io_ends_modify: "io_ends (\<lambda>_. True) (io_modify f)"
  by (simp add: io_ends_def)

lemma transfer_ends:
  "io_ends (\<lambda>_. True) (write_cmd im c)" "io_ends (\<lambda>_. True) (write_data im c)" "io_ends (\<lambda>_. True) (read_data im)"
  by (simp_all add: io_ends_def write_cmd_def write_data_def read_data_def wait_out_def wait_in_def
      io_bind_def wait_loop_spec)

lemma flush_ends: "i8042_drains im pending \<Longrightarrow> io_ends (\<lambda>_. True) (flush im)"
  using flush_loop_returns by (fastforce simp: io_ends_def flush_def)

lemmas i8042_ends = io_ends_intros on_impl_ends io_try_ends io_ends_modify transfer_ends

lemma Driver8042_init_ends: "i8042_drains im pending \<Longrightarrow> io_ends (\<lambda>_. True) (Driver8042_init im)"
  unfolding Driver8042_init_def Let_def by (intro i8042_ends flush_ends)

text \<open>
  On a controller whose output buffer can be drained, initialisation always returns, with
  success or with one of the three errors.
\<close>

theorem i8042_init_returns:
  assumes "i8042_drains im pending"
  shows "\<exists>r d'. Driver8042_init im d = Some (r, d')"
  using Driver8042_init_ends[OF assms] by (auto simp: io_ends_def)

text \<open>Every transfer changes the hardware only and fails only with \<open>TimedOut\<close>.\<close>

definition only_times_out :: "('h, i8042_error, 'a) io \<Rightarrow> bool" where
  "only_times_out m \<longleftrightarrow> (\<forall>h r h'. m h = Some (r, h') \<longrightarrow> r = Inl TimedOut \<or> (\<exists>x. r = Inr x))"

lemma transfer_only_times_out:
  "only_times_out (write_cmd im c)" "only_times_out (write_data im c)"
  "only_times_out (read_data im)" "only_times_out (flush im)"
  by (auto simp: only_times_out_def write_cmd_def write_data_def read_data_def wait_out_def wait_in_def
      flush_def wait_loop_spec io_bind_def split: if_splits)

lemma on_impl_post:
  assumes "only_times_out m"
    and "\<And>h. Q (Inl TimedOut) (d\<lparr>drv_impl := h\<rparr>)"
    and "\<And>h x. Q (Inr x) (d\<lparr>drv_impl := h\<rparr>)"
  shows "io_post Q (on_impl m) d"
  using assms unfolding io_post_def on_impl_def only_times_out_def by fastforce

lemma on_impl_bind_post:
  assumes "only_times_out m"
    and "\<And>h. Q (Inl TimedOut) (d\<lparr>drv_impl := h\<rparr>)"
    and "\<And>h x. io_post Q (f x) (d\<lparr>drv_impl := h\<rparr>)"
  shows "io_post Q (io_bind (on_impl m) f) d"
  using assms by (intro io_post_bind on_impl_post) simp_all

lemma on_impl_try_post:
  assumes "only_times_out m"
    and "\<And>h r. io_post Q (f r) (d\<lparr>drv_impl := h\<rparr>)"
  shows "io_post Q (io_bind (io_try (on_impl m)) f) d"
  using assms by (intro io_post_bind) (auto simp: io_post_def io_try_def on_impl_def)

lemmas transfer_post = transfer_only_times_out[THEN on_impl_post]
  transfer_only_times_out[THEN on_impl_bind_post] transfer_only_times_out[THEN on_impl_try_post]

definition init_outcome ::
    "('h, 'k1, 'k2) Driver8042 \<Rightarrow> i8042_error + unit \<Rightarrow> ('h, 'k1, 'k2) Driver8042 \<Rightarrow> bool" where
  "init_outcome d r d' \<longleftrightarrow>
     (drv_port1 d' = drv_port1 d \<or> drv_port1 d' = Some Port_new)
   \<and> (drv_port2 d' = drv_port2 d \<or> drv_port2 d' = Some Port_new)
   \<and> (r = Inr () \<longrightarrow> drv_port1 d' = Some Port_new \<or> drv_port2 d' = Some Port_new)
   \<and> (r = Inl SelfTestFailed \<or> r = Inl NoPorts \<longrightarrow>
        drv_port1 d' = drv_port1 d \<and> drv_port2 d' = drv_port2 d)"

lemma init_outcome_post: "io_post (init_outcome d) (Driver8042_init im) d"
  unfolding Driver8042_init_def Let_def
  by (intro io_post_intros transfer_post) (auto simp: init_outcome_def)

text \<open>
  Initialisation that returns success has set up at least one port with a fresh enumeration
  state; a failed self test or a controller without working ports leaves both ports as they were;
  and in every outcome a port is either as it was or fresh.
\<close>

theorem i8042_init_ports:
  assumes "Driver8042_init im d = Some (r, d')"
  shows "init_outcome d r d'"
  using init_outcome_post assms by (rule io_postD)

subsection \<open>A simulated controller\<close>

text \<open>
  A two-port controller that answers at once: the queue of bytes it has to deliver, its
  configuration byte and whether the next data byte is a configuration.
\<close>

record sim_8042 =
  sim_out :: "u8 list"
  sim_config :: u8
  sim_expect :: bool

definition sim_cmd :: "u8 \<Rightarrow> sim_8042 \<Rightarrow> sim_8042" where
  "sim_cmd c h =
     (if c = 0x20 then h\<lparr>sim_out := sim_out h @ [sim_config h]\<rparr>
      else if c = 0x60 then h\<lparr>sim_expect := True\<rparr>
      else if c = 0xA7 then h\<lparr>sim_config := sim_config h OR 0x20\<rparr>
      else if c = 0xA8 then h\<lparr>sim_config := sim_config h AND NOT 0x20\<rparr>
      else if c = 0xAA then h\<lparr>sim_out := sim_out h @ [0x55]\<rparr>
      else if c = 0xAB \<or> c = 0xA9 then h\<lparr>sim_out := sim_out h @ [0x00]\<rparr>
      else h)"

definition sim_data :: "u8 \<Rightarrow> sim_8042 \<Rightarrow> sim_8042" where
  "sim_data b h = (if sim_expect h then h\<lparr>sim_config := b, sim_expect := False\<rparr> else h)"

definition sim_impl :: "sim_8042 impl_8042" where
  "sim_impl =
     \<lparr>im_write_cmd = sim_cmd,
      im_read_status = (\<lambda>h. (if sim_out h = [] then 0 else 0x21, h)),
      im_write_data = sim_data,
      im_read_data = (\<lambda>h. (case sim_out h of [] \<Rightarrow> 0 | b # bs \<Rightarrow> b, h\<lparr>sim_out := tl (sim_out h)\<rparr>))\<rparr>"

lemma wait_loop_ready: "0 < n \<Longrightarrow> fst (poll h) \<Longrightarrow> wait_loop poll n h = (Inr (), snd (poll h))"
  by (cases n) (simp_all add: case_prod_beta)

lemma sim_impl_drains: "i8042_drains sim_impl (\<lambda>h. length (sim_out h))"
  by (simp add: i8042_drains_def sim_impl_def)

lemma sim_transfers:
  "write_cmd sim_impl c h = Some (Inr (), sim_cmd c h)"
  "write_data sim_impl c h = Some (Inr (), sim_data c h)"
  "sim_out h \<noteq> [] \<Longrightarrow>
     read_data sim_impl h = Some (Inr (hd (sim_out h)), h\<lparr>sim_out := tl (sim_out h)\<rparr>)"
  by (simp_all add: list.case_eq_if write_cmd_def write_data_def read_data_def wait_out_def wait_in_def wait_loop_ready
      poll_out_def poll_in_def sim_impl_def)

lemma sim_flush: "flush sim_impl h = Some (Inr (), h\<lparr>sim_out := []\<rparr>)"
proof -
  have "flush_loop sim_impl h = Some (h\<lparr>sim_out := []\<rparr>)"
  proof (induction "length (sim_out h)" arbitrary: h)
    case 0
    then show ?case by (subst flush_loop.simps) (simp add: poll_in_def sim_impl_def)
  next
    case (Suc n)
    then have "flush_loop sim_impl (h\<lparr>sim_out := tl (sim_out h)\<rparr>) = Some (h\<lparr>sim_out := []\<rparr>)"
      using Suc.hyps(1)[of "h\<lparr>sim_out := tl (sim_out h)\<rparr>"] by simp
    moreover have "sim_out h \<noteq> []" using Suc.hyps(2) by auto
    ultimately show ?case by (subst flush_loop.simps) (simp add: poll_in_def sim_impl_def)
  qed
  then show ?thesis by (simp add: flush_def)
qed

lemma sim_init:
  "Driver8042_init sim_impl (Driver8042_new \<lparr>sim_out = [7], sim_config = 0x47, sim_expect = False\<rparr>)
     = Some (Inr (), \<lparr>drv_impl = \<lparr>sim_out = [], sim_config = 0x07, sim_expect = False\<rparr>,
                      drv_port1 = Some Port_new, drv_port2 = Some Port_new\<rparr>)"
  unfolding Driver8042_init_def Let_def Driver8042_new_def
  by (simp add: on_impl_def io_try_def sim_transfers sim_flush sim_cmd_def sim_data_def)

theorem i8042_init_returns_witness:
  "\<exists>r d'. Driver8042_init sim_impl
     (Driver8042_new \<lparr>sim_out = [7], sim_config = 0x47, sim_expect = False\<rparr>
        :: (sim_8042, unit, unit) Driver8042) = Some (r, d')"
  by (rule i8042_init_returns[OF sim_impl_drains])

theorem i8042_init_ports_witness:
  "init_outcome (Driver8042_new \<lparr>sim_out = [7], sim_config = 0x47, sim_expect = False\<rparr>
        :: (sim_8042, unit, unit) Driver8042) (Inr ())
     \<lparr>drv_impl = \<lparr>sim_out = [], sim_config = 0x07, sim_expect = False\<rparr>,
      drv_port1 = Some Port_new, drv_port2 = Some Port_new\<rparr>"
  by (rule i8042_init_ports[OF sim_init])

section \<open>Enumeration of a port\<close>

definition port_wf :: "('k1, 'k2) Port \<Rightarrow> bool" where
  "port_wf p = (case port_state p of
     PEnumerating (IdentB2 b1) \<Rightarrow> b1 = 0xAB | PKeyboard k \<Rightarrow> kbd_wf k | PMouse m \<Rightarrow> mouse_wf m | _ \<Rightarrow> True)"

definition port_unknown :: "('k1, 'k2) Port \<Rightarrow> bool" where
  "port_unknown p \<longleftrightarrow> port_state p = PUnknown"

lemma new_device_wf: "kbd_wf (snd (Keyboard_new kind))" "mouse_wf (snd (Mouse_new mkind))"
  by (simp_all add: Keyboard_new_def kbd_wf_def Mouse_new_def mouse_wf_def)

lemma Port_enumerate_wf:
  "snd (Port_enumerate state data) = Some st \<Longrightarrow> port_wf \<lparr>port_state = st\<rparr>"
  by (cases state)
    (auto simp: Port_enumerate_def Port_new_mouse_def Port_new_keyboard_def port_wf_def new_device_wf
      case_prod_beta split: if_splits)

text \<open>The port keeps its invariant because the two devices keep theirs.\<close>

lemma Port_handle_data_wf: "port_wf p \<Longrightarrow> port_wf (snd (Port_handle_data pk data p))"
proof -
  assume wf: "port_wf p"
  obtain st where p: "p = \<lparr>port_state = st\<rparr>" by (cases p) simp
  show ?thesis
  proof (cases st)
    case (PEnumerating state)
    then show ?thesis using Port_enumerate_wf[of state data] wf p
      by (auto simp: Port_handle_data_def Let_def case_prod_beta split: option.splits)
  next
    case (PKeyboard k)
    then show ?thesis using kbd.inv_step[of k pk data] wf p
      by (simp add: Port_handle_data_def port_wf_def case_prod_beta)
  next
    case (PMouse m)
    then show ?thesis using mouse.inv_step[of m data] wf p
      by (simp add: Port_handle_data_def port_wf_def case_prod_beta)
  qed (auto simp: p Port_handle_data_def port_wf_def)
qed

interpretation port: absorbing_machine "Port_handle_data pk" port_wf port_unknown "(None, None)"
  by unfold_locales (rule Port_handle_data_wf, assumption, simp add: port_unknown_def Port_handle_data_def)

abbreviation port_final where
  "port_final pk bytes st \<equiv> port_state (snd (run_machine (Port_handle_data pk) bytes \<lparr>port_state = st\<rparr>))"

lemma port_step_state [simp]:
  "snd (Port_handle_data pk b \<lparr>port_state = PNone\<rparr>)
     = \<lparr>port_state = if b = 0xAA then PEnumerating DSAck else PNone\<rparr>"
  "snd (Port_handle_data pk b \<lparr>port_state = PUnknown\<rparr>) = \<lparr>port_state = PUnknown\<rparr>"
  "snd (Port_handle_data pk b \<lparr>port_state = PEnumerating DSAck\<rparr>)
     = \<lparr>port_state = if b = 0xFA then PEnumerating IdentAck
                     else if b = 0x00 then PEnumerating DSAck else PUnknown\<rparr>"
  "snd (Port_handle_data pk b \<lparr>port_state = PEnumerating IdentAck\<rparr>)
     = \<lparr>port_state = if b = 0xFA then PEnumerating IdentB1 else PUnknown\<rparr>"
  "snd (Port_handle_data pk b \<lparr>port_state = PMouse m\<rparr>)
     = \<lparr>port_state = PMouse (snd (Mouse_handle_data b m))\<rparr>"
  "snd (Port_handle_data pk b \<lparr>port_state = PKeyboard k\<rparr>)
     = \<lparr>port_state = PKeyboard (snd (Keyboard_handle_data pk b k))\<rparr>"
  by (simp_all add: Port_handle_data_def Port_enumerate_def case_prod_beta)

lemma port_final_devices:
  "port_final pk bytes PUnknown = PUnknown"
  "port_final pk bytes (PMouse m) = PMouse (snd (run_machine Mouse_handle_data bytes m))"
  "port_final pk bytes (PKeyboard k) = PKeyboard (snd (run_machine (Keyboard_handle_data pk) bytes k))"
  by (induction bytes arbitrary: m k) (simp_all del: run_machine.simps(2))

text \<open>A device is one of the final states of the enumeration; \<open>Q\<close> says which.\<close>

definition device_pred :: "(('k1, 'k2) PortState \<Rightarrow> bool) \<Rightarrow> bool" where
  "device_pred Q \<longleftrightarrow> \<not> Q PNone \<and> \<not> Q PUnknown \<and> (\<forall>st. \<not> Q (PEnumerating st))"

lemma port_final_dsack:
  assumes "device_pred Q"
  shows "Q (port_final pk bytes (PEnumerating DSAck)) \<longleftrightarrow>
    (\<exists>rest. (\<exists>n. bytes = replicate n 0x00 @ 0xFA # 0xFA # rest) \<and> Q (port_final pk rest (PEnumerating IdentB1)))"
proof (induction bytes)
  case Nil
  then show ?case using assms by (simp add: device_pred_def)
next
  case (Cons b bs)
  have "Q (port_final pk bs (PEnumerating IdentAck)) \<longleftrightarrow>
      (\<exists>rest. bs = 0xFA # rest \<and> Q (port_final pk rest (PEnumerating IdentB1)))"
    using assms by (cases bs) (auto simp: device_pred_def port_final_devices simp del: run_machine.simps(2))
  moreover consider "b = 0xFA" | "b = 0x00" | "b \<noteq> 0xFA" "b \<noteq> 0x00" by blast
  ultimately show ?case using Cons assms
    by cases (auto simp: replicate_Cons_conv port_final_devices device_pred_def simp del: run_machine.simps(2))
qed

lemma split_first_eq:
  "a \<notin> set xs \<Longrightarrow> a \<notin> set ys \<Longrightarrow> xs @ a # us = ys @ a # vs \<longleftrightarrow> xs = ys \<and> us = vs"
proof (induction xs arbitrary: ys)
  case Nil
  then show ?case by (cases ys) auto
next
  case (Cons x xs)
  then show ?case by (cases ys) auto
qed

lemma port_final_none:
  assumes "device_pred Q"
  shows "Q (port_final pk bytes PNone) \<longleftrightarrow>
    (\<exists>pre n rest. 0xAA \<notin> set pre \<and> bytes = pre @ 0xAA # replicate n 0x00 @ 0xFA # 0xFA # rest
       \<and> Q (port_final pk rest (PEnumerating IdentB1)))"
proof (cases "0xAA \<in> set bytes")
  case True
  then obtain pre tl where sp: "bytes = pre @ 0xAA # tl" "0xAA \<notin> set pre" by (meson split_list_first)
  have skip: "port_final pk (pre @ ys) PNone = port_final pk ys PNone" if "0xAA \<notin> set pre" for ys
    using that by (induction pre) (auto simp del: run_machine.simps(2))
  have eq: "pre @ 0xAA # tl = pre' @ 0xAA # zs \<longleftrightarrow> pre' = pre \<and> zs = tl"
    if "0xAA \<notin> set pre'" for pre' and zs :: "u8 list"
    using that sp(2) split_first_eq by metis
  have "Q (port_final pk bytes PNone) \<longleftrightarrow> Q (port_final pk tl (PEnumerating DSAck))"
    by (simp add: sp skip del: run_machine.simps(2))
  then show ?thesis unfolding port_final_dsack[OF assms] sp(1) using eq sp(2) by blast
next
  case False
  then have "port_final pk bytes PNone = PNone"
    by (induction bytes) (auto simp del: run_machine.simps(2))
  then show ?thesis using False assms by (auto simp: device_pred_def)
qed

definition is_mouse :: "('k1, 'k2) PortState \<Rightarrow> bool" where
  "is_mouse st = (case st of PMouse _ \<Rightarrow> True | _ \<Rightarrow> False)"

definition is_keyboard :: "('k1, 'k2) PortState \<Rightarrow> bool" where
  "is_keyboard st = (case st of PKeyboard _ \<Rightarrow> True | _ \<Rightarrow> False)"

lemma device_pred_devices: "device_pred is_mouse" "device_pred is_keyboard"
  by (simp_all add: device_pred_def is_mouse_def is_keyboard_def)

text \<open>The identification bytes of the mice and of the keyboards the driver knows.\<close>

definition mouse_ids :: "u8 set" where
  "mouse_ids = {0x00, 0x03, 0x04}"

definition keyboard_ids :: "u8 set" where
  "keyboard_ids = {0x41, 0x83, 0x84, 0x85, 0x86, 0x90, 0x91, 0x92, 0xA1, 0xC1}"

lemma port_step_identb1:
  "port_state (snd (Port_handle_data pk b \<lparr>port_state = PEnumerating IdentB1\<rparr>))
     = (if b \<in> mouse_ids then PMouse (snd (Mouse_new MouseStandard))
        else if b = 0xAB then PEnumerating (IdentB2 0xAB) else PUnknown)"
  by (auto simp: Port_handle_data_def Port_enumerate_def Port_new_mouse_def Mouse_new_def mouse_ids_def)

lemma port_step_identb2:
  "\<exists>k. port_state (snd (Port_handle_data pk b \<lparr>port_state = PEnumerating (IdentB2 0xAB)\<rparr>))
     = (if b \<in> keyboard_ids then PKeyboard k else PUnknown)"
  by (auto simp: Port_handle_data_def Port_enumerate_def Port_new_keyboard_def keyboard_ids_def case_prod_beta)

lemma port_eta: "p = \<lparr>port_state = port_state p\<rparr>"
  by (cases p) simp

lemma port_final_Cons:
  "port_final pk (b # bs) st = port_final pk bs (port_state (snd (Port_handle_data pk b \<lparr>port_state = st\<rparr>)))"
  by (metis port_eta run_machine_Cons_snd)

lemma port_final_ident:
  "is_mouse (port_final pk rest (PEnumerating IdentB1)) \<longleftrightarrow> (\<exists>i tl. rest = i # tl \<and> i \<in> mouse_ids)"
  "is_keyboard (port_final pk rest (PEnumerating IdentB1))
     \<longleftrightarrow> (\<exists>i tl. rest = 0xAB # i # tl \<and> i \<in> keyboard_ids)"
proof -
  have b2: "is_mouse (port_final pk tl (PEnumerating (IdentB2 0xAB))) = False"
    "is_keyboard (port_final pk tl (PEnumerating (IdentB2 0xAB))) \<longleftrightarrow> (\<exists>i t. tl = i # t \<and> i \<in> keyboard_ids)"
    for tl
  proof -
    show "is_mouse (port_final pk tl (PEnumerating (IdentB2 0xAB))) = False"
      by (cases tl) (use port_step_identb2[of pk "hd tl"] in
          \<open>auto simp: port_final_Cons port_final_devices is_mouse_def simp del: run_machine.simps(2) run_machine_Cons_snd split: if_splits\<close>)
    show "is_keyboard (port_final pk tl (PEnumerating (IdentB2 0xAB))) \<longleftrightarrow> (\<exists>i t. tl = i # t \<and> i \<in> keyboard_ids)"
      by (cases tl) (use port_step_identb2[of pk "hd tl"] in
          \<open>auto simp: port_final_Cons port_final_devices is_keyboard_def simp del: run_machine.simps(2) run_machine_Cons_snd split: if_splits\<close>)
  qed
  show "is_mouse (port_final pk rest (PEnumerating IdentB1)) \<longleftrightarrow> (\<exists>i tl. rest = i # tl \<and> i \<in> mouse_ids)"
    by (cases rest) (auto simp: port_final_Cons port_step_identb1 port_final_devices b2 simp del: run_machine.simps(2) run_machine_Cons_snd,
        auto simp: is_mouse_def)
  show "is_keyboard (port_final pk rest (PEnumerating IdentB1))
     \<longleftrightarrow> (\<exists>i tl. rest = 0xAB # i # tl \<and> i \<in> keyboard_ids)"
    by (cases rest) (auto simp: port_final_Cons port_step_identb1 port_final_devices b2 mouse_ids_def simp del: run_machine.simps(2) run_machine_Cons_snd,
        auto simp: is_keyboard_def)
qed

text \<open>
  Which bytes make a port a mouse or a keyboard: after anything but a self-test report
  (\<open>0xAA\<close>), that report, any number of zero bytes, two acknowledgements, and an identification the
  driver knows. Nothing else does, and the port then keeps its device.
\<close>

theorem port_enumeration_exact:
  "(is_mouse (port_final pk bytes PNone) \<longleftrightarrow>
     (\<exists>pre n i rest. 0xAA \<notin> set pre \<and> i \<in> mouse_ids
        \<and> bytes = pre @ 0xAA # replicate n 0x00 @ 0xFA # 0xFA # i # rest))
   \<and> (is_keyboard (port_final pk bytes PNone) \<longleftrightarrow>
     (\<exists>pre n i rest. 0xAA \<notin> set pre \<and> i \<in> keyboard_ids
        \<and> bytes = pre @ 0xAA # replicate n 0x00 @ 0xFA # 0xFA # 0xAB # i # rest))"
  unfolding port_final_none[OF device_pred_devices(1)] port_final_none[OF device_pred_devices(2)]
    port_final_ident by blast

section \<open>The interrupt handler\<close>

definition irq_mask :: "Irq \<Rightarrow> u8" where
  "irq_mask irq = (case irq of Irq1 \<Rightarrow> 0x01 | Irq12 \<Rightarrow> 0x20)"

definition drv_port :: "Irq \<Rightarrow> ('h, 'k1, 'k2) Driver8042 \<Rightarrow> ('k1, 'k2) Port option" where
  "drv_port irq d = (case irq of Irq1 \<Rightarrow> drv_port1 d | Irq12 \<Rightarrow> drv_port2 d)"

text \<open>
  The hardware delivers a sequence of bytes, each announced on its interrupt line, whatever the
  driver writes to it in reply.
\<close>

fun feeds :: "'h impl_8042 \<Rightarrow> (Irq \<times> u8) list \<Rightarrow> 'h \<Rightarrow> bool" where
  "feeds im [] h \<longleftrightarrow> True"
| "feeds im ((irq, b) # evs) h \<longleftrightarrow>
     (let (st, h1) = im_read_status im h; (d, h2) = im_read_data im h1
      in st AND irq_mask irq \<noteq> 0 \<and> d = b \<and> feeds im evs h2
         \<and> (\<forall>r. feeds im evs (im_write_data im r h2))
         \<and> (\<forall>r. feeds im evs (im_write_data im r (im_write_cmd im 0xD4 h2))))"

definition bytes_on :: "Irq \<Rightarrow> (Irq \<times> u8) list \<Rightarrow> u8 list" where
  "bytes_on irq evs = map snd (filter (\<lambda>e. fst e = irq) evs)"

definition changes_on :: "Irq \<Rightarrow> (Irq \<times> u8) list \<Rightarrow> 'c list \<Rightarrow> 'c list" where
  "changes_on irq evs outs = map snd (filter (\<lambda>(e, out). fst e = irq) (zip evs outs))"

lemma interrupt_step:
  assumes "feeds im ((irq, b) # evs) (drv_impl d)" and "drv_port irq d = Some p"
  shows "fst (Driver8042_interrupt im pk irq d) = snd (fst (Port_handle_data pk b p))"
    "drv_port irq (snd (Driver8042_interrupt im pk irq d)) = Some (snd (Port_handle_data pk b p))"
    "irq' \<noteq> irq \<Longrightarrow> drv_port irq' (snd (Driver8042_interrupt im pk irq d)) = drv_port irq' d"
    "feeds im evs (drv_impl (snd (Driver8042_interrupt im pk irq d)))"
  using assms
  by (cases irq; cases irq';
      auto simp: Driver8042_interrupt_def drv_port_def irq_mask_def case_prod_beta Let_def split: option.splits)+

lemma demultiplex:
  assumes "feeds im evs (drv_impl d)" and "\<And>i. drv_port i d = Some (ps i)"
    and "run_machine (Driver8042_interrupt im pk) (map fst evs) d = (outs, d')"
  shows "drv_port irq d' = Some (snd (run_machine (Port_handle_data pk) (bytes_on irq evs) (ps irq)))
    \<and> changes_on irq evs outs = map snd (fst (run_machine (Port_handle_data pk) (bytes_on irq evs) (ps irq)))"
  using assms
proof (induction evs arbitrary: d ps outs)
  case Nil
  then show ?case by (simp add: bytes_on_def changes_on_def)
next
  case (Cons ev evs)
  obtain line b where ev: "ev = (line, b)" by (cases ev)
  let ?r = "Driver8042_interrupt im pk line d"
  let ?ph = "Port_handle_data pk b (ps line)"
  note step = interrupt_step[OF Cons.prems(1)[unfolded ev] Cons.prems(2)[of line], where pk = pk]
  obtain outs' where run: "run_machine (Driver8042_interrupt im pk) (map fst evs) (snd ?r) = (outs', d')"
    and outs: "outs = fst ?r # outs'"
    using Cons.prems(3) by (auto simp: ev Let_def split: prod.splits)
  have ports: "drv_port i (snd ?r) = Some ((ps(line := snd ?ph)) i)" for i
    using step(2) step(3)[of i] Cons.prems(2)[of i] by (cases "i = line") auto
  have IH: "drv_port irq d' = Some (snd (run_machine (Port_handle_data pk) (bytes_on irq evs) ((ps(line := snd ?ph)) irq)))
    \<and> changes_on irq evs outs' = map snd (fst (run_machine (Port_handle_data pk) (bytes_on irq evs) ((ps(line := snd ?ph)) irq)))"
    using Cons.IH[of "snd ?r" "ps(line := snd ?ph)", OF step(4)] ports run by blast
  show ?case
  proof (cases "irq = line")
    case True
    then show ?thesis using IH step(1)
      by (simp add: bytes_on_def changes_on_def ev outs Let_def case_prod_beta)
  next
    case False
    then show ?thesis using IH by (simp add: bytes_on_def changes_on_def ev outs)
  qed
qed

text \<open>
  C8. Keyboard and mouse traffic may be interleaved in any order: after any sequence of
  interrupts, each port is in the state that its own bytes alone lead to, and the changes reported
  for a line are exactly those its port reports on its own bytes.
\<close>

theorem i8042_demultiplexes:
  assumes "feeds im evs (drv_impl d)"
    and "drv_port1 d = Some p1" and "drv_port2 d = Some p2"
    and "run_machine (Driver8042_interrupt im pk) (map fst evs) d = (outs, d')"
  shows "drv_port1 d' = Some (snd (run_machine (Port_handle_data pk) (bytes_on Irq1 evs) p1))
    \<and> drv_port2 d' = Some (snd (run_machine (Port_handle_data pk) (bytes_on Irq12 evs) p2))
    \<and> changes_on Irq1 evs outs = map snd (fst (run_machine (Port_handle_data pk) (bytes_on Irq1 evs) p1))
    \<and> changes_on Irq12 evs outs = map snd (fst (run_machine (Port_handle_data pk) (bytes_on Irq12 evs) p2))"
proof -
  let ?ps = "\<lambda>i. case i of Irq1 \<Rightarrow> p1 | Irq12 \<Rightarrow> p2"
  have ports: "drv_port i d = Some (?ps i)" for i using assms(2,3) by (cases i) (simp_all add: drv_port_def)
  show ?thesis
    using demultiplex[OF assms(1) ports assms(4), of Irq1] demultiplex[OF assms(1) ports assms(4), of Irq12]
    by (simp add: drv_port_def)
qed

text \<open>A controller that has the bytes of a scripted session ready.\<close>

definition script_impl :: "(Irq \<times> u8) list impl_8042" where
  "script_impl =
     \<lparr>im_write_cmd = (\<lambda>c h. h),
      im_read_status = (\<lambda>h. (0x21, h)),
      im_write_data = (\<lambda>b h. h),
      im_read_data = (\<lambda>h. (case h of [] \<Rightarrow> 0 | (irq, b) # evs \<Rightarrow> b, tl h))\<rparr>"

lemma script_feeds: "feeds script_impl evs evs"
  by (induction evs) (auto simp: script_impl_def irq_mask_def split: Irq.splits)

theorem i8042_demultiplexes_witness:
  "let evs = [(Irq1, 0xAA), (Irq12, 0xAA), (Irq12, 0xFA), (Irq1, 0xFA), (Irq12, 0xFA), (Irq12, 0)];
       d = \<lparr>drv_impl = evs, drv_port1 = Some Port_new, drv_port2 = Some Port_new\<rparr>;
       d' = snd (run_machine (Driver8042_interrupt script_impl echo_keyboard) (map fst evs) d)
   in drv_port1 d' = Some \<lparr>port_state = PEnumerating IdentAck\<rparr>
      \<and> drv_port2 d' = Some \<lparr>port_state = PMouse (snd (Mouse_new MouseStandard))\<rparr>"
proof -
  define evs where "evs = [(Irq1, 0xAA), (Irq12, 0xAA), (Irq12, 0xFA), (Irq1, 0xFA), (Irq12, 0xFA), (Irq12, 0 :: u8)]"
  define d where "d = \<lparr>drv_impl = evs, drv_port1 = Some (Port_new :: (unit, unit) Port), drv_port2 = Some Port_new\<rparr>"
  obtain outs d' where run: "run_machine (Driver8042_interrupt script_impl echo_keyboard) (map fst evs) d = (outs, d')"
    by (meson surj_pair)
  have f: "feeds script_impl evs (drv_impl d)" using script_feeds by (simp add: d_def)
  have p: "drv_port1 d = Some Port_new" "drv_port2 d = Some Port_new" by (simp_all add: d_def)
  have "drv_port1 d' = Some \<lparr>port_state = PEnumerating IdentAck\<rparr>
      \<and> drv_port2 d' = Some \<lparr>port_state = PMouse (snd (Mouse_new MouseStandard))\<rparr>"
    using i8042_demultiplexes[OF f p run]
    by (simp add: evs_def bytes_on_def Port_new_def Port_handle_data_def Port_enumerate_def
        Port_new_mouse_def Mouse_new_def)
  then show ?thesis using run unfolding Let_def evs_def[symmetric] d_def[symmetric] by simp
qed

end
