(* ===== verification/Input_Queue.thy ===== *)
theory Input_Queue
  imports I8042
begin

text \<open>
  The kernel side of keyboard and mouse, \<open>kernel/src/drivers/i8042.rs\<close>: the interrupt handler
  pushes a change into a bounded queue and wakes the reader; \<open>next_key\<close> and \<open>next_mouse_state\<close>
  poll that queue.

  The lock-free queue (\<open>crossbeam_queue::ArrayQueue\<close>) and the waker (\<open>futures::AtomicWaker\<close>) are
  parameters with the hypotheses \<open>queue_spec\<close> and \<open>waker_spec\<close>. Each call on them is one atomic step.
  The reader and the handler run on different cores or the handler preempts the reader, so that
  their steps interleave; two handlers never do, since the handler holds the lock of \<open>DRIVER\<close>
  throughout. The \<open>OnceCell\<close> around a queue is an option, \<open>None\<close> before initialisation.
\<close>

section \<open>The queue and the waker\<close>

record ('q, 'a) queue_api =
  q_new :: "nat \<Rightarrow> 'q"
  q_push :: "'a \<Rightarrow> 'q \<Rightarrow> bool \<times> 'q"
  q_pop :: "'q \<Rightarrow> 'a option \<times> 'q"

record 'w waker_api =
  w_new :: 'w
  w_register :: "'w \<Rightarrow> 'w"
  w_wake :: "'w \<Rightarrow> bool \<times> 'w"
  w_take :: "'w \<Rightarrow> 'w"

text \<open>
  A bounded first-in first-out queue, seen through its contents and its capacity; a waker cell,
  seen through whether a waker is registered: \<open>wake\<close> notifies the registered task and empties it.
\<close>

definition queue_spec :: "('q, 'a) queue_api \<Rightarrow> ('q \<Rightarrow> 'a list) \<Rightarrow> ('q \<Rightarrow> nat) \<Rightarrow> bool" where
  "queue_spec qa contents cap \<longleftrightarrow>
     (\<forall>n. contents (q_new qa n) = [] \<and> cap (q_new qa n) = n)
   \<and> (\<forall>x q. fst (q_push qa x q) = (length (contents q) < cap q)
        \<and> contents (snd (q_push qa x q)) = (if length (contents q) < cap q then contents q @ [x] else contents q)
        \<and> cap (snd (q_push qa x q)) = cap q)
   \<and> (\<forall>q. cap (snd (q_pop qa q)) = cap q
        \<and> (case contents q of
             [] \<Rightarrow> fst (q_pop qa q) = None \<and> contents (snd (q_pop qa q)) = []
           | x # xs \<Rightarrow> fst (q_pop qa q) = Some x \<and> contents (snd (q_pop qa q)) = xs))"

definition waker_spec :: "'w waker_api \<Rightarrow> ('w \<Rightarrow> bool) \<Rightarrow> bool" where
  "waker_spec wa registered \<longleftrightarrow>
     \<not> registered (w_new wa)
   \<and> (\<forall>w. registered (w_register wa w) \<and> \<not> registered (w_take wa w)
        \<and> fst (w_wake wa w) = registered w \<and> \<not> registered (snd (w_wake wa w)))"

section \<open>Model\<close>

text \<open>\<open>KEY_QUEUE\<close> with \<open>KEY_WAKER\<close>, and \<open>MOUSE_QUEUE\<close> with \<open>MOUSE_WAKER\<close>.\<close>

record ('q, 'w) channel =
  ch_queue :: "'q option"
  ch_waker :: 'w

definition channel_static :: "'w waker_api \<Rightarrow> ('q, 'w) channel" where
  "channel_static wa = \<lparr>ch_queue = None, ch_waker = w_new wa\<rparr>"

text \<open>\<open>try_init_once(|| ArrayQueue::new(32)).unwrap()\<close>.\<close>

definition channel_init :: "('q, 'a) queue_api \<Rightarrow> ('q, 'w) channel \<Rightarrow> ('q, 'w) channel res" where
  "channel_init qa ch =
     (case ch_queue ch of
        None \<Rightarrow> Inr (ch\<lparr>ch_queue := Some (q_new qa 32)\<rparr>)
      | Some q \<Rightarrow> Inl UnwrapFailed)"

text \<open>
  One arm of \<open>interrupt\<close>, in its two atomic steps: push, and wake when the push succeeded. The
  flag says whether the second step follows; the result of \<open>wake\<close>, whether a task was notified.
\<close>

definition handler_push :: "('q, 'a) queue_api \<Rightarrow> 'a \<Rightarrow> ('q, 'w) channel \<Rightarrow> bool \<times> ('q, 'w) channel" where
  "handler_push qa x ch =
     (case ch_queue ch of
        None \<Rightarrow> (False, ch)
      | Some q \<Rightarrow> (case q_push qa x q of (ok, q') \<Rightarrow> (ok, ch\<lparr>ch_queue := Some q'\<rparr>)))"

definition handler_wake :: "'w waker_api \<Rightarrow> ('q, 'w) channel \<Rightarrow> bool \<times> ('q, 'w) channel" where
  "handler_wake wa ch = (case w_wake wa (ch_waker ch) of (woken, w) \<Rightarrow> (woken, ch\<lparr>ch_waker := w\<rparr>))"

definition handler_send ::
    "('q, 'a) queue_api \<Rightarrow> 'w waker_api \<Rightarrow> 'a \<Rightarrow> ('q, 'w) channel \<Rightarrow> bool \<times> ('q, 'w) channel" where
  "handler_send qa wa x ch =
     (case handler_push qa x ch of (ok, ch') \<Rightarrow> if ok then handler_wake wa ch' else (False, ch'))"

text \<open>\<open>interrupt\<close> as a whole: the state is the driver, the key channel and the mouse channel.\<close>

definition i8042_interrupt ::
    "'h impl_8042 \<Rightarrow> ('k1, 'k2, 'ev, 'er, 'key) pc_keyboard \<Rightarrow> ('kq, 'key) queue_api
       \<Rightarrow> ('mq, MouseState) queue_api \<Rightarrow> 'w waker_api \<Rightarrow> Irq
       \<Rightarrow> ('h, 'k1, 'k2) Driver8042 \<times> ('kq, 'w) channel \<times> ('mq, 'w) channel
       \<Rightarrow> ('h, 'k1, 'k2) Driver8042 \<times> ('kq, 'w) channel \<times> ('mq, 'w) channel" where
  "i8042_interrupt im pk kq mq wa irq s =
     (case s of (d, keys, mice) \<Rightarrow>
      case Driver8042_interrupt im pk irq d of
        (None, d') \<Rightarrow> (d', keys, mice)
      | (Some (ChangeKeyboard key), d') \<Rightarrow> (d', snd (handler_send kq wa key keys), mice)
      | (Some (ChangeMouse state), d') \<Rightarrow> (d', keys, snd (handler_send mq wa state mice)))"

text \<open>
  The poll function of \<open>next_key\<close> and \<open>next_mouse_state\<close>, as the program points between its atomic
  steps: the fast path, the registration, the second look, and giving the waker back.
\<close>

datatype 'a reader_pc =
    RFast
  | RRegister
  | RRetry
  | RTake 'a
  | RReady "'a option"
  | RPending

definition reader_step ::
    "('q, 'a) queue_api \<Rightarrow> 'w waker_api \<Rightarrow> 'a reader_pc \<Rightarrow> ('q, 'w) channel \<Rightarrow> 'a reader_pc \<times> ('q, 'w) channel" where
  "reader_step qa wa pc ch =
     (case pc of
        RFast \<Rightarrow>
          (case ch_queue ch of
             None \<Rightarrow> (RReady None, ch)
           | Some q \<Rightarrow>
               (case q_pop qa q of
                  (Some x, q') \<Rightarrow> (RReady (Some x), ch\<lparr>ch_queue := Some q'\<rparr>)
                | (None, q') \<Rightarrow> (RRegister, ch\<lparr>ch_queue := Some q'\<rparr>)))
      | RRegister \<Rightarrow> (RRetry, ch\<lparr>ch_waker := w_register wa (ch_waker ch)\<rparr>)
      | RRetry \<Rightarrow>
          (case ch_queue ch of
             None \<Rightarrow> (RPending, ch)
           | Some q \<Rightarrow>
               (case q_pop qa q of
                  (Some x, q') \<Rightarrow> (RTake x, ch\<lparr>ch_queue := Some q'\<rparr>)
                | (None, q') \<Rightarrow> (RPending, ch\<lparr>ch_queue := Some q'\<rparr>)))
      | RTake x \<Rightarrow> (RReady (Some x), ch\<lparr>ch_waker := w_take wa (ch_waker ch)\<rparr>)
      | RReady r \<Rightarrow> (RReady r, ch)
      | RPending \<Rightarrow> (RPending, ch))"

text \<open>One call of the poll function with nothing in between: it makes at most four steps.\<close>

definition next_item_poll ::
    "('q, 'a) queue_api \<Rightarrow> 'w waker_api \<Rightarrow> ('q, 'w) channel \<Rightarrow> 'a reader_pc \<times> ('q, 'w) channel" where
  "next_item_poll qa wa ch = ((case_prod (reader_step qa wa)) ^^ 4) (RFast, ch)"

section \<open>Interleavings\<close>

text \<open>
  The reader task, the handler, and the executor that polls the task again after a notification.
  \<open>sy_sent\<close> and \<open>sy_got\<close> record what was pushed and what \<open>next_key\<close> returned.
\<close>

record ('q, 'w, 'a) system =
  sy_ch :: "('q, 'w) channel"
  sy_reader :: "'a reader_pc"
  sy_waking :: bool
  sy_notified :: bool
  sy_sent :: "'a list"
  sy_got :: "'a list"

inductive sys_step ::
    "('q, 'a) queue_api \<Rightarrow> 'w waker_api \<Rightarrow> ('q, 'w, 'a) system \<Rightarrow> ('q, 'w, 'a) system \<Rightarrow> bool"
  for qa wa where
  push: "\<not> sy_waking s \<Longrightarrow> handler_push qa x (sy_ch s) = (ok, ch) \<Longrightarrow>
    sys_step qa wa s (s\<lparr>sy_ch := ch, sy_waking := ok, sy_sent := sy_sent s @ (if ok then [x] else [])\<rparr>)"
| wake: "sy_waking s \<Longrightarrow> handler_wake wa (sy_ch s) = (woken, ch) \<Longrightarrow>
    sys_step qa wa s (s\<lparr>sy_ch := ch, sy_waking := False, sy_notified := sy_notified s \<or> woken\<rparr>)"
| reader: "reader_step qa wa (sy_reader s) (sy_ch s) = (pc, ch) \<Longrightarrow>
    sys_step qa wa s (s\<lparr>sy_ch := ch, sy_reader := pc\<rparr>)"
| return: "sy_reader s = RReady (Some x) \<Longrightarrow>
    sys_step qa wa s (s\<lparr>sy_reader := RFast, sy_got := sy_got s @ [x]\<rparr>)"
| repoll: "sy_reader s = RPending \<Longrightarrow> sy_notified s \<Longrightarrow>
    sys_step qa wa s (s\<lparr>sy_reader := RFast, sy_notified := False\<rparr>)"

inductive_cases sys_stepE: "sys_step qa wa s s'"

text \<open>The system right after \<open>init\<close>, with a reader about to call \<open>next_key\<close>.\<close>

definition sys_init :: "('q, 'a) queue_api \<Rightarrow> 'w waker_api \<Rightarrow> ('q, 'w, 'a) system" where
  "sys_init qa wa =
     \<lparr>sy_ch = \<lparr>ch_queue = Some (q_new qa 32), ch_waker = w_new wa\<rparr>,
      sy_reader = RFast, sy_waking = False, sy_notified = False, sy_sent = [], sy_got = []\<rparr>"

inductive sys_reach ::
    "('q, 'a) queue_api \<Rightarrow> 'w waker_api \<Rightarrow> ('q, 'w, 'a) system \<Rightarrow> bool" for qa wa where
  start: "sys_reach qa wa (sys_init qa wa)"
| more: "sys_reach qa wa s \<Longrightarrow> sys_step qa wa s s' \<Longrightarrow> sys_reach qa wa s'"

definition held :: "'a reader_pc \<Rightarrow> 'a list" where
  "held pc = (case pc of RTake x \<Rightarrow> [x] | RReady (Some x) \<Rightarrow> [x] | _ \<Rightarrow> [])"

definition sys_inv ::
    "('q \<Rightarrow> 'a list) \<Rightarrow> ('q \<Rightarrow> nat) \<Rightarrow> ('w \<Rightarrow> bool) \<Rightarrow> ('q, 'w, 'a) system \<Rightarrow> bool" where
  "sys_inv contents cap registered s \<longleftrightarrow>
     (\<exists>q. ch_queue (sy_ch s) = Some q \<and> cap q = 32 \<and> length (contents q) \<le> 32
        \<and> sy_sent s = sy_got s @ held (sy_reader s) @ contents q
        \<and> (sy_reader s = RPending \<and> contents q \<noteq> [] \<longrightarrow> sy_notified s \<or> sy_waking s))
   \<and> (sy_reader s = RRetry \<or> sy_reader s = RPending \<longrightarrow>
        sy_notified s \<or> registered (ch_waker (sy_ch s)))
   \<and> sy_reader s \<noteq> RReady None"

lemma queue_specD:
  assumes "queue_spec qa contents cap"
  shows "fst (q_push qa x q) = (length (contents q) < cap q)"
    "contents (snd (q_push qa x q)) = (if length (contents q) < cap q then contents q @ [x] else contents q)"
    "cap (snd (q_push qa x q)) = cap q"
    "cap (snd (q_pop qa q)) = cap q"
    "fst (q_pop qa q) = (case contents q of [] \<Rightarrow> None | x # xs \<Rightarrow> Some x)"
    "contents (snd (q_pop qa q)) = tl (contents q)"
    "contents (q_new qa n) = []" "cap (q_new qa n) = n"
proof -
  note spec = assms[unfolded queue_spec_def]
  show "fst (q_push qa x q) = (length (contents q) < cap q)"
    "contents (snd (q_push qa x q)) = (if length (contents q) < cap q then contents q @ [x] else contents q)"
    "cap (snd (q_push qa x q)) = cap q"
    "cap (snd (q_pop qa q)) = cap q"
    "contents (q_new qa n) = []" "cap (q_new qa n) = n"
    using spec by blast+
  have "case contents q of
             [] \<Rightarrow> fst (q_pop qa q) = None \<and> contents (snd (q_pop qa q)) = []
           | x # xs \<Rightarrow> fst (q_pop qa q) = Some x \<and> contents (snd (q_pop qa q)) = xs"
    using spec by blast
  then show "fst (q_pop qa q) = (case contents q of [] \<Rightarrow> None | x # xs \<Rightarrow> Some x)"
    "contents (snd (q_pop qa q)) = tl (contents q)"
    by (auto split: list.splits)
qed

lemma waker_specD:
  assumes "waker_spec wa registered"
  shows "registered (w_register wa w)" "\<not> registered (w_take wa w)"
    "fst (w_wake wa w) = registered w" "\<not> registered (snd (w_wake wa w))" "\<not> registered (w_new wa)"
  using assms by (simp_all add: waker_spec_def)

lemma sys_inv_init:
  assumes "queue_spec qa contents cap" "waker_spec wa registered"
  shows "sys_inv contents cap registered (sys_init qa wa)"
  using queue_specD[OF assms(1)] by (simp add: sys_inv_def sys_init_def held_def)

lemma sys_inv_reader:
  assumes q: "queue_spec qa contents cap" and w: "waker_spec wa registered"
    and inv: "sys_inv contents cap registered s"
    and st: "reader_step qa wa (sy_reader s) (sy_ch s) = (pc, ch)"
  shows "sys_inv contents cap registered (s\<lparr>sy_ch := ch, sy_reader := pc\<rparr>)"
proof -
  obtain q0 where q0: "ch_queue (sy_ch s) = Some q0" "cap q0 = 32" "length (contents q0) \<le> 32"
    "sy_sent s = sy_got s @ held (sy_reader s) @ contents q0"
    "sy_reader s = RPending \<and> contents q0 \<noteq> [] \<longrightarrow> sy_notified s \<or> sy_waking s"
    using inv unfolding sys_inv_def by blast
  obtain r q1 where pop: "q_pop qa q0 = (r, q1)" by force
  have q1: "r = (case contents q0 of [] \<Rightarrow> None | x # xs \<Rightarrow> Some x)" "contents q1 = tl (contents q0)" "cap q1 = 32"
    using queue_specD(4-6)[OF q, of q0] pop q0(2) by simp_all
  show ?thesis
  proof (cases "sy_reader s")
    case RFast
    then show ?thesis using inv st q0 q1 pop
      by (cases "contents q0") (auto simp: sys_inv_def reader_step_def held_def)
  next
    case RRetry
    then show ?thesis using inv st q0 q1 pop
      by (cases "contents q0") (auto simp: sys_inv_def reader_step_def held_def)
  qed (use inv st q0 waker_specD(1,2)[OF w] in \<open>auto simp: sys_inv_def reader_step_def held_def\<close>)
qed

lemma sys_inv_step:
  assumes q: "queue_spec qa contents cap" and w: "waker_spec wa registered"
    and st: "sys_step qa wa s s'" and inv: "sys_inv contents cap registered s"
  shows "sys_inv contents cap registered s'"
  using st
proof cases
  case (push x ok ch)
  obtain q0 where q0: "ch_queue (sy_ch s) = Some q0" using inv unfolding sys_inv_def by blast
  have "ok = (length (contents q0) < cap q0)" "ch = (sy_ch s)\<lparr>ch_queue := Some (snd (q_push qa x q0))\<rparr>"
    using push(3) queue_specD(1)[OF q, of x q0] by (auto simp: handler_push_def q0 split: prod.splits)
  then show ?thesis using push(1,2) inv q0 queue_specD(2,3)[OF q, of x q0]
    by (auto simp: sys_inv_def)
next
  case (wake woken ch)
  then have "woken = registered (ch_waker (sy_ch s))" "ch_queue ch = ch_queue (sy_ch s)"
    using waker_specD(3)[OF w, of "ch_waker (sy_ch s)"] by (auto simp: handler_wake_def split: prod.splits)
  then show ?thesis using wake(1) inv by (auto simp: sys_inv_def)
next
  case (reader pc ch)
  then show ?thesis using sys_inv_reader[OF q w inv] by blast
qed (use inv in \<open>auto simp: sys_inv_def held_def\<close>)

lemma sys_reach_inv:
  assumes "queue_spec qa contents cap" "waker_spec wa registered" "sys_reach qa wa s"
  shows "sys_inv contents cap registered s"
  using assms(3) by induction (auto intro: sys_inv_init sys_inv_step assms(1,2))

section \<open>Properties\<close>

text \<open>
  C6. No wakeup is lost: whatever the interleaving of the interrupt handler with the steps of
  \<open>next_key\<close>, a reader that went to sleep while the queue holds an item has been notified, or the
  handler is about to notify it and the waker it will wake is registered.
\<close>

theorem input_no_lost_wakeup:
  assumes "queue_spec qa contents cap" and "waker_spec wa registered"
    and "sys_reach qa wa s" and "sy_reader s = RPending"
    and "ch_queue (sy_ch s) = Some q" and "contents q \<noteq> []"
  shows "sy_notified s
    \<or> (sy_waking s \<and> (\<forall>s'. sys_step qa wa s s' \<and> \<not> sy_waking s' \<longrightarrow> sy_notified s'))"
proof (cases "sy_notified s")
  case False
  note inv = sys_reach_inv[OF assms(1-3)]
  have wk: "sy_waking s" and reg: "registered (ch_waker (sy_ch s))"
    using inv assms(4-6) False unfolding sys_inv_def by auto
  have "sy_notified s'" if "sys_step qa wa s s'" "\<not> sy_waking s'" for s'
    using that wk reg assms(4) waker_specD(3)[OF assms(2), of "ch_waker (sy_ch s)"]
    by (auto elim!: sys_stepE simp: handler_wake_def split: prod.splits)
  then show ?thesis using wk by blast
qed simp

text \<open>
  C7. The queue is a faithful channel: at every moment the items that were accepted are those
  \<open>next_key\<close> has returned, then the one it holds, then the contents of the queue, in order and
  without loss or duplication; and the queue never holds more than 32.
\<close>

theorem input_fifo:
  assumes "queue_spec qa contents cap" and "waker_spec wa registered" and "sys_reach qa wa s"
  shows "\<exists>q. ch_queue (sy_ch s) = Some q \<and> length (contents q) \<le> 32
    \<and> sy_sent s = sy_got s @ held (sy_reader s) @ contents q"
  using sys_reach_inv[OF assms] unfolding sys_inv_def by blast

subsection \<open>A concrete queue and waker\<close>

definition list_queue :: "(nat \<times> 'a list, 'a) queue_api" where
  "list_queue =
     \<lparr>q_new = (\<lambda>n. (n, [])),
      q_push = (\<lambda>x (n, xs). if length xs < n then (True, (n, xs @ [x])) else (False, (n, xs))),
      q_pop = (\<lambda>(n, xs). case xs of [] \<Rightarrow> (None, (n, [])) | y # ys \<Rightarrow> (Some y, (n, ys)))\<rparr>"

definition flag_waker :: "bool waker_api" where
  "flag_waker = \<lparr>w_new = False, w_register = (\<lambda>_. True), w_wake = (\<lambda>w. (w, False)), w_take = (\<lambda>_. False)\<rparr>"

lemma list_queue_spec: "queue_spec list_queue snd fst"
  by (auto simp: queue_spec_def list_queue_def split: list.splits)

lemma flag_waker_spec: "waker_spec flag_waker (\<lambda>w. w)"
  by (simp add: waker_spec_def flag_waker_def)

text \<open>The reader finds nothing, registers, looks again, sleeps; then the handler pushes 7.\<close>

abbreviation sleeping_state :: "(nat \<times> nat list, bool, nat) system" where
  "sleeping_state \<equiv>
     \<lparr>sy_ch = \<lparr>ch_queue = Some (32, [7]), ch_waker = True\<rparr>,
      sy_reader = RPending, sy_waking = True, sy_notified = False, sy_sent = [7], sy_got = []\<rparr>"

lemma sleeping_reach: "sys_reach list_queue flag_waker sleeping_state"
proof -
  let ?st = "\<lambda>q w pc wk sent. \<lparr>sy_ch = \<lparr>ch_queue = Some (32 :: nat, q :: nat list), ch_waker = w\<rparr>,
      sy_reader = pc, sy_waking = wk, sy_notified = False, sy_sent = sent, sy_got = []\<rparr>"
  note defs = list_queue_def flag_waker_def reader_step_def handler_push_def
  have "sys_reach list_queue flag_waker (?st [] False RFast False [])"
    using sys_reach.start[of list_queue flag_waker] by (simp add: sys_init_def list_queue_def flag_waker_def)
  then have "sys_reach list_queue flag_waker (?st [] False RRegister False [])"
    by (rule sys_reach.more) (use sys_step.reader[of list_queue flag_waker "?st [] False RFast False []"] in \<open>simp add: defs\<close>)
  then have "sys_reach list_queue flag_waker (?st [] True RRetry False [])"
    by (rule sys_reach.more) (use sys_step.reader[of list_queue flag_waker "?st [] False RRegister False []"] in \<open>simp add: defs\<close>)
  then have "sys_reach list_queue flag_waker (?st [] True RPending False [])"
    by (rule sys_reach.more) (use sys_step.reader[of list_queue flag_waker "?st [] True RRetry False []"] in \<open>simp add: defs\<close>)
  then show ?thesis
    by (rule sys_reach.more)
      (use sys_step.push[of "?st [] True RPending False []" list_queue 7 True _ flag_waker] in \<open>simp add: defs\<close>)
qed

theorem input_no_lost_wakeup_witness:
  "sy_notified sleeping_state
    \<or> (sy_waking sleeping_state
       \<and> (\<forall>s'. sys_step list_queue flag_waker sleeping_state s' \<and> \<not> sy_waking s' \<longrightarrow> sy_notified s'))"
  by (rule input_no_lost_wakeup[OF list_queue_spec flag_waker_spec sleeping_reach, of "(32, [7])"]) simp_all

theorem input_fifo_witness:
  "\<exists>q. ch_queue (sy_ch sleeping_state) = Some q \<and> length (snd q) \<le> 32
    \<and> sy_sent sleeping_state = sy_got sleeping_state @ held (sy_reader sleeping_state) @ snd q"
  by (rule input_fifo[OF list_queue_spec flag_waker_spec sleeping_reach])

end
