(* ===== verification/Interrupts.thy ===== *)
theory Interrupts
  imports Memory
begin

text \<open>
  Interrupt routing, \<open>kernel/src/arch/x86_64/interrupts.rs\<close>: the interrupt descriptor table and its
  dispatch, the IO-APICs, registration of handlers for lines and for message-signalled
  interrupts, and their removal when a guard is dropped.

  An interrupt handler's run is the list of actions it takes. The IO-APIC (crate \<open>x2apic\<close>) is a
  parameter with the hypothesis \<open>ioapic_spec\<close>; the tables of ACPI and the capabilities of a PCI
  device are arguments. \<open>u8\<close> values are natural numbers below 256 with checked addition. The local
  APIC and its timer are in \<open>Lapic\<close>.
\<close>

section \<open>Handlers and the interrupt descriptor table\<close>

definition IOAPIC_START :: nat where "IOAPIC_START = 32"
definition NUM_VECTORS :: nat where "NUM_VECTORS = 256"
definition LOCAL_APIC_TLB_FLUSH :: nat where "LOCAL_APIC_TLB_FLUSH = NUM_VECTORS - 4"
definition LOCAL_APIC_ERROR :: nat where "LOCAL_APIC_ERROR = NUM_VECTORS - 3"
definition LOCAL_APIC_TIMER :: nat where "LOCAL_APIC_TIMER = NUM_VECTORS - 2"
definition LOCAL_APIC_SPURIOUS :: nat where "LOCAL_APIC_SPURIOUS = NUM_VECTORS - 1"
definition LAST_FREE :: nat where "LAST_FREE = LOCAL_APIC_TLB_FLUSH - 1"

lemmas vector_defs = IOAPIC_START_def NUM_VECTORS_def LOCAL_APIC_TLB_FLUSH_def LOCAL_APIC_ERROR_def
  LOCAL_APIC_TIMER_def LOCAL_APIC_SPURIOUS_def LAST_FREE_def

datatype 'f InterruptHandler = HNone | HStatic 'f | HDynamic 'f

datatype idt_entry =
    Absent
  | NonMaskable | Breakpoint | DoubleFault | PageFault
  | InvalidTss | SegmentNotPresent | GeneralProtection | AlignmentCheck
  | General nat
  | TlbFlush | ApicError | ApicTimer | Spurious

text \<open>The exceptions have the numbers of the processor; the last four vectors are set last.\<close>

definition exception_entry :: "nat \<Rightarrow> idt_entry" where
  "exception_entry v =
     (if v = 2 then NonMaskable else if v = 3 then Breakpoint else if v = 8 then DoubleFault
      else if v = 10 then InvalidTss else if v = 11 then SegmentNotPresent
      else if v = 13 then GeneralProtection else if v = 14 then PageFault
      else if v = 17 then AlignmentCheck else Absent)"

definition IDT :: "nat \<Rightarrow> idt_entry" where
  "IDT = (\<lambda>v. if 32 \<le> v \<and> v \<le> 255 then General v else exception_entry v)
     (LOCAL_APIC_TLB_FLUSH := TlbFlush, LOCAL_APIC_ERROR := ApicError,
      LOCAL_APIC_TIMER := ApicTimer, LOCAL_APIC_SPURIOUS := Spurious)"

datatype 'f action =
    SwapGs
  | CallHandler 'f
  | WarnEmpty nat
  | LogError
  | EndOfInterrupt
  | FlushTlb
  | TimerTick
  | TimeTick

definition prologue :: "'f action list" where
  "prologue = [SwapGs]"

definition epilogue :: "'f action list" where
  "epilogue = [EndOfInterrupt, SwapGs]"

text \<open>The handler the macro \<open>handler!\<close> generates for one vector.\<close>

definition handle_interrupt :: "'f InterruptHandler list \<Rightarrow> nat \<Rightarrow> 'f action list res" where
  "handle_interrupt handlers i =
     res_bind (usize_sub i 32) (\<lambda>slot.
     res_bind (index_at handlers slot) (\<lambda>h.
       Inr (prologue
            @ (case h of HNone \<Rightarrow> [WarnEmpty i] | HStatic f \<Rightarrow> [CallHandler f] | HDynamic f \<Rightarrow> [CallHandler f])
            @ epilogue)))"

definition page_fault_handler ::
    "'pt mapper_api \<Rightarrow> usize \<Rightarrow> 'pt memory_state \<Rightarrow> ('f action list \<times> 'pt memory_state) res" where
  "page_fault_handler ma address mem =
     res_bind (lazy_map ma address mem) (\<lambda>(ok, mem').
       if ok then Inr (prologue @ epilogue, mem') else Inl ExplicitPanic)"

definition apic_timer_interrupt_handler :: "nat \<Rightarrow> 'f action list" where
  "apic_timer_interrupt_handler pid =
     prologue @ (if pid = 0 then [TimerTick, TimeTick] else []) @ epilogue"

text \<open>
  What the processor \<open>pid\<close> runs for a vector; \<open>cr2\<close> is the faulting address. A vector without a
  handler is a fault of the processor, which ends in the double fault handler's panic.
\<close>

definition interrupt_entry ::
    "'pt mapper_api \<Rightarrow> nat \<Rightarrow> usize \<Rightarrow> nat \<Rightarrow> 'f InterruptHandler list \<Rightarrow> 'pt memory_state
       \<Rightarrow> ('f action list \<times> 'pt memory_state) res" where
  "interrupt_entry ma pid cr2 v handlers mem =
     (let quiet = (\<lambda>acts. Inr (prologue @ acts @ epilogue, mem))
      in case IDT v of
        Absent \<Rightarrow> Inl ExplicitPanic
      | NonMaskable \<Rightarrow> quiet []
      | Breakpoint \<Rightarrow> quiet [LogError]
      | DoubleFault \<Rightarrow> Inl ExplicitPanic
      | PageFault \<Rightarrow> page_fault_handler ma cr2 mem
      | InvalidTss \<Rightarrow> Inl ExplicitPanic
      | SegmentNotPresent \<Rightarrow> Inl ExplicitPanic
      | GeneralProtection \<Rightarrow> Inl ExplicitPanic
      | AlignmentCheck \<Rightarrow> Inl ExplicitPanic
      | General i \<Rightarrow> res_bind (handle_interrupt handlers i) (\<lambda>acts. Inr (acts, mem))
      | TlbFlush \<Rightarrow> quiet [FlushTlb]
      | ApicError \<Rightarrow> quiet [LogError]
      | ApicTimer \<Rightarrow> Inr (apic_timer_interrupt_handler pid, mem)
      | Spurious \<Rightarrow> quiet [])"

section \<open>IO-APICs\<close>

datatype IrqFlag = LEVEL_TRIGGERED | LOW_ACTIVE | MASKED

record table_entry =
  te_vector :: nat
  te_flags :: "IrqFlag set"
  te_dest :: nat

record 'io ioapic_api =
  ia_new :: "usize \<Rightarrow> 'io"
  ia_init :: "nat \<Rightarrow> 'io \<Rightarrow> 'io"
  ia_max_table_entry :: "'io \<Rightarrow> nat"
  ia_table_entry :: "nat \<Rightarrow> 'io \<Rightarrow> table_entry"
  ia_set_table_entry :: "nat \<Rightarrow> table_entry \<Rightarrow> 'io \<Rightarrow> 'io"
  ia_enable_irq :: "nat \<Rightarrow> 'io \<Rightarrow> 'io"
  ia_disable_irq :: "nat \<Rightarrow> 'io \<Rightarrow> 'io"

text \<open>
  The redirection table as the crate documents it: a table of \<open>max_table_entry + 1\<close> entries; \<open>init\<close>
  gives entry \<open>i\<close> the vector \<open>offset + i\<close>; entries are independent; enabling and disabling an irq
  clears and sets its mask bit.
\<close>

definition ioapic_spec :: "'io ioapic_api \<Rightarrow> bool" where
  "ioapic_spec ia \<longleftrightarrow>
     (\<forall>io off i e. ia_max_table_entry ia (ia_init ia off io) = ia_max_table_entry ia io
        \<and> ia_max_table_entry ia (ia_set_table_entry ia i e io) = ia_max_table_entry ia io
        \<and> ia_max_table_entry ia (ia_enable_irq ia i io) = ia_max_table_entry ia io
        \<and> ia_max_table_entry ia (ia_disable_irq ia i io) = ia_max_table_entry ia io)
   \<and> (\<forall>io off i. i \<le> ia_max_table_entry ia io \<longrightarrow> te_vector (ia_table_entry ia i (ia_init ia off io)) = off + i)
   \<and> (\<forall>io i j e. i \<le> ia_max_table_entry ia io \<longrightarrow> j \<le> ia_max_table_entry ia io \<longrightarrow>
        ia_table_entry ia j (ia_set_table_entry ia i e io) = (if j = i then e else ia_table_entry ia j io)
        \<and> ia_table_entry ia j (ia_enable_irq ia i io) =
            (let t = ia_table_entry ia j io in if j = i then t\<lparr>te_flags := te_flags t - {MASKED}\<rparr> else t)
        \<and> ia_table_entry ia j (ia_disable_irq ia i io) =
            (let t = ia_table_entry ia j io in if j = i then t\<lparr>te_flags := te_flags t \<union> {MASKED}\<rparr> else t))"

record 'io IoApicWithInfo =
  iw_io_apic :: 'io
  iw_base :: nat

text \<open>\<open>INTERRUPT_HANDLERS\<close>, \<open>IO_APICS\<close> and \<open>FIRST_FREE\<close>.\<close>

record ('f, 'io) irq_state =
  ir_handlers :: "'f InterruptHandler list"
  ir_io_apics :: "'io IoApicWithInfo option list"
  ir_first_free :: nat

definition irq_static :: "('f, 'io) irq_state" where
  "irq_static = \<lparr>ir_handlers = replicate 224 HNone, ir_io_apics = replicate 32 None, ir_first_free = 0\<rparr>"

definition u8_add :: "nat \<Rightarrow> nat \<Rightarrow> nat res" where
  "u8_add a b = (if a + b < 256 then Inr (a + b) else Inl ArithOverflow)"

lemma u8_add_eq_Inr [simp]: "u8_add a b = Inr c \<longleftrightarrow> c = a + b \<and> a + b < 256"
  by (auto simp: u8_add_def)

text \<open>The loop of \<open>get_io_apic\<close>: the index of the IO-APIC that serves the line.\<close>

fun get_io_apic_from :: "'io ioapic_api \<Rightarrow> nat \<Rightarrow> nat \<Rightarrow> 'io IoApicWithInfo option list \<Rightarrow> nat res" where
  "get_io_apic_from ia gsi k [] = Inl ExplicitPanic"
| "get_io_apic_from ia gsi k (None # rest) = get_io_apic_from ia gsi (Suc k) rest"
| "get_io_apic_from ia gsi k (Some w # rest) =
     (if gsi < iw_base w then get_io_apic_from ia gsi (Suc k) rest
      else if ia_max_table_entry ia (iw_io_apic w) < gsi - iw_base w
      then get_io_apic_from ia gsi (Suc k) rest
      else Inr k)"

definition get_io_apic :: "'io ioapic_api \<Rightarrow> nat \<Rightarrow> ('f, 'io) irq_state \<Rightarrow> (nat \<times> 'io IoApicWithInfo) res" where
  "get_io_apic ia gsi st =
     res_bind (get_io_apic_from ia gsi 0 (ir_io_apics st)) (\<lambda>k.
     res_bind (index_at (ir_io_apics st) k) (\<lambda>w.
     res_bind (unwrap w) (\<lambda>w. Inr (k, w))))"

definition put_io_apic :: "nat \<Rightarrow> 'io IoApicWithInfo \<Rightarrow> 'io \<Rightarrow> ('f, 'io) irq_state \<Rightarrow> ('f, 'io) irq_state" where
  "put_io_apic k w io st = st\<lparr>ir_io_apics := (ir_io_apics st)[k := Some (w\<lparr>iw_io_apic := io\<rparr>)]\<rparr>"

subsection \<open>Initialisation\<close>

record io_apic_info =
  ii_address :: usize
  ii_base :: nat

text \<open>The masking loop runs over \<open>0..max_table_entry\<close>, the end excluded.\<close>

definition mask_entry :: "'io ioapic_api \<Rightarrow> nat \<Rightarrow> nat \<Rightarrow> 'io \<Rightarrow> 'io" where
  "mask_entry ia base i io =
     (let entry = ia_table_entry ia i io;
          entry = entry\<lparr>te_flags := te_flags entry \<union> {MASKED}\<rparr>;
          entry = (if i = 2 \<and> base = 0 then entry\<lparr>te_dest := 255\<rparr> else entry)
      in ia_set_table_entry ia i entry io)"

definition init_one_ioapic ::
    "'io ioapic_api \<Rightarrow> 'pt mapper_api \<Rightarrow> nat \<times> io_apic_info
       \<Rightarrow> ('f, 'io) irq_state \<times> 'pt memory_state \<times> nat
       \<Rightarrow> (('f, 'io) irq_state \<times> 'pt memory_state \<times> nat) res" where
  "init_one_ioapic ia ma entry s =
     (case (entry, s) of ((i, info), (st, mem, first_free)) \<Rightarrow>
      res_bind (phys_new (ii_address info)) (\<lambda>addr.
      res_bind (map_address ma addr 4096 mem) (\<lambda>(va, mem').
      let io = ia_new ia va; base8 = ii_base info mod 256 in
      res_bind (u8_add IOAPIC_START base8) (\<lambda>off.
      let io = ia_init ia off io;
          m = ia_max_table_entry ia io;
          io = fold (mask_entry ia (ii_base info)) [0..<m] io
      in
      res_bind (store_at (ir_io_apics st) i (Some \<lparr>iw_io_apic = io, iw_base = base8\<rparr>)) (\<lambda>apics.
      res_bind (u8_add off m) (\<lambda>free.
        Inr (st\<lparr>ir_io_apics := apics\<rparr>, mem', max first_free free)))))))"

text \<open>
  The sort puts empty slots last and the others in the order of their bases (the order among
  equal bases is unspecified in the source; here it is stable).
\<close>

definition sort_io_apics :: "'io IoApicWithInfo option list \<Rightarrow> 'io IoApicWithInfo option list" where
  "sort_io_apics apics =
     (let somes = List.map_filter id apics
      in map Some (sort_key iw_base somes) @ replicate (length apics - length somes) None)"

definition init_ioapic ::
    "'io ioapic_api \<Rightarrow> 'pt mapper_api \<Rightarrow> io_apic_info list \<Rightarrow> ('f, 'io) irq_state \<times> 'pt memory_state
       \<Rightarrow> (('f, 'io) irq_state \<times> 'pt memory_state) res" where
  "init_ioapic ia ma infos s =
     res_bind (res_fold (init_one_ioapic ia ma) (zip [0..<length infos] infos) (fst s, snd s, 0))
       (\<lambda>(st, mem, first_free).
       Inr (st\<lparr>ir_io_apics := sort_io_apics (ir_io_apics st), ir_first_free := first_free\<rparr>, mem))"

section \<open>Registering and removing handlers\<close>

datatype InterruptType = EdgeHigh | EdgeLow | LevelHigh | LevelLow

datatype TriggerMode = TriggerSame | TriggerEdge | TriggerLevel
datatype Polarity = PolaritySame | ActiveHigh | ActiveLow

record source_override =
  iso_isa_source :: nat
  iso_gsi :: nat
  iso_trigger_mode :: TriggerMode
  iso_polarity :: Polarity

text \<open>The loop over the interrupt source overrides of ACPI: the first that matches wins.\<close>

fun apply_override :: "source_override list \<Rightarrow> nat \<Rightarrow> InterruptType \<Rightarrow> nat \<times> InterruptType" where
  "apply_override [] gsi itype = (gsi, itype)"
| "apply_override (ov # isos) gsi itype =
     (if iso_isa_source ov = gsi
      then (iso_gsi ov mod 256,
            case (iso_trigger_mode ov, iso_polarity ov) of
              (TriggerEdge, ActiveHigh) \<Rightarrow> EdgeHigh
            | (TriggerEdge, ActiveLow) \<Rightarrow> EdgeLow
            | (TriggerLevel, ActiveHigh) \<Rightarrow> LevelHigh
            | (TriggerLevel, ActiveLow) \<Rightarrow> LevelLow
            | _ \<Rightarrow> itype)
      else apply_override isos gsi itype)"

definition type_flags :: "InterruptType \<Rightarrow> IrqFlag set \<Rightarrow> IrqFlag set" where
  "type_flags itype flags =
     (case itype of
        EdgeHigh \<Rightarrow> flags - {LEVEL_TRIGGERED} - {LOW_ACTIVE}
      | EdgeLow \<Rightarrow> (flags - {LEVEL_TRIGGERED}) \<union> {LOW_ACTIVE}
      | LevelHigh \<Rightarrow> (flags \<union> {LEVEL_TRIGGERED}) - {LOW_ACTIVE}
      | LevelLow \<Rightarrow> flags \<union> {LEVEL_TRIGGERED} \<union> {LOW_ACTIVE})"

datatype 'cap InterruptGuard =
    GuardIoApic nat
  | GuardMsi 'cap nat
  | GuardMsiX 'cap nat

definition set_interrupt ::
    "'io ioapic_api \<Rightarrow> source_override list \<Rightarrow> nat \<Rightarrow> InterruptType \<Rightarrow> 'f InterruptHandler
       \<Rightarrow> ('f, 'io) irq_state \<Rightarrow> ('cap InterruptGuard \<times> ('f, 'io) irq_state) res" where
  "set_interrupt ia isos gsi itype h st =
     (let (gsi, itype) = apply_override isos gsi itype in
      res_bind (get_io_apic ia gsi st) (\<lambda>(k, w).
      res_bind (usize_sub gsi (iw_base w)) (\<lambda>vector.
      let io = iw_io_apic w;
          entry = ia_table_entry ia vector io;
          entry = entry\<lparr>te_flags := type_flags itype (te_flags entry)\<rparr>;
          io = ia_set_table_entry ia vector entry io
      in
      res_bind (store_at (ir_handlers st) gsi h) (\<lambda>handlers.
      let io = ia_enable_irq ia vector io
      in Inr (GuardIoApic gsi, put_io_apic k w io (st\<lparr>ir_handlers := handlers\<rparr>))))))"

definition set_interrupt_static ::
    "'io ioapic_api \<Rightarrow> source_override list \<Rightarrow> nat \<Rightarrow> InterruptType \<Rightarrow> 'f
       \<Rightarrow> ('f, 'io) irq_state \<Rightarrow> ('cap InterruptGuard \<times> ('f, 'io) irq_state) res" where
  "set_interrupt_static ia isos gsi itype f st = set_interrupt ia isos gsi itype (HStatic f) st"

definition set_interrupt_dyn ::
    "'io ioapic_api \<Rightarrow> source_override list \<Rightarrow> nat \<Rightarrow> InterruptType \<Rightarrow> 'f
       \<Rightarrow> ('f, 'io) irq_state \<Rightarrow> ('cap InterruptGuard \<times> ('f, 'io) irq_state) res" where
  "set_interrupt_dyn ia isos gsi itype f st = set_interrupt ia isos gsi itype (HDynamic f) st"

subsection \<open>Message-signalled interrupts\<close>

datatype 'cap PciCapability = CapMsi 'cap | CapMsiX 'cap | CapOther

text \<open>The base address registers: a memory region with its address and size, or an I/O port.\<close>

datatype Bar = BarMemory32 usize usize | BarMemory64 usize usize | BarIo nat

definition unwrap_mem :: "Bar \<Rightarrow> (usize \<times> usize) res" where
  "unwrap_mem b = (case b of BarMemory32 a sz \<Rightarrow> Inr (a, sz) | BarMemory64 a sz \<Rightarrow> Inr (a, sz) | BarIo p \<Rightarrow> Inl UnwrapFailed)"

text \<open>What is written to the device: its message registers, its enable bit, its table in memory.\<close>

datatype 'cap device_write =
    MessageInfo 'cap u64 u32
  | SetEnabled 'cap bool
  | WriteTable usize u32

record 'cap msix_api =
  mx_table_bar :: "'cap \<Rightarrow> nat"
  mx_table_offset :: "'cap \<Rightarrow> usize"

record 'cap msi_device =
  md_capabilities :: "'cap PciCapability list"
  md_bars :: "Bar option list"

text \<open>The search for a free vector in \<open>first_free..=LAST_FREE\<close>; 0 stands for none.\<close>

fun find_free_vector :: "'f InterruptHandler list \<Rightarrow> nat list \<Rightarrow> nat res" where
  "find_free_vector handlers [] = Inr 0"
| "find_free_vector handlers (i # is) =
     res_bind (usize_sub i 32) (\<lambda>slot.
     res_bind (index_at handlers slot) (\<lambda>h.
       if h = HNone then Inr i else find_free_vector handlers is))"

definition msi_mar :: "'a::len word" where
  "msi_mar = push_bit 20 0x0FEE"

fun map_capability ::
    "'pt mapper_api \<Rightarrow> 'cap msix_api \<Rightarrow> nat \<Rightarrow> Bar option list \<Rightarrow> 'cap PciCapability list \<Rightarrow> 'pt memory_state
       \<Rightarrow> ('cap InterruptGuard option \<times> 'cap device_write list \<times> 'pt memory_state) res" where
  "map_capability ma mx gsi bars [] mem = Inr (None, [], mem)"
| "map_capability ma mx gsi bars (CapOther # caps) mem = map_capability ma mx gsi bars caps mem"
| "map_capability ma mx gsi bars (CapMsi cap # caps) mem =
     Inr (Some (GuardMsi cap gsi), [MessageInfo cap msi_mar (of_nat gsi), SetEnabled cap True], mem)"
| "map_capability ma mx gsi bars (CapMsiX cap # caps) mem =
     res_bind (index_at bars (mx_table_bar mx cap)) (\<lambda>bar.
     res_bind (unwrap bar) (\<lambda>bar.
     res_bind (unwrap_mem bar) (\<lambda>(addr, sz).
     res_bind (phys_new addr) (\<lambda>addr.
     res_bind (map_address ma addr sz mem) (\<lambda>(va, mem').
     let a = va + mx_table_offset mx cap
     in Inr (Some (GuardMsiX cap gsi),
             [WriteTable a msi_mar, WriteTable (a + 4) 0, WriteTable (a + 8) (of_nat gsi),
              WriteTable (a + 12) 0, SetEnabled cap True], mem'))))))"

definition set_interrupt_msi ::
    "'pt mapper_api \<Rightarrow> 'cap msix_api \<Rightarrow> 'cap msi_device \<Rightarrow> 'f \<Rightarrow> ('f, 'io) irq_state \<times> 'pt memory_state
       \<Rightarrow> ('cap InterruptGuard option \<times> 'cap device_write list \<times> ('f, 'io) irq_state \<times> 'pt memory_state) res" where
  "set_interrupt_msi ma mx header f s =
     (case s of (st, mem) \<Rightarrow>
      res_bind (find_free_vector (ir_handlers st) [ir_first_free st..<LAST_FREE + 1]) (\<lambda>gsi.
      if gsi = 0 then Inr (None, [], st, mem)
      else
        res_bind (map_capability ma mx gsi (md_bars header) (md_capabilities header) mem) (\<lambda>(mapped, ws, mem').
        if mapped \<noteq> None
        then
          res_bind (usize_sub gsi 32) (\<lambda>slot.
          res_bind (store_at (ir_handlers st) slot (HDynamic f)) (\<lambda>handlers.
            Inr (mapped, ws, st\<lparr>ir_handlers := handlers\<rparr>, mem')))
        else Inr (mapped, ws, st, mem'))))"

text \<open>Dropping a guard.\<close>

definition InterruptGuard_drop ::
    "'io ioapic_api \<Rightarrow> 'cap InterruptGuard \<Rightarrow> ('f, 'io) irq_state \<Rightarrow> ('cap device_write list \<times> ('f, 'io) irq_state) res" where
  "InterruptGuard_drop ia guard st =
     res_bind
       (case guard of
          GuardIoApic gsi \<Rightarrow>
            res_bind (get_io_apic ia gsi st) (\<lambda>(k, w).
            res_bind (usize_sub gsi (iw_base w)) (\<lambda>vector.
              Inr (gsi, [], put_io_apic k w (ia_disable_irq ia vector (iw_io_apic w)) st)))
        | GuardMsi cap gsi \<Rightarrow> Inr (gsi, [SetEnabled cap False], st)
        | GuardMsiX cap gsi \<Rightarrow> Inr (gsi, [SetEnabled cap False], st))
       (\<lambda>(gsi, ws, st).
          res_bind (store_at (ir_handlers st) gsi HNone) (\<lambda>handlers.
            Inr (ws, st\<lparr>ir_handlers := handlers\<rparr>)))"

section \<open>Routing\<close>

text \<open>
  The invariant of an initialised system: the table of handlers has its 224 slots, and entry \<open>i\<close>
  of every IO-APIC raises the vector of its global line.
\<close>

definition apic_routed :: "'io ioapic_api \<Rightarrow> 'io IoApicWithInfo \<Rightarrow> bool" where
  "apic_routed ia w \<longleftrightarrow>
     (\<forall>i\<le>ia_max_table_entry ia (iw_io_apic w).
        te_vector (ia_table_entry ia i (iw_io_apic w)) = IOAPIC_START + iw_base w + i)"

definition irq_wf :: "'io ioapic_api \<Rightarrow> ('f, 'io) irq_state \<Rightarrow> bool" where
  "irq_wf ia st \<longleftrightarrow> length (ir_handlers st) = 224 \<and> (\<forall>w. Some w \<in> set (ir_io_apics st) \<longrightarrow> apic_routed ia w)"

lemma get_io_apic_from_Inr:
  "get_io_apic_from ia gsi k apics = Inr k' \<Longrightarrow>
     \<exists>j w. k' = k + j \<and> j < length apics \<and> apics ! j = Some w \<and> iw_base w \<le> gsi
       \<and> gsi - iw_base w \<le> ia_max_table_entry ia (iw_io_apic w)"
proof (induction ia gsi k apics rule: get_io_apic_from.induct)
  case (2 ia gsi k rest)
  then obtain j w where "k' = Suc k + j" "j < length rest" "rest ! j = Some w" "iw_base w \<le> gsi"
    "gsi - iw_base w \<le> ia_max_table_entry ia (iw_io_apic w)" by auto
  then show ?case by (intro exI[of _ "Suc j"]) auto
next
  case (3 ia gsi k w rest)
  show ?case
  proof (cases "gsi < iw_base w \<or> ia_max_table_entry ia (iw_io_apic w) < gsi - iw_base w")
    case True
    then obtain j v where "k' = Suc k + j" "j < length rest" "rest ! j = Some v" "iw_base v \<le> gsi"
      "gsi - iw_base v \<le> ia_max_table_entry ia (iw_io_apic v)" using 3 by (auto split: if_splits)
    then show ?thesis by (intro exI[of _ "Suc j"]) auto
  next
    case False
    then show ?thesis using 3 by (intro exI[of _ 0]) (auto split: if_splits)
  qed
qed simp

lemma get_io_apic_Inr:
  assumes "get_io_apic ia gsi st = Inr (k, w)"
  shows "k < length (ir_io_apics st)" "ir_io_apics st ! k = Some w" "iw_base w \<le> gsi"
    "gsi - iw_base w \<le> ia_max_table_entry ia (iw_io_apic w)"
proof -
  have kw: "get_io_apic_from ia gsi 0 (ir_io_apics st) = Inr k" "ir_io_apics st ! k = Some w"
    using assms by (auto simp: get_io_apic_def)
  from get_io_apic_from_Inr[OF kw(1)] kw(2) show "k < length (ir_io_apics st)" "ir_io_apics st ! k = Some w"
    "iw_base w \<le> gsi" "gsi - iw_base w \<le> ia_max_table_entry ia (iw_io_apic w)" by auto
qed

lemma ioapic_specD:
  assumes "ioapic_spec ia"
  shows "ia_max_table_entry ia (ia_init ia off io) = ia_max_table_entry ia io"
    "ia_max_table_entry ia (ia_set_table_entry ia i e io) = ia_max_table_entry ia io"
    "ia_max_table_entry ia (ia_enable_irq ia i io) = ia_max_table_entry ia io"
    "ia_max_table_entry ia (ia_disable_irq ia i io) = ia_max_table_entry ia io"
    "i \<le> ia_max_table_entry ia io \<Longrightarrow> te_vector (ia_table_entry ia i (ia_init ia off io)) = off + i"
    "i \<le> ia_max_table_entry ia io \<Longrightarrow> j \<le> ia_max_table_entry ia io \<Longrightarrow>
        ia_table_entry ia j (ia_set_table_entry ia i e io) = (if j = i then e else ia_table_entry ia j io)"
    "i \<le> ia_max_table_entry ia io \<Longrightarrow> j \<le> ia_max_table_entry ia io \<Longrightarrow>
        ia_table_entry ia j (ia_enable_irq ia i io) =
          (ia_table_entry ia j io)\<lparr>te_flags := te_flags (ia_table_entry ia j io) - (if j = i then {MASKED} else {})\<rparr>"
    "i \<le> ia_max_table_entry ia io \<Longrightarrow> j \<le> ia_max_table_entry ia io \<Longrightarrow>
        ia_table_entry ia j (ia_disable_irq ia i io) =
          (ia_table_entry ia j io)\<lparr>te_flags := te_flags (ia_table_entry ia j io) \<union> (if j = i then {MASKED} else {})\<rparr>"
  using assms by (simp_all add: ioapic_spec_def Let_def)

lemma IDT_general: "32 \<le> v \<Longrightarrow> v < 252 \<Longrightarrow> IDT v = General v"
  by (simp add: IDT_def vector_defs)

text \<open>What registration does, in terms of the line after the overrides are applied.\<close>

lemma set_interrupt_Inr:
  assumes spec: "ioapic_spec ia" and wf: "irq_wf ia st"
    and call: "set_interrupt ia isos gsi itype h st = Inr (guard, st')"
    and ov: "apply_override isos gsi itype = (line, ty)"
  shows "\<exists>k w io. get_io_apic ia line st = Inr (k, w) \<and> line < 224 \<and> guard = GuardIoApic line
    \<and> st' = put_io_apic k w io (st\<lparr>ir_handlers := (ir_handlers st)[line := h]\<rparr>)
    \<and> ia_max_table_entry ia io = ia_max_table_entry ia (iw_io_apic w)
    \<and> (\<forall>i\<le>ia_max_table_entry ia io. ia_table_entry ia i io =
         (if i = line - iw_base w
          then (ia_table_entry ia i (iw_io_apic w))\<lparr>te_flags := type_flags ty (te_flags (ia_table_entry ia i (iw_io_apic w))) - {MASKED}\<rparr>
          else ia_table_entry ia i (iw_io_apic w)))"
proof -
  obtain k w where kw: "get_io_apic ia line st = Inr (k, w)" "line < length (ir_handlers st)" "guard = GuardIoApic line"
    "st' = put_io_apic k w (ia_enable_irq ia (line - iw_base w) (ia_set_table_entry ia (line - iw_base w)
        ((ia_table_entry ia (line - iw_base w) (iw_io_apic w))\<lparr>te_flags :=
          type_flags ty (te_flags (ia_table_entry ia (line - iw_base w) (iw_io_apic w)))\<rparr>) (iw_io_apic w)))
      (st\<lparr>ir_handlers := (ir_handlers st)[line := h]\<rparr>)"
    using call ov by (auto simp: set_interrupt_def Let_def)
  note g = get_io_apic_Inr[OF kw(1)]
  show ?thesis using kw g(4) wf ioapic_specD(2,3,6,7)[OF spec] unfolding irq_wf_def
    by (intro exI[of _ k] exI[of _ w] exI) auto
qed

lemma set_interrupt_wf:
  assumes spec: "ioapic_spec ia" and wf: "irq_wf ia st"
    and call: "set_interrupt ia isos gsi itype h st = Inr (guard, st')"
  shows "irq_wf ia st' \<and> (\<exists>line<224. guard = GuardIoApic line \<and> ir_handlers st' = (ir_handlers st)[line := h])"
proof -
  obtain line ty where ov: "apply_override isos gsi itype = (line, ty)" by force
  obtain k w io where kw: "get_io_apic ia line st = Inr (k, w)" "line < 224" "guard = GuardIoApic line"
    and st': "st' = put_io_apic k w io (st\<lparr>ir_handlers := (ir_handlers st)[line := h]\<rparr>)"
    and mx: "ia_max_table_entry ia io = ia_max_table_entry ia (iw_io_apic w)"
    and ent: "\<forall>i\<le>ia_max_table_entry ia io. te_vector (ia_table_entry ia i io) = te_vector (ia_table_entry ia i (iw_io_apic w))"
    using set_interrupt_Inr[OF spec wf call ov] by auto
  note g = get_io_apic_Inr[OF kw(1)]
  have "apic_routed ia w" using wf g(1,2) unfolding irq_wf_def by (metis nth_mem)
  then have routed: "apic_routed ia (w\<lparr>iw_io_apic := io\<rparr>)" using ent mx by (auto simp: apic_routed_def)
  have "irq_wf ia st'" using wf routed unfolding st' irq_wf_def put_io_apic_def
    by (auto dest!: set_update_subset_insert[THEN subsetD])
  then show ?thesis using kw by (auto simp: st' put_io_apic_def)
qed

text \<open>
  C11. A handler registered for a line is the one that runs: after \<open>set_interrupt\<close> the entry of the
  line in its IO-APIC is unmasked, and the vector in that entry leads, through the descriptor
  table and the table of handlers, to exactly one call of the handler between swapping GS and
  acknowledging the interrupt; no other line's handler changes and the routing stays sound.
\<close>

theorem interrupt_routed:
  assumes spec: "ioapic_spec ia" and wf: "irq_wf ia st"
    and call: "set_interrupt ia isos gsi itype h st = Inr (GuardIoApic line, st')"
    and h: "h = HStatic f \<or> h = HDynamic f" and line: "line < 220"
  shows "irq_wf ia st'
    \<and> (\<exists>k w. k < length (ir_io_apics st') \<and> ir_io_apics st' ! k = Some w \<and> iw_base w \<le> line
         \<and> line - iw_base w \<le> ia_max_table_entry ia (iw_io_apic w)
         \<and> MASKED \<notin> te_flags (ia_table_entry ia (line - iw_base w) (iw_io_apic w))
         \<and> interrupt_entry ma pid cr2 (te_vector (ia_table_entry ia (line - iw_base w) (iw_io_apic w)))
              (ir_handlers st') mem
            = Inr ([SwapGs, CallHandler f, EndOfInterrupt, SwapGs], mem))
    \<and> (\<forall>l. l \<noteq> line \<longrightarrow> ir_handlers st' ! l = ir_handlers st ! l)"
proof -
  obtain l0 ty where ov: "apply_override isos gsi itype = (l0, ty)" by force
  obtain k w io where kw: "get_io_apic ia line st = Inr (k, w)"
    and st': "st' = put_io_apic k w io (st\<lparr>ir_handlers := (ir_handlers st)[line := h]\<rparr>)"
    and mx: "ia_max_table_entry ia io = ia_max_table_entry ia (iw_io_apic w)"
    and ent: "\<forall>i\<le>ia_max_table_entry ia io. ia_table_entry ia i io =
         (if i = line - iw_base w
          then (ia_table_entry ia i (iw_io_apic w))\<lparr>te_flags := type_flags ty (te_flags (ia_table_entry ia i (iw_io_apic w))) - {MASKED}\<rparr>
          else ia_table_entry ia i (iw_io_apic w))"
    using set_interrupt_Inr[OF spec wf call ov] by auto
  note g = get_io_apic_Inr[OF kw]
  let ?w' = "w\<lparr>iw_io_apic := io\<rparr>"
  have len: "length (ir_handlers st) = 224" using wf by (simp add: irq_wf_def)
  have wf': "irq_wf ia st'" using set_interrupt_wf[OF spec wf call] by blast
  have "Some ?w' \<in> set (ir_io_apics st')" using g(1) by (auto simp: st' put_io_apic_def set_update_memI)
  with wf' have routed: "apic_routed ia ?w'" by (simp add: irq_wf_def)
  note wf'
  moreover have "te_vector (ia_table_entry ia (line - iw_base w) io) = 32 + line"
    using routed g(3,4) mx unfolding apic_routed_def by (simp add: vector_defs)
  moreover have "interrupt_entry ma pid cr2 (32 + line) (ir_handlers st') mem
      = Inr ([SwapGs, CallHandler f, EndOfInterrupt, SwapGs], mem)"
    using h line len by (auto simp: interrupt_entry_def IDT_general handle_interrupt_def st' put_io_apic_def
        prologue_def epilogue_def)
  moreover have "MASKED \<notin> te_flags (ia_table_entry ia (line - iw_base w) io)" using ent g(4) mx by auto
  ultimately show ?thesis using g mx
    by (auto simp: st' put_io_apic_def intro!: exI[of _ k] exI[of _ ?w'])
qed

text \<open>What a successful registration for a message-signalled interrupt has done.\<close>

lemma find_free_vector_Inr:
  "find_free_vector handlers is = Inr v \<Longrightarrow> v \<noteq> 0 \<Longrightarrow>
     v \<in> set is \<and> 32 \<le> v \<and> v - 32 < length handlers \<and> handlers ! (v - 32) = HNone"
  by (induction handlers "is" rule: find_free_vector.induct) (auto split: if_splits)

lemma map_capability_guard:
  "map_capability ma mx gsi bars caps mem = Inr (Some g, ws, mem') \<Longrightarrow>
     \<exists>cap. g = GuardMsi cap gsi \<or> g = GuardMsiX cap gsi"
  by (induction ma mx gsi bars caps mem rule: map_capability.induct) (auto simp: Let_def)

lemma set_interrupt_msi_Inr:
  assumes "set_interrupt_msi ma mx dev f (st, mem) = Inr (Some g, ws, st', mem')"
  shows "\<exists>v cap. (g = GuardMsi cap v \<or> g = GuardMsiX cap v) \<and> ir_first_free st \<le> v \<and> 32 \<le> v \<and> v < 252
    \<and> v - 32 < length (ir_handlers st) \<and> ir_handlers st ! (v - 32) = HNone
    \<and> st' = st\<lparr>ir_handlers := (ir_handlers st)[v - 32 := HDynamic f]\<rparr>"
proof -
  obtain v where v: "find_free_vector (ir_handlers st) [ir_first_free st..<LAST_FREE + 1] = Inr v" "v \<noteq> 0"
    "map_capability ma mx v (md_bars dev) (md_capabilities dev) mem = Inr (Some g, ws, mem')"
    "st' = st\<lparr>ir_handlers := (ir_handlers st)[v - 32 := HDynamic f]\<rparr>"
    using assms by (auto simp: set_interrupt_msi_def split: if_splits)
  show ?thesis using find_free_vector_Inr[OF v(1,2)] map_capability_guard[OF v(3)] v(4)
    by (auto simp: vector_defs)
qed

text \<open>
  C13. A guard for a message-signalled interrupt does not remove its handler: the handler of
  vector \<open>v\<close> sits in slot \<open>v - 32\<close>, and dropping the guard clears slot \<open>v\<close> instead. For vectors from
  224 on that is out of bounds and dropping the guard panics; below, the handler stays and the
  slot of another vector (\<open>v + 32\<close>) is emptied.
\<close>

theorem msi_guard_drop_wrong_slot:
  assumes call: "set_interrupt_msi ma mx dev f (st, mem) = Inr (Some g, ws, st', mem')"
    and len: "length (ir_handlers st) = 224"
  shows "\<exists>v. (\<exists>cap. g = GuardMsi cap v \<or> g = GuardMsiX cap v) \<and> 32 \<le> v \<and> v < 252
    \<and> interrupt_entry ma pid cr2 v (ir_handlers st') mem'
        = Inr ([SwapGs, CallHandler f, EndOfInterrupt, SwapGs], mem')
    \<and> (if v < 224
       then \<exists>ws' st''. InterruptGuard_drop ia g st' = Inr (ws', st'')
         \<and> interrupt_entry ma pid cr2 v (ir_handlers st'') mem'
             = Inr ([SwapGs, CallHandler f, EndOfInterrupt, SwapGs], mem')
         \<and> ir_handlers st'' ! v = HNone
       else InterruptGuard_drop ia g st' = Inl IndexOutOfBounds)"
proof -
  obtain v cap where v: "g = GuardMsi cap v \<or> g = GuardMsiX cap v" "32 \<le> v" "v < 252"
    "st' = st\<lparr>ir_handlers := (ir_handlers st)[v - 32 := HDynamic f]\<rparr>"
    using set_interrupt_msi_Inr[OF call] by blast
  have run: "interrupt_entry ma pid cr2 v hs mem' = Inr ([SwapGs, CallHandler f, EndOfInterrupt, SwapGs], mem')"
    if "length hs = 224" "hs ! (v - 32) = HDynamic f" for hs
    using that v(2,3) by (simp add: interrupt_entry_def IDT_general handle_interrupt_def prologue_def epilogue_def)
  have "InterruptGuard_drop ia g st' = (if v < 224
      then Inr ([SetEnabled cap False], st'\<lparr>ir_handlers := (ir_handlers st')[v := HNone]\<rparr>)
      else Inl IndexOutOfBounds)"
    using v(1,4) len by (auto simp: InterruptGuard_drop_def)
  then show ?thesis using v len run
    by (intro exI[of _ v]) (auto simp: nth_list_update)
qed

section \<open>Initialisation of the IO-APICs\<close>

lemma mask_entry_exact:
  assumes "ioapic_spec ia" "i \<le> ia_max_table_entry ia io"
  shows "ia_max_table_entry ia (mask_entry ia base i io) = ia_max_table_entry ia io"
    "j \<le> ia_max_table_entry ia io \<Longrightarrow>
       te_vector (ia_table_entry ia j (mask_entry ia base i io)) = te_vector (ia_table_entry ia j io)
     \<and> (MASKED \<in> te_flags (ia_table_entry ia j (mask_entry ia base i io))
          \<longleftrightarrow> j = i \<or> MASKED \<in> te_flags (ia_table_entry ia j io))"
  using assms(2) ioapic_specD(2,6)[OF assms(1)] by (auto simp: mask_entry_def Let_def)

lemma mask_fold:
  assumes "ioapic_spec ia" "m \<le> ia_max_table_entry ia io"
  shows "ia_max_table_entry ia (fold (mask_entry ia base) [0..<m] io) = ia_max_table_entry ia io
    \<and> (\<forall>i\<le>ia_max_table_entry ia io.
         te_vector (ia_table_entry ia i (fold (mask_entry ia base) [0..<m] io)) = te_vector (ia_table_entry ia i io)
       \<and> (i < m \<longrightarrow> MASKED \<in> te_flags (ia_table_entry ia i (fold (mask_entry ia base) [0..<m] io))))"
  using assms(2)
proof (induction m)
  case (Suc m)
  let ?io = "fold (mask_entry ia base) [0..<m] io"
  have IH: "ia_max_table_entry ia ?io = ia_max_table_entry ia io"
    "\<forall>i\<le>ia_max_table_entry ia io. te_vector (ia_table_entry ia i ?io) = te_vector (ia_table_entry ia i io)
       \<and> (i < m \<longrightarrow> MASKED \<in> te_flags (ia_table_entry ia i ?io))" using Suc by auto
  have "m \<le> ia_max_table_entry ia ?io" using IH(1) Suc.prems by simp
  from mask_entry_exact[OF assms(1) this, where base = base] IH show ?case by (auto simp: less_Suc_eq)
qed simp

lemma init_one_ioapic_Inr:
  assumes spec: "ioapic_spec ia"
    and call: "init_one_ioapic ia ma (i, info) (st, mem, ff) = Inr (st', mem', ff')"
  shows "\<exists>w. i < length (ir_io_apics st) \<and> st' = st\<lparr>ir_io_apics := (ir_io_apics st)[i := Some w]\<rparr>
    \<and> apic_routed ia w
    \<and> (\<forall>j<ia_max_table_entry ia (iw_io_apic w). MASKED \<in> te_flags (ia_table_entry ia j (iw_io_apic w)))
    \<and> ff' = max ff (IOAPIC_START + iw_base w + ia_max_table_entry ia (iw_io_apic w))"
proof -
  obtain va where c: "IOAPIC_START + ii_base info mod 256 < 256" "i < length (ir_io_apics st)"
    "st' = st\<lparr>ir_io_apics := (ir_io_apics st)[i := Some \<lparr>iw_io_apic =
        fold (mask_entry ia (ii_base info))
          [0..<ia_max_table_entry ia (ia_init ia (IOAPIC_START + ii_base info mod 256) (ia_new ia va))]
          (ia_init ia (IOAPIC_START + ii_base info mod 256) (ia_new ia va)), iw_base = ii_base info mod 256\<rparr>]\<rparr>"
    "ff' = max ff (IOAPIC_START + ii_base info mod 256
        + ia_max_table_entry ia (ia_init ia (IOAPIC_START + ii_base info mod 256) (ia_new ia va)))"
    using call by (auto simp: init_one_ioapic_def Let_def)
  define io where "io = ia_init ia (IOAPIC_START + ii_base info mod 256) (ia_new ia va)"
  note m = mask_fold[OF spec order_refl, where io = io and base = "ii_base info"]
  have vec: "te_vector (ia_table_entry ia j io) = IOAPIC_START + ii_base info mod 256 + j"
    if "j \<le> ia_max_table_entry ia io" for j
    using that ioapic_specD(1,5)[OF spec] by (simp add: io_def)
  show ?thesis using c m vec unfolding io_def[symmetric] by (auto simp: apic_routed_def)
qed

definition init_inv :: "'io ioapic_api \<Rightarrow> nat \<Rightarrow> ('f, 'io) irq_state \<Rightarrow> nat \<Rightarrow> bool" where
  "init_inv ia n st ff \<longleftrightarrow> irq_wf ia st
     \<and> (\<forall>j. n \<le> j \<longrightarrow> j < length (ir_io_apics st) \<longrightarrow> ir_io_apics st ! j = None)
     \<and> (\<forall>w. Some w \<in> set (ir_io_apics st) \<longrightarrow> IOAPIC_START + iw_base w + ia_max_table_entry ia (iw_io_apic w) \<le> ff)
     \<and> (if n = 0 then ff = 0
        else \<exists>w. Some w \<in> set (ir_io_apics st) \<and> ff = IOAPIC_START + iw_base w + ia_max_table_entry ia (iw_io_apic w))"

lemma init_inv_step:
  assumes spec: "ioapic_spec ia" and inv: "init_inv ia n st ff"
    and call: "init_one_ioapic ia ma (n, info) (st, mem, ff) = Inr (st', mem', ff')"
  shows "init_inv ia (Suc n) st' ff'"
proof -
  obtain w where w: "n < length (ir_io_apics st)" "st' = st\<lparr>ir_io_apics := (ir_io_apics st)[n := Some w]\<rparr>"
    "apic_routed ia w" "ff' = max ff (IOAPIC_START + iw_base w + ia_max_table_entry ia (iw_io_apic w))"
    using init_one_ioapic_Inr[OF spec call] by blast
  have old: "ir_io_apics st ! n = None" using inv w(1) by (auto simp: init_inv_def)
  have mem: "Some v \<in> set (ir_io_apics st') \<longleftrightarrow> v = w \<or> Some v \<in> set (ir_io_apics st)" for v
  proof -
    have "Some v \<in> set ((ir_io_apics st)[n := Some w]) \<longleftrightarrow> (\<exists>j<length (ir_io_apics st). (ir_io_apics st)[n := Some w] ! j = Some v)"
      by (auto simp: in_set_conv_nth)
    also have "\<dots> \<longleftrightarrow> v = w \<or> (\<exists>j<length (ir_io_apics st). ir_io_apics st ! j = Some v)"
      using w(1) old by (auto simp: nth_list_update) (metis option.distinct(1))
    finally show ?thesis by (auto simp: w(2) in_set_conv_nth)
  qed
  have hd: "ir_handlers st' = ir_handlers st" by (simp add: w(2))
  have none: "\<forall>j. Suc n \<le> j \<longrightarrow> j < length (ir_io_apics st') \<longrightarrow> ir_io_apics st' ! j = None"
    using inv by (auto simp: init_inv_def w(2))
  have wf: "irq_wf ia st'" using inv w(3) mem hd by (auto simp: init_inv_def irq_wf_def)
  have bound: "\<forall>v. Some v \<in> set (ir_io_apics st') \<longrightarrow> IOAPIC_START + iw_base v + ia_max_table_entry ia (iw_io_apic v) \<le> ff'"
    using inv mem w(4) by (auto simp: init_inv_def intro: max.coboundedI1)
  have "\<exists>v. Some v \<in> set (ir_io_apics st') \<and> ff' = IOAPIC_START + iw_base v + ia_max_table_entry ia (iw_io_apic v)"
    using inv mem w(4) unfolding init_inv_def by (cases "n = 0") (auto simp: max_def split: if_splits)
  with wf none bound show ?thesis by (simp add: init_inv_def)
qed

lemma init_inv_fold:
  assumes "ioapic_spec ia" "init_inv ia n st ff"
    and "res_fold (init_one_ioapic ia ma) (zip [n..<n + length infos] infos) (st, mem, ff) = Inr (st', mem', ff')"
  shows "init_inv ia (n + length infos) st' ff'"
  using assms(2,3)
proof (induction infos arbitrary: n st mem ff)
  case (Cons info infos)
  have z: "zip [n..<n + length (info # infos)] (info # infos) = (n, info) # zip [Suc n..<Suc n + length infos] infos"
    by (simp add: upt_conv_Cons del: upt_Suc)
  obtain st1 mem1 ff1 where one: "init_one_ioapic ia ma (n, info) (st, mem, ff) = Inr (st1, mem1, ff1)"
    "res_fold (init_one_ioapic ia ma) (zip [Suc n..<Suc n + length infos] infos) (st1, mem1, ff1) = Inr (st', mem', ff')"
    using Cons.prems(2) unfolding z by auto
  show ?case using Cons.IH[OF init_inv_step[OF assms(1) Cons.prems(1) one(1)] one(2)] by simp
qed simp

lemma set_map_filter_id: "Some v \<in> set xs \<longleftrightarrow> v \<in> set (List.map_filter id xs)"
  by (induction xs) (auto simp: List.map_filter_simps split: option.splits)

lemma set_sort_io_apics: "Some v \<in> set (sort_io_apics apics) \<longleftrightarrow> Some v \<in> set apics"
  by (auto simp: sort_io_apics_def Let_def set_map_filter_id)

lemma init_ioapic_inv:
  assumes spec: "ioapic_spec ia" and call: "init_ioapic ia ma infos (irq_static, mem) = Inr (st', mem')"
  shows "\<exists>st1 ff. init_inv ia (length infos) st1 ff
    \<and> st' = st1\<lparr>ir_io_apics := sort_io_apics (ir_io_apics st1), ir_first_free := ff\<rparr> \<and> irq_wf ia st'"
proof -
  obtain st1 ff where run: "res_fold (init_one_ioapic ia ma) (zip [0..<length infos] infos) (irq_static, mem, 0) = Inr (st1, mem', ff)"
    and st': "st' = st1\<lparr>ir_io_apics := sort_io_apics (ir_io_apics st1), ir_first_free := ff\<rparr>"
    using call by (auto simp: init_ioapic_def)
  have "init_inv ia 0 irq_static 0" by (simp add: init_inv_def irq_wf_def irq_static_def)
  from init_inv_fold[OF spec this, of ma infos mem st1 mem' ff] run
  have inv: "init_inv ia (length infos) st1 ff" by simp
  have "irq_wf ia st'" using inv by (simp add: init_inv_def irq_wf_def st' set_sort_io_apics)
  with inv st' show ?thesis by blast
qed


subsection \<open>A concrete machine\<close>

text \<open>An IO-APIC of 24 entries, as a function.\<close>

definition fun_ioapic :: "(nat \<Rightarrow> table_entry) ioapic_api" where
  "fun_ioapic =
     \<lparr>ia_new = (\<lambda>_ _. \<lparr>te_vector = 0, te_flags = {}, te_dest = 0\<rparr>),
      ia_init = (\<lambda>off io i. (io i)\<lparr>te_vector := off + i\<rparr>),
      ia_max_table_entry = (\<lambda>io. 23),
      ia_table_entry = (\<lambda>i io. io i),
      ia_set_table_entry = (\<lambda>i e io. io(i := e)),
      ia_enable_irq = (\<lambda>i io. io(i := (io i)\<lparr>te_flags := te_flags (io i) - {MASKED}\<rparr>)),
      ia_disable_irq = (\<lambda>i io. io(i := (io i)\<lparr>te_flags := te_flags (io i) \<union> {MASKED}\<rparr>))\<rparr>"

lemma fun_ioapic_spec: "ioapic_spec fun_ioapic"
  by (simp add: ioapic_spec_def fun_ioapic_def Let_def)

abbreviation one_apic :: "IrqFlag set \<Rightarrow> (nat \<Rightarrow> table_entry) IoApicWithInfo" where
  "one_apic fl \<equiv> \<lparr>iw_io_apic = (\<lambda>i. \<lparr>te_vector = 32 + i, te_flags = fl, te_dest = 0\<rparr>), iw_base = 0\<rparr>"

definition one_state :: "(nat, nat \<Rightarrow> table_entry) irq_state" where
  "one_state = \<lparr>ir_handlers = replicate 224 HNone, ir_io_apics = [Some (one_apic {MASKED})], ir_first_free = 55\<rparr>"

lemma one_state_wf: "irq_wf fun_ioapic one_state"
  by (simp add: irq_wf_def one_state_def apic_routed_def fun_ioapic_def vector_defs)

lemma one_state_call:
  "\<exists>st'. set_interrupt fun_ioapic [] 1 LevelLow (HStatic 7) one_state = Inr (GuardIoApic 1 :: unit InterruptGuard, st')"
  by (simp add: set_interrupt_def one_state_def get_io_apic_def fun_ioapic_def Let_def)

theorem interrupt_routed_witness:
  "\<exists>st'. set_interrupt fun_ioapic [] 1 LevelLow (HStatic 7) one_state = Inr (GuardIoApic 1 :: unit InterruptGuard, st')
    \<and> irq_wf fun_ioapic st'"
proof -
  obtain st' where st': "set_interrupt fun_ioapic [] 1 LevelLow (HStatic 7) one_state = Inr (GuardIoApic 1 :: unit InterruptGuard, st')"
    using one_state_call by blast
  have "irq_wf fun_ioapic st'"
    by (rule interrupt_routed[OF fun_ioapic_spec one_state_wf st', of 7, THEN conjunct1]) simp_all
  then show ?thesis using st' by blast
qed

definition msi_dev :: "unit msi_device" where
  "msi_dev = \<lparr>md_capabilities = [CapOther, CapMsi ()], md_bars = []\<rparr>"

definition unit_msix :: "unit msix_api" where
  "unit_msix = \<lparr>mx_table_bar = (\<lambda>_. 0), mx_table_offset = (\<lambda>_. 0)\<rparr>"

lemma msi_call:
  "set_interrupt_msi fun_mapper unit_msix msi_dev 9 (one_state, small_state)
     = Inr (Some (GuardMsi () 55), [MessageInfo () msi_mar 55, SetEnabled () True],
            one_state\<lparr>ir_handlers := (replicate 224 HNone)[23 := HDynamic 9]\<rparr>, small_state)"
  by (simp add: set_interrupt_msi_def one_state_def msi_dev_def vector_defs upt_conv_Cons)

theorem msi_guard_drop_wrong_slot_witness:
  "\<exists>ws st''. InterruptGuard_drop fun_ioapic (GuardMsi () 55)
       (one_state\<lparr>ir_handlers := (replicate 224 HNone)[23 := HDynamic 9]\<rparr>) = Inr (ws, st'')
     \<and> interrupt_entry fun_mapper 0 0 55 (ir_handlers st'') small_state
         = Inr ([SwapGs, CallHandler 9, EndOfInterrupt, SwapGs], small_state)"
  using msi_guard_drop_wrong_slot[OF msi_call, of 0 0 fun_ioapic]
  by (auto simp: one_state_def)

text \<open>Mapping an IO-APIC into an empty address space.\<close>

lemma first_fit_page_range:
  assumes "\<And>j. j < n \<Longrightarrow> free (lo + j * 4096)" and "n * 4096 \<le> hi - lo" and "0 < n"
  shows "first_fit free n (page_range lo hi) = Some lo"
proof -
  let ?m = "(hi - lo) div 4096"
  have m: "n \<le> ?m" using assms(2) by (simp add: less_eq_div_iff_mult_less_eq)
  then have tk: "take n (page_range lo hi) = map (\<lambda>j. lo + j * 4096) [0..<n]"
    by (simp add: page_range_def take_map)
  obtain p ps where pr: "page_range lo hi = p # ps" "p = lo"
    using m assms(3) by (cases ?m) (simp_all add: page_range_def upt_conv_Cons del: upt_Suc)
  have "length (take n (p # ps)) = n" "list_all free (take n (p # ps))"
    using tk assms(1) unfolding pr(1) by (simp_all add: list_all_iff)
  then show ?thesis using pr by simp
qed

lemma map_address_empty:
  assumes "mm_mapper mem = Some Map.empty" "mm_frames mem = Some fr"
  shows "map_address fun_mapper 0xFEC00000 4096 mem =
    Inr (0xFFFF800000000000, mem\<lparr>mm_mapper := Some [0xFFFF800000000000 \<mapsto> 0xFEC00000, 0xFFFF800000001000 \<mapsto> 0xFEC01000],
      mm_frames := Some fr, mm_flushes := mm_flushes mem + 1\<rparr>)"
proof -
  let ?free = "\<lambda>a. pt_translate fun_mapper Map.empty a = None \<and> a \<noteq> 0"
  have "search_free_addr_from fun_mapper mem 2 (page_range 0xFFFF800000000000 0xFFFFFFFFFFFFF000)
      = Inr (first_fit ?free 2 (page_range 0xFFFF800000000000 0xFFFFFFFFFFFFF000))"
    using search_loop_first_fit[of _ "available fun_mapper mem" ?free "[]" 2] assms(1)
    by (simp add: search_free_addr_from_def available_def)
  moreover have "first_fit ?free 2 (page_range 0xFFFF800000000000 0xFFFFFFFFFFFFF000) = Some 0xFFFF800000000000"
    by (rule first_fit_page_range) (simp_all add: fun_mapper_def)
  ultimately have search: "search_free_addr_from fun_mapper mem 2 (page_range 0xFFFF800000000000 0xFFFFFFFFFFFFF000)
      = Inr (Some 0xFFFF800000000000)" by simp
  show ?thesis unfolding map_address_def map_pages_from_def
    using search assms
    by (simp add: align_down_def phys_new_def num_of_pages_def map_one_def virt_add_def canonical_def
        fun_mapper_def upt_conv_Cons)
qed

lemma map_filter_none [simp]: "List.map_filter id (replicate n None) = []"
  by (induction n) (simp_all add: List.map_filter_simps)

lemma init_call_at:
  assumes "mm_mapper mem = Some Map.empty" "mm_frames mem = Some fr"
  shows "\<exists>io mem'. init_ioapic fun_ioapic fun_mapper [\<lparr>ii_address = 0xFEC00000, ii_base = 0\<rparr>] (irq_static, mem)
    = Inr (\<lparr>ir_handlers = replicate 224 HNone, ir_io_apics = Some \<lparr>iw_io_apic = io, iw_base = 0\<rparr> # replicate 31 None, ir_first_free = 55\<rparr>, mem')"
proof -
  have "replicate 32 None = None # replicate 31 (None :: (nat \<Rightarrow> table_entry) IoApicWithInfo option)" by (simp add: eval_nat_numeral)
  then show ?thesis using assms
    by (simp add: init_ioapic_def init_one_ioapic_def phys_new_def map_address_empty irq_static_def sort_io_apics_def
        u8_add_def vector_defs store_at_def fun_ioapic_def List.map_filter_simps Let_def)
qed

lemma init_call:
  "\<exists>st' mem'. init_ioapic fun_ioapic fun_mapper [\<lparr>ii_address = 0xFEC00000, ii_base = 0\<rparr>]
     (irq_static :: (nat, nat \<Rightarrow> table_entry) irq_state, small_state) = Inr (st', mem')"
  using init_call_at[of small_state] by (fastforce simp: small_state_def)


end
