(* ===== verification/E1000_Flags.thy ===== *)
theory E1000_Flags
  imports Prelude
begin

unbundle bit_operations_syntax

text \<open>
  The bit masks of the network card's registers and descriptors, as \<open>kernel/src/drivers/e1000.rs\<close> declares
  them with \<open>bitflags\<close>: for each type its named flags, and the bits of a flag. A set of flags is the
  word of all their bits.
\<close>

datatype ControlFlags =
    ControlFlags_LRST | ControlFlags_ASDE | ControlFlags_SLU | ControlFlags_ILOS | ControlFlags_RST
  | ControlFlags_VME | ControlFlags_PHY_RST

fun ControlFlags_bits :: "ControlFlags \<Rightarrow> u32" where
  "ControlFlags_bits ControlFlags_LRST = push_bit 3 1"
| "ControlFlags_bits ControlFlags_ASDE = push_bit 5 1"
| "ControlFlags_bits ControlFlags_SLU = push_bit 6 1"
| "ControlFlags_bits ControlFlags_ILOS = push_bit 7 1"
| "ControlFlags_bits ControlFlags_RST = push_bit 26 1"
| "ControlFlags_bits ControlFlags_VME = push_bit 30 1"
| "ControlFlags_bits ControlFlags_PHY_RST = push_bit 31 1"

datatype TStatus =
    TStatus_DD | TStatus_EC | TStatus_LC | TStatus_TU

fun TStatus_bits :: "TStatus \<Rightarrow> u8" where
  "TStatus_bits TStatus_DD = push_bit 0 1"
| "TStatus_bits TStatus_EC = push_bit 1 1"
| "TStatus_bits TStatus_LC = push_bit 2 1"
| "TStatus_bits TStatus_TU = push_bit 3 1"

datatype RStatus =
    RStatus_DD | RStatus_EOP | RStatus_IXSM | RStatus_VP | RStatus_RSV | RStatus_TCPCS | RStatus_IPCS
  | RStatus_PIF

fun RStatus_bits :: "RStatus \<Rightarrow> u8" where
  "RStatus_bits RStatus_DD = push_bit 0 1"
| "RStatus_bits RStatus_EOP = push_bit 1 1"
| "RStatus_bits RStatus_IXSM = push_bit 2 1"
| "RStatus_bits RStatus_VP = push_bit 3 1"
| "RStatus_bits RStatus_RSV = push_bit 4 1"
| "RStatus_bits RStatus_TCPCS = push_bit 5 1"
| "RStatus_bits RStatus_IPCS = push_bit 6 1"
| "RStatus_bits RStatus_PIF = push_bit 7 1"

datatype ECtl =
    ECtl_LRST | ECtl_ASDE | ECtl_SLU | ECtl_ILOS | ECtl_RST | ECtl_VME | ECtl_PHY_RST

fun ECtl_bits :: "ECtl \<Rightarrow> u32" where
  "ECtl_bits ECtl_LRST = push_bit 3 1"
| "ECtl_bits ECtl_ASDE = push_bit 5 1"
| "ECtl_bits ECtl_SLU = push_bit 6 1"
| "ECtl_bits ECtl_ILOS = push_bit 7 1"
| "ECtl_bits ECtl_RST = push_bit 26 1"
| "ECtl_bits ECtl_VME = push_bit 30 1"
| "ECtl_bits ECtl_PHY_RST = push_bit 31 1"

datatype TCtl =
    TCtl_EN | TCtl_PSP | TCtl_SWXOFF | TCtl_RTLC

fun TCtl_bits :: "TCtl \<Rightarrow> u32" where
  "TCtl_bits TCtl_EN = push_bit 1 1"
| "TCtl_bits TCtl_PSP = push_bit 3 1"
| "TCtl_bits TCtl_SWXOFF = push_bit 22 1"
| "TCtl_bits TCtl_RTLC = push_bit 24 1"

datatype RCtl =
    RCtl_EN | RCtl_SBP | RCtl_UPE | RCtl_MPE | RCtl_LPE | RCtl_LBM_NONE | RCtl_LBM_PHY | RCtl_RDMTS_HALF
  | RCtl_RDMTS_QUARTER | RCtl_RDMTS_EIGHTH | RCtl_MO_36 | RCtl_MO_35 | RCtl_MO_34 | RCtl_MO_32 | RCtl_BAM
  | RCtl_VFE | RCtl_CFIEN | RCtl_CFI | RCtl_DPF | RCtl_PMCF | RCtl_SECRC | RCtl_BSIZE_256 | RCtl_BSIZE_512
  | RCtl_BSIZE_1024 | RCtl_BSIZE_2048 | RCtl_BSIZE_4096 | RCtl_BSIZE_8192 | RCtl_BSIZE_16384

fun RCtl_bits :: "RCtl \<Rightarrow> u32" where
  "RCtl_bits RCtl_EN = push_bit 1 1"
| "RCtl_bits RCtl_SBP = push_bit 2 1"
| "RCtl_bits RCtl_UPE = push_bit 3 1"
| "RCtl_bits RCtl_MPE = push_bit 4 1"
| "RCtl_bits RCtl_LPE = push_bit 5 1"
| "RCtl_bits RCtl_LBM_NONE = push_bit 6 0"
| "RCtl_bits RCtl_LBM_PHY = push_bit 6 3"
| "RCtl_bits RCtl_RDMTS_HALF = push_bit 8 0"
| "RCtl_bits RCtl_RDMTS_QUARTER = push_bit 8 1"
| "RCtl_bits RCtl_RDMTS_EIGHTH = push_bit 8 2"
| "RCtl_bits RCtl_MO_36 = push_bit 12 0"
| "RCtl_bits RCtl_MO_35 = push_bit 12 1"
| "RCtl_bits RCtl_MO_34 = push_bit 12 2"
| "RCtl_bits RCtl_MO_32 = push_bit 12 3"
| "RCtl_bits RCtl_BAM = push_bit 15 1"
| "RCtl_bits RCtl_VFE = push_bit 18 1"
| "RCtl_bits RCtl_CFIEN = push_bit 19 1"
| "RCtl_bits RCtl_CFI = push_bit 20 1"
| "RCtl_bits RCtl_DPF = push_bit 22 1"
| "RCtl_bits RCtl_PMCF = push_bit 23 1"
| "RCtl_bits RCtl_SECRC = push_bit 26 1"
| "RCtl_bits RCtl_BSIZE_256 = push_bit 16 3"
| "RCtl_bits RCtl_BSIZE_512 = push_bit 16 2"
| "RCtl_bits RCtl_BSIZE_1024 = push_bit 16 1"
| "RCtl_bits RCtl_BSIZE_2048 = push_bit 16 0"
| "RCtl_bits RCtl_BSIZE_4096 = push_bit 16 3 OR push_bit 25 1"
| "RCtl_bits RCtl_BSIZE_8192 = push_bit 16 2 OR push_bit 25 1"
| "RCtl_bits RCtl_BSIZE_16384 = push_bit 16 1 OR push_bit 25 1"

datatype InterruptFlags =
    InterruptFlags_TXDW | InterruptFlags_TXQE | InterruptFlags_LSC | InterruptFlags_RXDMT0
  | InterruptFlags_DSW | InterruptFlags_RXO | InterruptFlags_RXT0 | InterruptFlags_MDAC
  | InterruptFlags_PHYINT | InterruptFlags_LSECPN | InterruptFlags_TXD_LOW | InterruptFlags_SRPD
  | InterruptFlags_ACK | InterruptFlags_ECCER

fun InterruptFlags_bits :: "InterruptFlags \<Rightarrow> u32" where
  "InterruptFlags_bits InterruptFlags_TXDW = push_bit 0 1"
| "InterruptFlags_bits InterruptFlags_TXQE = push_bit 1 1"
| "InterruptFlags_bits InterruptFlags_LSC = push_bit 2 1"
| "InterruptFlags_bits InterruptFlags_RXDMT0 = push_bit 4 1"
| "InterruptFlags_bits InterruptFlags_DSW = push_bit 5 1"
| "InterruptFlags_bits InterruptFlags_RXO = push_bit 6 1"
| "InterruptFlags_bits InterruptFlags_RXT0 = push_bit 7 1"
| "InterruptFlags_bits InterruptFlags_MDAC = push_bit 9 1"
| "InterruptFlags_bits InterruptFlags_PHYINT = push_bit 12 1"
| "InterruptFlags_bits InterruptFlags_LSECPN = push_bit 14 1"
| "InterruptFlags_bits InterruptFlags_TXD_LOW = push_bit 15 1"
| "InterruptFlags_bits InterruptFlags_SRPD = push_bit 16 1"
| "InterruptFlags_bits InterruptFlags_ACK = push_bit 17 1"
| "InterruptFlags_bits InterruptFlags_ECCER = push_bit 22 1"

datatype TxCommand =
    TxCommand_EOP | TxCommand_IFCS | TxCommand_IC | TxCommand_RS | TxCommand_RSV | TxCommand_DEXT
  | TxCommand_VLE | TxCommand_IDE

fun TxCommand_bits :: "TxCommand \<Rightarrow> u8" where
  "TxCommand_bits TxCommand_EOP = push_bit 0 1"
| "TxCommand_bits TxCommand_IFCS = push_bit 1 1"
| "TxCommand_bits TxCommand_IC = push_bit 2 1"
| "TxCommand_bits TxCommand_RS = push_bit 3 1"
| "TxCommand_bits TxCommand_RSV = push_bit 4 1"
| "TxCommand_bits TxCommand_DEXT = push_bit 5 1"
| "TxCommand_bits TxCommand_VLE = push_bit 6 1"
| "TxCommand_bits TxCommand_IDE = push_bit 7 1"

section \<open>Sets of flags\<close>

definition flags_of :: "('f \<Rightarrow> 'w::len word) \<Rightarrow> 'f list \<Rightarrow> 'w word" where
  "flags_of bits fs = foldr (\<lambda>f acc. bits f OR acc) fs 0"

text \<open>\<open>TCtl\<close> has two fields besides its flags; setting one adds its bits.\<close>

definition set_collision_threshold :: "u8 \<Rightarrow> u32 \<Rightarrow> u32" where
  "set_collision_threshold value self = self OR push_bit 4 (ucast value)"

definition set_collision_distance :: "u8 \<Rightarrow> u32 \<Rightarrow> u32" where
  "set_collision_distance value self = self OR push_bit 12 (ucast value)"

text \<open>The fields of the status register, by width.\<close>

definition Status_layout :: "nat list" where
  "Status_layout = [1, 1, 2, 1, 1, 2, 2, 1, 1, 1, 1, 2, 20]"

lemma bit_flags_of: "bit (flags_of bits fs) i \<longleftrightarrow> (\<exists>f\<in>set fs. bit (bits f) i)"
  by (induction fs) (auto simp: flags_of_def bit_simps)

lemma flags_of_contains: "f \<in> set fs \<Longrightarrow> flags_of bits fs AND bits f = bits f"
  by (rule bit_eqI) (auto simp: bit_simps bit_flags_of)

lemma u8_bit_high: "bit (v :: u8) n \<Longrightarrow> n < 8"
  using bit_imp_le_length[of v n] by simp

lemma field_of_or:
  fixes w v :: u32
  assumes w: "\<forall>i. k \<le> i \<and> i < k + 8 \<longrightarrow> \<not> bit w i" and k: "k \<le> 24"
  shows "take_bit 8 (drop_bit k (w OR push_bit k (ucast (x :: u8)))) = ucast x"
proof (rule bit_eqI)
  fix n
  have "\<not> bit w (k + n)" if "n < 8" using w that by simp
  then show "bit (take_bit 8 (drop_bit k (w OR push_bit k (ucast x :: u32)))) n = bit (ucast x :: u32) n"
    using k u8_bit_high[of x n] by (auto simp: bit_simps add.commute)
qed

lemma collision_fields:
  assumes "\<forall>i. 4 \<le> i \<and> i < 20 \<longrightarrow> \<not> bit w i"
  shows "take_bit 8 (drop_bit 4 (set_collision_threshold t (set_collision_distance d w))) = (ucast t :: u32)"
    "take_bit 8 (drop_bit 12 (set_collision_threshold t (set_collision_distance d w))) = (ucast d :: u32)"
proof -
  have 1: "\<forall>i. 4 \<le> i \<and> i < 4 + 8 \<longrightarrow> \<not> bit (w OR push_bit 12 (ucast d)) i"
    using assms by (auto simp: bit_simps)
  have 2: "\<forall>i. 12 \<le> i \<and> i < 12 + 8 \<longrightarrow> \<not> bit (w OR push_bit 4 (ucast t)) i"
    using assms u8_bit_high[of t] by (fastforce simp: bit_simps)
  show "take_bit 8 (drop_bit 4 (set_collision_threshold t (set_collision_distance d w))) = (ucast t :: u32)"
    unfolding set_collision_threshold_def set_collision_distance_def by (rule field_of_or[OF 1]) simp
  have "set_collision_threshold t (set_collision_distance d w) = (w OR push_bit 4 (ucast t)) OR push_bit 12 (ucast d)"
    by (simp add: set_collision_threshold_def set_collision_distance_def ac_simps)
  then show "take_bit 8 (drop_bit 12 (set_collision_threshold t (set_collision_distance d w))) = (ucast d :: u32)"
    using field_of_or[OF 2] by simp
qed

text \<open>The declared fields of the status register are wider than the register.\<close>

lemma Status_layout_width: "sum_list Status_layout = 36"
  by (simp add: Status_layout_def)

end
