(* ===== verification/E1000.thy ===== *)
theory E1000
  imports E1000_Flags Interrupts Contracts Input_Queue
begin

text \<open>
  The network card driver, \<open>kernel/src/drivers/e1000.rs\<close>: register access, the EEPROM, reset, the
  transmit and receive rings, and the tokens through which the network stack uses them.

  The card is a hardware state \<open>'h\<close> behind the volatile register accesses \<open>mmio\<close>. The services of
  the rest of the kernel that \<open>E1000::new\<close> calls (heap, address translation, interrupt routing,
  PCI command register) act on the same state and are the record \<open>e1000_env\<close>. The rings live in
  memory shared with the card; the model keeps their contents in the driver's record, and what
  the card does to them is a step of its own.
\<close>

section \<open>Registers\<close>

datatype Register =
    Control | Status | Eeprom | ICause | IMask
  | RCtrl | RxDescLo | RxDescHi | RxDescLen | RxDescHead | RxDescTail
  | TCtrl | TxDesLo | TxDesHi | TxDescLen | TxDescHead | TxDescTail

fun reg_offset :: "Register \<Rightarrow> nat" where
  "reg_offset Control = 0x0"
| "reg_offset Status = 0x8"
| "reg_offset Eeprom = 0x14"
| "reg_offset ICause = 0xc0"
| "reg_offset IMask = 0xd0"
| "reg_offset RCtrl = 0x100"
| "reg_offset RxDescLo = 0x2800"
| "reg_offset RxDescHi = 0x2804"
| "reg_offset RxDescLen = 0x2808"
| "reg_offset RxDescHead = 0x2810"
| "reg_offset RxDescTail = 0x2818"
| "reg_offset TCtrl = 0x400"
| "reg_offset TxDesLo = 0x3800"
| "reg_offset TxDesHi = 0x3804"
| "reg_offset TxDescLen = 0x3808"
| "reg_offset TxDescHead = 0x3810"
| "reg_offset TxDescTail = 0x3818"

record 'h mmio =
  mmio_read :: "nat \<Rightarrow> 'h \<Rightarrow> u32 \<times> 'h"
  mmio_write :: "nat \<Rightarrow> u32 \<Rightarrow> 'h \<Rightarrow> 'h"

text \<open>The flags the driver uses.\<close>

abbreviation RST :: u32 where "RST \<equiv> ControlFlags_bits ControlFlags_RST"

definition Status_LU :: u32 where "Status_LU = push_bit 1 1"

definition TCtl_init :: u32 where
  "TCtl_init = set_collision_threshold 15 (set_collision_distance 64
     (push_bit 28 1 OR flags_of TCtl_bits [TCtl_EN, TCtl_PSP, TCtl_RTLC]))"

definition RCtl_init :: u32 where
  "RCtl_init = flags_of RCtl_bits [RCtl_EN, RCtl_SBP, RCtl_UPE, RCtl_LPE, RCtl_MPE, RCtl_LBM_NONE, RCtl_RDMTS_EIGHTH,
     RCtl_BAM, RCtl_SECRC, RCtl_BSIZE_4096]"

definition InterruptFlags_all :: u32 where
  "InterruptFlags_all = flags_of InterruptFlags_bits [InterruptFlags_TXDW, InterruptFlags_TXQE, InterruptFlags_LSC,
     InterruptFlags_RXDMT0, InterruptFlags_DSW, InterruptFlags_RXO, InterruptFlags_RXT0, InterruptFlags_MDAC,
     InterruptFlags_PHYINT, InterruptFlags_LSECPN, InterruptFlags_TXD_LOW, InterruptFlags_SRPD, InterruptFlags_ACK,
     InterruptFlags_ECCER]"

definition TxCommand_send :: u8 where
  "TxCommand_send = flags_of TxCommand_bits [TxCommand_RS, TxCommand_IFCS, TxCommand_EOP]"

definition Registers_read :: "'h mmio \<Rightarrow> Register \<Rightarrow> 'h \<Rightarrow> u32 \<times> 'h" where
  "Registers_read m r h = mmio_read m (reg_offset r) h"

definition Registers_write :: "'h mmio \<Rightarrow> Register \<Rightarrow> u32 \<Rightarrow> 'h \<Rightarrow> 'h" where
  "Registers_write m r v h = mmio_write m (reg_offset r) v h"

definition remove_flags :: "'h mmio \<Rightarrow> Register \<Rightarrow> u32 \<Rightarrow> 'h \<Rightarrow> 'h" where
  "remove_flags m r flag h = (case Registers_read m r h of (v, h') \<Rightarrow> Registers_write m r (v AND NOT flag) h')"

definition insert_flags :: "'h mmio \<Rightarrow> Register \<Rightarrow> u32 \<Rightarrow> 'h \<Rightarrow> 'h" where
  "insert_flags m r flag h = (case Registers_read m r h of (v, h') \<Rightarrow> Registers_write m r (v OR flag) h')"

text \<open>\<open>detect_eeprom\<close> looks at most 1000 times.\<close>

fun detect_loop :: "'h mmio \<Rightarrow> nat \<Rightarrow> 'h \<Rightarrow> bool \<times> 'h" where
  "detect_loop m 0 h = (False, h)"
| "detect_loop m (Suc n) h =
     (case Registers_read m Eeprom h of (v, h') \<Rightarrow>
        if v AND push_bit 4 1 \<noteq> 0 then (True, h') else detect_loop m n h')"

definition detect_eeprom :: "'h mmio \<Rightarrow> 'h \<Rightarrow> bool \<times> 'h" where
  "detect_eeprom m h = detect_loop m 1000 (Registers_write m Eeprom 1 h)"

datatype e1000_error = E1000Panic panic | UnknownBar | NoEeprom | RouteGsi

definition read_eeprom :: "'h mmio \<Rightarrow> u8 \<Rightarrow> ('h, e1000_error, u32) io" where
  "read_eeprom m addr h =
     (case spin_until (Registers_read m Eeprom) (\<lambda>v. v AND push_bit 4 1 \<noteq> 0)
             (Registers_write m Eeprom (1 OR push_bit 8 (ucast addr)) h) of
        None \<Rightarrow> None
      | Some (res, h') \<Rightarrow> Some (Inr (drop_bit 16 res AND 0xffff), h'))"

definition reset :: "'h mmio \<Rightarrow> ('h, e1000_error, unit) io" where
  "reset m h =
     (case spin_until (Registers_read m Control) (\<lambda>v. v AND RST = 0)
             (insert_flags m Control RST h) of
        None \<Rightarrow> None
      | Some (_, h') \<Rightarrow>
          Some (Inr (), remove_flags m Control (flags_of ControlFlags_bits [ControlFlags_LRST, ControlFlags_PHY_RST, ControlFlags_VME]) h'))"

section \<open>Descriptors and the driver state\<close>

record TxDescriptor =
  td_addr :: usize
  td_length :: u16
  td_cso :: u8
  td_cmd :: u8
  td_status :: u8
  td_css :: u8
  td_special :: u16

record RxDescriptor =
  rd_addr :: usize
  rd_length :: u16
  rd_checksum :: u16
  rd_status :: u8
  rd_errors :: u8
  rd_special :: u16

definition TX_DESC_NUM :: nat where "TX_DESC_NUM = 32"
definition RX_DESC_NUM :: nat where "RX_DESC_NUM = 32"
definition TX_DESC_SIZE :: u32 where "TX_DESC_SIZE = 32 * 16"
definition RX_DESC_SIZE :: u32 where "RX_DESC_SIZE = 32 * 16"

record ('g, 'w) E1000 =
  e_address :: "u8 list"
  e_tx_cur :: nat
  e_tx_ring_ptr :: usize
  e_tx_ring :: "TxDescriptor list"
  e_rx_cur :: nat
  e_rx_ring_ptr :: usize
  e_rx_ring :: "RxDescriptor list"
  e_interrupt_guard :: "'g option"
  e_waker :: 'w

record ('h, 'g, 'w) e1000_env =
  en_set_command :: "'h \<Rightarrow> 'h"
  en_alloc :: "Layout \<Rightarrow> 'h \<Rightarrow> usize \<times> 'h"
  en_dealloc :: "usize \<Rightarrow> Layout \<Rightarrow> 'h \<Rightarrow> 'h"
  en_translate_virt :: "usize \<Rightarrow> 'h \<Rightarrow> usize option"
  en_translate_phys :: "usize \<Rightarrow> 'h \<Rightarrow> usize"
  en_route_pin :: "'h \<Rightarrow> (unit + nat) \<times> 'h"
  en_set_interrupt :: "nat \<Rightarrow> InterruptType \<Rightarrow> 'h \<Rightarrow> (panic + 'g) \<times> 'h"
  en_waker_new :: 'w

section \<open>Construction\<close>

definition page_layout :: Layout where
  "page_layout = \<lparr>lsize = 4096, lalign = 4096\<rparr>"

text \<open>
  The control words. The size of a receive buffer that the word for \<open>RCtrl\<close> selects, as the manual of the
  card defines it, is that of the pages the driver gives the card, so the card never writes past
  one; both fields of the word for \<open>TCtrl\<close> have the values asked for.
\<close>

definition rx_buffer_size :: "u32 \<Rightarrow> nat" where
  "rx_buffer_size rctl = (if bit rctl 25 then 16 else 1)
     * (case (bit rctl 17, bit rctl 16) of (False, False) \<Rightarrow> (if bit rctl 25 then 0 else 2048) | (False, True) \<Rightarrow> 1024
        | (True, False) \<Rightarrow> 512 | (True, True) \<Rightarrow> 256)"

lemma e1000_control_words:
  "rx_buffer_size RCtl_init = lsize page_layout"
  "take_bit 8 (drop_bit 4 TCtl_init) = (15 :: u32)" "take_bit 8 (drop_bit 12 TCtl_init) = (64 :: u32)"
  by (simp_all add: rx_buffer_size_def RCtl_init_def TCtl_init_def page_layout_def flags_of_def
      set_collision_threshold_def set_collision_distance_def)

definition empty_tx :: TxDescriptor where
  "empty_tx = \<lparr>td_addr = 0, td_length = 0, td_cso = 0, td_cmd = 0, td_status = 0, td_css = 0, td_special = 0\<rparr>"

definition new_rx :: "usize \<Rightarrow> RxDescriptor" where
  "new_rx a = \<lparr>rd_addr = a, rd_length = 0, rd_checksum = 0, rd_status = 0, rd_errors = 0, rd_special = 0\<rparr>"

text \<open>\<open>unwrap\<close> and the checks of the address types, as steps of a driver program.\<close>

definition io_res :: "'a res \<Rightarrow> ('h, e1000_error, 'a) io" where
  "io_res r h = (case r of Inl p \<Rightarrow> Some (Inl (E1000Panic p), h) | Inr x \<Rightarrow> Some (Inr x, h))"

definition translate_page :: "('h, 'g, 'w) e1000_env \<Rightarrow> usize \<Rightarrow> ('h, e1000_error, usize) io" where
  "translate_page en va = io_bind (io_gets (en_translate_virt en va)) (\<lambda>r. io_res (unwrap r))"

text \<open>The MAC address: three words of the EEPROM, low byte first.\<close>

definition mac_bytes :: "u32 \<Rightarrow> u8 list" where
  "mac_bytes w = (let x = ucast w :: u16 in [ucast (x AND 0xff), ucast (drop_bit 8 x)])"

definition read_mac :: "'h mmio \<Rightarrow> ('h, e1000_error, u8 list) io" where
  "read_mac m =
     io_bind (read_eeprom m 0) (\<lambda>w0.
     io_bind (read_eeprom m 1) (\<lambda>w1.
     io_bind (read_eeprom m 2) (\<lambda>w2.
       io_return (mac_bytes w0 @ mac_bytes w1 @ mac_bytes w2))))"

definition new_tx_ring ::
    "'h mmio \<Rightarrow> ('h, 'g, 'w) e1000_env \<Rightarrow> ('h, e1000_error, usize \<times> TxDescriptor list) io" where
  "new_tx_ring m en =
     io_bind (io_step (en_alloc en page_layout)) (\<lambda>addr.
     io_bind (translate_page en addr) (\<lambda>phys.
     io_bind (io_modify (Registers_write m TxDesLo (of_nat phys))) (\<lambda>_.
     io_bind (io_modify (Registers_write m TxDesHi (of_nat (phys div 2 ^ 32)))) (\<lambda>_.
     io_bind (io_modify (Registers_write m TxDescLen TX_DESC_SIZE)) (\<lambda>_.
     io_bind (io_modify (Registers_write m TxDescHead 0)) (\<lambda>_.
     io_bind (io_modify (Registers_write m TxDescTail 0)) (\<lambda>_.
     io_bind (io_modify (Registers_write m TCtrl TCtl_init)) (\<lambda>_.
       io_return (addr, replicate TX_DESC_NUM empty_tx)))))))))"

fun new_rx_buffers ::
    "('h, 'g, 'w) e1000_env \<Rightarrow> nat \<Rightarrow> ('h, e1000_error, RxDescriptor list) io" where
  "new_rx_buffers en 0 = io_return []"
| "new_rx_buffers en (Suc n) =
     io_bind (io_step (en_alloc en page_layout)) (\<lambda>buf.
     io_bind (translate_page en buf) (\<lambda>phys.
     io_bind (new_rx_buffers en n) (\<lambda>ds. io_return (new_rx phys # ds))))"

definition new_rx_ring ::
    "'h mmio \<Rightarrow> ('h, 'g, 'w) e1000_env \<Rightarrow> ('h, e1000_error, usize \<times> RxDescriptor list) io" where
  "new_rx_ring m en =
     io_bind (io_step (en_alloc en page_layout)) (\<lambda>addr.
     io_bind (new_rx_buffers en RX_DESC_NUM) (\<lambda>descriptors.
     io_bind (translate_page en addr) (\<lambda>phys.
     io_bind (io_modify (Registers_write m RxDescLo (of_nat phys))) (\<lambda>_.
     io_bind (io_modify (Registers_write m RxDescHi (of_nat (phys div 2 ^ 32)))) (\<lambda>_.
     io_bind (io_modify (Registers_write m RxDescLen RX_DESC_SIZE)) (\<lambda>_.
     io_bind (io_modify (Registers_write m RxDescHead 0)) (\<lambda>_.
     io_bind (io_modify (Registers_write m RxDescTail (of_nat (RX_DESC_NUM - 1)))) (\<lambda>_.
     io_bind (io_modify (Registers_write m RCtrl RCtl_init)) (\<lambda>_.
       io_return (addr, descriptors))))))))))"

definition link_up :: "'h mmio \<Rightarrow> ('h, e1000_error, unit) io" where
  "link_up m h =
     (case spin_until (Registers_read m Status) (\<lambda>v. v AND Status_LU \<noteq> 0) (insert_flags m Control (ECtl_bits ECtl_SLU) h) of
        None \<Rightarrow> None
      | Some (_, h') \<Rightarrow> Some (Inr (), h'))"

definition registers_base :: "Bar option list \<Rightarrow> usize \<Rightarrow> ('h, e1000_error, usize) io" where
  "registers_base bars physical_offset =
     io_bind
       (io_bind (io_res (index_at bars 0)) (\<lambda>bar.
          case bar of
            Some (BarMemory64 address sz) \<Rightarrow> io_res (phys_new address)
          | Some (BarMemory32 address sz) \<Rightarrow> io_res (phys_new address)
          | _ \<Rightarrow> io_fail UnknownBar))
       (\<lambda>a. io_res (virt_add a physical_offset))"

definition E1000_new ::
    "'h mmio \<Rightarrow> ('h, 'g, 'w) e1000_env \<Rightarrow> Bar option list \<Rightarrow> usize \<Rightarrow> ('h, e1000_error, ('g, 'w) E1000) io" where
  "E1000_new m en bars physical_offset =
     io_bind (io_modify (en_set_command en)) (\<lambda>_.
     io_bind (registers_base bars physical_offset) (\<lambda>base.
     io_bind (reset m) (\<lambda>_.
     io_bind (io_step (detect_eeprom m)) (\<lambda>found.
     io_bind (if found then io_return () else io_fail NoEeprom) (\<lambda>_.
     io_bind (read_mac m) (\<lambda>address.
     io_bind (new_tx_ring m en) (\<lambda>(tx_ptr, tx_ring).
     io_bind (new_rx_ring m en) (\<lambda>(rx_ptr, rx_ring).
     io_bind (io_modify (fold (\<lambda>i. mmio_write m (0x5200 + i * 4) 0) [0..<128])) (\<lambda>_.
     io_bind (io_modify (Registers_write m IMask InterruptFlags_all)) (\<lambda>_.
     io_bind (io_step (Registers_read m ICause)) (\<lambda>_.
     io_bind (io_step (en_route_pin en)) (\<lambda>route.
     io_bind (case route of Inl _ \<Rightarrow> io_fail RouteGsi | Inr gsi \<Rightarrow> io_return gsi) (\<lambda>gsi.
     io_bind (io_step (en_set_interrupt en gsi LevelLow)) (\<lambda>g.
     io_bind (io_res g) (\<lambda>guard.
     io_bind (link_up m) (\<lambda>_.
       io_return \<lparr>e_address = address, e_tx_cur = 0, e_tx_ring_ptr = tx_ptr, e_tx_ring = tx_ring,
                  e_rx_cur = 0, e_rx_ring_ptr = rx_ptr, e_rx_ring = rx_ring,
                  e_interrupt_guard = Some guard, e_waker = en_waker_new en\<rparr>))))))))))))))))"

section \<open>Operation\<close>

definition E1000_handle_irq :: "'h mmio \<Rightarrow> 'w waker_api \<Rightarrow> ('g, 'w) E1000 \<times> 'h \<Rightarrow> ('g, 'w) E1000 \<times> 'h" where
  "E1000_handle_irq m wa s =
     (case s of (self, h) \<Rightarrow>
        (self\<lparr>e_waker := snd (w_wake wa (e_waker self))\<rparr>, snd (Registers_read m ICause h)))"

text \<open>The cursors, and the ring contract they satisfy.\<close>

definition tx_advance :: "nat \<Rightarrow> nat" where
  "tx_advance cur = (cur + 1) mod TX_DESC_NUM"

definition rx_advance :: "nat \<Rightarrow> nat" where
  "rx_advance cur = (cur + 1) mod RX_DESC_NUM"

interpretation tx: ring tx_advance TX_DESC_NUM
  by unfold_locales (simp_all add: tx_advance_def TX_DESC_NUM_def)

interpretation rx: ring rx_advance RX_DESC_NUM
  by unfold_locales (simp_all add: rx_advance_def RX_DESC_NUM_def)

text \<open>\<open>send\<close>: the packet is given by its address and length.\<close>

definition E1000_send ::
    "'h mmio \<Rightarrow> ('h, 'g, 'w) e1000_env \<Rightarrow> usize \<Rightarrow> usize \<Rightarrow> ('g, 'w) E1000 \<times> 'h \<Rightarrow> (('g, 'w) E1000 \<times> 'h) res" where
  "E1000_send m en packet len s =
     (case s of (self, h) \<Rightarrow>
      let cur = e_tx_cur self in
      res_bind (unwrap (en_translate_virt en packet h)) (\<lambda>phys.
      res_bind (index_at (e_tx_ring self) cur) (\<lambda>d.
      let d = d\<lparr>td_addr := phys, td_length := of_nat len, td_cmd := TxCommand_send, td_status := 0\<rparr>;
          self = self\<lparr>e_tx_ring := (e_tx_ring self)[cur := d], e_tx_cur := tx_advance cur\<rparr>
      in Inr (self, Registers_write m TxDescTail (of_nat (e_tx_cur self)) h))))"

definition has_dd :: "RxDescriptor \<Rightarrow> bool" where
  "has_dd d \<longleftrightarrow> rd_status d AND RStatus_bits RStatus_DD = RStatus_bits RStatus_DD"

text \<open>\<open>recv\<close> returns the index and the buffer: its address and length.\<close>

definition E1000_recv ::
    "('h, 'g, 'w) e1000_env \<Rightarrow> ('g, 'w) E1000 \<times> 'h \<Rightarrow> (nat \<times> usize \<times> usize) option res" where
  "E1000_recv en s =
     (case s of (self, h) \<Rightarrow>
      let slot = e_rx_cur self in
      res_bind (index_at (e_rx_ring self) slot) (\<lambda>d.
      if \<not> has_dd d then Inr None
      else Inr (Some (slot, en_translate_phys en (rd_addr d) h, unat (rd_length d)))))"

definition E1000_has_recv :: "('g, 'w) E1000 \<Rightarrow> bool res" where
  "E1000_has_recv self = res_bind (index_at (e_rx_ring self) (e_rx_cur self)) (\<lambda>d. Inr (has_dd d))"

definition E1000_recv_end ::
    "'h mmio \<Rightarrow> nat \<Rightarrow> ('g, 'w) E1000 \<times> 'h \<Rightarrow> (('g, 'w) E1000 \<times> 'h) res" where
  "E1000_recv_end m slot s =
     (case s of (self, h) \<Rightarrow>
      res_bind (index_at (e_rx_ring self) slot) (\<lambda>d.
      res_bind (assert_that (has_dd d)) (\<lambda>_.
      let old = e_rx_cur self;
          self = self\<lparr>e_rx_ring := (e_rx_ring self)[slot := d\<lparr>rd_status := 0\<rparr>], e_rx_cur := rx_advance old\<rparr>
      in Inr (self, Registers_write m RxDescTail (of_nat old) h))))"

definition E1000_drop :: "('h, 'g, 'w) e1000_env \<Rightarrow> ('g, 'w) E1000 \<times> 'h \<Rightarrow> 'h" where
  "E1000_drop en s =
     (case s of (self, h) \<Rightarrow>
        let h = en_dealloc en (e_tx_ring_ptr self) page_layout h;
            h = fold (\<lambda>d h. en_dealloc en (en_translate_phys en (rd_addr d) h) page_layout h) (e_rx_ring self) h
        in en_dealloc en (e_rx_ring_ptr self) page_layout h)"

subsection \<open>The interface to the network stack\<close>

text \<open>
  \<open>TxToken::consume\<close>: a buffer from the heap, filled by the stack (\<open>fill\<close>), sent, and freed when
  the function returns. \<open>RxToken::consume\<close>: the stack looks at the buffer, then the slot is given
  back. \<open>Driver::receive\<close>, \<open>transmit\<close> and \<open>poll\<close>.
\<close>

definition TxToken_consume ::
    "'h mmio \<Rightarrow> ('h, 'g, 'w) e1000_env \<Rightarrow> usize \<Rightarrow> (usize \<Rightarrow> 'h \<Rightarrow> 'r \<times> 'h)
       \<Rightarrow> ('g, 'w) E1000 \<times> 'h \<Rightarrow> ('r \<times> ('g, 'w) E1000 \<times> 'h) res" where
  "TxToken_consume m en len fill s =
     (case s of (self, h) \<Rightarrow>
      case en_alloc en \<lparr>lsize = len, lalign = 1\<rparr> h of (buffer, h1) \<Rightarrow>
      case fill buffer h1 of (r, h2) \<Rightarrow>
      res_bind (E1000_send m en buffer len (self, h2)) (\<lambda>(self', h3).
        Inr (r, self', en_dealloc en buffer \<lparr>lsize = len, lalign = 1\<rparr> h3)))"

definition Driver_receive ::
    "('h, 'g, 'w) e1000_env \<Rightarrow> ('g, 'w) E1000 \<times> 'h \<Rightarrow> (nat \<times> usize \<times> usize) option res" where
  "Driver_receive en s = E1000_recv en s"

definition RxToken_consume ::
    "'h mmio \<Rightarrow> (nat \<times> usize \<times> usize) \<Rightarrow> (usize \<Rightarrow> usize \<Rightarrow> 'h \<Rightarrow> 'r \<times> 'h)
       \<Rightarrow> ('g, 'w) E1000 \<times> 'h \<Rightarrow> ('r \<times> ('g, 'w) E1000 \<times> 'h) res" where
  "RxToken_consume m token f s =
     (case (token, s) of ((slot, buffer, len), (self, h)) \<Rightarrow>
      case f buffer len h of (r, h') \<Rightarrow>
      res_bind (E1000_recv_end m slot (self, h')) (\<lambda>s'. Inr (r, s')))"

definition Driver_poll :: "'w waker_api \<Rightarrow> ('g, 'w) E1000 \<Rightarrow> (bool \<times> ('g, 'w) E1000) res" where
  "Driver_poll wa self =
     (let self = self\<lparr>e_waker := w_register wa (e_waker self)\<rparr>
      in res_bind (E1000_has_recv self) (\<lambda>ready. Inr (ready, self)))"

text \<open>\<open>init\<close>: the identification of the card, and the driver to register with the network.\<close>

definition e1000_init ::
    "'h mmio \<Rightarrow> ('h, 'g, 'w) e1000_env \<Rightarrow> nat \<Rightarrow> nat \<Rightarrow> Bar option list \<Rightarrow> usize
       \<Rightarrow> ('h, e1000_error, ('g, 'w) E1000 option) io" where
  "e1000_init m en vendor_id device_id bars physical_offset =
     (if vendor_id \<noteq> 0x8086 \<or> device_id \<noteq> 0x100e then io_return None
      else io_bind (E1000_new m en bars physical_offset) (\<lambda>e. io_return (Some e)))"

section \<open>Transmission\<close>

definition tx_descriptor :: "usize \<Rightarrow> usize \<Rightarrow> TxDescriptor \<Rightarrow> TxDescriptor" where
  "tx_descriptor phys len d = d\<lparr>td_addr := phys, td_length := of_nat len, td_cmd := TxCommand_send, td_status := 0\<rparr>"

text \<open>The descriptor \<open>d\<close> hands the packet at \<open>phys\<close> to the card.\<close>

definition describes :: "TxDescriptor \<Rightarrow> usize \<Rightarrow> usize \<Rightarrow> bool" where
  "describes d phys len \<longleftrightarrow> td_addr d = phys \<and> td_length d = of_nat len \<and> td_cmd d = TxCommand_send \<and> td_status d = 0"

fun send_all ::
    "'h mmio \<Rightarrow> ('h, 'g, 'w) e1000_env \<Rightarrow> (usize \<times> usize) list \<Rightarrow> ('g, 'w) E1000 \<times> 'h \<Rightarrow> (('g, 'w) E1000 \<times> 'h) res" where
  "send_all m en ps s = res_fold (\<lambda>(p, len). E1000_send m en p len) ps s"

lemma E1000_send_exact:
  assumes "en_translate_virt en p h = Some phys" "e_tx_cur self < length (e_tx_ring self)"
  shows "E1000_send m en p len (self, h) =
    Inr (self\<lparr>e_tx_ring := (e_tx_ring self)[e_tx_cur self := tx_descriptor phys len (e_tx_ring self ! e_tx_cur self)],
              e_tx_cur := tx_advance (e_tx_cur self)\<rparr>,
         Registers_write m TxDescTail (of_nat (tx_advance (e_tx_cur self))) h)"
  using assms by (simp add: E1000_send_def Let_def tx_descriptor_def)

lemma send_all_ring:
  assumes tr: "\<And>p h. en_translate_virt en p h = Some (phys p)"
    and ring: "length (e_tx_ring self) = TX_DESC_NUM" "e_tx_cur self < TX_DESC_NUM"
  shows "\<exists>self' h'. send_all m en ps (self, h) = Inr (self', h')
    \<and> length (e_tx_ring self') = TX_DESC_NUM
    \<and> e_tx_cur self' = (tx_advance ^^ length ps) (e_tx_cur self)
    \<and> (ps \<noteq> [] \<longrightarrow> (\<exists>h0. h' = Registers_write m TxDescTail (of_nat (e_tx_cur self')) h0))
    \<and> (\<forall>i<length ps. length ps \<le> i + TX_DESC_NUM \<longrightarrow>
         describes (e_tx_ring self' ! (tx_advance ^^ i) (e_tx_cur self)) (phys (fst (ps ! i))) (snd (ps ! i)))"
proof (induction ps rule: rev_induct)
  case Nil
  then show ?case using ring by simp
next
  case (snoc q ps)
  obtain p len where q: "q = (p, len)" by (cases q)
  from snoc obtain s1 h1 where s1: "send_all m en ps (self, h) = Inr (s1, h1)"
    "length (e_tx_ring s1) = TX_DESC_NUM" "e_tx_cur s1 = (tx_advance ^^ length ps) (e_tx_cur self)"
    "\<forall>i<length ps. length ps \<le> i + TX_DESC_NUM \<longrightarrow>
         describes (e_tx_ring s1 ! (tx_advance ^^ i) (e_tx_cur self)) (phys (fst (ps ! i))) (snd (ps ! i))"
    by auto
  let ?k = "length ps" and ?c = "e_tx_cur self"
  have lt: "(tx_advance ^^ i) ?c < TX_DESC_NUM" for i
    using tx.advance_pow[OF ring(2)] tx.n_pos by simp
  have step: "send_all m en (ps @ [q]) (self, h) = E1000_send m en p len (s1, h1)"
    using s1(1) by (simp add: res_fold_append q) (cases "E1000_send m en p len (s1, h1)"; simp)
  have ne: "(tx_advance ^^ i) ?c \<noteq> (tx_advance ^^ ?k) ?c" if "i < ?k" "Suc ?k \<le> i + TX_DESC_NUM" for i
    using tx.advance_distinct[OF ring(2), of i ?k] that by simp
  have old: "describes ((e_tx_ring s1)[(tx_advance ^^ ?k) ?c := d] ! (tx_advance ^^ i) ?c)
      (phys (fst (ps ! i))) (snd (ps ! i))"
    if "i < ?k" "Suc ?k \<le> i + TX_DESC_NUM" for i d
    using s1(4) ne[OF that] that by simp
  let ?d = "tx_descriptor (phys p) len (e_tx_ring s1 ! (tx_advance ^^ ?k) ?c)"
  let ?s' = "s1\<lparr>e_tx_ring := (e_tx_ring s1)[(tx_advance ^^ ?k) ?c := ?d], e_tx_cur := tx_advance ((tx_advance ^^ ?k) ?c)\<rparr>"
  have call: "send_all m en (ps @ [q]) (self, h) =
      Inr (?s', Registers_write m TxDescTail (of_nat (tx_advance ((tx_advance ^^ ?k) ?c))) h1)"
    unfolding step using E1000_send_exact[OF tr, where self = s1] s1(2,3) lt[of ?k] by simp
  have new: "describes (e_tx_ring ?s' ! (tx_advance ^^ ?k) ?c) (phys p) len"
    using lt[of ?k] s1(2) by (simp add: describes_def tx_descriptor_def)
  have all: "\<forall>i<length (ps @ [q]). length (ps @ [q]) \<le> i + TX_DESC_NUM \<longrightarrow>
      describes (e_tx_ring ?s' ! (tx_advance ^^ i) ?c) (phys (fst ((ps @ [q]) ! i))) (snd ((ps @ [q]) ! i))"
  proof (intro allI impI)
    fix i
    assume i: "i < length (ps @ [q])" "length (ps @ [q]) \<le> i + TX_DESC_NUM"
    show "describes (e_tx_ring ?s' ! (tx_advance ^^ i) ?c) (phys (fst ((ps @ [q]) ! i))) (snd ((ps @ [q]) ! i))"
    proof (cases "i < ?k")
      case True
      then show ?thesis using old[of i ?d] i by (simp add: nth_append)
    next
      case False
      then have "i = ?k" using i(1) by simp
      then show ?thesis using new q by simp
    qed
  qed
  show ?case
    by (intro exI[of _ ?s'] exI conjI, rule call) (use s1(2) all in auto)
qed

text \<open>
  The transmit ring: sending never panics for addresses that are mapped; packet number \<open>i\<close>
  goes to the slot \<open>i\<close> places after the start, and its descriptor stays as written until 32 more
  packets have been sent; the tail register is left at the cursor. There is no check that the
  card is done with a slot: after 32 packets the tail is back where it started, which to the
  card is an empty ring.
\<close>

theorem e1000_tx_ring:
  assumes "\<And>p h. en_translate_virt en p h = Some (phys p)"
    and "length (e_tx_ring self) = 32" and "e_tx_cur self < 32"
  shows "\<exists>self' h'. send_all m en ps (self, h) = Inr (self', h')
    \<and> e_tx_cur self' = (e_tx_cur self + length ps) mod 32
    \<and> (ps \<noteq> [] \<longrightarrow> (\<exists>h0. h' = Registers_write m TxDescTail (of_nat (e_tx_cur self')) h0))
    \<and> (\<forall>i<length ps. length ps \<le> i + 32 \<longrightarrow>
         describes (e_tx_ring self' ! ((e_tx_cur self + i) mod 32)) (phys (fst (ps ! i))) (snd (ps ! i)))
    \<and> (length ps = 32 \<longrightarrow> e_tx_cur self' = e_tx_cur self)"
  using send_all_ring[of en phys self m ps h] assms tx.advance_pow[of "e_tx_cur self"]
  by (auto simp: TX_DESC_NUM_def simp del: send_all.simps)

text \<open>
  A transmitted buffer is freed while the card still owns it: when \<open>TxToken::consume\<close> returns,
  the last thing that happened is that its buffer was given back to the heap, and the descriptor
  that was just handed to the card still points to that buffer and is not marked as done.
\<close>

theorem e1000_tx_buffer_freed_in_flight:
  assumes "\<And>p h. en_translate_virt en p h = Some (phys p)"
    and "length (e_tx_ring self) = 32" and "e_tx_cur self < 32"
  shows "\<exists>r self' h3 buffer h1. TxToken_consume m en len fill (self, h)
      = Inr (r, self', en_dealloc en buffer \<lparr>lsize = len, lalign = 1\<rparr> h3)
    \<and> en_alloc en \<lparr>lsize = len, lalign = 1\<rparr> h = (buffer, h1)
    \<and> describes (e_tx_ring self' ! e_tx_cur self) (phys buffer) len"
proof -
  obtain buffer h1 where al: "en_alloc en \<lparr>lsize = len, lalign = 1\<rparr> h = (buffer, h1)" by force
  obtain r h2 where fl: "fill buffer h1 = (r, h2)" by force
  show ?thesis using al fl assms E1000_send_exact[OF assms(1), where self = self and h = h2 and m = m and p = buffer and len = len]
    by (auto simp: TxToken_consume_def describes_def tx_descriptor_def)
qed

section \<open>Reception\<close>

text \<open>
  The receive side of the card, as its manual describes it: it owns the descriptors from its head
  up to, but not including, the tail; when it has one, it writes the next frame to the buffer,
  marks the descriptor done with the length, and moves the head on. \<open>rc_mem\<close> is the contents of
  the buffers by their virtual address; \<open>rc_came\<close> and \<open>rc_got\<close> record the frames that came in and
  those the network stack was given.
\<close>

record ('g, 'w) rx_system =
  rc_drv :: "('g, 'w) E1000"
  rc_head :: nat
  rc_tail :: u32
  rc_mem :: "usize \<Rightarrow> u8 list"
  rc_came :: "u8 list list"
  rc_got :: "u8 list list"

text \<open>Register accesses of the driver that reach the receive unit.\<close>

definition tail_mmio :: "u32 mmio" where
  "tail_mmio = \<lparr>mmio_read = (\<lambda>r h. (0, h)), mmio_write = (\<lambda>r v h. if r = reg_offset RxDescTail then v else h)\<rparr>"

inductive rx_step :: "(u32, 'g, 'w) e1000_env \<Rightarrow> ('g, 'w) rx_system \<Rightarrow> ('g, 'w) rx_system \<Rightarrow> bool" for en where
  frame: "rc_head s \<noteq> unat (rc_tail s) \<Longrightarrow> length f < 2 ^ 16 \<Longrightarrow> d = e_rx_ring (rc_drv s) ! rc_head s \<Longrightarrow>
    st AND RStatus_bits RStatus_DD = RStatus_bits RStatus_DD \<Longrightarrow>
    rx_step en s (s\<lparr>rc_drv := (rc_drv s)\<lparr>e_rx_ring :=
         (e_rx_ring (rc_drv s))[rc_head s := d\<lparr>rd_status := st, rd_length := of_nat (length f)\<rparr>]\<rparr>,
       rc_head := (rc_head s + 1) mod 32,
       rc_mem := (rc_mem s)(en_translate_phys en (rd_addr d) (rc_tail s) := f),
       rc_came := rc_came s @ [f]\<rparr>)"
| take: "Driver_receive en (rc_drv s, rc_tail s) = Inr (Some (slot, a, l)) \<Longrightarrow>
    RxToken_consume tail_mmio (slot, a, l) (\<lambda>a l h. (take l (rc_mem s a), h)) (rc_drv s, rc_tail s)
      = Inr (bytes, drv, tail) \<Longrightarrow>
    rx_step en s (s\<lparr>rc_drv := drv, rc_tail := tail, rc_got := rc_got s @ [bytes]\<rparr>)"

text \<open>The state \<open>E1000::new\<close> sets up: head 0, tail 31, no descriptor done, buffers apart.\<close>

definition rx_start :: "(u32, 'g, 'w) e1000_env \<Rightarrow> (usize \<Rightarrow> usize) \<Rightarrow> ('g, 'w) rx_system \<Rightarrow> bool" where
  "rx_start en tr s \<longleftrightarrow>
     (\<forall>p h. en_translate_phys en p h = tr p)
   \<and> (\<exists>bufs. length bufs = 32 \<and> e_rx_ring (rc_drv s) = map new_rx bufs \<and> distinct (map tr bufs))
   \<and> e_rx_cur (rc_drv s) = 0 \<and> rc_head s = 0 \<and> rc_tail s = 31 \<and> rc_came s = [] \<and> rc_got s = []"

inductive rx_reach :: "(u32, 'g, 'w) e1000_env \<Rightarrow> (usize \<Rightarrow> usize) \<Rightarrow> ('g, 'w) rx_system \<Rightarrow> bool" for en tr where
  rx_begin: "rx_start en tr s \<Longrightarrow> rx_reach en tr s"
| rx_more: "rx_reach en tr s \<Longrightarrow> rx_step en s s' \<Longrightarrow> rx_reach en tr s'"

text \<open>\<open>fs\<close> are the frames waiting in the ring, from the cursor to the head.\<close>

definition rx_waiting :: "(usize \<Rightarrow> usize) \<Rightarrow> ('g, 'w) rx_system \<Rightarrow> u8 list list \<Rightarrow> bool" where
  "rx_waiting tr s fs \<longleftrightarrow>
     (let ring = e_rx_ring (rc_drv s); cur = e_rx_cur (rc_drv s) in
        length ring = 32 \<and> distinct (map (tr \<circ> rd_addr) ring) \<and> cur < 32 \<and> length fs \<le> 31
      \<and> rc_head s = (cur + length fs) mod 32 \<and> rc_tail s = of_nat ((cur + 31) mod 32)
      \<and> (\<forall>i<32. has_dd (ring ! ((cur + i) mod 32)) \<longleftrightarrow> i < length fs)
      \<and> (\<forall>i<length fs. length (fs ! i) < 2 ^ 16
           \<and> rd_length (ring ! ((cur + i) mod 32)) = of_nat (length (fs ! i))
           \<and> rc_mem s (tr (rd_addr (ring ! ((cur + i) mod 32)))) = fs ! i)
      \<and> rc_came s = rc_got s @ fs)"

definition rx_inv :: "(u32, 'g, 'w) e1000_env \<Rightarrow> (usize \<Rightarrow> usize) \<Rightarrow> ('g, 'w) rx_system \<Rightarrow> bool" where
  "rx_inv en tr s \<longleftrightarrow> (\<forall>p h. en_translate_phys en p h = tr p) \<and> (\<exists>fs. rx_waiting tr s fs)"

lemma rx_inv_start: "rx_start en tr s \<Longrightarrow> rx_inv en tr s"
  unfolding rx_start_def rx_inv_def rx_waiting_def Let_def
  by (auto intro!: exI[of _ "[]"] simp: new_rx_def has_dd_def comp_def)

lemma slot_less:
  assumes "i < j" "j < 32"
  shows "(c + i) mod 32 \<noteq> (c + j) mod (32 :: nat)"
proof
  assume "(c + i) mod 32 = (c + j) mod 32"
  then have "32 dvd c + j - (c + i)" using assms(1) by (subst (asm) eq_commute, subst (asm) mod_eq_dvd_iff_nat) auto
  then have "32 \<le> j - i" using assms(1) by (intro dvd_imp_le) auto
  then show False using assms(2) by linarith
qed

lemma slot_eq: "i < 32 \<Longrightarrow> j < 32 \<Longrightarrow> (c + i) mod 32 = (c + j) mod (32 :: nat) \<longleftrightarrow> i = j"
  using slot_less[of i j c] slot_less[of j i c] by (cases i j rule: linorder_cases) auto

lemma slot_next: "((c + 1) mod 32 + i) mod 32 = (c + Suc i) mod (32 :: nat)"
  by (simp add: mod_Suc_eq mod_add_left_eq)

lemma tail_unat: "unat (of_nat (n mod 32) :: u32) = n mod 32"
proof -
  have "n mod 32 < 32" by simp
  then show ?thesis by (simp add: unat_of_nat)
qed

lemma rx_frame_waiting:
  assumes w: "rx_waiting tr s fs" and tr: "\<And>p h. en_translate_phys en p h = tr p"
    and hd: "rc_head s \<noteq> unat (rc_tail s)" and f: "length f < 2 ^ 16"
    and d: "d = e_rx_ring (rc_drv s) ! rc_head s" and st: "st AND RStatus_bits RStatus_DD = RStatus_bits RStatus_DD"
  shows "rx_waiting tr (s\<lparr>rc_drv := (rc_drv s)\<lparr>e_rx_ring :=
         (e_rx_ring (rc_drv s))[rc_head s := d\<lparr>rd_status := st, rd_length := of_nat (length f)\<rparr>]\<rparr>,
       rc_head := (rc_head s + 1) mod 32,
       rc_mem := (rc_mem s)(en_translate_phys en (rd_addr d) (rc_tail s) := f),
       rc_came := rc_came s @ [f]\<rparr>) (fs @ [f])"
proof -
  let ?ring = "e_rx_ring (rc_drv s)" and ?c = "e_rx_cur (rc_drv s)" and ?n = "length fs"
  let ?d' = "d\<lparr>rd_status := st, rd_length := of_nat (length f)\<rparr>"
  let ?ring' = "?ring[rc_head s := ?d']"
  note W = w[unfolded rx_waiting_def Let_def]
  have head: "rc_head s = (?c + ?n) mod 32" and len: "length ?ring = 32" and c: "?c < 32" and n31: "?n \<le> 31"
    and dist: "distinct (map (tr \<circ> rd_addr) ?ring)"
    and dd: "\<And>i. i < 32 \<Longrightarrow> has_dd (?ring ! ((?c + i) mod 32)) \<longleftrightarrow> i < ?n"
    and fr: "\<And>i. i < ?n \<Longrightarrow> length (fs ! i) < 2 ^ 16
           \<and> rd_length (?ring ! ((?c + i) mod 32)) = of_nat (length (fs ! i))
           \<and> rc_mem s (tr (rd_addr (?ring ! ((?c + i) mod 32)))) = fs ! i"
    and came: "rc_came s = rc_got s @ fs" and tail: "rc_tail s = of_nat ((?c + 31) mod 32)"
    using W by blast+
  have "?n \<noteq> 31" using hd head tail tail_unat[of "?c + 31"] by auto
  then have n: "?n < 31" using n31 by simp
  have at: "?ring' ! ((?c + i) mod 32) = (if i = ?n then ?d' else ?ring ! ((?c + i) mod 32))" if "i < 32" for i
    using that n slot_eq[of i ?n ?c] len unfolding head by (auto simp: nth_list_update)
  have ne: "tr (rd_addr (?ring ! ((?c + i) mod 32))) \<noteq> tr (rd_addr d)" if "i < ?n" for i
  proof -
    have "(?c + i) mod 32 \<noteq> (?c + ?n) mod 32" using slot_eq[of i ?n ?c] that n by simp
    then show ?thesis using nth_eq_iff_index_eq[OF dist, of "(?c + i) mod 32" "(?c + ?n) mod 32"] len
      unfolding d head by simp
  qed
  have addrs: "map (tr \<circ> rd_addr) ?ring' = map (tr \<circ> rd_addr) ?ring"
    using len unfolding d head by (intro nth_equalityI) (auto simp: nth_list_update)
  have dd': "has_dd (?ring' ! ((?c + i) mod 32)) \<longleftrightarrow> i < Suc ?n" if "i < 32" for i
    using dd[OF that] at[OF that] st by (auto simp: has_dd_def)
  have fr': "length ((fs @ [f]) ! i) < 2 ^ 16
      \<and> rd_length (?ring' ! ((?c + i) mod 32)) = of_nat (length ((fs @ [f]) ! i))
      \<and> ((rc_mem s)(tr (rd_addr d) := f)) (tr (rd_addr (?ring' ! ((?c + i) mod 32)))) = (fs @ [f]) ! i"
    if "i < Suc ?n" for i
    using that at[of i] fr[of i] ne[of i] f n by (auto simp: nth_append less_Suc_eq)
  have head': "(rc_head s + 1) mod 32 = (?c + Suc ?n) mod 32"
    unfolding head by (simp add: mod_Suc_eq)
  show ?thesis unfolding rx_waiting_def Let_def
    using len dist addrs c n head' tail dd' fr' came tr by simp
qed

lemma rx_take_waiting:
  assumes w: "rx_waiting tr s fs" and tr: "\<And>p h. en_translate_phys en p h = tr p"
    and rcv: "Driver_receive en (rc_drv s, rc_tail s) = Inr (Some (slot, a, l))"
    and con: "RxToken_consume tail_mmio (slot, a, l) (\<lambda>a l h. (take l (rc_mem s a), h)) (rc_drv s, rc_tail s)
      = Inr (bytes, drv, tail)"
  shows "\<exists>fs'. fs = bytes # fs' \<and> rx_waiting tr (s\<lparr>rc_drv := drv, rc_tail := tail, rc_got := rc_got s @ [bytes]\<rparr>) fs'"
proof -
  let ?ring = "e_rx_ring (rc_drv s)" and ?c = "e_rx_cur (rc_drv s)" and ?n = "length fs"
  note W = w[unfolded rx_waiting_def Let_def]
  have head: "rc_head s = (?c + ?n) mod 32" and len: "length ?ring = 32" and c: "?c < 32" and n31: "?n \<le> 31"
    and dist: "distinct (map (tr \<circ> rd_addr) ?ring)"
    and dd: "\<And>i. i < 32 \<Longrightarrow> has_dd (?ring ! ((?c + i) mod 32)) \<longleftrightarrow> i < ?n"
    and fr: "\<And>i. i < ?n \<Longrightarrow> length (fs ! i) < 2 ^ 16
           \<and> rd_length (?ring ! ((?c + i) mod 32)) = of_nat (length (fs ! i))
           \<and> rc_mem s (tr (rd_addr (?ring ! ((?c + i) mod 32)))) = fs ! i"
    and came: "rc_came s = rc_got s @ fs"
    using W by blast+
  have r: "slot = ?c" "a = tr (rd_addr (?ring ! ?c))" "l = unat (rd_length (?ring ! ?c))" "has_dd (?ring ! ?c)"
    using rcv tr by (auto simp: Driver_receive_def E1000_recv_def Let_def split: if_splits)
  have "0 < ?n" using dd[of 0] r(4) c by simp
  then obtain f fs' where fs: "fs = f # fs'" by (cases fs) auto
  have f: "length f < 2 ^ 16" "rd_length (?ring ! ?c) = of_nat (length f)" "rc_mem s (tr (rd_addr (?ring ! ?c))) = f"
    using fr[of 0] fs c by auto
  have "unat (of_nat (length f) :: u16) = length f" using f(1) by (simp add: unat_of_nat)
  then have b: "bytes = f"
    and drv: "drv = (rc_drv s)\<lparr>e_rx_ring := ?ring[?c := (?ring ! ?c)\<lparr>rd_status := 0\<rparr>], e_rx_cur := (?c + 1) mod 32\<rparr>"
    and tl: "tail = of_nat ?c"
    using con r f by (auto simp: RxToken_consume_def E1000_recv_end_def Let_def rx_advance_def RX_DESC_NUM_def
        Registers_write_def tail_mmio_def)
  let ?ring' = "?ring[?c := (?ring ! ?c)\<lparr>rd_status := 0\<rparr>]"
  have at: "?ring' ! ((?c + Suc i) mod 32) = (if i = 31 then (?ring ! ?c)\<lparr>rd_status := 0\<rparr> else ?ring ! ((?c + Suc i) mod 32))"
    if "i < 32" for i
  proof (cases "i = 31")
    case True
    then show ?thesis using c len by simp
  next
    case False
    then have "(?c + Suc i) mod 32 \<noteq> ?c" using slot_eq[of "Suc i" 0 ?c] that c by simp
    then show ?thesis using False by simp
  qed
  have addrs: "map (tr \<circ> rd_addr) ?ring' = map (tr \<circ> rd_addr) ?ring"
    using len c by (intro nth_equalityI) (auto simp: nth_list_update)
  have n': "length fs' \<le> 30" using n31 fs by simp
  have dd': "has_dd (?ring' ! (((?c + 1) mod 32 + i) mod 32)) \<longleftrightarrow> i < length fs'" if "i < 32" for i
    using at[OF that] dd[of "Suc i"] that fs n' unfolding slot_next by (auto simp: has_dd_def)
  have fr': "length (fs' ! i) < 2 ^ 16
      \<and> rd_length (?ring' ! (((?c + 1) mod 32 + i) mod 32)) = of_nat (length (fs' ! i))
      \<and> rc_mem s (tr (rd_addr (?ring' ! (((?c + 1) mod 32 + i) mod 32)))) = fs' ! i" if "i < length fs'" for i
    using at[of i] fr[of "Suc i"] that fs n' unfolding slot_next by auto
  have head': "rc_head s = ((?c + 1) mod 32 + length fs') mod 32" unfolding head fs slot_next by simp
  have tail': "?c = ((?c + 1) mod 32 + 31) mod 32" using slot_next[of ?c 31] c by simp
  show ?thesis unfolding rx_waiting_def Let_def fs b
    using len dist addrs n' head' tail' dd' fr' came by (auto simp: drv tl fs)
qed

lemma rx_inv_step:
  assumes "rx_inv en tr s" "rx_step en s s'"
  shows "rx_inv en tr s'"
proof -
  obtain fs where fs: "rx_waiting tr s fs" and tr: "\<And>p h. en_translate_phys en p h = tr p"
    using assms(1) by (auto simp: rx_inv_def)
  from assms(2) show ?thesis
  proof cases
    case (frame f d st)
    show ?thesis unfolding frame(1) rx_inv_def using rx_frame_waiting[OF fs tr frame(2-5)] tr by blast
  next
    case (take slot a l bytes drv tail)
    show ?thesis unfolding take(1) rx_inv_def using rx_take_waiting[OF fs tr take(2,3)] tr by blast
  qed
qed

lemma rx_reach_inv: "rx_reach en tr s \<Longrightarrow> rx_inv en tr s"
  by (induction rule: rx_reach.induct) (auto intro: rx_inv_start rx_inv_step)

text \<open>
  C15. Received frames are delivered in order, none lost and none twice: in every state the card
  and the driver can reach, \<open>receive\<close> does not panic; it returns nothing exactly when every frame
  that came in has been delivered; and otherwise consuming the token it returns succeeds and
  gives the network stack precisely the oldest frame not yet delivered. At most 31 frames wait.
\<close>

theorem e1000_rx_in_order:
  assumes "rx_reach en tr s"
  shows "\<exists>fs. rc_came s = rc_got s @ fs \<and> length fs \<le> 31
    \<and> (case fs of
         [] \<Rightarrow> Driver_receive en (rc_drv s, rc_tail s) = Inr None
       | f # _ \<Rightarrow> \<exists>token drv tail. Driver_receive en (rc_drv s, rc_tail s) = Inr (Some token)
           \<and> RxToken_consume tail_mmio token (\<lambda>a l h. (take l (rc_mem s a), h)) (rc_drv s, rc_tail s)
               = Inr (f, drv, tail))"
proof -
  obtain fs where fs: "rx_waiting tr s fs" and tr: "\<And>p h. en_translate_phys en p h = tr p"
    using rx_reach_inv[OF assms] by (auto simp: rx_inv_def)
  let ?ring = "e_rx_ring (rc_drv s)" and ?c = "e_rx_cur (rc_drv s)"
  have c: "?c < 32" "length ?ring = 32" and dd: "has_dd (?ring ! ?c) \<longleftrightarrow> fs \<noteq> []"
    and came: "rc_came s = rc_got s @ fs" "length fs \<le> 31"
    using fs unfolding rx_waiting_def Let_def by (auto dest: spec[of _ 0])
  show ?thesis
  proof (cases fs)
    case Nil
    then show ?thesis using c dd came
      by (auto simp: Driver_receive_def E1000_recv_def Let_def intro!: exI[of _ fs])
  next
    case (Cons f fs')
    then have rcv: "Driver_receive en (rc_drv s, rc_tail s)
        = Inr (Some (?c, tr (rd_addr (?ring ! ?c)), unat (rd_length (?ring ! ?c))))"
      using c dd tr by (simp add: Driver_receive_def E1000_recv_def Let_def)
    have "\<exists>b drv tail. RxToken_consume tail_mmio (?c, tr (rd_addr (?ring ! ?c)), unat (rd_length (?ring ! ?c)))
        (\<lambda>a l h. (take l (rc_mem s a), h)) (rc_drv s, rc_tail s) = Inr (b, drv, tail)"
      using c dd Cons by (simp add: RxToken_consume_def E1000_recv_end_def Let_def)
    then obtain b drv tail where con: "RxToken_consume tail_mmio (?c, tr (rd_addr (?ring ! ?c)), unat (rd_length (?ring ! ?c)))
        (\<lambda>a l h. (take l (rc_mem s a), h)) (rc_drv s, rc_tail s) = Inr (b, drv, tail)" by blast
    have "b = f" using rx_take_waiting[OF fs tr rcv con] Cons by auto
    then show ?thesis using rcv con came Cons by (intro exI[of _ fs]) auto
  qed
qed

section \<open>What construction establishes\<close>

text \<open>
  The EEPROM as the manual describes it: after a read request for an address, polling the
  register eventually shows the done bit, and whenever it does the upper half is the word.
\<close>

definition eeprom_ok :: "'h mmio \<Rightarrow> (u8 \<Rightarrow> u16) \<Rightarrow> bool" where
  "eeprom_ok m words \<longleftrightarrow>
     (\<forall>addr h. let rd = Registers_read m Eeprom;
                  h0 = Registers_write m Eeprom (1 OR push_bit 8 (ucast addr)) h;
                  v = (\<lambda>k. fst (rd (((snd \<circ> rd) ^^ k) h0)))
              in (\<exists>n. v n AND push_bit 4 1 \<noteq> 0)
                 \<and> (\<forall>k. v k AND push_bit 4 1 \<noteq> 0 \<longrightarrow> drop_bit 16 (v k) AND 0xffff = ucast (words addr)))"

lemma read_eeprom_returns:
  assumes "eeprom_ok m words"
  shows "\<exists>h'. read_eeprom m addr h = Some (Inr (ucast (words addr)), h')"
proof -
  let ?rd = "Registers_read m Eeprom"
  let ?h0 = "Registers_write m Eeprom (1 OR push_bit 8 (ucast addr)) h"
  let ?v = "\<lambda>k. fst (?rd (((snd \<circ> ?rd) ^^ k) ?h0))"
  obtain n where n: "?v n AND push_bit 4 1 \<noteq> 0" and w: "\<And>k. ?v k AND push_bit 4 1 \<noteq> 0 \<Longrightarrow>
      drop_bit 16 (?v k) AND 0xffff = ucast (words addr)"
    using assms unfolding eeprom_ok_def Let_def by blast
  obtain k where k: "spin_until ?rd (\<lambda>v. v AND push_bit 4 1 \<noteq> 0) ?h0 = Some (?rd (((snd \<circ> ?rd) ^^ k) ?h0))"
    "?v k AND push_bit 4 1 \<noteq> 0"
    using spin_until_returns[of "\<lambda>v. v AND push_bit 4 1 \<noteq> 0" ?rd n ?h0] n by blast
  show ?thesis using k(1) w[OF k(2)] by (auto simp: read_eeprom_def split: prod.splits)
qed

definition word_bytes :: "u16 \<Rightarrow> u8 list" where
  "word_bytes w = [ucast w, ucast (drop_bit 8 w)]"

lemma mac_bytes_word: "mac_bytes (ucast (w :: u16)) = word_bytes w"
proof -
  have "(ucast (ucast w :: u32) :: u16) = w" by (rule bit_word_eqI) (auto simp: bit_simps)
  moreover have "(ucast (w AND 0xff) :: u8) = ucast w"
  proof (rule bit_word_eqI)
    have m: "(0xff :: u16) = mask 8" by (simp add: mask_eq_exp_minus_1)
    show "bit (ucast (w AND 0xff) :: u8) n = bit (ucast w :: u8) n" if "n < LENGTH(8)" for n
      using that by (auto simp: m bit_simps)
  qed
  ultimately show ?thesis by (simp add: mac_bytes_def word_bytes_def)
qed

lemma read_mac_exact:
  assumes "eeprom_ok m words"
  shows "\<exists>h'. read_mac m h = Some (Inr (word_bytes (words 0) @ word_bytes (words 1) @ word_bytes (words 2)), h')"
proof -
  obtain h1 where 1: "read_eeprom m 0 h = Some (Inr (ucast (words 0)), h1)" using read_eeprom_returns[OF assms] by blast
  obtain h2 where 2: "read_eeprom m 1 h1 = Some (Inr (ucast (words 1)), h2)" using read_eeprom_returns[OF assms] by blast
  obtain h3 where 3: "read_eeprom m 2 h2 = Some (Inr (ucast (words 2)), h3)" using read_eeprom_returns[OF assms] by blast
  show ?thesis by (simp add: read_mac_def io_bind_def 1 2 3 mac_bytes_word)
qed

lemma new_tx_ring_val: "new_tx_ring m en h = Some (Inr (p, ds), t) \<Longrightarrow> ds = replicate 32 empty_tx"
  by (auto simp: new_tx_ring_def io_bind_eq_Some TX_DESC_NUM_def)

lemma new_rx_buffers_val: "new_rx_buffers en n h = Some (Inr ds, t) \<Longrightarrow> \<exists>bufs. length bufs = n \<and> ds = map new_rx bufs"
proof (induction n arbitrary: h ds)
  case (Suc n)
  then obtain h' phys ds' where "new_rx_buffers en n h' = Some (Inr ds', t)" "ds = new_rx phys # ds'"
    by (auto simp: io_bind_eq_Some)
  with Suc.IH obtain bufs where "length bufs = n" "ds' = map new_rx bufs" by blast
  then show ?case using \<open>ds = new_rx phys # ds'\<close> by (intro exI[of _ "phys # bufs"]) simp
qed simp

lemma new_rx_ring_val:
  "new_rx_ring m en h = Some (Inr (p, ds), t) \<Longrightarrow> \<exists>bufs. length bufs = 32 \<and> ds = map new_rx bufs"
  unfolding new_rx_ring_def using new_rx_buffers_val
  by (fastforce simp: io_bind_eq_Some RX_DESC_NUM_def)

definition e1000_fresh :: "(u8 \<Rightarrow> u16) \<Rightarrow> ('g, 'w) E1000 \<Rightarrow> bool" where
  "e1000_fresh words e \<longleftrightarrow>
     e_address e = word_bytes (words 0) @ word_bytes (words 1) @ word_bytes (words 2)
   \<and> e_tx_cur e = 0 \<and> e_tx_ring e = replicate 32 empty_tx
   \<and> e_rx_cur e = 0 \<and> (\<exists>bufs. length bufs = 32 \<and> e_rx_ring e = map new_rx bufs)
   \<and> e_interrupt_guard e \<noteq> None"


section \<open>A bench setup\<close>

text \<open>Services that answer at once, and a card whose EEPROM holds one word everywhere.\<close>

definition flat_env :: "('h, unit, bool) e1000_env" where
  "flat_env = \<lparr>en_set_command = (\<lambda>h. h), en_alloc = (\<lambda>l h. (4096, h)), en_dealloc = (\<lambda>p l h. h),
     en_translate_virt = (\<lambda>p h. Some p), en_translate_phys = (\<lambda>p h. p), en_route_pin = (\<lambda>h. (Inr 11, h)),
     en_set_interrupt = (\<lambda>g t h. (Inr (), h)), en_waker_new = False\<rparr>"

definition bench_mmio :: "unit mmio" where
  "bench_mmio = \<lparr>mmio_read = (\<lambda>r h. (if r = 0x14 then 0x34120010 else if r = 0x8 then 2 else 0, h)),
     mmio_write = (\<lambda>r v h. h)\<rparr>"

definition idle_e1000 :: "(unit, bool) E1000" where
  "idle_e1000 = \<lparr>e_address = [], e_tx_cur = 0, e_tx_ring_ptr = 4096, e_tx_ring = replicate 32 empty_tx,
     e_rx_cur = 0, e_rx_ring_ptr = 8192, e_rx_ring = map new_rx (map (\<lambda>i. 65536 + i * 4096) [0..<32]),
     e_interrupt_guard = None, e_waker = False\<rparr>"

theorem e1000_tx_ring_witness:
  "\<exists>self' h'. send_all tail_mmio flat_env [(12288, 60), (16384, 64)] (idle_e1000, 0) = Inr (self', h')
    \<and> e_tx_cur self' = 2 \<and> describes (e_tx_ring self' ! 1) 16384 64"
proof -
  have tr: "en_translate_virt flat_env p h = Some p" for p and h :: u32 by (simp add: flat_env_def)
  have "length (e_tx_ring idle_e1000) = 32" "e_tx_cur idle_e1000 < 32" "e_tx_cur idle_e1000 = 0"
    by (simp_all add: idle_e1000_def)
  then show ?thesis
    using e1000_tx_ring[of flat_env "\<lambda>p. p" idle_e1000 tail_mmio "[(12288, 60), (16384, 64)]" 0, OF tr]
    by (auto simp del: send_all.simps dest!: spec[of _ 1])
qed

theorem e1000_tx_buffer_freed_in_flight_witness:
  "\<exists>r self' h3 buffer h1. TxToken_consume tail_mmio flat_env 60 (\<lambda>b h. ((), h)) (idle_e1000, 0)
      = Inr (r, self', en_dealloc flat_env buffer \<lparr>lsize = 60, lalign = 1\<rparr> h3)
    \<and> en_alloc flat_env \<lparr>lsize = 60, lalign = 1\<rparr> (0 :: u32) = (buffer, h1)
    \<and> describes (e_tx_ring self' ! e_tx_cur idle_e1000) buffer 60"
  by (rule e1000_tx_buffer_freed_in_flight[of flat_env "\<lambda>p. p"]) (simp_all add: flat_env_def idle_e1000_def)

lemma bench_rx_start:
  "rx_start flat_env (\<lambda>p. p) \<lparr>rc_drv = idle_e1000, rc_head = 0, rc_tail = 31, rc_mem = (\<lambda>_. []), rc_came = [], rc_got = []\<rparr>"
  unfolding rx_start_def
  by (auto simp: flat_env_def idle_e1000_def distinct_map inj_on_def intro!: exI[of _ "map (\<lambda>i. 65536 + i * 4096) [0..<32]"])

theorem e1000_rx_in_order_witness:
  "\<exists>(s :: (unit, bool) rx_system) f token drv tail. rc_came s = [f] \<and> rc_got s = []
    \<and> Driver_receive flat_env (rc_drv s, rc_tail s) = Inr (Some token)
    \<and> RxToken_consume tail_mmio token (\<lambda>a l h. (take l (rc_mem s a), h)) (rc_drv s, rc_tail s) = Inr (f, drv, tail)"
proof -
  let ?s0 = "\<lparr>rc_drv = idle_e1000, rc_head = 0, rc_tail = 31, rc_mem = (\<lambda>_. []), rc_came = [], rc_got = []\<rparr>"
  obtain s where st: "rx_step flat_env ?s0 s" and s: "rc_came s = [[1, 2, 3]]" "rc_got s = []"
    using rx_step.frame[of ?s0 "[1, 2, 3]" _ 3 flat_env, OF _ _ refl] by force
  have "rx_reach flat_env (\<lambda>p. p) s"
    using rx_reach.rx_more[OF rx_reach.rx_begin[OF bench_rx_start] st] .
  from e1000_rx_in_order[OF this] s obtain token drv tail where
    "Driver_receive flat_env (rc_drv s, rc_tail s) = Inr (Some token)"
    "RxToken_consume tail_mmio token (\<lambda>a l h. (take l (rc_mem s a), h)) (rc_drv s, rc_tail s) = Inr ([1, 2, 3], drv, tail)"
    by auto
  with s show ?thesis by blast
qed

lemma detect_loop_now:
  "0 < n \<Longrightarrow> fst (Registers_read m Eeprom h) AND push_bit 4 1 \<noteq> 0 \<Longrightarrow>
     detect_loop m n h = (True, snd (Registers_read m Eeprom h))"
  by (cases n) (simp_all add: case_prod_beta)

lemma bench_eeprom: "eeprom_ok bench_mmio (\<lambda>_. 0x3412)"
  by (simp add: eeprom_ok_def bench_mmio_def Registers_read_def Let_def)

lemma bench_buffers: "new_rx_buffers flat_env n h = Some (Inr (replicate n (new_rx 4096)), h)"
  by (induction n) (simp_all add: flat_env_def translate_page_def io_gets_def io_res_def)

lemma bench_new:
  "\<exists>e. E1000_new bench_mmio flat_env [Some (BarMemory32 0xFEBC0000 0x20000)] 0 () = Some (Inr e, ())"
proof -
  have found: "detect_eeprom bench_mmio () = (True, ())"
    by (simp add: detect_eeprom_def detect_loop_now Registers_read_def bench_mmio_def)
  have eep: "read_eeprom bench_mmio a () = Some (Inr 0x3412, ())" for a
    by (simp add: read_eeprom_def spin_until_now Registers_read_def bench_mmio_def)
  have rs: "reset bench_mmio () = Some (Inr (), ())" "link_up bench_mmio () = Some (Inr (), ())"
    by (simp_all add: reset_def link_up_def spin_until_now Registers_read_def bench_mmio_def Status_LU_def)
  have tp: "translate_page (flat_env :: (unit, unit, bool) e1000_env) a () = Some (Inr a, ())" for a
    by (simp add: translate_page_def io_gets_def io_res_def flat_env_def io_bind_def)
  have base: "registers_base [Some (BarMemory32 0xFEBC0000 0x20000)] 0 () = Some (Inr 0xFEBC0000, ())"
    by (simp add: registers_base_def io_bind_def io_res_def phys_new_def virt_add_def canonical_def)
  have tx: "new_tx_ring bench_mmio flat_env () = Some (Inr (4096, replicate TX_DESC_NUM empty_tx), ())"
    by (simp add: new_tx_ring_def io_bind_def tp) (simp add: flat_env_def)
  have rx: "new_rx_ring bench_mmio flat_env () = Some (Inr (4096, replicate RX_DESC_NUM (new_rx 4096)), ())"
    by (simp add: new_rx_ring_def io_bind_def tp bench_buffers) (simp add: flat_env_def)
  show ?thesis
    by (simp add: E1000_new_def read_mac_def io_bind_def found eep rs base tx rx io_res_def)
      (simp add: flat_env_def io_res_def io_bind_def rs)
qed


end
