(* ===== verification/Framebuffer.thy ===== *)
theory Framebuffer
  imports Prelude
begin

text \<open>
  The framebuffer console, \<open>kernel/src/framebuffer.rs\<close>: pixels, text with scrolling and backspace,
  and the run-length decoder for the logo, whose encoder is the build script \<open>kernel/build.rs\<close>.

  Characters are Unicode code points. The bitmap font (\<open>noto_sans_mono_bitmap\<close>) and the two
  floating-point computations (alpha blending, the luminance threshold) are parameters: \<open>fb_font\<close>
  and \<open>fb_float\<close>. Nothing is assumed of the latter; \<open>Pixels\<close> computes them.
\<close>

section \<open>Slices\<close>

text \<open>\<open>buf[off..off + n].copy_from_slice(bytes)\<close>, \<open>buf[from..].fill(0)\<close>, \<open>buf.copy_within(from.., 0)\<close>.\<close>

definition slice_write :: "u8 list \<Rightarrow> usize \<Rightarrow> u8 list \<Rightarrow> u8 list res" where
  "slice_write buf off bytes =
     (if off + length bytes \<le> length buf
      then Inr (take off buf @ bytes @ drop (off + length bytes) buf) else Inl IndexOutOfBounds)"

definition slice_read :: "u8 list \<Rightarrow> usize \<Rightarrow> usize \<Rightarrow> u8 list res" where
  "slice_read buf off n =
     (if off + n \<le> length buf then Inr (take n (drop off buf)) else Inl IndexOutOfBounds)"

definition fill_from :: "u8 list \<Rightarrow> usize \<Rightarrow> u8 list res" where
  "fill_from buf from =
     (if from \<le> length buf then Inr (take from buf @ replicate (length buf - from) 0) else Inl IndexOutOfBounds)"

definition copy_within_start :: "u8 list \<Rightarrow> usize \<Rightarrow> u8 list res" where
  "copy_within_start buf from =
     (if from \<le> length buf then Inr (drop from buf @ drop (length buf - from) buf) else Inl IndexOutOfBounds)"

lemma slice_write_eq_Inr [simp]:
  "slice_write buf off bytes = Inr r \<longleftrightarrow>
     off + length bytes \<le> length buf \<and> r = take off buf @ bytes @ drop (off + length bytes) buf"
  by (auto simp: slice_write_def)

lemma length_slice_write: "slice_write buf off bytes = Inr r \<Longrightarrow> length r = length buf"
  by auto

section \<open>Display\<close>

datatype PixelFormat = FmtRgb | FmtBgr | FmtU8 | FmtUnknown

record Display =
  fb_buffer :: "u8 list"
  fb_cache :: "u8 list option"
  fb_width :: usize
  fb_height :: usize
  fb_stride :: usize
  fb_bytes_per_pixel :: usize
  fb_pixel_format :: PixelFormat
  fb_x_pos :: usize
  fb_y_pos :: usize
  fb_last_char_width :: usize

definition LINE_SPACING :: usize where "LINE_SPACING = 2"
definition BORDER_PADDING :: usize where "BORDER_PADDING = 1"
definition CHAR_RASTER_HEIGHT :: usize where "CHAR_RASTER_HEIGHT = 16"
definition LINE_HEIGHT :: usize where "LINE_HEIGHT = CHAR_RASTER_HEIGHT + LINE_SPACING"
definition BACKUP_CHAR :: nat where "BACKUP_CHAR = 0xFFFD"

lemmas fb_consts = LINE_SPACING_def BORDER_PADDING_def CHAR_RASTER_HEIGHT_def LINE_HEIGHT_def

definition DISPLAY :: Display where
  "DISPLAY = \<lparr>fb_buffer = [], fb_cache = None, fb_width = 0, fb_height = 0, fb_stride = 0,
     fb_bytes_per_pixel = 0, fb_pixel_format = FmtBgr, fb_x_pos = BORDER_PADDING, fb_y_pos = BORDER_PADDING,
     fb_last_char_width = 0\<rparr>"

record RasterizedChar =
  gl_width :: usize
  gl_raster :: "u8 list list"

type_synonym fb_font = "nat \<Rightarrow> RasterizedChar option"

record fb_float =
  fl_blend :: "u8 \<Rightarrow> u8 \<Rightarrow> u8 \<Rightarrow> u8"
  fl_bright :: "u8 \<Rightarrow> u8 \<Rightarrow> u8 \<Rightarrow> bool"

definition get_char_raster :: "fb_font \<Rightarrow> nat \<Rightarrow> RasterizedChar res" where
  "get_char_raster font c = (case font c of Some r \<Rightarrow> Inr r | None \<Rightarrow> unwrap (font BACKUP_CHAR))"

definition Display_carriage_return :: "Display \<Rightarrow> Display" where
  "Display_carriage_return d = d\<lparr>fb_x_pos := BORDER_PADDING\<rparr>"

definition Display_clear :: "Display \<Rightarrow> Display" where
  "Display_clear d =
     d\<lparr>fb_x_pos := BORDER_PADDING, fb_y_pos := BORDER_PADDING,
       fb_buffer := replicate (length (fb_buffer d)) 0,
       fb_cache := map_option (\<lambda>c. replicate (length c) 0) (fb_cache d)\<rparr>"

definition Display_scroll :: "Display \<Rightarrow> Display res" where
  "Display_scroll d =
     res_bind (usize_mul (fb_stride d) LINE_HEIGHT) (\<lambda>line.
     res_bind (usize_mul line (fb_bytes_per_pixel d)) (\<lambda>next_line_offset.
     res_bind (usize_sub (fb_height d) LINE_HEIGHT) (\<lambda>pixel_height.
     res_bind (usize_mul (fb_stride d) pixel_height) (\<lambda>pixels.
     res_bind (usize_mul pixels (fb_bytes_per_pixel d)) (\<lambda>bytes.
     res_bind (usize_add bytes 1) (\<lambda>from.
     case fb_cache d of
       Some cache \<Rightarrow>
         res_bind (copy_within_start cache next_line_offset) (\<lambda>cache.
         res_bind (fill_from cache from) (\<lambda>cache.
         if length (fb_buffer d) = length cache
         then Inr (d\<lparr>fb_cache := Some cache, fb_buffer := cache\<rparr>) else Inl ExplicitPanic))
     | None \<Rightarrow>
         res_bind (copy_within_start (fb_buffer d) next_line_offset) (\<lambda>buf.
         res_bind (fill_from buf from) (\<lambda>buf. Inr (d\<lparr>fb_buffer := buf\<rparr>)))))))))"

definition Display_newline :: "Display \<Rightarrow> Display res" where
  "Display_newline d =
     res_bind (usize_add (fb_y_pos d) LINE_HEIGHT) (\<lambda>y.
     let d = Display_carriage_return (d\<lparr>fb_y_pos := y\<rparr>) in
     res_bind (usize_add y LINE_HEIGHT) (\<lambda>bottom.
     if fb_height d \<le> bottom
     then res_bind (Display_scroll d) (\<lambda>d.
          res_bind (usize_sub (fb_y_pos d) LINE_HEIGHT) (\<lambda>y. Inr (d\<lparr>fb_y_pos := y\<rparr>)))
     else Inr d))"

text \<open>Blending reads the old pixel, from the cache when there is one.\<close>

definition blend_pixel ::
    "fb_float \<Rightarrow> Display \<Rightarrow> usize \<Rightarrow> u8 \<times> u8 \<times> u8 \<Rightarrow> u8 \<Rightarrow> (u8 \<times> u8 \<times> u8) res" where
  "blend_pixel fl d byte_offset rgb a =
     res_bind (slice_read (case fb_cache d of Some cache \<Rightarrow> cache | None \<Rightarrow> fb_buffer d)
                 byte_offset (fb_bytes_per_pixel d)) (\<lambda>bytes.
     res_bind
       (case fb_pixel_format d of
          FmtRgb \<Rightarrow> res_bind (index_at bytes 0) (\<lambda>r. res_bind (index_at bytes 1) (\<lambda>g. res_bind (index_at bytes 2) (\<lambda>b. Inr (r, g, b))))
        | FmtBgr \<Rightarrow> res_bind (index_at bytes 2) (\<lambda>r. res_bind (index_at bytes 1) (\<lambda>g. res_bind (index_at bytes 0) (\<lambda>b. Inr (r, g, b))))
        | FmtU8 \<Rightarrow> res_bind (index_at bytes 0) (\<lambda>v. Inr (v, v, v))
        | FmtUnknown \<Rightarrow> Inl ExplicitPanic) (\<lambda>(r0, g0, b0).
       case rgb of (r, g, b) \<Rightarrow> Inr (fl_blend fl a r0 r, fl_blend fl a g0 g, fl_blend fl a b0 b)))"

definition pixel_color :: "fb_float \<Rightarrow> PixelFormat \<Rightarrow> u8 \<times> u8 \<times> u8 \<Rightarrow> u8 list res" where
  "pixel_color fl fmt rgb =
     (case rgb of (r, g, b) \<Rightarrow>
      case fmt of
        FmtRgb \<Rightarrow> Inr [r, g, b, 0]
      | FmtBgr \<Rightarrow> Inr [b, g, r, 0]
      | FmtU8 \<Rightarrow> Inr [if fl_bright fl r g b then 0xf else 0, 0, 0, 0]
      | FmtUnknown \<Rightarrow> Inl ExplicitPanic)"

definition Display_write_pixel ::
    "fb_float \<Rightarrow> usize \<Rightarrow> usize \<Rightarrow> u8 \<times> u8 \<times> u8 \<Rightarrow> u8 \<Rightarrow> Display \<Rightarrow> Display res" where
  "Display_write_pixel fl x y rgb a d =
     (if a = 0 then Inr d
      else
        res_bind (usize_mul y (fb_stride d)) (\<lambda>row.
        res_bind (usize_add row x) (\<lambda>pixel_offset.
        res_bind (usize_mul pixel_offset (fb_bytes_per_pixel d)) (\<lambda>byte_offset.
        res_bind (if a \<noteq> 255 then blend_pixel fl d byte_offset rgb a else Inr rgb) (\<lambda>rgb.
        res_bind (pixel_color fl (fb_pixel_format d) rgb) (\<lambda>color.
        res_bind (slice_read color 0 (fb_bytes_per_pixel d)) (\<lambda>bytes.
        res_bind (slice_write (fb_buffer d) byte_offset bytes) (\<lambda>buf.
        case fb_cache d of
          None \<Rightarrow> Inr (d\<lparr>fb_buffer := buf\<rparr>)
        | Some cache \<Rightarrow>
            res_bind (slice_write cache byte_offset bytes) (\<lambda>cache.
              Inr (d\<lparr>fb_buffer := buf, fb_cache := Some cache\<rparr>))))))))))"

section \<open>Text\<close>

definition coords :: "usize \<Rightarrow> usize \<Rightarrow> (usize \<times> usize) list" where
  "coords w h = concat (map (\<lambda>y. map (\<lambda>x. (x, y)) [0..<w]) [0..<h])"

definition raster_pixels :: "u8 list list \<Rightarrow> (usize \<times> usize \<times> u8) list" where
  "raster_pixels rows = concat (map (\<lambda>(y, row). map (\<lambda>(x, v). (x, y, v)) (zip [0..<length row] row)) (zip [0..<length rows] rows))"

definition write_at :: "fb_float \<Rightarrow> usize \<times> usize \<times> u8 \<Rightarrow> Display \<Rightarrow> Display res" where
  "write_at fl p d =
     (case p of (x, y, v) \<Rightarrow>
      res_bind (usize_add (fb_x_pos d) x) (\<lambda>px.
      res_bind (usize_add (fb_y_pos d) y) (\<lambda>py.
        Display_write_pixel fl px py (v, v, v) 255 d)))"

definition Display_write_char :: "fb_float \<Rightarrow> fb_font \<Rightarrow> nat \<Rightarrow> Display \<Rightarrow> Display res" where
  "Display_write_char fl font c d =
     (if c = 0x0A then Display_newline d
      else if c = 0x0D then Inr (Display_carriage_return d)
      else if c = 0x08 then
        (if fb_x_pos d > BORDER_PADDING
         then res_bind (usize_sub (fb_x_pos d) (fb_last_char_width d)) (\<lambda>x.
              let d = d\<lparr>fb_x_pos := x\<rparr> in
              res_fold (write_at fl) (map (\<lambda>(x, y). (x, y, 0)) (coords (fb_last_char_width d) LINE_HEIGHT)) d)
         else Inr d)
      else
        res_bind (get_char_raster font c) (\<lambda>ch.
        let width = gl_width ch in
        res_bind (usize_add (fb_x_pos d) width) (\<lambda>new_xpos.
        res_bind (if fb_width d \<le> new_xpos then Display_newline d else Inr d) (\<lambda>d.
        res_bind (res_fold (write_at fl) (raster_pixels (gl_raster ch)) d) (\<lambda>d.
        res_bind (usize_add (fb_x_pos d) width) (\<lambda>x.
          Inr (d\<lparr>fb_last_char_width := width, fb_x_pos := x\<rparr>)))))))"

definition Display_write_str :: "fb_float \<Rightarrow> fb_font \<Rightarrow> nat list \<Rightarrow> Display \<Rightarrow> Display res" where
  "Display_write_str fl font s d = res_fold (Display_write_char fl font) s d"

definition Display_draw_iter ::
    "fb_float \<Rightarrow> (usize \<times> usize \<times> u8 \<times> u8 \<times> u8) list \<Rightarrow> Display \<Rightarrow> Display res" where
  "Display_draw_iter fl pixels d =
     res_fold (\<lambda>(x, y, rgb). Display_write_pixel fl x y rgb 255) pixels d"

section \<open>Well-formed displays\<close>

text \<open>
  The buffer has \<open>stride * height\<close> pixels, each row at least as long as the visible width; the cache,
  once it exists, mirrors the buffer; sizes are far from overflow.
\<close>

definition display_ok :: "Display \<Rightarrow> bool" where
  "display_ok d \<longleftrightarrow>
     length (fb_buffer d) = fb_stride d * fb_height d * fb_bytes_per_pixel d
   \<and> (fb_cache d = None \<or> fb_cache d = Some (fb_buffer d))
   \<and> 0 < fb_bytes_per_pixel d \<and> fb_bytes_per_pixel d \<le> 4 \<and> fb_pixel_format d \<noteq> FmtUnknown
   \<and> 0 < fb_stride d \<and> fb_width d \<le> fb_stride d \<and> length (fb_buffer d) < 2 ^ 48
   \<and> fb_stride d < 2 ^ 48 \<and> fb_height d < 2 ^ 48"

text \<open>Two displays of the same geometry with the cursor in the same place.\<close>

definition same_frame :: "Display \<Rightarrow> Display \<Rightarrow> bool" where
  "same_frame d d' \<longleftrightarrow> (\<exists>buf cache. d' = d\<lparr>fb_buffer := buf, fb_cache := cache\<rparr>)"

lemma same_frame_refl: "same_frame d d"
  unfolding same_frame_def by (rule exI[of _ "fb_buffer d"], rule exI[of _ "fb_cache d"]) simp

lemma same_frame_trans: "same_frame a b \<Longrightarrow> same_frame b c \<Longrightarrow> same_frame a c"
  unfolding same_frame_def by (elim exE, intro exI) simp

lemma same_frameD:
  assumes "same_frame d d'"
  shows "fb_x_pos d' = fb_x_pos d" "fb_y_pos d' = fb_y_pos d" "fb_width d' = fb_width d" "fb_height d' = fb_height d"
    "fb_stride d' = fb_stride d" "fb_bytes_per_pixel d' = fb_bytes_per_pixel d"
    "fb_last_char_width d' = fb_last_char_width d" "fb_pixel_format d' = fb_pixel_format d"
  using assms by (auto simp: same_frame_def)

definition byte_offset :: "Display \<Rightarrow> usize \<Rightarrow> usize \<Rightarrow> usize" where
  "byte_offset d x y = (y * fb_stride d + x) * fb_bytes_per_pixel d"

definition pixel :: "Display \<Rightarrow> usize \<Rightarrow> usize \<Rightarrow> u8 list" where
  "pixel d x y = take (fb_bytes_per_pixel d) (drop (byte_offset d x y) (fb_buffer d))"

lemma pixel_index_less:
  assumes "x < stride" "y < (height :: nat)"
  shows "y * stride + x + 1 \<le> stride * height"
proof -
  have "y * stride + x + 1 \<le> y * stride + stride" using assms(1) by simp
  also have "\<dots> = (y + 1) * stride" by simp
  also have "\<dots> \<le> height * stride" using assms(2) by (intro mult_le_mono1) simp
  finally show ?thesis by (simp add: mult.commute)
qed

lemma byte_offset_fits:
  assumes "display_ok d" "x < fb_stride d" "y < fb_height d"
  shows "byte_offset d x y + fb_bytes_per_pixel d \<le> length (fb_buffer d)"
proof -
  have "(y * fb_stride d + x + 1) * fb_bytes_per_pixel d \<le> fb_stride d * fb_height d * fb_bytes_per_pixel d"
    using pixel_index_less[OF assms(2,3)] by (rule mult_le_mono1)
  then show ?thesis using assms(1) by (simp add: display_ok_def byte_offset_def algebra_simps)
qed

lemma write_pixel_exact:
  assumes ok: "display_ok d" and x: "x < fb_stride d" and y: "y < fb_height d"
    and col: "pixel_color fl (fb_pixel_format d) rgb = Inr color"
  shows "\<exists>buf. Display_write_pixel fl x y rgb 255 d = Inr (d\<lparr>fb_buffer := buf, fb_cache := map_option (\<lambda>_. buf) (fb_cache d)\<rparr>)
    \<and> buf = take (byte_offset d x y) (fb_buffer d) @ take (fb_bytes_per_pixel d) color
         @ drop (byte_offset d x y + fb_bytes_per_pixel d) (fb_buffer d)
    \<and> length buf = length (fb_buffer d)"
proof -
  let ?n = "fb_bytes_per_pixel d" and ?o = "byte_offset d x y"
  have fits: "?o + ?n \<le> length (fb_buffer d)" by (rule byte_offset_fits[OF ok x y])
  have n: "0 < ?n" "?n \<le> 4" and lt: "length (fb_buffer d) < 2 ^ 48" using ok by (auto simp: display_ok_def)
  have len: "length color = 4" using col by (auto simp: pixel_color_def split: prod.splits PixelFormat.splits)
  have "y * fb_stride d + x \<le> ?o" using n(1) by (simp add: byte_offset_def)
  then have "y * fb_stride d + x < 2 ^ 64" "?o < 2 ^ 64" using fits lt by simp_all
  then have m: "usize_mul y (fb_stride d) = Inr (y * fb_stride d)" "usize_add (y * fb_stride d) x = Inr (y * fb_stride d + x)"
    "usize_mul (y * fb_stride d + x) ?n = Inr ?o" by (simp_all add: byte_offset_def)
  have sl: "slice_read color 0 ?n = Inr (take ?n color)" using len n(2) by (simp add: slice_read_def)
  have wr: "slice_write (fb_buffer d) ?o (take ?n color)
      = Inr (take ?o (fb_buffer d) @ take ?n color @ drop (?o + ?n) (fb_buffer d))"
    using len n(2) fits by (simp add: slice_write_def min_def)
  have c: "fb_cache d = None \<or> fb_cache d = Some (fb_buffer d)" using ok by (simp add: display_ok_def)
  show ?thesis using c m sl wr col fits len n(2)
    by (auto simp: Display_write_pixel_def min_def)
qed

lemma write_pixel_ok:
  assumes "display_ok d" "x < fb_stride d" "y < fb_height d"
  shows "\<exists>d'. Display_write_pixel fl x y rgb 255 d = Inr d' \<and> display_ok d' \<and> same_frame d d'"
proof -
  obtain color where "pixel_color fl (fb_pixel_format d) rgb = Inr color"
    using assms(1) by (cases rgb; cases "fb_pixel_format d") (auto simp: pixel_color_def display_ok_def)
  from write_pixel_exact[OF assms this] obtain buf where
    "Display_write_pixel fl x y rgb 255 d = Inr (d\<lparr>fb_buffer := buf, fb_cache := map_option (\<lambda>_. buf) (fb_cache d)\<rparr>)"
    "length buf = length (fb_buffer d)" by blast
  then show ?thesis using assms(1) by (auto simp: display_ok_def same_frame_def)
qed

section \<open>Scrolling\<close>

lemma scroll_arith:
  assumes "display_ok d" "LINE_HEIGHT \<le> fb_height d"
  defines "n \<equiv> fb_stride d * LINE_HEIGHT * fb_bytes_per_pixel d"
    and "keep \<equiv> fb_stride d * (fb_height d - LINE_HEIGHT) * fb_bytes_per_pixel d"
  shows "keep + n = length (fb_buffer d)" "0 < n" "n < 2 ^ 64" "keep + 1 < 2 ^ 64"
    "fb_stride d * LINE_HEIGHT < 2 ^ 64" "fb_stride d * (fb_height d - LINE_HEIGHT) < 2 ^ 64"
proof -
  have bpp: "0 < fb_bytes_per_pixel d" and st: "0 < fb_stride d" and lt: "length (fb_buffer d) < 2 ^ 48"
    and len: "length (fb_buffer d) = fb_stride d * fb_height d * fb_bytes_per_pixel d"
    using assms(1) by (auto simp: display_ok_def)
  have "keep + n = fb_stride d * (fb_height d - LINE_HEIGHT + LINE_HEIGHT) * fb_bytes_per_pixel d"
    unfolding keep_def n_def by (simp only: add_mult_distrib add_mult_distrib2)
  then show sum: "keep + n = length (fb_buffer d)" using len assms(2) by simp
  show "0 < n" using bpp st by (simp add: n_def fb_consts)
  have "n < 2 ^ 48" "keep < 2 ^ 48" using sum lt by linarith+
  then show "n < 2 ^ 64" "keep + 1 < 2 ^ 64" by simp_all
  have "fb_stride d * LINE_HEIGHT \<le> n" "fb_stride d * (fb_height d - LINE_HEIGHT) \<le> keep"
    using bpp by (simp_all add: n_def keep_def)
  then show "fb_stride d * LINE_HEIGHT < 2 ^ 64" "fb_stride d * (fb_height d - LINE_HEIGHT) < 2 ^ 64"
    using \<open>n < 2 ^ 48\<close> \<open>keep < 2 ^ 48\<close> by simp_all
qed

definition scrolled :: "Display \<Rightarrow> u8 list" where
  "scrolled d =
     (let n = fb_stride d * LINE_HEIGHT * fb_bytes_per_pixel d; buf = fb_buffer d; keep = length buf - n
      in drop n buf @ [buf ! keep] @ replicate (n - 1) 0)"

lemma Display_scroll_exact:
  assumes ok: "display_ok d" and h: "LINE_HEIGHT \<le> fb_height d"
  shows "Display_scroll d = Inr (d\<lparr>fb_buffer := scrolled d, fb_cache := map_option (\<lambda>_. scrolled d) (fb_cache d)\<rparr>)
    \<and> length (scrolled d) = length (fb_buffer d)"
proof -
  define n where "n = fb_stride d * LINE_HEIGHT * fb_bytes_per_pixel d"
  define keep where "keep = fb_stride d * (fb_height d - LINE_HEIGHT) * fb_bytes_per_pixel d"
  note ar = scroll_arith[OF ok h, folded n_def keep_def]
  let ?buf = "fb_buffer d"
  have kl: "keep < length ?buf" "length ?buf - n = keep" "n \<le> length ?buf" using ar(1,2) by linarith+
  have "copy_within_start ?buf n = Inr (drop n ?buf @ drop keep ?buf)"
    using kl by (simp add: copy_within_start_def)
  moreover have "fill_from (drop n ?buf @ drop keep ?buf) (keep + 1) = Inr (scrolled d)"
  proof -
    have hd: "drop keep ?buf = ?buf ! keep # drop (Suc keep) ?buf" using kl(1) by (simp add: Cons_nth_drop_Suc)
    have "length (drop n ?buf) = keep" using kl by simp
    then have "take (keep + 1) (drop n ?buf @ drop keep ?buf) = drop n ?buf @ [?buf ! keep]"
      by (simp add: hd)
    moreover have "length (drop n ?buf @ drop keep ?buf) - (keep + 1) = n - 1" using kl by simp
    ultimately show ?thesis using kl by (simp add: fill_from_def scrolled_def Let_def n_def[symmetric])
  qed
  moreover have "length (scrolled d) = length ?buf"
    using kl ar(2) by (simp add: scrolled_def Let_def n_def[symmetric])
  moreover have "fb_cache d = None \<or> fb_cache d = Some ?buf" using ok by (simp add: display_ok_def)
  ultimately show ?thesis using ar(3-6) h
    by (auto simp: Display_scroll_def n_def keep_def)
qed

text \<open>
  Scrolling by a text line: it never panics on a well-formed display; every byte but those of
  the last text line is the byte one text line further down, and the last text line is cleared,
  except for its very first byte, which keeps its old value, because the code clears from
  \<open>bytes + 1\<close> on. The cache stays equal to the buffer.
\<close>

theorem fb_scroll_exact:
  assumes "display_ok d" and "LINE_HEIGHT \<le> fb_height d"
  shows "\<exists>d'. Display_scroll d = Inr d' \<and> display_ok d' \<and> same_frame d d'
    \<and> (\<forall>i<length (fb_buffer d). let n = fb_stride d * LINE_HEIGHT * fb_bytes_per_pixel d; keep = length (fb_buffer d) - n in
         fb_buffer d' ! i = (if i < keep then fb_buffer d ! (i + n) else if i = keep then fb_buffer d ! keep else 0))"
proof -
  define n where "n = fb_stride d * LINE_HEIGHT * fb_bytes_per_pixel d"
  note ex = Display_scroll_exact[OF assms]
  have kl: "n \<le> length (fb_buffer d)" "0 < n" using scroll_arith(1,2)[OF assms, folded n_def] by linarith+
  have "scrolled d ! i = (if i < length (fb_buffer d) - n then fb_buffer d ! (i + n)
      else if i = length (fb_buffer d) - n then fb_buffer d ! (length (fb_buffer d) - n) else 0)"
    if "i < length (fb_buffer d)" for i
    using that kl by (auto simp: scrolled_def Let_def n_def[symmetric] nth_append add.commute)
  then show ?thesis using ex assms(1)
    by (auto simp: display_ok_def same_frame_def n_def Let_def)
qed

section \<open>The text cursor\<close>

text \<open>
  The font: every glyph it has is \<open>w\<close> pixels wide and at most 16 rows high, and it has the glyph
  that stands for missing ones.
\<close>

definition mono_font :: "fb_font \<Rightarrow> usize \<Rightarrow> bool" where
  "mono_font font w \<longleftrightarrow> 0 < w \<and> font BACKUP_CHAR \<noteq> None
     \<and> (\<forall>c g. font c = Some g \<longrightarrow> gl_width g = w \<and> length (gl_raster g) \<le> CHAR_RASTER_HEIGHT
          \<and> (\<forall>row\<in>set (gl_raster g). length row \<le> w))"

text \<open>
  The cursor stands at a multiple of the glyph width from the border, inside the visible width,
  with room for the current text line; to the right of the border the last glyph's width is known.
\<close>

definition text_inv :: "usize \<Rightarrow> Display \<Rightarrow> bool" where
  "text_inv w d \<longleftrightarrow> display_ok d
     \<and> (\<exists>k. fb_x_pos d = BORDER_PADDING + k * w \<and> (0 < k \<longrightarrow> fb_last_char_width d = w))
     \<and> fb_x_pos d < fb_width d \<and> BORDER_PADDING + w < fb_width d
     \<and> fb_y_pos d + LINE_HEIGHT < fb_height d"

lemma get_char_raster_mono:
  assumes "mono_font font w"
  shows "\<exists>g. get_char_raster font c = Inr g \<and> gl_width g = w \<and> length (gl_raster g) \<le> CHAR_RASTER_HEIGHT
    \<and> (\<forall>row\<in>set (gl_raster g). length row \<le> w)"
proof (cases "font c")
  case None
  moreover obtain g where "font BACKUP_CHAR = Some g" using assms by (auto simp: mono_font_def)
  ultimately show ?thesis using assms by (auto simp: get_char_raster_def mono_font_def)
next
  case (Some g)
  then show ?thesis using assms by (auto simp: get_char_raster_def mono_font_def)
qed

lemma write_at_fold:
  assumes "display_ok d" and "\<And>x y v. (x, y, v) \<in> set ps \<Longrightarrow> fb_x_pos d + x < fb_stride d \<and> fb_y_pos d + y < fb_height d"
  shows "\<exists>d'. res_fold (write_at fl) ps d = Inr d' \<and> display_ok d' \<and> same_frame d d'"
proof -
  have "\<exists>d'. res_fold (write_at fl) ps d = Inr d' \<and> (display_ok d' \<and> same_frame d d')"
  proof (rule res_fold_total)
    show "display_ok d \<and> same_frame d d" using assms(1) same_frame_refl by simp
  next
    fix p s
    assume p: "p \<in> set ps" and s: "display_ok s \<and> same_frame d s"
    obtain x y v where q: "p = (x, y, v)" by (cases p)
    note fr = same_frameD[OF conjunct2[OF s]]
    have b: "fb_x_pos s + x < fb_stride s" "fb_y_pos s + y < fb_height s" using assms(2)[of x y v] p q fr by auto
    moreover have "fb_stride s < 2 ^ 48" "fb_height s < 2 ^ 48" using s by (auto simp: display_ok_def)
    ultimately have w: "write_at fl p s = Display_write_pixel fl (fb_x_pos s + x) (fb_y_pos s + y) (v, v, v) 255 s"
      by (simp add: write_at_def q)
    show "\<exists>t. write_at fl p s = Inr t \<and> display_ok t \<and> same_frame d t"
      unfolding w using write_pixel_ok[OF _ b, of fl "(v, v, v)"] s same_frame_trans by blast
  qed
  then show ?thesis by blast
qed

lemma raster_pixels_bounds:
  assumes "(x, y, v) \<in> set (raster_pixels rows)" "\<forall>row\<in>set rows. length row \<le> w"
  shows "x < w \<and> y < length rows"
  using assms by (auto simp: raster_pixels_def set_zip) (meson less_le_trans nth_mem)+

lemma coords_bounds: "(x, y) \<in> set (coords w h) \<Longrightarrow> x < w \<and> y < h"
  by (auto simp: coords_def)

lemma newline_inv:
  assumes "text_inv w d"
  shows "\<exists>d'. Display_newline d = Inr d' \<and> text_inv w d' \<and> fb_x_pos d' = BORDER_PADDING
    \<and> fb_width d' = fb_width d"
proof -
  have inv: "display_ok d" "fb_y_pos d + LINE_HEIGHT < fb_height d" "BORDER_PADDING + w < fb_width d"
    using assms by (auto simp: text_inv_def)
  have lt: "fb_height d < 2 ^ 48" using inv(1) by (simp add: display_ok_def)
  let ?d1 = "Display_carriage_return (d\<lparr>fb_y_pos := fb_y_pos d + LINE_HEIGHT\<rparr>)"
  have y: "usize_add (fb_y_pos d) LINE_HEIGHT = Inr (fb_y_pos d + LINE_HEIGHT)"
    "usize_add (fb_y_pos d + LINE_HEIGHT) LINE_HEIGHT = Inr (fb_y_pos d + LINE_HEIGHT + LINE_HEIGHT)"
    using inv(2) lt by (auto simp: fb_consts)
  have ok1: "display_ok ?d1" using inv(1) by (simp add: display_ok_def Display_carriage_return_def)
  show ?thesis
  proof (cases "fb_height d \<le> fb_y_pos d + LINE_HEIGHT + LINE_HEIGHT")
    case True
    have h: "LINE_HEIGHT \<le> fb_height ?d1" using inv(2) by (simp add: Display_carriage_return_def)
    note sc = Display_scroll_exact[OF ok1 h]
    have fl: "fb_y_pos ?d1 = fb_y_pos d + LINE_HEIGHT" "fb_x_pos ?d1 = BORDER_PADDING" "fb_height ?d1 = fb_height d"
      "fb_width ?d1 = fb_width d"
      by (simp_all add: Display_carriage_return_def)
    let ?d2 = "?d1\<lparr>fb_buffer := scrolled ?d1, fb_cache := map_option (\<lambda>_. scrolled ?d1) (fb_cache ?d1), fb_y_pos := fb_y_pos d\<rparr>"
    have "Display_newline d = Inr ?d2"
      using y True sc fl by (simp add: Display_newline_def Let_def)
    moreover have "display_ok ?d2" using ok1 sc by (auto simp: display_ok_def)
    ultimately show ?thesis using inv fl by (auto simp: text_inv_def intro!: exI[of _ 0])
  next
    case False
    then have "Display_newline d = Inr ?d1"
      using y by (simp add: Display_newline_def Display_carriage_return_def)
    then show ?thesis using ok1 inv False by (auto simp: text_inv_def Display_carriage_return_def intro!: exI[of _ 0])
  qed
qed

lemma write_glyph_inv:
  assumes inv: "text_inv w d" and fit: "fb_x_pos d + w < fb_width d"
    and g: "length (gl_raster g) \<le> CHAR_RASTER_HEIGHT" "\<forall>row\<in>set (gl_raster g). length row \<le> w"
  shows "\<exists>d'. res_bind (res_fold (write_at fl) (raster_pixels (gl_raster g)) d) (\<lambda>d.
        res_bind (usize_add (fb_x_pos d) w) (\<lambda>x. Inr (d\<lparr>fb_last_char_width := w, fb_x_pos := x\<rparr>))) = Inr d'
    \<and> text_inv w d'"
proof -
  have ok: "display_ok d" and y: "fb_y_pos d + LINE_HEIGHT < fb_height d" using inv by (auto simp: text_inv_def)
  have wd: "fb_width d \<le> fb_stride d" "fb_stride d < 2 ^ 48" using ok by (auto simp: display_ok_def)
  have bounds: "fb_x_pos d + x < fb_stride d \<and> fb_y_pos d + y < fb_height d"
    if p: "(x, y, v) \<in> set (raster_pixels (gl_raster g))" for x y v
    using raster_pixels_bounds[OF p g(2)] g(1) fit wd(1) y by (auto simp: fb_consts)
  obtain d1 where d1: "res_fold (write_at fl) (raster_pixels (gl_raster g)) d = Inr d1" "display_ok d1" "same_frame d d1"
    using write_at_fold[OF ok, of "raster_pixels (gl_raster g)" fl] bounds by blast
  note fr = same_frameD[OF d1(3)]
  have lt: "fb_x_pos d + w < 2 ^ 64" using fit wd by simp
  obtain k where k: "fb_x_pos d = BORDER_PADDING + k * w" using inv by (auto simp: text_inv_def)
  then have "fb_x_pos d + w = BORDER_PADDING + (k + 1) * w" by simp
  then show ?thesis using d1 fr lt fit inv
    by (auto simp: text_inv_def display_ok_def intro!: exI[of _ "k + 1"])
qed

text \<open>A backspace blanks the glyph before the cursor and moves onto it; at the border it does nothing.\<close>

lemma backspace_inv:
  assumes w0: "0 < w" and inv: "text_inv w d"
  shows "\<exists>d'. Display_write_char fl font 8 d = Inr d' \<and> text_inv w d'
    \<and> fb_x_pos d' = (if fb_x_pos d > BORDER_PADDING then fb_x_pos d - w else BORDER_PADDING)"
proof -
  have ok: "display_ok d" and y: "fb_y_pos d + LINE_HEIGHT < fb_height d" and xw: "fb_x_pos d < fb_width d"
    using inv by (auto simp: text_inv_def)
  have wd: "fb_width d \<le> fb_stride d" using ok by (auto simp: display_ok_def)
  obtain k where k: "fb_x_pos d = BORDER_PADDING + k * w" "0 < k \<longrightarrow> fb_last_char_width d = w"
    using inv by (auto simp: text_inv_def)
  show ?thesis
  proof (cases k)
    case 0
    then show ?thesis using k inv by (auto simp: Display_write_char_def)
  next
    case (Suc j)
    then have lw: "fb_last_char_width d = w" and x: "fb_x_pos d = BORDER_PADDING + j * w + w" using k by auto
    let ?d1 = "d\<lparr>fb_x_pos := BORDER_PADDING + j * w\<rparr>"
    have ok1: "display_ok ?d1" using ok by (simp add: display_ok_def)
    have bounds: "fb_x_pos ?d1 + a < fb_stride ?d1 \<and> fb_y_pos ?d1 + b < fb_height ?d1"
      if "(a, b, v) \<in> set (map (\<lambda>(x, y). (x, y, 0)) (coords w LINE_HEIGHT))" for a b v
      using that coords_bounds[of a b w LINE_HEIGHT] x xw wd y by auto
    obtain d2 where d2: "res_fold (write_at fl) (map (\<lambda>(x, y). (x, y, 0)) (coords w LINE_HEIGHT)) ?d1 = Inr d2"
      "display_ok d2" "same_frame ?d1 d2"
      using write_at_fold[OF ok1, of "map (\<lambda>(x, y). (x, y, 0)) (coords w LINE_HEIGHT)" fl] bounds by blast
    have "Display_write_char fl font 8 d = Inr d2"
      using x lw w0 d2(1) by (simp add: Display_write_char_def)
    then show ?thesis using d2(2) same_frameD[OF d2(3)] inv x xw lw w0
      by (auto simp: text_inv_def intro!: exI[of _ j])
  qed
qed

lemma write_char_inv:
  assumes font: "mono_font font w" and inv: "text_inv w d"
  shows "\<exists>d'. Display_write_char fl font c d = Inr d' \<and> text_inv w d'"
proof -
  have ok: "display_ok d" and y: "fb_y_pos d + LINE_HEIGHT < fb_height d" and xw: "fb_x_pos d < fb_width d"
    and w1: "BORDER_PADDING + w < fb_width d"
    using inv by (auto simp: text_inv_def)
  have wd: "fb_width d \<le> fb_stride d" "fb_stride d < 2 ^ 48" using ok by (auto simp: display_ok_def)
  have w0: "0 < w" using font by (simp add: mono_font_def)
  consider "c = 0x0A" | "c = 0x0D" | "c = 0x08" | "c \<noteq> 0x0A" "c \<noteq> 0x0D" "c \<noteq> 0x08" by blast
  then show ?thesis
  proof cases
    case 1
    then show ?thesis using newline_inv[OF inv] by (auto simp: Display_write_char_def)
  next
    case 2
    then show ?thesis using inv w1
      by (auto simp: Display_write_char_def Display_carriage_return_def text_inv_def display_ok_def intro!: exI[of _ 0])
  next
    case 3
    then show ?thesis using backspace_inv[OF w0 inv] by blast
  next
    case 4
    obtain g where g: "get_char_raster font c = Inr g" "gl_width g = w" "length (gl_raster g) \<le> CHAR_RASTER_HEIGHT"
      "\<forall>row\<in>set (gl_raster g). length row \<le> w" using get_char_raster_mono[OF font] by blast
    have "fb_x_pos d + w < 2 ^ 64" using xw w1 wd by simp
    then have new: "usize_add (fb_x_pos d) w = Inr (fb_x_pos d + w)" by simp
    show ?thesis
    proof (cases "fb_width d \<le> fb_x_pos d + w")
      case True
      obtain d1 where d1: "Display_newline d = Inr d1" "text_inv w d1" "fb_x_pos d1 = BORDER_PADDING" "fb_width d1 = fb_width d"
        using newline_inv[OF inv] by blast
      have "fb_x_pos d1 + w < fb_width d1" using d1 w1 by simp
      from write_glyph_inv[OF d1(2) this g(3,4), of fl] show ?thesis
        using 4 g(1,2) new True d1(1) by (simp add: Display_write_char_def Let_def)
    next
      case False
      then have "fb_x_pos d + w < fb_width d" by simp
      from write_glyph_inv[OF inv this g(3,4), of fl] show ?thesis
        using 4 g(1,2) new False by (simp add: Display_write_char_def Let_def)
    qed
  qed
qed

text \<open>
  C16. Printing any text on a display with a monospaced font never panics: not by an index out of
  bounds, not by the backspace running left of the border, not by an overflow. The cursor stays
  on the screen, on the grid of glyphs, and the cache stays equal to the buffer.
\<close>

theorem fb_write_str_safe:
  assumes "mono_font font w" and "text_inv w d"
  shows "\<exists>d'. Display_write_str fl font txt d = Inr d' \<and> text_inv w d'"
  unfolding Display_write_str_def
  by (rule res_fold_total[where P = "text_inv w", OF assms(2)]) (rule write_char_inv[OF assms(1)])

subsection \<open>A small display\<close>

definition tiny_display :: Display where
  "tiny_display = \<lparr>fb_buffer = replicate 80 7, fb_cache = None, fb_width = 4, fb_height = 20, fb_stride = 4,
     fb_bytes_per_pixel = 1, fb_pixel_format = FmtU8, fb_x_pos = 1, fb_y_pos = 1, fb_last_char_width = 0\<rparr>"

definition dot_font :: fb_font where
  "dot_font c = Some \<lparr>gl_width = 1, gl_raster = [[255]]\<rparr>"

definition plain_float :: fb_float where
  "plain_float = \<lparr>fl_blend = (\<lambda>a old new. new), fl_bright = (\<lambda>r g b. r > 200)\<rparr>"

lemma tiny_ok: "display_ok tiny_display"
  by (simp add: display_ok_def tiny_display_def)

theorem fb_scroll_exact_witness:
  "\<exists>d'. Display_scroll tiny_display = Inr d' \<and> display_ok d' \<and> fb_buffer d' ! 8 = 7 \<and> fb_buffer d' ! 9 = 0"
proof -
  have h: "LINE_HEIGHT \<le> fb_height tiny_display" by (simp add: tiny_display_def fb_consts)
  obtain d' where d': "Display_scroll tiny_display = Inr d'" "display_ok d'"
    and all: "\<forall>i<length (fb_buffer tiny_display). let n = fb_stride tiny_display * LINE_HEIGHT * fb_bytes_per_pixel tiny_display;
         keep = length (fb_buffer tiny_display) - n in
         fb_buffer d' ! i = (if i < keep then fb_buffer tiny_display ! (i + n) else if i = keep then fb_buffer tiny_display ! keep else 0)"
    using fb_scroll_exact[OF tiny_ok h] by blast
  from all[rule_format, of 8] all[rule_format, of 9]
  have "fb_buffer d' ! 8 = 7" "fb_buffer d' ! 9 = 0" by (simp_all add: tiny_display_def fb_consts)
  with d' show ?thesis by blast
qed

theorem fb_write_str_safe_witness:
  "\<exists>d'. Display_write_str plain_float dot_font [65, 8, 8, 10, 66, 67, 68, 13] tiny_display = Inr d' \<and> text_inv 1 d'"
proof (rule fb_write_str_safe)
  show "mono_font dot_font 1" by (simp add: mono_font_def dot_font_def fb_consts)
  show "text_inv 1 tiny_display" using tiny_ok by (simp add: text_inv_def) (simp add: tiny_display_def fb_consts)
qed

end
