(* ===== verification/Logo.thy ===== *)
theory Logo
  imports Framebuffer
begin

text \<open>
  The logo: the run-length encoder of the build script, \<open>kernel/build.rs\<close>, and the decoder
  \<open>Display::write_rgba\<close> and the initialisation of the display in \<open>kernel/src/framebuffer.rs\<close>.
  An image is its width, its height and its pixels in rows.
\<close>

type_synonym rgba = "u8 \<times> u8 \<times> u8 \<times> u8"

section \<open>The encoder\<close>

definition u16_le :: "nat \<Rightarrow> u8 list" where
  "u16_le n = [of_nat n, of_nat (n div 256)]"

definition u32_le :: "nat \<Rightarrow> u8 list" where
  "u32_le n = [of_nat n, of_nat (n div 256), of_nat (n div 65536), of_nat (n div 16777216)]"

definition run_bytes :: "nat \<Rightarrow> rgba \<Rightarrow> u8 list" where
  "run_bytes count p = (case p of (r, g, b, a) \<Rightarrow> u16_le count @ [r, g, b, a])"

fun encode_loop :: "rgba list \<Rightarrow> rgba \<Rightarrow> nat \<Rightarrow> u8 list \<Rightarrow> u8 list res" where
  "encode_loop [] prev count buf = Inr buf"
| "encode_loop (p # ps) prev count buf =
     (if p = prev
      then if count + 1 < 65536 then encode_loop ps prev (count + 1) buf else Inl ArithOverflow
      else encode_loop ps p 1 (if count > 0 then buf @ run_bytes count prev else buf))"

definition encode_image :: "nat \<Rightarrow> nat \<Rightarrow> rgba list \<Rightarrow> u8 list res" where
  "encode_image width height pixels =
     encode_loop pixels (0, 0, 0, 0) 0 (u32_le width @ u32_le height)"

section \<open>The decoder\<close>

definition le_u16 :: "u8 \<Rightarrow> u8 \<Rightarrow> nat" where
  "le_u16 b0 b1 = unat b0 + 256 * unat b1"

definition le_u32 :: "u8 \<Rightarrow> u8 \<Rightarrow> u8 \<Rightarrow> u8 \<Rightarrow> nat" where
  "le_u32 b0 b1 b2 b3 = unat b0 + 256 * unat b1 + 65536 * unat b2 + 16777216 * unat b3"

text \<open>The body of the inner loop: draw, move on, and say whether the outer loop is left.\<close>

definition rgba_step :: "fb_float \<Rightarrow> nat \<Rightarrow> nat \<Rightarrow> rgba \<Rightarrow> Display \<Rightarrow> (bool \<times> Display) res" where
  "rgba_step fl width height p d =
     (case p of (r, g, b, a) \<Rightarrow>
      res_bind (Display_write_pixel fl (fb_x_pos d) (fb_y_pos d) (r, g, b) a d) (\<lambda>d.
      res_bind (usize_add (fb_x_pos d) 1) (\<lambda>x.
      res_bind (usize_sub x BORDER_PADDING) (\<lambda>col.
      res_bind (if width \<le> col
                then res_bind (usize_add (fb_y_pos d) 1) (\<lambda>y. Inr (d\<lparr>fb_x_pos := BORDER_PADDING, fb_y_pos := y\<rparr>))
                else Inr (d\<lparr>fb_x_pos := x\<rparr>)) (\<lambda>d.
        Inr (height \<le> fb_y_pos d, d))))))"

fun rgba_run :: "fb_float \<Rightarrow> nat \<Rightarrow> nat \<Rightarrow> rgba \<Rightarrow> nat \<Rightarrow> Display \<Rightarrow> (bool \<times> Display) res" where
  "rgba_run fl width height p 0 d = Inr (False, d)"
| "rgba_run fl width height p (Suc n) d =
     res_bind (rgba_step fl width height p d) (\<lambda>(stop, d).
       if stop then Inr (True, d) else rgba_run fl width height p n d)"

text \<open>Each round takes six bytes from the image; \<open>next().unwrap()\<close> panics when they run out.\<close>

fun rgba_loop :: "fb_float \<Rightarrow> nat \<Rightarrow> nat \<Rightarrow> u8 list \<Rightarrow> Display \<Rightarrow> Display res" where
  "rgba_loop fl width height (c0 # c1 # r # g # b # a # img) d =
     res_bind (rgba_run fl width height (r, g, b, a) (le_u16 c0 c1) d) (\<lambda>(stop, d).
       if stop then Inr d else rgba_loop fl width height img d)"
| "rgba_loop fl width height _ d = Inl UnwrapFailed"

fun Display_write_rgba :: "fb_float \<Rightarrow> u8 list \<Rightarrow> Display \<Rightarrow> Display res" where
  "Display_write_rgba fl (w0 # w1 # w2 # w3 # h0 # h1 # h2 # h3 # img) d =
     res_bind (rgba_loop fl (le_u32 w0 w1 w2 w3) (le_u32 h0 h1 h2 h3) img d) (\<lambda>d.
     res_bind (usize_add (fb_y_pos d) LINE_SPACING) (\<lambda>y.
       Inr (d\<lparr>fb_x_pos := BORDER_PADDING, fb_y_pos := y\<rparr>)))"
| "Display_write_rgba fl _ d = Inl UnwrapFailed"

section \<open>Initialisation\<close>

text \<open>What the boot loader reports about the framebuffer.\<close>

record framebuffer_info =
  fi_memory :: "u8 list"
  fi_width :: usize
  fi_height :: usize
  fi_bpp :: nat
  fi_pitch :: usize
  fi_red_shift :: nat
  fi_green_shift :: nat
  fi_blue_shift :: nat

definition early_init :: "fb_float \<Rightarrow> u8 list \<Rightarrow> framebuffer_info list \<Rightarrow> Display \<Rightarrow> Display res" where
  "early_init fl logo_text infos display =
     (case infos of
        [] \<Rightarrow> Inr display
      | info # _ \<Rightarrow>
          (let display = display\<lparr>fb_buffer := fi_memory info, fb_width := fi_width info, fb_height := fi_height info,
                 fb_bytes_per_pixel := fi_bpp info div 8, fb_stride := fi_pitch info div 4,
                 fb_pixel_format :=
                   (if fi_red_shift info = 0 \<and> fi_green_shift info = 8 \<and> fi_blue_shift info = 16 then FmtRgb
                    else if fi_red_shift info = 16 \<and> fi_green_shift info = 8 \<and> fi_blue_shift info = 0 then FmtBgr
                    else if fi_red_shift info = 0 \<and> fi_green_shift info = 0 \<and> fi_blue_shift info = 0 then FmtU8
                    else FmtUnknown)\<rparr>
           in Display_write_rgba fl logo_text (Display_clear display)))"

definition late_init :: "Display \<Rightarrow> Display" where
  "late_init display = display\<lparr>fb_cache := Some (fb_buffer display)\<rparr>"

definition logo :: "fb_float \<Rightarrow> u8 list \<Rightarrow> Display \<Rightarrow> Display res" where
  "logo fl logo_text display = Display_write_rgba fl logo_text (Display_clear display)"

section \<open>Runs\<close>

definition expand :: "(nat \<times> rgba) list \<Rightarrow> rgba list" where
  "expand runs = concat (map (\<lambda>(c, p). replicate c p) runs)"

definition runs_bytes :: "(nat \<times> rgba) list \<Rightarrow> u8 list" where
  "runs_bytes runs = concat (map (\<lambda>(c, p). run_bytes c p) runs)"

text \<open>The encoder writes every run but the last one.\<close>

lemma encode_loop_runs:
  assumes "encode_loop ps prev count buf = Inr out" "count < 65536"
  shows "\<exists>runs k q. out = buf @ runs_bytes runs \<and> (\<forall>(c, p)\<in>set runs. 0 < c \<and> c < 65536)
    \<and> expand runs @ replicate k q = replicate count prev @ ps
    \<and> (runs \<noteq> [] \<longrightarrow> snd (last runs) \<noteq> q) \<and> (0 < count \<or> ps \<noteq> [] \<longrightarrow> 0 < k)"
  using assms
proof (induction ps arbitrary: prev count buf)
  case Nil
  then show ?case by (intro exI[of _ "[]"] exI[of _ count] exI[of _ prev]) (simp add: runs_bytes_def expand_def)
next
  case (Cons p ps)
  show ?case
  proof (cases "p = prev")
    case True
    then have "encode_loop ps prev (count + 1) buf = Inr out" "count + 1 < 65536"
      using Cons.prems by (auto split: if_splits)
    from Cons.IH[OF this] True show ?thesis by (auto simp: replicate_app_Cons_same)
  next
    case False
    let ?r = "if 0 < count then [(count, prev)] else []"
    have one: "(1 :: nat) < 65536" by simp
    have "encode_loop ps p 1 (buf @ runs_bytes ?r) = Inr out"
      using Cons.prems False by (auto simp: runs_bytes_def split: if_splits)
    from Cons.IH[OF this one] obtain runs k q where IH0: "out = (buf @ runs_bytes ?r) @ runs_bytes runs"
      "\<forall>(c, p)\<in>set runs. 0 < c \<and> c < 65536" "expand runs @ replicate k q = replicate 1 p @ ps"
      "runs \<noteq> [] \<longrightarrow> snd (last runs) \<noteq> q" "0 < (1 :: nat) \<or> ps \<noteq> [] \<longrightarrow> 0 < k"
      by blast
    then have IH: "out = (buf @ runs_bytes ?r) @ runs_bytes runs"
      "\<forall>(c, p)\<in>set runs. 0 < c \<and> c < 65536" "expand runs @ replicate k q = p # ps"
      "runs \<noteq> [] \<longrightarrow> snd (last runs) \<noteq> q" "0 < k" by simp_all
    have "q = p" if "runs = []" using IH(3,5) that by (cases k) (auto simp: expand_def)
    then have "?r @ runs \<noteq> [] \<longrightarrow> snd (last (?r @ runs)) \<noteq> q" using IH(4) False by auto
    moreover have "expand (?r @ runs) @ replicate k q = replicate count prev @ p # ps"
      using IH(3) by (simp add: expand_def)
    ultimately show ?thesis using IH(1,2,5) Cons.prems(2)
      by (intro exI[of _ "?r @ runs"] exI[of _ k] exI[of _ q]) (auto simp: runs_bytes_def)
  qed
qed

text \<open>The length of the run at the end of a list of pixels.\<close>

definition trailing :: "'a list \<Rightarrow> nat" where
  "trailing ps = length (takeWhile (\<lambda>p. p = last ps) (rev ps))"

lemma takeWhile_replicate_append: "takeWhile P (replicate k x @ ys) = (if P x then replicate k x @ takeWhile P ys else takeWhile P (replicate k x @ ys))"
  by (induction k) auto

lemma trailing_runs:
  assumes "0 < k" "runs \<noteq> [] \<longrightarrow> snd (last runs) \<noteq> q" "\<forall>(c, p)\<in>set runs. 0 < c"
  shows "trailing (expand runs @ replicate k q) = k"
proof -
  have l: "last (expand runs @ replicate k q) = q" using assms(1) by (simp add: last_append)
  have "takeWhile (\<lambda>p. p = q) (rev (expand runs)) = []"
  proof (cases runs rule: rev_cases)
    case (snoc rs r)
    then obtain c p where "r = (c, p)" "0 < c" "p \<noteq> q" using assms(2,3) by (cases r) auto
    then show ?thesis using snoc by (cases c) (simp_all add: expand_def takeWhile_eq_Nil_iff hd_append)
  qed (simp add: expand_def)
  then show ?thesis unfolding trailing_def l by (simp add: takeWhile_replicate_append)
qed

section \<open>Decoding\<close>

text \<open>Draw a sequence of pixels until the decoder stops, and go on with \<open>k\<close> when it does not.\<close>

fun draw_seq :: "fb_float \<Rightarrow> nat \<Rightarrow> nat \<Rightarrow> rgba list \<Rightarrow> (Display \<Rightarrow> Display res) \<Rightarrow> Display \<Rightarrow> Display res" where
  "draw_seq fl w h [] k d = k d"
| "draw_seq fl w h (p # ps) k d =
     res_bind (rgba_step fl w h p d) (\<lambda>(stop, d). if stop then Inr d else draw_seq fl w h ps k d)"

lemma draw_seq_append: "draw_seq fl w h (ps @ qs) k d = draw_seq fl w h ps (draw_seq fl w h qs k) d"
proof (induction ps arbitrary: d)
  case (Cons p ps)
  then show ?case by (cases "rgba_step fl w h p d") (auto simp: split: prod.splits)
qed simp

lemma rgba_run_seq:
  "res_bind (rgba_run fl w h p n d) (\<lambda>(stop, d). if stop then Inr d else k d) = draw_seq fl w h (replicate n p) k d"
proof (induction n arbitrary: d)
  case (Suc n)
  show ?case
  proof (cases "rgba_step fl w h p d")
    case (Inr r)
    then show ?thesis using Suc by (cases r) auto
  qed simp
qed simp

lemma le_u16_of: "c < 65536 \<Longrightarrow> le_u16 (of_nat c) (of_nat (c div 256)) = c"
  by (simp add: le_u16_def unat_of_nat)

lemma rgba_loop_runs:
  assumes "\<forall>(c, p)\<in>set runs. 0 < c \<and> c < 65536"
  shows "rgba_loop fl w h (runs_bytes runs) d = draw_seq fl w h (expand runs) (\<lambda>_. Inl UnwrapFailed) d"
  using assms
proof (induction runs arbitrary: d)
  case (Cons r runs)
  obtain c cr cg cb ca where r: "r = (c, cr, cg, cb, ca)" by (cases r) auto
  have c: "le_u16 (of_nat c) (of_nat (c div 256)) = c" using Cons.prems r by (intro le_u16_of) auto
  have tl: "rgba_loop fl w h (runs_bytes runs) = draw_seq fl w h (expand runs) (\<lambda>_. Inl UnwrapFailed)"
    using Cons by auto
  have "rgba_loop fl w h (runs_bytes (r # runs)) d =
      res_bind (rgba_run fl w h (cr, cg, cb, ca) c d)
        (\<lambda>(stop, d). if stop then Inr d else rgba_loop fl w h (runs_bytes runs) d)"
  proof -
    have "runs_bytes (r # runs) = [of_nat c, of_nat (c div 256), cr, cg, cb, ca] @ runs_bytes runs"
      by (simp add: runs_bytes_def run_bytes_def u16_le_def r)
    then show ?thesis using c by simp
  qed
  also have "\<dots> = draw_seq fl w h (replicate c (cr, cg, cb, ca)) (rgba_loop fl w h (runs_bytes runs)) d"
    by (rule rgba_run_seq)
  also have "\<dots> = draw_seq fl w h (expand (r # runs)) (\<lambda>_. Inl UnwrapFailed) d"
    by (simp add: expand_def r draw_seq_append tl)
  finally show ?case .
qed (simp add: runs_bytes_def expand_def)

text \<open>Pixel number \<open>i\<close> of an image of width \<open>w\<close> belongs one border right and below of its place.\<close>

definition paint :: "fb_float \<Rightarrow> nat \<Rightarrow> nat \<times> rgba \<Rightarrow> Display \<Rightarrow> Display res" where
  "paint fl w ip d =
     (case ip of (i, r, g, b, a) \<Rightarrow>
        Display_write_pixel fl (BORDER_PADDING + i mod w) (BORDER_PADDING + i div w) (r, g, b) a d)"

definition at_pixel :: "nat \<Rightarrow> nat \<Rightarrow> Display \<Rightarrow> Display" where
  "at_pixel w i d = d\<lparr>fb_x_pos := BORDER_PADDING + i mod w, fb_y_pos := BORDER_PADDING + i div w\<rparr>"

lemma blend_pixel_cursor [simp]:
  "blend_pixel fl (d\<lparr>fb_x_pos := u, fb_y_pos := v\<rparr>) off rgb a = blend_pixel fl d off rgb a"
  unfolding blend_pixel_def by (cases "fb_cache d") simp_all

lemma write_pixel_cursor:
  "Display_write_pixel fl x y rgb a (d\<lparr>fb_x_pos := u, fb_y_pos := v\<rparr>)
     = res_bind (Display_write_pixel fl x y rgb a d) (\<lambda>d. Inr (d\<lparr>fb_x_pos := u, fb_y_pos := v\<rparr>))"
proof (cases "a = 0")
  case False
  let ?d = "d\<lparr>fb_x_pos := u, fb_y_pos := v\<rparr>"
  have f: "fb_stride ?d = fb_stride d" "fb_bytes_per_pixel ?d = fb_bytes_per_pixel d" "fb_buffer ?d = fb_buffer d"
    "fb_cache ?d = fb_cache d" "fb_pixel_format ?d = fb_pixel_format d" by simp_all
  show ?thesis
    unfolding Display_write_pixel_def if_not_P[OF False] blend_pixel_cursor f res_bind_assoc
    by (intro res_bind_cong_fun) (auto simp: res_bind_assoc intro!: res_bind_cong_fun split: option.split)
qed (simp add: Display_write_pixel_def)

lemma rgba_step_paint:
  assumes "0 < w" "w < 2 ^ 32" "i < w * (h - 1)" "h < 2 ^ 32"
  shows "rgba_step fl w h p (at_pixel w i d) =
    res_bind (paint fl w (i, p) d) (\<lambda>d. Inr (w * (h - 1) \<le> Suc i, at_pixel w (Suc i) d))"
proof -
  obtain r g b a where p: "p = (r, g, b, a)" by (cases p)
  have im: "i mod w < w" using assms(1) by simp
  have iy: "i div w < h - 1" using assms(1,3) by (simp add: less_mult_imp_div_less mult.commute)
  have stop: "h \<le> BORDER_PADDING + Suc i div w \<longleftrightarrow> w * (h - 1) \<le> Suc i"
    using assms(1) by (simp add: BORDER_PADDING_def le_diff_conv less_eq_div_iff_mult_less_eq mult.commute Suc_le_eq)
      (metis One_nat_def Suc_le_mono Suc_pred assms(3) less_eq_div_iff_mult_less_eq mult.commute mult_0_right not_less_zero zero_less_diff not_gr_zero mult_zero_right)
  have nxt: "Suc i mod w = (if w \<le> i mod w + 1 then 0 else i mod w + 1)"
    "Suc i div w = (if w \<le> i mod w + 1 then i div w + 1 else i div w)"
    using im by (auto simp: mod_Suc div_Suc)
  have y: "BORDER_PADDING + i div w + 1 < 2 ^ 64" using iy assms(4) by (simp add: BORDER_PADDING_def)
  have step: "rgba_step fl w h p (at_pixel w i d) = res_bind (paint fl w (i, p) d) (\<lambda>d.
      res_bind (if w \<le> i mod w + 1 then Inr (d\<lparr>fb_x_pos := BORDER_PADDING, fb_y_pos := BORDER_PADDING + i div w + 1\<rparr>)
        else Inr (d\<lparr>fb_x_pos := BORDER_PADDING + i mod w + 1, fb_y_pos := BORDER_PADDING + i div w\<rparr>))
        (\<lambda>d. Inr (h \<le> fb_y_pos d, d)))"
    unfolding rgba_step_def p at_pixel_def paint_def prod.case write_pixel_cursor res_bind_assoc
    using im assms(2) y by (auto simp: write_pixel_cursor res_bind_assoc BORDER_PADDING_def intro!: res_bind_cong_fun)
  show ?thesis unfolding step stop[symmetric]
    by (intro res_bind_cong_fun) (auto simp: at_pixel_def nxt)
qed

text \<open>
  An image with enough pixels is drawn row by row, one border in from the corner; the decoder stops
  when its cursor is at row \<open>h\<close>, so it draws the first \<open>h - 1\<close> rows.
\<close>

lemma draw_seq_paint:
  assumes "0 < w" "w < 2 ^ 32" "h < 2 ^ 32" "n = w * (h - 1)" "i < n"
  shows "draw_seq fl w h ps k (at_pixel w i d) =
    (if n - i \<le> length ps
     then res_bind (res_fold (paint fl w) (zip [i..<n] ps) d) (\<lambda>d. Inr (at_pixel w n d))
     else res_bind (res_fold (paint fl w) (zip [i..<i + length ps] ps) d) (\<lambda>d. k (at_pixel w (i + length ps) d)))"
  using assms(5)
proof (induction ps arbitrary: i d)
  case (Cons p ps)
  have st: "rgba_step fl w h p (at_pixel w i d) =
    res_bind (paint fl w (i, p) d) (\<lambda>d. Inr (n \<le> Suc i, at_pixel w (Suc i) d))"
    using rgba_step_paint[OF assms(1,2) _ assms(3)] Cons.prems by (simp add: assms(4))
  have up: "[i..<n] = i # [Suc i..<n]" "[i..<i + length (p # ps)] = i # [Suc i..<Suc i + length ps]"
    using Cons.prems by (simp_all add: upt_conv_Cons del: upt_Suc)
  show ?case
  proof (cases "n \<le> Suc i")
    case True
    then have n: "n = Suc i" using Cons.prems by simp
    show ?thesis unfolding draw_seq.simps st by (simp add: n res_bind_assoc)
  next
    case False
    then have IH: "draw_seq fl w h ps k (at_pixel w (Suc i) d) =
      (if n - Suc i \<le> length ps
       then res_bind (res_fold (paint fl w) (zip [Suc i..<n] ps) d) (\<lambda>d. Inr (at_pixel w n d))
       else res_bind (res_fold (paint fl w) (zip [Suc i..<Suc i + length ps] ps) d) (\<lambda>d. k (at_pixel w (Suc i + length ps) d)))" for d
      by (intro Cons.IH) simp
    show ?thesis unfolding draw_seq.simps st up res_bind_assoc zip_Cons_Cons res_fold.simps res_bind_Inr prod.case if_not_P[OF False] IH
      using False by (auto intro!: res_bind_cong_fun simp del: upt_Suc)
  qed
qed simp

lemma radix_256:
  "n mod 256 + 256 * (n div 256 mod 256) + 65536 * (n div 65536 mod 256) + 16777216 * (n div 16777216) = (n :: nat)"
proof -
  have sum: "m = r0 + 256 * q1 \<Longrightarrow> q1 = r1 + 256 * q2 \<Longrightarrow> q2 = r2 + 256 * q3 \<Longrightarrow>
    r0 + 256 * r1 + 65536 * r2 + 16777216 * q3 = m" for m r0 r1 r2 q1 q2 q3 :: nat by simp
  have q: "n div 65536 = n div 256 div 256" "n div 16777216 = n div 256 div 256 div 256"
    by (simp_all add: div_mult2_eq[symmetric])
  show ?thesis unfolding q by (rule sum; simp only: mod_mult_div_eq)
qed

lemma le_u32_of:
  assumes "n < 2 ^ 32"
  shows "le_u32 (of_nat n) (of_nat (n div 256)) (of_nat (n div 65536)) (of_nat (n div 16777216)) = n"
proof -
  have "n div 16777216 < 256" using assms by (simp add: div_less_iff_less_mult)
  then have "n div 16777216 mod 256 = n div 16777216" by simp
  then show ?thesis using radix_256[of n] by (simp add: le_u32_def unat_of_nat)
qed

lemma write_rgba_header:
  assumes "w < 2 ^ 32" "h < 2 ^ 32"
  shows "Display_write_rgba fl (u32_le w @ u32_le h @ img) d =
    res_bind (rgba_loop fl w h img d) (\<lambda>d. res_bind (usize_add (fb_y_pos d) LINE_SPACING) (\<lambda>y.
       Inr (d\<lparr>fb_x_pos := BORDER_PADDING, fb_y_pos := y\<rparr>)))"
  using le_u32_of[OF assms(1)] le_u32_of[OF assms(2)] by (simp add: u32_le_def)

text \<open>The bytes of an image are a decodable list of runs: all its pixels but the trailing ones.\<close>

lemma encode_image_runs:
  assumes "encode_image w h ps = Inr bytes" "ps \<noteq> []"
  obtains runs where "bytes = u32_le w @ u32_le h @ runs_bytes runs" "\<forall>(c, p)\<in>set runs. 0 < c \<and> c < 65536"
    "expand runs = take (length ps - trailing ps) ps"
proof -
  have z: "(0 :: nat) < 65536" by simp
  from encode_loop_runs[OF assms(1)[unfolded encode_image_def] z]
  obtain runs k q where r0: "bytes = (u32_le w @ u32_le h) @ runs_bytes runs" "\<forall>(c, p)\<in>set runs. 0 < c \<and> c < 65536"
    "expand runs @ replicate k q = replicate 0 (0, 0, 0, 0) @ ps" "runs \<noteq> [] \<longrightarrow> snd (last runs) \<noteq> q"
    "0 < (0 :: nat) \<or> ps \<noteq> [] \<longrightarrow> 0 < k"
    by blast
  note r = r0(1,2) r0(3)[simplified] r0(4) r0(5)[THEN mp, OF disjI2, OF assms(2)]
  have "trailing ps = k" using trailing_runs[OF r(5,4)] r(2,3) by force
  moreover have "length ps = length (expand runs) + k" by (simp flip: r(3))
  ultimately have "expand runs = take (length ps - trailing ps) ps" using r(3) append_eq_conv_conj[of "expand runs"] by simp
  then show ?thesis using that r(1,2) by simp
qed

section \<open>The logo on the screen\<close>

text \<open>
  C17. What \<open>framebuffer::logo\<close> draws from the output of the build script, for an image of at least two
  rows. If the last run of equal pixels lies within the last row, the decoder paints the first
  \<open>h - 1\<close> rows, each pixel at its place one border in from the corner, and leaves the cursor below
  them: neither the last row nor the unwritten last run is ever needed. If the last run starts before
  the last row, the decoder runs out of bytes and panics.
\<close>

theorem logo_drawn:
  assumes enc: "encode_image w h ps = Inr bytes" and len: "length ps = w * h"
    and w: "0 < w" "w < 2 ^ 32" and h: "2 \<le> h" "h < 2 ^ 32"
  shows "(trailing ps \<le> w \<longrightarrow> logo fl bytes d =
      res_bind (res_fold (paint fl w) (zip [0..<w * (h - 1)] ps) (Display_clear d)) (\<lambda>d.
        Inr (d\<lparr>fb_x_pos := BORDER_PADDING, fb_y_pos := h + LINE_SPACING\<rparr>)))
    \<and> (w < trailing ps \<longrightarrow> logo fl bytes d =
      res_bind (res_fold (paint fl w) (zip [0..<w * h - trailing ps] ps) (Display_clear d)) (\<lambda>_. Inl UnwrapFailed))"
proof -
  define n where "n = w * (h - 1)"
  have n: "0 < n" "w * h = n + w" using w h by (auto simp: n_def algebra_simps diff_mult_distrib2)
  have ne: "ps \<noteq> []" using len n(1,2) by auto
  from encode_image_runs[OF enc ne] obtain runs where r: "bytes = u32_le w @ u32_le h @ runs_bytes runs"
    "\<forall>(c, p)\<in>set runs. 0 < c \<and> c < 65536" "expand runs = take (length ps - trailing ps) ps" .
  have tr: "trailing ps \<le> length ps" unfolding trailing_def
    by (metis length_rev length_takeWhile_le)
  have start: "Display_clear d = at_pixel w 0 (Display_clear d)" by (simp add: at_pixel_def Display_clear_def)
  have stop: "at_pixel w n d = d\<lparr>fb_x_pos := BORDER_PADDING, fb_y_pos := h\<rparr>" for d
    using w(1) h(1) by (simp add: at_pixel_def n_def BORDER_PADDING_def)
  have seq: "logo fl bytes d = res_bind (draw_seq fl w h (expand runs) (\<lambda>_. Inl UnwrapFailed) (at_pixel w 0 (Display_clear d)))
      (\<lambda>d. res_bind (usize_add (fb_y_pos d) LINE_SPACING) (\<lambda>y. Inr (d\<lparr>fb_x_pos := BORDER_PADDING, fb_y_pos := y\<rparr>)))"
    unfolding logo_def r(1) write_rgba_header[OF w(2) h(2)] rgba_loop_runs[OF r(2)] using start by simp
  have z: "zip xs (take m ps) = zip xs ps" if "length xs \<le> m" for m and xs :: "nat list"
    using that by (intro nth_equalityI) auto
  have lens: "length (expand runs) = n + w - trailing ps" using tr len n(2) by (simp add: r(3))
  show ?thesis unfolding seq draw_seq_paint[OF w h(2) n_def n(1)] lens r(3) n(2) n_def[symmetric] res_bind_assoc stop
    using h tr len n by (auto simp: z LINE_SPACING_def res_bind_assoc intro!: res_bind_cong_fun)
qed

definition two_rows :: "rgba list" where
  "two_rows = [(1, 2, 3, 255), (4, 5, 6, 255), (7, 8, 9, 255), (7, 8, 9, 255)]"

definition two_rows_bytes :: "u8 list" where
  "two_rows_bytes = [2, 0, 0, 0, 2, 0, 0, 0, 1, 0, 1, 2, 3, 255, 1, 0, 4, 5, 6, 255]"

theorem logo_drawn_witness:
  "encode_image 2 2 two_rows = Inr two_rows_bytes
   \<and> logo plain_float two_rows_bytes tiny_display =
       res_bind (res_fold (paint plain_float 2) [(0, 1, 2, 3, 255), (1, 4, 5, 6, 255)] (Display_clear tiny_display))
         (\<lambda>d. Inr (d\<lparr>fb_x_pos := 1, fb_y_pos := 4\<rparr>))"
proof -
  have enc: "encode_image 2 2 two_rows = Inr two_rows_bytes"
    by (simp add: encode_image_def two_rows_def two_rows_bytes_def run_bytes_def u16_le_def u32_le_def)
  have len: "length two_rows = 2 * 2" by (simp add: two_rows_def)
  have "trailing two_rows \<le> 2" by (simp add: trailing_def two_rows_def)
  then have "logo plain_float two_rows_bytes tiny_display =
      res_bind (res_fold (paint plain_float 2) (zip [0..<2 * (2 - 1)] two_rows) (Display_clear tiny_display)) (\<lambda>d.
        Inr (d\<lparr>fb_x_pos := BORDER_PADDING, fb_y_pos := 2 + LINE_SPACING\<rparr>))"
    using logo_drawn[OF enc len] by simp
  moreover have "zip [0..<2 * (2 - 1)] two_rows = [(0, 1, 2, 3, 255), (1, 4, 5, 6, 255)]"
    by (simp add: two_rows_def upt_rec)
  ultimately show ?thesis using enc by (simp add: BORDER_PADDING_def LINE_SPACING_def)
qed

end
