(* ===== verification/Bitfield.thy ===== *)
theory Bitfield
  imports Prelude
begin

text \<open>
  Register layouts declared with the macro \<open>bitfield!\<close> of the crate \<open>mycelium_bitfield\<close>. The macro is
  not part of the repository: its accessors are the fields of the record \<open>bitfield\<close>, over the widths
  of the fields in declaration order, and \<open>bitfield_packed\<close> is the crate's documented layout: fields
  follow one another from the least significant bit.
\<close>

unbundle bit_operations_syntax

record 'w bitfield =
  bf_get :: "nat list \<Rightarrow> nat \<Rightarrow> 'w \<Rightarrow> 'w"
  bf_set :: "nat list \<Rightarrow> nat \<Rightarrow> 'w \<Rightarrow> 'w \<Rightarrow> 'w"

definition field_offset :: "nat list \<Rightarrow> nat \<Rightarrow> nat" where
  "field_offset layout i = sum_list (take i layout)"

definition field_get :: "nat list \<Rightarrow> nat \<Rightarrow> 'a::len word \<Rightarrow> 'a word" where
  "field_get layout i w = take_bit (layout ! i) (drop_bit (field_offset layout i) w)"

definition field_set :: "nat list \<Rightarrow> nat \<Rightarrow> 'a::len word \<Rightarrow> 'a word \<Rightarrow> 'a word" where
  "field_set layout i v w =
     (w AND NOT (push_bit (field_offset layout i) (mask (layout ! i))))
       OR push_bit (field_offset layout i) (take_bit (layout ! i) v)"

definition bitfield_packed :: "'a::len word bitfield \<Rightarrow> bool" where
  "bitfield_packed bf \<longleftrightarrow> bf_get bf = field_get \<and> bf_set bf = field_set"

definition packed :: "'a::len word bitfield" where
  "packed = \<lparr>bf_get = field_get, bf_set = field_set\<rparr>"

lemma packed_packed: "bitfield_packed packed"
  by (simp add: bitfield_packed_def packed_def)

lemma field_offset_mono: "i \<le> k \<Longrightarrow> field_offset layout i \<le> field_offset layout k"
proof -
  assume "i \<le> k"
  then have "take k layout = take i layout @ take (k - i) (drop i layout)"
    by (metis take_add le_add_diff_inverse)
  then show ?thesis by (simp add: field_offset_def)
qed

lemma field_offset_Suc: "i < length layout \<Longrightarrow> field_offset layout (Suc i) = field_offset layout i + layout ! i"
  by (simp add: field_offset_def take_Suc_conv_app_nth)

text \<open>Reading a field back after it is set, and after another one is set.\<close>

lemma bit_field_get:
  "bit (field_get layout i (w :: 'a::len word)) n \<longleftrightarrow> n < layout ! i \<and> bit w (n + field_offset layout i)"
  by (auto simp: field_get_def bit_simps add.commute dest: bit_imp_le_length)

lemma bit_field_set:
  "bit (field_set layout i v (w :: 'a::len word)) n \<longleftrightarrow> n < LENGTH('a) \<and>
     (if field_offset layout i \<le> n \<and> n < field_offset layout i + layout ! i
      then bit v (n - field_offset layout i) else bit w n)"
  by (auto simp: field_set_def bit_simps)

lemma field_get_set_same:
  assumes "i < length layout" "field_offset layout (Suc i) \<le> LENGTH('a)"
  shows "field_get layout i (field_set layout i v (w :: 'a::len word)) = take_bit (layout ! i) v"
  using assms by (intro bit_word_eqI) (auto simp: bit_field_get bit_field_set bit_simps field_offset_Suc)

lemma field_get_set_other:
  assumes "i < length layout" "k < length layout" "i \<noteq> k"
  shows "field_get layout i (field_set layout k v (w :: 'a::len word)) = field_get layout i w"
proof -
  have "field_offset layout i + layout ! i \<le> field_offset layout k \<or> field_offset layout k + layout ! k \<le> field_offset layout i"
    using assms field_offset_mono[of "Suc i" k layout] field_offset_mono[of "Suc k" i layout]
    by (auto simp: field_offset_Suc[symmetric] neq_iff)
  then show ?thesis
    by (intro bit_word_eqI) (auto simp: bit_field_get bit_field_set dest: bit_imp_le_length)
qed

end
