(* ===== verification/Pit.thy ===== *)
theory Pit
  imports Bitfield Contracts "HOL-Library.Multiset"
begin

text \<open>
  The interval timer, \<open>kernel/src/arch/x86_64/pit.rs\<close>, and the averaging of its calibration samples in
  \<open>kernel/src/arch/x86_64/interrupts.rs\<close>.

  Port writes are collected in order. \<open>sleep\<close> is its preparation, a function, followed by its wait
  loop, a transition system: the processor checks the flag, enables interrupts and halts, while the
  timer runs out and interrupts arrive at any moment at which they are enabled. The floating-point
  computation of the divisor is a parameter; \<open>Lapic\<close> computes it.
\<close>

unbundle bit_operations_syntax

section \<open>The command register\<close>

datatype OperatingMode =
  Interrupt | HwOneshot | RateGenerator | SquareWave | SwStrobe | HwStrobe | RateGenerator2 | SquareWave2

datatype AccessMode = LatchCount | LowByte | HighByte | Both

datatype ChannelSelect = Channel0 | Channel1 | Channel2 | Readback

primrec OperatingMode_into_bits :: "OperatingMode \<Rightarrow> u8" where
  "OperatingMode_into_bits Interrupt = 0"
| "OperatingMode_into_bits HwOneshot = 1"
| "OperatingMode_into_bits RateGenerator = 2"
| "OperatingMode_into_bits SquareWave = 3"
| "OperatingMode_into_bits SwStrobe = 4"
| "OperatingMode_into_bits HwStrobe = 5"
| "OperatingMode_into_bits RateGenerator2 = 6"
| "OperatingMode_into_bits SquareWave2 = 7"

primrec AccessMode_into_bits :: "AccessMode \<Rightarrow> u8" where
  "AccessMode_into_bits LatchCount = 0"
| "AccessMode_into_bits LowByte = 1"
| "AccessMode_into_bits HighByte = 2"
| "AccessMode_into_bits Both = 3"

primrec ChannelSelect_into_bits :: "ChannelSelect \<Rightarrow> u8" where
  "ChannelSelect_into_bits Channel0 = 0"
| "ChannelSelect_into_bits Channel1 = 1"
| "ChannelSelect_into_bits Channel2 = 2"
| "ChannelSelect_into_bits Readback = 3"

definition OperatingMode_try_from_bits :: "u8 \<Rightarrow> OperatingMode res" where
  "OperatingMode_try_from_bits bits =
     (if bits = 0 then Inr Interrupt
      else if bits = 1 then Inr HwOneshot
      else if bits = 2 then Inr RateGenerator
      else if bits = 3 then Inr SquareWave
      else if bits = 4 then Inr SwStrobe
      else if bits = 5 then Inr HwStrobe
      else if bits = 6 then Inr RateGenerator2
      else if bits = 7 then Inr SquareWave2
      else Inl ExplicitPanic)"

definition AccessMode_try_from_bits :: "u8 \<Rightarrow> AccessMode res" where
  "AccessMode_try_from_bits bits =
     (if bits = 0 then Inr LatchCount
      else if bits = 1 then Inr LowByte
      else if bits = 2 then Inr HighByte
      else if bits = 3 then Inr Both
      else Inl ExplicitPanic)"

definition ChannelSelect_try_from_bits :: "u8 \<Rightarrow> ChannelSelect res" where
  "ChannelSelect_try_from_bits bits =
     (if bits = 0 then Inr Channel0
      else if bits = 1 then Inr Channel1
      else if bits = 2 then Inr Channel2
      else if bits = 3 then Inr Readback
      else Inl ExplicitPanic)"

text \<open>\<open>BCD_BINARY\<close>, \<open>MODE\<close>, \<open>ACCESS\<close> and \<open>CHANNEL\<close>.\<close>

definition Command_layout :: "nat list" where "Command_layout = [1, 3, 2, 2]"

section \<open>The timer\<close>

record Pit =
  pit_channel0 :: u16
  pit_command :: u16

definition BASE_FREQUENCY_HZ :: usize where "BASE_FREQUENCY_HZ = 1193182"

definition Pit_new :: Pit where
  "Pit_new = (let base = 0x40 in \<lparr>pit_channel0 = base, pit_command = base + 3\<rparr>)"

text \<open>The processor as far as \<open>sleep\<close> uses it: the flag \<open>SLEEPING\<close>, the interrupt flag, the port writes.\<close>

record pit_cpu =
  cpu_sleeping :: bool
  cpu_if :: bool
  cpu_ports :: "(u16 \<times> u8) list"

definition port_write :: "u16 \<Rightarrow> u8 \<Rightarrow> pit_cpu \<Rightarrow> pit_cpu" where
  "port_write port v c = c\<lparr>cpu_ports := cpu_ports c @ [(port, v)]\<rparr>"

definition Pit_set_divisor :: "Pit \<Rightarrow> u16 \<Rightarrow> pit_cpu \<Rightarrow> pit_cpu" where
  "Pit_set_divisor self divisor c =
     (let low = ucast divisor; high = ucast (drop_bit 8 divisor)
      in port_write (pit_channel0 self) high (port_write (pit_channel0 self) low c))"

definition Pit_send_command :: "Pit \<Rightarrow> u8 \<Rightarrow> pit_cpu \<Rightarrow> pit_cpu" where
  "Pit_send_command self cmd c = port_write (pit_command self) cmd c"

definition on_tick :: "pit_cpu \<Rightarrow> pit_cpu" where
  "on_tick c = (if cpu_sleeping c then c\<lparr>cpu_sleeping := False\<rparr> else c)"

definition sleep_command :: "u8 bitfield \<Rightarrow> u8" where
  "sleep_command bf =
     bf_set bf Command_layout 3 (ChannelSelect_into_bits Channel0)
       (bf_set bf Command_layout 2 (AccessMode_into_bits Both)
         (bf_set bf Command_layout 1 (OperatingMode_into_bits Interrupt)
           (bf_set bf Command_layout 0 0 0)))"

text \<open>
  \<open>sleep\<close> up to its wait loop, with the interrupt flag it found. \<open>round_ticks ms\<close> is the divisor for
  that many milliseconds, as \<open>f64\<close> arithmetic, \<open>libm::round\<close> and the cast to \<open>u16\<close> give it.
\<close>

definition Pit_sleep_start ::
    "u8 bitfield \<Rightarrow> (u64 \<Rightarrow> u16) \<Rightarrow> Pit \<Rightarrow> u64 \<Rightarrow> pit_cpu \<Rightarrow> (bool \<times> pit_cpu) res" where
  "Pit_sleep_start bf round_ticks self duration_ms c =
     (if cpu_sleeping c then Inl UnwrapFailed
      else
        let c = c\<lparr>cpu_sleeping := True\<rparr>;
            divisor = round_ticks duration_ms;
            interrupts_enabled = cpu_if c;
            c = c\<lparr>cpu_if := False\<rparr>;
            c = Pit_send_command self (sleep_command bf) c
        in Inr (interrupts_enabled, Pit_set_divisor self divisor c))"

section \<open>The wait loop\<close>

datatype sleep_pc = Check | Halt | Halted | Done

record sleeper =
  sl_cpu :: pit_cpu
  sl_pc :: sleep_pc
  sl_enabled :: bool
  sl_armed :: bool
  sl_pending :: bool

text \<open>
  \<open>Run\<close> is a step of the processor; \<open>Expire\<close>, the counter reaches zero (once, in this mode) and
  requests an interrupt; \<open>Tick\<close>, that interrupt is delivered; \<open>Other\<close>, any other interrupt is.
  \<open>sti; hlt\<close> is one step: interrupts are held back until the processor has halted.
\<close>

datatype sleep_event = Run | Expire | Tick | Other

definition wake :: "sleep_pc \<Rightarrow> sleep_pc" where
  "wake pc = (if pc = Halted then Check else pc)"

fun sleep_next :: "sleep_event \<Rightarrow> sleeper \<Rightarrow> sleeper option" where
  "sleep_next Run s =
     (case sl_pc s of
        Check \<Rightarrow>
          if cpu_sleeping (sl_cpu s) then Some (s\<lparr>sl_pc := Halt\<rparr>)
          else Some (s\<lparr>sl_pc := Done,
                 sl_cpu := if \<not> sl_enabled s then (sl_cpu s)\<lparr>cpu_if := False\<rparr> else sl_cpu s\<rparr>)
      | Halt \<Rightarrow> Some (s\<lparr>sl_pc := Halted, sl_cpu := (sl_cpu s)\<lparr>cpu_if := True\<rparr>\<rparr>)
      | Halted \<Rightarrow> None
      | Done \<Rightarrow> None)"
| "sleep_next Expire s = (if sl_armed s then Some (s\<lparr>sl_armed := False, sl_pending := True\<rparr>) else None)"
| "sleep_next Tick s =
     (if sl_pending s \<and> cpu_if (sl_cpu s)
      then Some (s\<lparr>sl_pending := False, sl_cpu := on_tick (sl_cpu s), sl_pc := wake (sl_pc s)\<rparr>) else None)"
| "sleep_next Other s =
     (if cpu_if (sl_cpu s) then Some (s\<lparr>sl_pc := wake (sl_pc s)\<rparr>) else None)"

definition sleep_begin :: "bool \<times> pit_cpu \<Rightarrow> sleeper" where
  "sleep_begin p = (case p of (enabled, c) \<Rightarrow>
     \<lparr>sl_cpu = c, sl_pc = Check, sl_enabled = enabled, sl_armed = True, sl_pending = False\<rparr>)"

inductive sleeps :: "sleeper \<Rightarrow> sleep_event list \<Rightarrow> sleeper \<Rightarrow> bool" where
  start: "sleeps s [] s"
| event: "sleeps s es t \<Longrightarrow> sleep_next e t = Some u \<Longrightarrow> sleeps s (es @ [e]) u"

fun sleep_run :: "sleep_event list \<Rightarrow> sleeper \<Rightarrow> sleeper option" where
  "sleep_run [] s = Some s"
| "sleep_run (e # es) s = Option.bind (sleep_next e s) (sleep_run es)"

section \<open>Calibration\<close>

text \<open>
  The sum and the number of the samples between the quartiles; the caller divides them. The samples are
  \<open>u32\<close> and so is their sum.
\<close>

definition u32_add :: "nat \<Rightarrow> nat \<Rightarrow> nat res" where
  "u32_add a b = (if a + b < 2 ^ 32 then Inr (a + b) else Inl ArithOverflow)"

definition add_sample :: "nat \<Rightarrow> nat \<Rightarrow> nat \<Rightarrow> nat \<times> nat \<Rightarrow> (nat \<times> nat) res" where
  "add_sample q1 q3 x acc =
     (case acc of (acc_sum, kept) \<Rightarrow>
        if x < q1 \<or> x > q3 then Inr (acc_sum, kept)
        else res_bind (u32_add acc_sum x) (\<lambda>acc_sum. Inr (acc_sum, kept + 1)))"

definition average_without_some_outliers :: "nat list \<Rightarrow> (nat \<times> nat) res" where
  "average_without_some_outliers samples =
     (let data = sort samples in
      res_bind (index_at data (length data div 4)) (\<lambda>q1.
      res_bind (index_at data (3 * length data div 4)) (\<lambda>q3.
        res_fold (add_sample q1 q3) data (0, 0))))"

section \<open>Codecs\<close>

text \<open>A value set in a field as wide as the codec is read back from it.\<close>

context bits_codec
begin

lemma take_bit_encode: "take_bit width (encode x) = encode x"
proof -
  have "unat (encode x) = unat (take_bit width (encode x))"
    using encode_fits[of x] by (simp add: unsigned_take_bit_eq take_bit_nat_eq_self)
  then show ?thesis by (metis word_unat_eq_iff)
qed

lemma decode_field:
  assumes "i < length layout" "field_offset layout (Suc i) \<le> 8" "layout ! i = width"
  shows "decode (field_get layout i (field_set layout i (encode x) w)) = Inr x"
  using assms field_get_set_same[of i layout "encode x" w] by (simp add: take_bit_encode decode_encode)

end

interpretation mode: bits_codec OperatingMode_into_bits OperatingMode_try_from_bits 3
proof
  show "unat (OperatingMode_into_bits x) < 2 ^ 3" for x by (cases x) simp_all
  show "OperatingMode_try_from_bits (OperatingMode_into_bits x) = Inr x" for x
    by (cases x) (simp_all add: OperatingMode_try_from_bits_def)
qed

interpretation access_mode: bits_codec AccessMode_into_bits AccessMode_try_from_bits 2
proof
  show "unat (AccessMode_into_bits x) < 2 ^ 2" for x by (cases x) simp_all
  show "AccessMode_try_from_bits (AccessMode_into_bits x) = Inr x" for x
    by (cases x) (simp_all add: AccessMode_try_from_bits_def)
qed

interpretation channel: bits_codec ChannelSelect_into_bits ChannelSelect_try_from_bits 2
proof
  show "unat (ChannelSelect_into_bits x) < 2 ^ 2" for x by (cases x) simp_all
  show "ChannelSelect_try_from_bits (ChannelSelect_into_bits x) = Inr x" for x
    by (cases x) (simp_all add: ChannelSelect_try_from_bits_def)
qed

section \<open>Starting to sleep\<close>

lemma sleep_command_fields:
  assumes "bitfield_packed bf"
  shows "OperatingMode_try_from_bits (field_get Command_layout 1 (sleep_command bf)) = Inr Interrupt"
    "AccessMode_try_from_bits (field_get Command_layout 2 (sleep_command bf)) = Inr Both"
    "ChannelSelect_try_from_bits (field_get Command_layout 3 (sleep_command bf)) = Inr Channel0"
    "field_get Command_layout 0 (sleep_command bf) = 0"
proof -
  have s: "sleep_command bf = field_set Command_layout 3 (ChannelSelect_into_bits Channel0)
       (field_set Command_layout 2 (AccessMode_into_bits Both)
         (field_set Command_layout 1 (OperatingMode_into_bits Interrupt) (field_set Command_layout 0 0 0)))"
    using assms by (simp add: sleep_command_def bitfield_packed_def)
  note ev = Command_layout_def field_offset_def
  have l: "length Command_layout = 4" by (simp add: Command_layout_def)
  note other = field_get_set_other[of _ Command_layout, unfolded l]
  have other12: "field_get Command_layout 1 (field_set Command_layout 2 v w) = field_get Command_layout 1 w" for v w :: u8
    by (rule other) simp_all
  have other13: "field_get Command_layout 1 (field_set Command_layout 3 v w) = field_get Command_layout 1 w" for v w :: u8
    by (rule other) simp_all
  show "OperatingMode_try_from_bits (field_get Command_layout 1 (sleep_command bf)) = Inr Interrupt"
    unfolding s other13 other12 by (rule mode.decode_field) (simp_all add: ev)
  show "AccessMode_try_from_bits (field_get Command_layout 2 (sleep_command bf)) = Inr Both"
    unfolding s other[of 2 3, simplified] by (rule access_mode.decode_field) (simp_all add: ev)
  show "ChannelSelect_try_from_bits (field_get Command_layout 3 (sleep_command bf)) = Inr Channel0"
    unfolding s by (rule channel.decode_field) (simp_all add: ev)
  show "field_get Command_layout 0 (sleep_command bf) = 0"
    unfolding s using field_get_set_same[of 0 Command_layout "0 :: u8"] by (simp add: other) (simp add: ev)
qed

text \<open>
  \<open>Pit::sleep\<close> programs the timer: it panics when another sleep is under way and touches no port
  then. Otherwise it marks itself sleeping, disables interrupts, remembers whether they were enabled,
  and writes three bytes: a command that reads back as channel 0, low byte then high byte, interrupt on
  terminal kept, binary; and the divisor's two bytes in that order.
\<close>

theorem pit_sleep_programs:
  assumes "bitfield_packed bf"
  shows "(cpu_sleeping c \<longrightarrow> Pit_sleep_start bf rt Pit_new ms c = Inl UnwrapFailed)
    \<and> (\<not> cpu_sleeping c \<longrightarrow> (\<exists>cmd low high.
         Pit_sleep_start bf rt Pit_new ms c = Inr (cpu_if c, \<lparr>cpu_sleeping = True, cpu_if = False,
           cpu_ports = cpu_ports c @ [(0x43, cmd), (0x40, low), (0x40, high)]\<rparr>)
       \<and> OperatingMode_try_from_bits (field_get Command_layout 1 cmd) = Inr Interrupt
       \<and> AccessMode_try_from_bits (field_get Command_layout 2 cmd) = Inr Both
       \<and> ChannelSelect_try_from_bits (field_get Command_layout 3 cmd) = Inr Channel0
       \<and> field_get Command_layout 0 cmd = 0
       \<and> unat low + 256 * unat high = unat (rt ms)))"
proof (intro conjI impI)
  assume "\<not> cpu_sleeping c"
  then have "Pit_sleep_start bf rt Pit_new ms c = Inr (cpu_if c, \<lparr>cpu_sleeping = True, cpu_if = False,
      cpu_ports = cpu_ports c @ [(0x43, sleep_command bf), (0x40, ucast (rt ms)), (0x40, ucast (drop_bit 8 (rt ms)))]\<rparr>)"
    by (simp add: Pit_sleep_start_def Pit_new_def Pit_set_divisor_def Pit_send_command_def port_write_def Let_def)
  moreover have "unat (ucast (rt ms) :: u8) + 256 * unat (ucast (drop_bit 8 (rt ms)) :: u8) = unat (rt ms)"
  proof -
    have "unat (rt ms) < 65536" using unsigned_less[of "rt ms"] by simp
    then have "unat (rt ms) div 256 < 256" by (simp add: div_less_iff_less_mult)
    then show ?thesis by (simp add: unsigned_ucast_eq unsigned_drop_bit_eq take_bit_eq_mod drop_bit_eq_div unat_div_distrib)
  qed
  ultimately show "\<exists>cmd low high.
         Pit_sleep_start bf rt Pit_new ms c = Inr (cpu_if c, \<lparr>cpu_sleeping = True, cpu_if = False,
           cpu_ports = cpu_ports c @ [(0x43, cmd), (0x40, low), (0x40, high)]\<rparr>)
       \<and> OperatingMode_try_from_bits (field_get Command_layout 1 cmd) = Inr Interrupt
       \<and> AccessMode_try_from_bits (field_get Command_layout 2 cmd) = Inr Both
       \<and> ChannelSelect_try_from_bits (field_get Command_layout 3 cmd) = Inr Channel0
       \<and> field_get Command_layout 0 cmd = 0
       \<and> unat low + 256 * unat high = unat (rt ms)"
    using sleep_command_fields[OF assms] by blast
qed (simp add: Pit_sleep_start_def)

section \<open>Waiting\<close>

text \<open>
  The wait loop still waits exactly as long as the timer's interrupt is to come; \<open>sleep_rank\<close> counts
  the events left until it returns when no other interrupt arrives.
\<close>

definition sleep_inv :: "sleeper \<Rightarrow> bool" where
  "sleep_inv s \<longleftrightarrow>
     (cpu_sleeping (sl_cpu s) \<longleftrightarrow> sl_armed s \<or> sl_pending s) \<and> \<not> (sl_armed s \<and> sl_pending s)
   \<and> (sl_pc s = Done \<longrightarrow> \<not> cpu_sleeping (sl_cpu s) \<and> cpu_if (sl_cpu s) = sl_enabled s)
   \<and> (sl_pc s = Halted \<longrightarrow> cpu_if (sl_cpu s))
   \<and> (sl_pc s \<noteq> Done \<and> \<not> cpu_sleeping (sl_cpu s) \<longrightarrow> cpu_if (sl_cpu s))"

definition sleep_quiet :: "sleeper \<Rightarrow> bool" where
  "sleep_quiet s \<longleftrightarrow>
     (sl_pc s \<in> {Halt, Halted} \<longrightarrow> cpu_sleeping (sl_cpu s))
   \<and> (sl_pc s \<in> {Check, Halt} \<and> cpu_sleeping (sl_cpu s) \<longrightarrow> \<not> cpu_if (sl_cpu s))"

definition sleep_rank :: "sleeper \<Rightarrow> nat" where
  "sleep_rank s =
     (if sl_armed s then 2 else if sl_pending s then 1 else 0)
   + (case sl_pc s of Check \<Rightarrow> if cpu_sleeping (sl_cpu s) then 3 else 1 | Halt \<Rightarrow> 2 | Halted \<Rightarrow> 1 | Done \<Rightarrow> 0)"

lemma sleep_next_inv: "sleep_next e s = Some t \<Longrightarrow> sleep_inv s \<Longrightarrow> sleep_inv t"
  by (cases e; cases "sl_pc s") (auto simp: sleep_inv_def wake_def on_tick_def split: if_splits)

lemma sleep_next_quiet:
  "sleep_next e s = Some t \<Longrightarrow> e \<noteq> Other \<Longrightarrow> sleep_inv s \<Longrightarrow> sleep_quiet s \<Longrightarrow>
     sleep_quiet t \<and> sleep_rank s = Suc (sleep_rank t)"
  by (cases e; cases "sl_pc s")
    (auto simp: sleep_inv_def sleep_quiet_def sleep_rank_def wake_def on_tick_def split: if_splits)

lemma sleep_next_enabled: "sleep_next e s = Some t \<Longrightarrow> sl_enabled t = sl_enabled s"
  by (cases e; cases "sl_pc s") (auto split: if_splits)

lemma sleep_next_past:
  "sleep_next e s = Some t \<Longrightarrow> (sl_armed t \<longleftrightarrow> sl_armed s \<and> e \<noteq> Expire) \<and> (sl_pending t \<longrightarrow> sl_pending s \<or> e = Expire)
     \<and> (sl_pending s \<and> \<not> sl_pending t \<longrightarrow> e = Tick)"
  by (cases e; cases "sl_pc s") (auto split: if_splits)

lemma sleeps_inv:
  assumes "sleeps s es t" "sleep_inv s" "sl_armed s"
  shows "sleep_inv t \<and> sl_enabled t = sl_enabled s \<and> (\<not> sl_armed t \<longrightarrow> Expire \<in> set es)
    \<and> (\<not> sl_armed t \<and> \<not> sl_pending t \<longrightarrow> Tick \<in> set es)"
  using assms
proof (induction rule: sleeps.induct)
  case (event s es t e u)
  then show ?case
    using sleep_next_inv[OF event.hyps(2)] sleep_next_enabled[OF event.hyps(2)] sleep_next_past[OF event.hyps(2)]
    by (cases e) auto
qed simp

lemma sleeps_quiet:
  assumes "sleeps s es t" "sleep_inv s" "sl_armed s" "sleep_quiet s" "Other \<notin> set es"
  shows "sleep_quiet t \<and> length es + sleep_rank t = sleep_rank s"
  using assms
proof (induction rule: sleeps.induct)
  case (event s es t e u)
  moreover have "sleep_inv t" using sleeps_inv[OF event.hyps(1) event.prems(1,2)] by simp
  ultimately show ?case using sleep_next_quiet[OF event.hyps(2)] by auto
qed simp

lemma sleep_quiet_enabled:
  assumes "sleep_inv s" "sleep_quiet s" "sl_pc s \<noteq> Done"
  shows "\<exists>e. e \<noteq> Other \<and> sleep_next e s \<noteq> None"
proof (cases "sl_pc s = Halted")
  case True
  then have "sl_armed s \<or> sl_pending s" "cpu_if (sl_cpu s)" using assms by (auto simp: sleep_inv_def sleep_quiet_def)
  then have "sleep_next Expire s \<noteq> None \<or> sleep_next Tick s \<noteq> None" by auto
  then show ?thesis by auto
next
  case False
  then have "sleep_next Run s \<noteq> None" using assms(3) by (cases "sl_pc s") auto
  then show ?thesis by auto
qed

lemma sleep_run_sleeps:
  assumes "sleeps r pre s" "sleep_run es s = Some t"
  shows "sleeps r (pre @ es) t"
  using assms
proof (induction es arbitrary: s pre)
  case (Cons e es)
  then obtain u where "sleep_next e s = Some u" "sleep_run es u = Some t" by (auto simp: bind_eq_Some_conv)
  then show ?case using Cons.IH[OF sleeps.event[OF Cons.prems(1)]] by simp
qed simp

lemma sleep_begin_inv:
  assumes "Pit_sleep_start bf rt self ms c = Inr p"
  shows "sleep_inv (sleep_begin p)" "sleep_quiet (sleep_begin p)" "sl_armed (sleep_begin p)"
    "sleep_rank (sleep_begin p) = 5" "sl_enabled (sleep_begin p) = cpu_if c"
    "cpu_sleeping (sl_cpu (sleep_begin p))" "\<not> cpu_if (sl_cpu (sleep_begin p))"
  using assms
  by (auto simp: Pit_sleep_start_def sleep_begin_def sleep_inv_def sleep_quiet_def sleep_rank_def Let_def
      Pit_set_divisor_def Pit_send_command_def port_write_def split: if_splits)

text \<open>
  C18. The wait loop of \<open>Pit::sleep\<close>, under every interleaving with the hardware. It returns only after
  the timer ran out and its interrupt was handled, with the interrupt flag as it was before the sleep.
  While no other interrupt arrives it cannot wait for ever: it has returned after five events, and
  before that some event of its own can happen. With another interrupt in between it can: the processor
  is back in the loop with interrupts enabled, the timer's interrupt falls between the check of the
  flag and the halt, and only yet another interrupt wakes it.
\<close>

theorem pit_sleep_waits:
  assumes "Pit_sleep_start bf rt self ms c = Inr p"
  shows "(\<forall>es s. sleeps (sleep_begin p) es s \<longrightarrow>
       (sl_pc s = Done \<longrightarrow> Expire \<in> set es \<and> Tick \<in> set es \<and> \<not> cpu_sleeping (sl_cpu s) \<and> cpu_if (sl_cpu s) = cpu_if c)
     \<and> (Other \<notin> set es \<longrightarrow> length es \<le> 5 \<and> (sl_pc s \<noteq> Done \<longrightarrow> (\<exists>e. e \<noteq> Other \<and> sleep_next e s \<noteq> None))))
   \<and> (\<exists>s. sleeps (sleep_begin p) [Run, Run, Other, Run, Expire, Tick, Run] s \<and> sl_pc s = Halted
       \<and> (\<forall>e. sleep_next e s \<noteq> None \<longrightarrow> e = Other))"
proof (intro conjI allI impI)
  note b = sleep_begin_inv[OF assms]
  fix es s
  assume st: "sleeps (sleep_begin p) es s"
  note i = sleeps_inv[OF st b(1,3)]
  show "sl_pc s = Done \<Longrightarrow> Expire \<in> set es" "sl_pc s = Done \<Longrightarrow> Tick \<in> set es"
    "sl_pc s = Done \<Longrightarrow> \<not> cpu_sleeping (sl_cpu s)" "sl_pc s = Done \<Longrightarrow> cpu_if (sl_cpu s) = cpu_if c"
    using i b(5) by (auto simp: sleep_inv_def)
  assume quiet: "Other \<notin> set es"
  note q = sleeps_quiet[OF st b(1,3,2) quiet]
  show "length es \<le> 5" using q b(4) by simp
  show "sl_pc s \<noteq> Done \<Longrightarrow> \<exists>e. e \<noteq> Other \<and> sleep_next e s \<noteq> None"
    using sleep_quiet_enabled i q by blast
next
  note b = sleep_begin_inv[OF assms]
  obtain enabled cpu where p: "p = (enabled, cpu)" by (cases p)
  have c: "cpu_sleeping cpu" "\<not> cpu_if cpu" using b(6,7) by (simp_all add: p sleep_begin_def)
  let ?s = "\<lparr>sl_cpu = cpu\<lparr>cpu_sleeping := False, cpu_if := True\<rparr>, sl_pc = Halted, sl_enabled = enabled, sl_armed = False, sl_pending = False\<rparr>"
  have "sleep_run [Run, Run, Other, Run, Expire, Tick, Run] (sleep_begin p) = Some ?s"
    using c by (simp add: p sleep_begin_def wake_def on_tick_def)
  then have "sleeps (sleep_begin p) ([] @ [Run, Run, Other, Run, Expire, Tick, Run]) ?s"
    by (rule sleep_run_sleeps[OF sleeps.start])
  moreover have "\<forall>e. sleep_next e ?s \<noteq> None \<longrightarrow> e = Other" by (intro allI, case_tac e) simp_all
  ultimately show "\<exists>s. sleeps (sleep_begin p) [Run, Run, Other, Run, Expire, Tick, Run] s \<and> sl_pc s = Halted
       \<and> (\<forall>e. sleep_next e s \<noteq> None \<longrightarrow> e = Other)" by (intro exI[of _ ?s]) simp
qed

section \<open>The average of the calibration samples\<close>

lemma add_samples:
  assumes "acc_sum + sum_list (filter (\<lambda>x. q1 \<le> x \<and> x \<le> q3) xs) < 2 ^ 32"
  shows "res_fold (add_sample q1 q3) xs (acc_sum, kept) =
    Inr (acc_sum + sum_list (filter (\<lambda>x. q1 \<le> x \<and> x \<le> q3) xs), kept + length (filter (\<lambda>x. q1 \<le> x \<and> x \<le> q3) xs))"
  using assms
proof (induction xs arbitrary: acc_sum kept)
  case (Cons x xs)
  show ?case
  proof (cases "q1 \<le> x \<and> x \<le> q3")
    case True
    then have "add_sample q1 q3 x (acc_sum, kept) = Inr (acc_sum + x, kept + 1)"
      using Cons.prems by (simp add: add_sample_def u32_add_def)
    then show ?thesis using True Cons.IH[of "acc_sum + x"] Cons.prems by simp
  next
    case False
    then have "add_sample q1 q3 x (acc_sum, kept) = Inr (acc_sum, kept)" by (auto simp: add_sample_def)
    then show ?thesis using False Cons by auto
  qed
qed simp

lemma sum_list_filter_le: "sum_list (filter P xs) \<le> sum_list (xs :: nat list)"
  by (induction xs) auto

lemma sum_list_bounds:
  "(\<And>x. x \<in> set xs \<Longrightarrow> a \<le> x \<and> x \<le> b) \<Longrightarrow> a * length xs \<le> sum_list xs \<and> sum_list xs \<le> b * length (xs :: nat list)"
  by (induction xs) (auto simp: add_mono)

text \<open>Between two positions of a sorted list everything passes the filter.\<close>

lemma sorted_filter_length:
  assumes "sorted xs" "i \<le> k" "k < length xs"
  shows "Suc k - i \<le> length (filter (\<lambda>x. xs ! i \<le> x \<and> x \<le> xs ! k) (xs :: nat list))"
proof -
  have "{i..k} \<subseteq> {j. j < length xs \<and> xs ! i \<le> xs ! j \<and> xs ! j \<le> xs ! k}"
    using assms by (auto intro: sorted_nth_mono)
  then have "card {i..k} \<le> card {j. j < length xs \<and> xs ! i \<le> xs ! j \<and> xs ! j \<le> xs ! k}"
    by (intro card_mono) auto
  then show ?thesis by (simp add: length_filter_conv_card)
qed

text \<open>
  The calibration's average: over any samples whose sum is a \<open>u32\<close> it returns without panic the
  sum and the number of the samples between the first and the third quartile; these are at least half
  of them, so the caller never divides by zero, and their average lies between the two quartiles.
\<close>

theorem calibration_average:
  assumes "samples \<noteq> []" "sum_list samples < 2 ^ 32"
  shows "\<exists>total_ticks kept. average_without_some_outliers samples = Inr (total_ticks, kept)
    \<and> length samples \<le> 2 * kept
    \<and> sort samples ! (length samples div 4) * kept \<le> total_ticks
    \<and> total_ticks \<le> sort samples ! (3 * length samples div 4) * kept"
proof -
  let ?d = "sort samples" and ?n = "length samples"
  let ?q1 = "?d ! (?n div 4)" and ?q3 = "?d ! (3 * ?n div 4)"
  let ?f = "filter (\<lambda>x. ?q1 \<le> x \<and> x \<le> ?q3) ?d"
  have n: "0 < ?n" "?n div 4 < ?n" "3 * ?n div 4 < ?n" "?n div 4 \<le> 3 * ?n div 4" "?n \<le> 2 * (Suc (3 * ?n div 4) - ?n div 4)"
    using assms(1) by (auto simp: div_less_iff_less_mult)
  have "sum_list ?d = sum_list samples" by (metis mset_sort sum_mset_sum_list)
  then have "sum_list ?f < 2 ^ 32" using le_less_trans[OF sum_list_filter_le[of _ ?d]] assms(2) by simp
  then have run: "average_without_some_outliers samples = Inr (sum_list ?f, length ?f)"
    using n add_samples[of 0 ?q1 ?q3 ?d 0] by (simp add: average_without_some_outliers_def index_at_def Let_def)
  have "Suc (3 * ?n div 4) - ?n div 4 \<le> length ?f" using n by (intro sorted_filter_length) simp_all
  moreover have "?q1 * length ?f \<le> sum_list ?f \<and> sum_list ?f \<le> ?q3 * length ?f" by (rule sum_list_bounds) simp
  ultimately show ?thesis using run n(5) by (intro exI[of _ "sum_list ?f"] exI[of _ "length ?f"]) linarith
qed

section \<open>Witnesses\<close>

definition idle_cpu :: pit_cpu where
  "idle_cpu = \<lparr>cpu_sleeping = False, cpu_if = True, cpu_ports = []\<rparr>"

theorem pit_sleep_programs_witness:
  "\<exists>cmd low high.
     Pit_sleep_start packed (\<lambda>_. 5966) Pit_new 5 idle_cpu = Inr (True, \<lparr>cpu_sleeping = True, cpu_if = False,
           cpu_ports = [(0x43, cmd), (0x40, low), (0x40, high)]\<rparr>)
   \<and> unat low + 256 * unat high = 5966"
  using pit_sleep_programs[OF packed_packed, of idle_cpu "\<lambda>_. 5966" 5] by (auto simp: idle_cpu_def)

theorem pit_sleep_waits_witness:
  "\<exists>p. Pit_sleep_start packed (\<lambda>_. 5966) Pit_new 5 idle_cpu = Inr p
     \<and> (\<exists>s. sleeps (sleep_begin p) [Run, Run, Other, Run, Expire, Tick, Run] s \<and> sl_pc s = Halted)"
proof -
  obtain p where p: "Pit_sleep_start packed (\<lambda>_. 5966) Pit_new 5 idle_cpu = Inr p"
    by (simp add: Pit_sleep_start_def idle_cpu_def)
  then show ?thesis using pit_sleep_waits[OF p] by blast
qed

theorem calibration_average_witness:
  "\<exists>total_ticks kept. average_without_some_outliers [50, 10, 52, 51, 90] = Inr (total_ticks, kept)
     \<and> length [50, 10, 52, 51, 90 :: nat] \<le> 2 * kept \<and> 50 * kept \<le> total_ticks \<and> total_ticks \<le> 52 * kept"
proof -
  have "sort [50, 10, 52, 51, 90 :: nat] = [10, 50, 51, 52, 90]" by simp
  then show ?thesis using calibration_average[of "[50, 10, 52, 51, 90]"] by simp
qed

end
