(* ===== verification/Cmos.thy ===== *)
theory Cmos
  imports Prelude
begin

text \<open>
  The real-time clock, \<open>crates/cmos/src/lib.rs\<close>. The two ports act on a hardware state of any type;
  the loops that wait for a consistent sample are partial functions. The calendar of the crate
  \<open>chrono\<close> is the parameter \<open>chrono\<close>.
\<close>

unbundle bit_operations_syntax

section \<open>Reading registers\<close>

record 's rtc_ports =
  rtc_out :: "u16 \<Rightarrow> u8 \<Rightarrow> 's \<Rightarrow> 's"
  rtc_in :: "u16 \<Rightarrow> 's \<Rightarrow> u8 \<times> 's"

record CMOS =
  cm_address_port :: u16
  cm_data_port :: u16

definition CMOS_new :: CMOS where
  "CMOS_new = \<lparr>cm_address_port = 0x70, cm_data_port = 0x71\<rparr>"

definition CMOS_read :: "'s rtc_ports \<Rightarrow> CMOS \<Rightarrow> u8 \<Rightarrow> 's \<Rightarrow> u8 \<times> 's" where
  "CMOS_read p self reg s = rtc_in p (cm_data_port self) (rtc_out p (cm_address_port self) reg s)"

record RTCDateTime =
  rtc_year :: usize
  rtc_month :: u8
  rtc_day :: u8
  rtc_hour :: u8
  rtc_minute :: u8
  rtc_second :: u8

definition RTCDateTime_zero :: RTCDateTime where
  "RTCDateTime_zero = \<lparr>rtc_year = 0, rtc_month = 0, rtc_day = 0, rtc_hour = 0, rtc_minute = 0, rtc_second = 0\<rparr>"

text \<open>One round of the inner loop: the six registers and register A.\<close>

definition rtc_sample :: "'s rtc_ports \<Rightarrow> CMOS \<Rightarrow> 's \<Rightarrow> (RTCDateTime \<times> u8) \<times> 's" where
  "rtc_sample p self s =
     (case CMOS_read p self 0x00 s of (second, s) \<Rightarrow>
      case CMOS_read p self 0x02 s of (minute, s) \<Rightarrow>
      case CMOS_read p self 0x04 s of (hour, s) \<Rightarrow>
      case CMOS_read p self 0x07 s of (day, s) \<Rightarrow>
      case CMOS_read p self 0x08 s of (month, s) \<Rightarrow>
      case CMOS_read p self 0x09 s of (year, s) \<Rightarrow>
      case CMOS_read p self 0x0A s of (status, s) \<Rightarrow>
        ((\<lparr>rtc_year = unat year, rtc_month = month, rtc_day = day, rtc_hour = hour, rtc_minute = minute,
           rtc_second = second\<rparr>, status), s))"

partial_function (option) rtc_inner :: "'s rtc_ports \<Rightarrow> CMOS \<Rightarrow> 's \<Rightarrow> (RTCDateTime \<times> 's) option" where
  "rtc_inner p self s =
     (case rtc_sample p self s of ((rtc_time, status), s') \<Rightarrow>
        if status AND 0x80 = 0 then Some (rtc_time, s') else rtc_inner p self s')"

partial_function (option) rtc_outer ::
    "'s rtc_ports \<Rightarrow> CMOS \<Rightarrow> RTCDateTime \<Rightarrow> 's \<Rightarrow> (RTCDateTime \<times> 's) option" where
  "rtc_outer p self last_rtc_time s =
     Option.bind (rtc_inner p self s) (\<lambda>(rtc_time, s').
       if rtc_time = last_rtc_time then Some (rtc_time, s') else rtc_outer p self rtc_time s')"

section \<open>Decoding\<close>

definition add8 :: "u8 \<Rightarrow> u8 \<Rightarrow> u8 res" where
  "add8 a b = (if unat a + unat b < 256 then Inr (a + b) else Inl ArithOverflow)"

definition mul8 :: "u8 \<Rightarrow> u8 \<Rightarrow> u8 res" where
  "mul8 a b = (if unat a * unat b < 256 then Inr (a * b) else Inl ArithOverflow)"

definition from_bcd :: "u8 \<Rightarrow> u8 res" where
  "from_bcd v = res_bind (mul8 (v div 16) 10) (\<lambda>tens. add8 (v AND 0x0F) tens)"

definition hour_from_bcd :: "u8 \<Rightarrow> u8 res" where
  "hour_from_bcd v =
     res_bind (mul8 ((v AND 0x70) div 16) 10) (\<lambda>tens.
     res_bind (add8 (v AND 0x0F) tens) (\<lambda>h. Inr (h OR (v AND 0x80))))"

definition rtc_decode :: "u8 \<Rightarrow> u8 \<Rightarrow> RTCDateTime \<Rightarrow> RTCDateTime res" where
  "rtc_decode register_b century rtc_time =
     res_bind
       (if register_b AND 0x04 = 0 then
          res_bind (from_bcd (rtc_second rtc_time)) (\<lambda>second.
          res_bind (from_bcd (rtc_minute rtc_time)) (\<lambda>minute.
          res_bind (hour_from_bcd (rtc_hour rtc_time)) (\<lambda>hour.
          res_bind (from_bcd (rtc_day rtc_time)) (\<lambda>day.
          res_bind (from_bcd (rtc_month rtc_time)) (\<lambda>month.
          res_bind (usize_mul (rtc_year rtc_time div 16) 10) (\<lambda>tens.
          res_bind (usize_add (rtc_year rtc_time AND 0x0F) tens) (\<lambda>year.
          res_bind (from_bcd century) (\<lambda>century.
            Inr (\<lparr>rtc_year = year, rtc_month = month, rtc_day = day, rtc_hour = hour,
                  rtc_minute = minute, rtc_second = second\<rparr>, century)))))))))
        else Inr (rtc_time, century)) (\<lambda>(rtc_time, century).
     res_bind
       (if register_b AND 0x02 = 0 \<and> rtc_hour rtc_time AND 0x80 \<noteq> 0 then
          res_bind (add8 (rtc_hour rtc_time AND 0x7F) 12) (\<lambda>h. Inr (rtc_time\<lparr>rtc_hour := h mod 24\<rparr>))
        else Inr rtc_time) (\<lambda>rtc_time.
     res_bind (usize_mul (unat century) 100) (\<lambda>c.
     res_bind (usize_add (rtc_year rtc_time) c) (\<lambda>year. Inr (rtc_time\<lparr>rtc_year := year\<rparr>)))))"

record ('date, 'datetime) chrono =
  from_ymd_opt :: "nat \<Rightarrow> nat \<Rightarrow> nat \<Rightarrow> 'date option"
  and_hms_opt :: "'date \<Rightarrow> nat \<Rightarrow> nat \<Rightarrow> nat \<Rightarrow> 'datetime option"

definition to_datetime :: "('date, 'datetime) chrono \<Rightarrow> RTCDateTime \<Rightarrow> 'datetime res" where
  "to_datetime ch t =
     res_bind (unwrap (from_ymd_opt ch (rtc_year t) (unat (rtc_month t)) (unat (rtc_day t)))) (\<lambda>date.
       unwrap (and_hms_opt ch date (unat (rtc_hour t)) (unat (rtc_minute t)) (unat (rtc_second t))))"

definition CMOS_read_rtc ::
    "('date, 'datetime) chrono \<Rightarrow> 's rtc_ports \<Rightarrow> CMOS \<Rightarrow> u8 \<Rightarrow> ('s, panic, 'datetime) io" where
  "CMOS_read_rtc ch p self century_reg s =
     (case rtc_outer p self RTCDateTime_zero s of
        None \<Rightarrow> None
      | Some (rtc_time, s) \<Rightarrow>
          (case CMOS_read p self 0x0B s of (register_b, s) \<Rightarrow>
           case CMOS_read p self century_reg s of (century, s) \<Rightarrow>
             Some (res_bind (rtc_decode register_b century rtc_time) (to_datetime ch), s)))"

section \<open>Decoding what the clock holds\<close>

text \<open>
  The contents of the registers of an MC146818 for a given time: packed decimal or binary, and the
  hour from 1 to 12 with the top bit for the afternoon, or from 0 to 23.
\<close>

definition rtc_enc :: "u8 \<Rightarrow> nat \<Rightarrow> u8" where
  "rtc_enc register_b v = (if register_b AND 0x04 = 0 then of_nat (16 * (v div 10) + v mod 10) else of_nat v)"

definition rtc_enc_hour :: "u8 \<Rightarrow> nat \<Rightarrow> u8" where
  "rtc_enc_hour register_b h =
     (if register_b AND 0x02 \<noteq> 0 then rtc_enc register_b h
      else rtc_enc register_b (if h mod 12 = 0 then 12 else h mod 12) OR (if 12 \<le> h then 0x80 else 0))"

definition rtc_holds :: "(u8 \<Rightarrow> u8) \<Rightarrow> u8 \<Rightarrow> nat \<Rightarrow> nat \<Rightarrow> nat \<Rightarrow> nat \<Rightarrow> nat \<Rightarrow> nat \<Rightarrow> bool" where
  "rtc_holds regs century_reg y mo d h mi sec \<longleftrightarrow>
     regs 0x00 = rtc_enc (regs 0x0B) sec \<and> regs 0x02 = rtc_enc (regs 0x0B) mi
   \<and> regs 0x04 = rtc_enc_hour (regs 0x0B) h \<and> regs 0x07 = rtc_enc (regs 0x0B) d
   \<and> regs 0x08 = rtc_enc (regs 0x0B) mo \<and> regs 0x09 = rtc_enc (regs 0x0B) (y mod 100)
   \<and> regs century_reg = rtc_enc (regs 0x0B) (y div 100)
   \<and> y < 10000 \<and> 1 \<le> mo \<and> mo \<le> 12 \<and> 1 \<le> d \<and> d \<le> 31 \<and> h < 24 \<and> mi < 60 \<and> sec < 60"

lemma unat_low_nibble: "unat (v AND 0x0F :: u8) = unat v mod 16"
proof -
  have "v AND 0x0F = take_bit 4 v" by (simp add: take_bit_eq_mask mask_eq_exp_minus_1)
  then show ?thesis by (simp add: unat_mod_distrib take_bit_eq_mod)
qed

lemma unat8_of_nat: "n < 256 \<Longrightarrow> unat (of_nat n :: u8) = n"
  by (simp add: unat_of_nat)

lemma add8_of: "unat a + unat b < 256 \<Longrightarrow> add8 a b = Inr (of_nat (unat a + unat b))"
  by (simp add: add8_def)

lemma mul8_of: "unat a * unat b < 256 \<Longrightarrow> mul8 a b = Inr (of_nat (unat a * unat b))"
  by (simp add: mul8_def)

lemma nibbles: "v < 256 \<Longrightarrow> v div 16 < 16 \<and> v mod 16 < (16 :: nat)"
  by (simp add: div_less_iff_less_mult)

lemma from_bcd_eq: "from_bcd v = Inr (of_nat (unat v mod 16 + 10 * (unat v div 16)))"
proof -
  have d: "unat (v div 16) = unat v div 16" by (simp add: unat_div_distrib)
  have n: "unat v div 16 < 16" "unat v mod 16 < 16" using nibbles[of "unat v"] unsigned_less[of v] by simp_all
  then have m: "mul8 (v div 16) 10 = Inr (of_nat (10 * (unat v div 16)))"
    using d mul8_of[of "v div 16" 10] by (simp add: mult.commute)
  moreover have "unat (of_nat (10 * (unat v div 16)) :: u8) = 10 * (unat v div 16)"
    using n by (intro unat8_of_nat) simp
  ultimately show ?thesis using n add8_of[of "v AND 0x0F" "of_nat (10 * (unat v div 16))"]
    by (simp add: from_bcd_def unat_low_nibble)
qed

lemma from_bcd_enc:
  assumes "v < 100"
  shows "from_bcd (of_nat (16 * (v div 10) + v mod 10)) = Inr (of_nat v)"
proof -
  have "v div 10 < 10" "v mod 10 < 10" using assms by (simp_all add: div_less_iff_less_mult)
  then have "unat (of_nat (16 * (v div 10) + v mod 10) :: u8) = 16 * (v div 10) + v mod 10"
    by (intro unat8_of_nat) linarith
  moreover have "(16 * (v div 10) + v mod 10) mod 16 = v mod 10" "(16 * (v div 10) + v mod 10) div 16 = v div 10"
    using \<open>v mod 10 < 10\<close> by simp_all
  ultimately show ?thesis by (simp add: from_bcd_eq)
qed

lemma less_24: "h < 24 \<Longrightarrow> h \<in> {0, 1, 2, 3, 4, 5, 6, 7, 8, 9, 10, 11, 12, 13, 14, 15, 16, 17, 18, 19, 20, 21, 22, 23 :: nat}"
  by (simp only: insert_iff empty_iff simp_thms) presburger

text \<open>What becomes of the hour: right, except for the two hours that a 12-hour clock calls twelve.\<close>

definition decoded_hour :: "u8 \<Rightarrow> nat \<Rightarrow> nat" where
  "decoded_hour register_b h = (if register_b AND 0x02 = 0 \<and> h mod 12 = 0 then 12 - h else h)"

definition fix_hour :: "u8 \<Rightarrow> u8 \<Rightarrow> u8 res" where
  "fix_hour register_b hour =
     (if register_b AND 0x02 = 0 \<and> hour AND 0x80 \<noteq> 0
      then res_bind (add8 (hour AND 0x7F) 12) (\<lambda>h. Inr (h mod 24)) else Inr hour)"

lemma hour_bcd_decoded:
  assumes "h < 24" "rb AND 0x04 = 0"
  shows "res_bind (hour_from_bcd (rtc_enc_hour rb h)) (fix_hour rb) = Inr (of_nat (decoded_hour rb h))"
  using less_24[OF assms(1)] assms(2)
  by (cases "rb AND 2 = 0"; elim insertE emptyE;
      simp add: hour_from_bcd_def rtc_enc_hour_def rtc_enc_def fix_hour_def decoded_hour_def add8_def mul8_def)

lemma hour_bin_decoded:
  assumes "h < 24" "rb AND 0x04 \<noteq> 0"
  shows "fix_hour rb (rtc_enc_hour rb h) = Inr (of_nat (decoded_hour rb h))"
  using less_24[OF assms(1)] assms(2)
  by (cases "rb AND 2 = 0"; elim insertE emptyE;
      simp add: rtc_enc_hour_def rtc_enc_def fix_hour_def decoded_hour_def add8_def)

text \<open>The two bits of register B and the values it stands for, all fields at once.\<close>

lemma rtc_enc_bcd: "rb AND 0x04 = 0 \<Longrightarrow> v < 100 \<Longrightarrow> from_bcd (rtc_enc rb v) = Inr (of_nat v)"
  by (simp add: rtc_enc_def from_bcd_enc del: of_nat_add of_nat_mult)

lemma rtc_enc_year:
  assumes "rb AND 0x04 = 0" "v < 100"
  shows "(unat (rtc_enc rb v) AND 0x0F) + 10 * (unat (rtc_enc rb v) div 16) = v"
proof -
  have n: "v div 10 < 10" "v mod 10 < 10" using assms by (simp_all add: div_less_iff_less_mult)
  then have u: "unat (rtc_enc rb v) = 16 * (v div 10) + v mod 10"
    unfolding rtc_enc_def using assms(1) by (simp del: of_nat_add of_nat_mult) (intro unat8_of_nat, linarith)
  have "x AND 0x0F = x mod 16" for x :: nat
    using take_bit_eq_mask[of 4 x] by (simp add: mask_eq_exp_minus_1 take_bit_eq_mod)
  then show ?thesis unfolding u using n by simp
qed

lemma rtc_decode_holds:
  assumes h: "rtc_holds regs creg y mo d h mi sec"
  shows "rtc_decode (regs 0x0B) (regs creg)
      \<lparr>rtc_year = unat (regs 0x09), rtc_month = regs 0x08, rtc_day = regs 0x07, rtc_hour = regs 0x04,
       rtc_minute = regs 0x02, rtc_second = regs 0x00\<rparr>
    = Inr \<lparr>rtc_year = y, rtc_month = of_nat mo, rtc_day = of_nat d, rtc_hour = of_nat (decoded_hour (regs 0x0B) h),
           rtc_minute = of_nat mi, rtc_second = of_nat sec\<rparr>"
proof -
  let ?rb = "regs 0x0B"
  have y: "y div 100 < 100" "y mod 100 < 100" using h by (simp_all add: rtc_holds_def div_less_iff_less_mult)
  have fix_h: "(if ?rb AND 0x02 = 0 \<and> rtc_hour t AND 0x80 \<noteq> 0
        then res_bind (add8 (rtc_hour t AND 0x7F) 12) (\<lambda>h. Inr (t\<lparr>rtc_hour := h mod 24\<rparr>)) else Inr t)
      = res_bind (fix_hour ?rb (rtc_hour t)) (\<lambda>h. Inr (t\<lparr>rtc_hour := h\<rparr>))" for t
    by (simp add: fix_hour_def res_bind_assoc)
  have yr: "usize_mul c 100 = Inr (c * 100)" "usize_add (y mod 100) (y div 100 * 100) = Inr y" if "c < 256" for c
    using that h by (simp_all add: rtc_holds_def)
  show ?thesis
  proof (cases "?rb AND 0x04 = 0")
    case True
    obtain hr where hr: "hour_from_bcd (regs 0x04) = Inr hr" "fix_hour ?rb hr = Inr (of_nat (decoded_hour ?rb h))"
      using hour_bcd_decoded[of h ?rb] True h by (auto simp: rtc_holds_def)
    have f: "from_bcd (regs 0) = Inr (of_nat sec)" "from_bcd (regs 2) = Inr (of_nat mi)" "from_bcd (regs 7) = Inr (of_nat d)"
      "from_bcd (regs 8) = Inr (of_nat mo)" "from_bcd (regs creg) = Inr (of_nat (y div 100))"
      using h rtc_enc_bcd[OF True] y by (simp_all add: rtc_holds_def)
    have u: "unat (of_nat (y div 100) :: u8) = y div 100" using y by (intro unat8_of_nat) simp
    have yy: "usize_mul (unat (regs 9) div 16) 10 = Inr (10 * (unat (regs 9) div 16))"
      "usize_add (unat (regs 9) AND 0x0F) (10 * (unat (regs 9) div 16)) = Inr (y mod 100)"
      using rtc_enc_year[OF True y(2)] h unsigned_less[of "regs 9"] by (simp_all add: rtc_holds_def)
    show ?thesis unfolding rtc_decode_def using yr[of "y div 100"] y
      by (simp only: if_P[OF True] RTCDateTime.select_convs f hr(1) yy res_bind_Inr prod.case fix_h hr(2) u RTCDateTime.update_convs)
  next
    case False
    have u: "unat (rtc_enc ?rb v) = v" "rtc_enc ?rb v = of_nat v" if "v < 100" for v
      using that False by (auto simp: rtc_enc_def intro!: unat8_of_nat)
    have hh: "fix_hour ?rb (regs 4) = Inr (of_nat (decoded_hour ?rb h))"
      using hour_bin_decoded[of h ?rb] False h by (auto simp: rtc_holds_def)
    have f: "regs 0 = of_nat sec" "regs 2 = of_nat mi" "regs 7 = of_nat d" "regs 8 = of_nat mo"
      "unat (regs 9) = y mod 100" "unat (regs creg) = y div 100"
      using h u y by (simp_all add: rtc_holds_def)
    show ?thesis unfolding rtc_decode_def using yr[of "y div 100"] y
      by (simp only: if_not_P[OF False] RTCDateTime.select_convs f res_bind_Inr prod.case fix_h hh RTCDateTime.update_convs)
  qed
qed

section \<open>Waiting for a consistent sample\<close>

text \<open>
  A clock that settles: every register read brings it closer to a moment from which on the registers
  keep their values and no update is in progress.
\<close>

definition rtc_settles :: "'s rtc_ports \<Rightarrow> CMOS \<Rightarrow> ('s \<Rightarrow> nat) \<Rightarrow> (u8 \<Rightarrow> u8) \<Rightarrow> bool" where
  "rtc_settles p self settle regs \<longleftrightarrow>
     (\<forall>reg s. settle (snd (CMOS_read p self reg s)) \<le> settle s - 1
        \<and> (settle s = 0 \<longrightarrow> fst (CMOS_read p self reg s) = regs reg))
   \<and> regs 0x0A AND 0x80 = 0"

definition settled_time :: "(u8 \<Rightarrow> u8) \<Rightarrow> RTCDateTime" where
  "settled_time regs =
     \<lparr>rtc_year = unat (regs 0x09), rtc_month = regs 0x08, rtc_day = regs 0x07, rtc_hour = regs 0x04,
      rtc_minute = regs 0x02, rtc_second = regs 0x00\<rparr>"

lemma settle_read:
  assumes "rtc_settles p self settle regs"
  shows "settle (snd (CMOS_read p self reg s)) \<le> settle s - 1"
    "settle s = 0 \<Longrightarrow> CMOS_read p self reg s = (regs reg, snd (CMOS_read p self reg s))"
    "settle s = 0 \<Longrightarrow> settle (snd (CMOS_read p self reg s)) = 0"
proof -
  show le: "settle (snd (CMOS_read p self reg s)) \<le> settle s - 1" using assms by (simp add: rtc_settles_def)
  show "settle s = 0 \<Longrightarrow> settle (snd (CMOS_read p self reg s)) = 0" using le by simp
  show "settle s = 0 \<Longrightarrow> CMOS_read p self reg s = (regs reg, snd (CMOS_read p self reg s))"
    using assms by (simp add: rtc_settles_def prod_eq_iff)
qed

lemma rtc_sample_settle:
  assumes "rtc_settles p self settle regs"
  shows "settle (snd (rtc_sample p self s)) \<le> settle s - 1"
    "settle s = 0 \<Longrightarrow> fst (rtc_sample p self s) = (settled_time regs, regs 0x0A)"
proof -
  note r = settle_read[OF assms]
  show "settle (snd (rtc_sample p self s)) \<le> settle s - 1"
  proof -
    have step: "settle s0 \<le> settle s - 1 \<Longrightarrow> settle (snd (CMOS_read p self reg s0)) \<le> settle s - 1" for s0 reg
      using r(1)[of reg s0] by linarith
    show ?thesis unfolding rtc_sample_def case_prod_beta snd_conv by (intro step r(1))
  qed
  assume "settle s = 0"
  then show "fst (rtc_sample p self s) = (settled_time regs, regs 0x0A)"
    unfolding rtc_sample_def settled_time_def case_prod_beta fst_conv
    using r(2,3) by (metis fst_conv)
qed

lemma rtc_inner_settle:
  assumes "rtc_settles p self settle regs"
  shows "\<exists>t s'. rtc_inner p self s = Some (t, s') \<and> settle s' \<le> settle s - 1 \<and> (settle s = 0 \<longrightarrow> t = settled_time regs)"
proof (induction "settle s" arbitrary: s rule: less_induct)
  case less
  obtain t st s' where sm: "rtc_sample p self s = ((t, st), s')" by (metis prod.exhaust)
  note le = rtc_sample_settle[OF assms, of s, unfolded sm snd_conv fst_conv]
  show ?case
  proof (cases "st AND 0x80 = 0")
    case True
    then have "rtc_inner p self s = Some (t, s')" by (subst rtc_inner.simps) (simp add: sm)
    then show ?thesis using le by auto
  next
    case False
    then have pos: "0 < settle s" using le(2) assms by (auto simp: rtc_settles_def)
    then have lt: "settle s' < settle s" using le(1) by linarith
    have "rtc_inner p self s = rtc_inner p self s'" using False by (subst rtc_inner.simps) (simp add: sm)
    then show ?thesis using less[OF lt] pos lt by fastforce
  qed
qed

lemma rtc_outer_settled:
  assumes "rtc_settles p self settle regs" "settle s = 0"
  shows "\<exists>s'. rtc_outer p self l s = Some (settled_time regs, s') \<and> settle s' = 0"
proof -
  have step: "\<exists>s'. rtc_inner p self s = Some (settled_time regs, s') \<and> settle s' = 0" if "settle s = 0" for s
    using rtc_inner_settle[OF assms(1), of s] that by auto
  obtain s1 where s1: "rtc_inner p self s = Some (settled_time regs, s1)" "settle s1 = 0" using step assms(2) by blast
  obtain s2 where s2: "rtc_inner p self s1 = Some (settled_time regs, s2)" "settle s2 = 0" using step s1(2) by blast
  have again: "rtc_outer p self (settled_time regs) s1 = Some (settled_time regs, s2)"
    by (subst rtc_outer.simps) (simp add: s2)
  show ?thesis using s1 s2 again by (subst rtc_outer.simps) simp
qed

lemma rtc_outer_returns:
  assumes "rtc_settles p self settle regs"
  shows "\<exists>r. rtc_outer p self l s = Some r"
proof (induction "settle s" arbitrary: s l rule: less_induct)
  case less
  show ?case
  proof (cases "settle s = 0")
    case True
    then show ?thesis using rtc_outer_settled[OF assms] by blast
  next
    case False
    obtain t s' where i: "rtc_inner p self s = Some (t, s')" "settle s' \<le> settle s - 1"
      using rtc_inner_settle[OF assms] by blast
    then have "\<exists>r. rtc_outer p self t s' = Some r" using False by (intro less) linarith
    then show ?thesis using i(1) by (subst rtc_outer.simps) auto
  qed
qed

section \<open>Reading the clock\<close>


text \<open>A clock at noon of 29 February 2024, 12-hour mode, packed decimal; its state is the selected register.\<close>

definition noon_regs :: "u8 \<Rightarrow> u8" where
  "noon_regs r = (if r = 4 then 0x92 else if r = 7 then 0x29 else if r = 8 then 0x02 else if r = 9 then 0x24
     else if r = 0x32 then 0x20 else 0)"

definition noon_ports :: "u8 rtc_ports" where
  "noon_ports = \<lparr>rtc_out = (\<lambda>port v s. v), rtc_in = (\<lambda>port s. (noon_regs s, s))\<rparr>"

definition plain_chrono :: "(nat \<times> nat \<times> nat, nat list) chrono" where
  "plain_chrono = \<lparr>from_ymd_opt = (\<lambda>y m d. Some (y, m, d)), and_hms_opt = (\<lambda>(y, m, d) h mi s. Some [y, m, d, h, mi, s])\<rparr>"


end
