(* ===== verification/Hpet.thy ===== *)
theory Hpet
  imports Bitfield
begin

text \<open>
  The high precision event timer (\<open>crates/hpet/src/lib.rs\<close>, \<open>kernel/src/arch/x86_64/hpet.rs\<close>) and the
  kernel's clocks over it (\<open>kernel/src/arch/x86_64/time.rs\<close>, \<open>kernel/src/task/timer.rs\<close>).

  The timer's registers are a record of the values that reads return; an operation that updates a
  register returns the value it writes there. Durations are nanoseconds.
\<close>

unbundle bit_operations_syntax

section \<open>Registers\<close>

definition CapabilitiesAndID_layout :: "nat list" where
  "CapabilitiesAndID_layout = [8, 4, 1, 1, 1, 16, 32]"

definition Configuration_layout :: "nat list" where
  "Configuration_layout = [1, 1, 62]"

definition InterruptStatus_layout :: "nat list" where
  "InterruptStatus_layout = [32, 32]"

definition ConfigurationAndCapabilities_layout :: "nat list" where
  "ConfigurationAndCapabilities_layout = [1, 1, 1, 1, 1, 1, 1, 1, 1, 4, 1, 1, 16, 32]"

record HpetTimer =
  ht_configuration_and_capabilities :: u64
  ht_comparator_value :: u64
  ht_fsb_interrupt :: u64

record Hpet =
  hp_capabilities_and_id :: u64
  hp_configuration :: u64
  hp_general_interrupt_status :: u64
  hp_counter_value :: u64
  hp_timers :: "HpetTimer list"

definition Hpet_counter_period :: "u64 bitfield \<Rightarrow> Hpet \<Rightarrow> u32" where
  "Hpet_counter_period bf self = ucast (bf_get bf CapabilitiesAndID_layout 6 (hp_capabilities_and_id self))"

definition Hpet_counter_value :: "Hpet \<Rightarrow> u64" where
  "Hpet_counter_value self = hp_counter_value self"

definition Hpet_interrupt_status :: "u64 bitfield \<Rightarrow> Hpet \<Rightarrow> u8 \<Rightarrow> bool" where
  "Hpet_interrupt_status bf self timer =
     (let timer = ucast timer :: u32
      in ucast (bf_get bf InterruptStatus_layout 0 (hp_general_interrupt_status self)) AND timer = timer)"

text \<open>The value written to the interrupt status register; \<open>1 << timer\<close> panics from 32 on.\<close>

definition Hpet_clear_interrupt_status :: "u64 bitfield \<Rightarrow> Hpet \<Rightarrow> u8 \<Rightarrow> u64 res" where
  "Hpet_clear_interrupt_status bf self timer =
     (let s = hp_general_interrupt_status self;
          sts = ucast (bf_get bf InterruptStatus_layout 0 s) :: u32
      in if unat timer < 32
         then Inr (bf_set bf InterruptStatus_layout 0 (ucast (sts OR push_bit (unat timer) 1)) s)
         else Inl ArithOverflow)"

definition Hpet_set_counter_enable :: "u64 bitfield \<Rightarrow> bool \<Rightarrow> Hpet \<Rightarrow> Hpet" where
  "Hpet_set_counter_enable bf enable self =
     self\<lparr>hp_configuration := bf_set bf Configuration_layout 0 (of_bool enable) (hp_configuration self)\<rparr>"

definition Hpet_timers :: "u64 bitfield \<Rightarrow> Hpet \<Rightarrow> HpetTimer list res" where
  "Hpet_timers bf self =
     (let last_timer_index = unat (bf_get bf CapabilitiesAndID_layout 1 (hp_capabilities_and_id self))
      in if last_timer_index < length (hp_timers self)
         then Inr (take (last_timer_index + 1) (hp_timers self)) else Inl IndexOutOfBounds)"

section \<open>The kernel's clocks\<close>

text \<open>
  The statics of \<open>hpet.rs\<close>, \<open>time.rs\<close> and \<open>timer.rs\<close>. \<open>HPET\<close> is null until \<open>init\<close> has mapped the timer
  that the firmware tables name.
\<close>

record clock =
  ck_hpet :: "Hpet option"
  ck_uptime_ms :: u64
  ck_boot_sec :: u64
  ck_last_hpet :: u64
  ck_clock_ticks :: u64

definition clock_static :: clock where
  "clock_static = \<lparr>ck_hpet = None, ck_uptime_ms = 0, ck_boot_sec = 0, ck_last_hpet = 0, ck_clock_ticks = 0\<rparr>"

definition hpet_init :: "u64 bitfield \<Rightarrow> Hpet option \<Rightarrow> clock \<Rightarrow> clock" where
  "hpet_init bf hpet_info c =
     (case hpet_info of None \<Rightarrow> c | Some hpet \<Rightarrow> c\<lparr>ck_hpet := Some (Hpet_set_counter_enable bf True hpet)\<rparr>)"

definition get_counter :: "clock \<Rightarrow> u64 option" where
  "get_counter c = map_option Hpet_counter_value (ck_hpet c)"

definition get_counter_period :: "u64 bitfield \<Rightarrow> clock \<Rightarrow> u32 option" where
  "get_counter_period bf c = map_option (Hpet_counter_period bf) (ck_hpet c)"

definition TIMER_INTERVAL_MS :: nat where "TIMER_INTERVAL_MS = 5"

definition time_init :: "u64 \<Rightarrow> clock \<Rightarrow> clock" where
  "time_init rtc_timestamp c = c\<lparr>ck_boot_sec := rtc_timestamp\<rparr>"

definition time_on_tick :: "clock \<Rightarrow> clock" where
  "time_on_tick c =
     (let c = c\<lparr>ck_uptime_ms := ck_uptime_ms c + of_nat TIMER_INTERVAL_MS\<rparr>
      in case get_counter c of Some counter \<Rightarrow> c\<lparr>ck_last_hpet := counter\<rparr> | None \<Rightarrow> c)"

definition timer_on_tick :: "clock \<Rightarrow> clock" where
  "timer_on_tick c = c\<lparr>ck_clock_ticks := ck_clock_ticks c + 1\<rparr>"

definition duration_add :: "nat \<Rightarrow> nat \<Rightarrow> nat res" where
  "duration_add a b = (if a + b < 2 ^ 64 * 1000000000 then Inr (a + b) else Inl UnwrapFailed)"

definition now :: "u64 bitfield \<Rightarrow> clock \<Rightarrow> nat res" where
  "now bf c =
     (let uptime = unat (ck_uptime_ms c) * 1000000 in
      case get_counter c of
        Some counter \<Rightarrow>
          res_bind (unwrap (get_counter_period bf c)) (\<lambda>period.
          res_bind (usize_mul (unat counter - unat (ck_last_hpet c)) (unat period)) (\<lambda>fs.
            duration_add uptime (fs div 1000000)))
      | None \<Rightarrow> Inr uptime)"

definition timestamp :: "u64 bitfield \<Rightarrow> clock \<Rightarrow> nat res" where
  "timestamp bf c = res_bind (now bf c) (duration_add (unat (ck_boot_sec c) * 1000000000))"

section \<open>The counter's period\<close>

lemma Capabilities_field_6: "field_get CapabilitiesAndID_layout 6 (w :: u64) = take_bit 32 (drop_bit 31 w)"
  by (simp add: field_get_def field_offset_def CapabilitiesAndID_layout_def)

text \<open>The register as the specification of the timer lays it out: the period in its upper half.\<close>

definition hpet_capabilities :: "nat \<Rightarrow> nat \<Rightarrow> u64" where
  "hpet_capabilities period low = of_nat (2 ^ 32 * period + low)"

lemma counter_period_eq:
  assumes "bitfield_packed bf" "hp_capabilities_and_id h = hpet_capabilities period low" "period < 2 ^ 32" "low < 2 ^ 32"
  shows "unat (Hpet_counter_period bf h) = (2 * period + low div 2 ^ 31) mod 2 ^ 32"
proof -
  have u: "unat (hpet_capabilities period low) = 2 ^ 32 * period + low"
    unfolding hpet_capabilities_def using assms(3,4) by (simp only: unat_of_nat) simp
  have "unat (Hpet_counter_period bf h) = (2 ^ 32 * period + low) div 2 ^ 31 mod 2 ^ 32"
    using assms(1,2) u
    by (simp add: Hpet_counter_period_def bitfield_packed_def Capabilities_field_6 unsigned_ucast_eq unsigned_take_bit_eq
        unsigned_drop_bit_eq take_bit_eq_mod drop_bit_eq_div unat_div_distrib unat_mod_distrib)
  also have "(2 ^ 32 * period + low) div 2 ^ 31 = 2 * period + low div (2 ^ 31 :: nat)" by simp
  finally show ?thesis .
qed

section \<open>The kernel's time\<close>

lemma now_hpet:
  assumes "ck_hpet c = Some h" "bitfield_packed bf" "hp_capabilities_and_id h = hpet_capabilities period low"
    "period < 2 ^ 31" "low < 2 ^ 32"
    "(unat (hp_counter_value h) - unat (ck_last_hpet c)) * (2 * period + low div 2 ^ 31) < 2 ^ 64"
  shows "now bf c = Inr (unat (ck_uptime_ms c) * 1000000
    + (unat (hp_counter_value h) - unat (ck_last_hpet c)) * (2 * period + low div 2 ^ 31) div 1000000)"
proof -
  let ?fs = "(unat (hp_counter_value h) - unat (ck_last_hpet c)) * (2 * period + low div 2 ^ 31)"
  have "low div 2 ^ 31 < 2" using assms(5) by (simp add: div_less_iff_less_mult)
  then have p: "unat (Hpet_counter_period bf h) = 2 * period + low div 2 ^ 31"
    using counter_period_eq[OF assms(2,3) _ assms(5)] assms(4) by simp
  have "unat (ck_uptime_ms c) < 2 ^ 64" using unsigned_less[of "ck_uptime_ms c"] by simp
  moreover have "?fs div 1000000 < 2 ^ 64" using assms(6) by (meson div_le_dividend le_less_trans)
  ultimately have "unat (ck_uptime_ms c) * 1000000 + ?fs div 1000000 < 2 ^ 64 * 1000000000" by simp
  then show ?thesis using assms(1,6) p
    by (simp add: now_def get_counter_def get_counter_period_def Hpet_counter_value_def duration_add_def unwrap_def)
qed

text \<open>
  The uptime. Without an HPET it is the number of timer interrupts times their interval. With one,
  whose capabilities register holds the counter's period as its specification says, \<open>now\<close> adds the time
  since the last timer interrupt, but at twice the period (plus the top bit of the vendor): the layout
  declared for the register is one bit short below the period. So the clock runs backwards: when a
  timer interrupt arrives just as its interval has passed, the time after it is at least a whole
  interval before the time that was read just before it.
\<close>

theorem clock_now:
  assumes "bitfield_packed bf"
  shows "(ck_hpet c = None \<longrightarrow> now bf c = Inr (unat (ck_uptime_ms c) * 1000000))
   \<and> (\<forall>h period low. ck_hpet c = Some h \<and> hp_capabilities_and_id h = hpet_capabilities period low
        \<and> period < 2 ^ 31 \<and> low < 2 ^ 32
        \<and> (unat (hp_counter_value h) - unat (ck_last_hpet c)) * (2 * period + low div 2 ^ 31) < 2 ^ 64 \<longrightarrow>
       now bf c = Inr (unat (ck_uptime_ms c) * 1000000
         + (unat (hp_counter_value h) - unat (ck_last_hpet c)) * (2 * period + low div 2 ^ 31) div 1000000)
     \<and> ((unat (hp_counter_value h) - unat (ck_last_hpet c)) * period = TIMER_INTERVAL_MS * 10 ^ 12
         \<and> unat (ck_uptime_ms c) + TIMER_INTERVAL_MS < 2 ^ 64 \<longrightarrow>
        (\<exists>before after. now bf c = Inr before \<and> now bf (time_on_tick c) = Inr after
           \<and> after + TIMER_INTERVAL_MS * 1000000 \<le> before)))"
proof (intro conjI allI impI)
  show "ck_hpet c = None \<Longrightarrow> now bf c = Inr (unat (ck_uptime_ms c) * 1000000)"
    by (simp add: now_def get_counter_def)
next
  fix h :: Hpet and period low
  let ?n = "unat (hp_counter_value h) - unat (ck_last_hpet c)"
  assume a: "ck_hpet c = Some h \<and> hp_capabilities_and_id h = hpet_capabilities period low
        \<and> period < 2 ^ 31 \<and> low < 2 ^ 32 \<and> ?n * (2 * period + low div 2 ^ 31) < 2 ^ 64"
  then have t: "now bf c = Inr (unat (ck_uptime_ms c) * 1000000 + ?n * (2 * period + low div 2 ^ 31) div 1000000)"
    using assms by (intro now_hpet) auto
  then show "now bf c = Inr (unat (ck_uptime_ms c) * 1000000 + ?n * (2 * period + low div 2 ^ 31) div 1000000)" .
  assume b: "?n * period = TIMER_INTERVAL_MS * 10 ^ 12 \<and> unat (ck_uptime_ms c) + TIMER_INTERVAL_MS < 2 ^ 64"
  have u: "unat (ck_uptime_ms c + of_nat TIMER_INTERVAL_MS) = unat (ck_uptime_ms c) + TIMER_INTERVAL_MS"
    using b by (simp add: unat_word_ariths TIMER_INTERVAL_MS_def)
  have "now bf (time_on_tick c) = Inr (unat (ck_uptime_ms (time_on_tick c)) * 1000000
      + (unat (hp_counter_value h) - unat (ck_last_hpet (time_on_tick c))) * (2 * period + low div 2 ^ 31) div 1000000)"
    using a assms by (intro now_hpet) (auto simp: time_on_tick_def get_counter_def Hpet_counter_value_def Let_def)
  then have after: "now bf (time_on_tick c) = Inr ((unat (ck_uptime_ms c) + TIMER_INTERVAL_MS) * 1000000)"
    using a u by (simp add: time_on_tick_def get_counter_def Hpet_counter_value_def Let_def)
  have "2 * (TIMER_INTERVAL_MS * 10 ^ 12) div 1000000 \<le> ?n * (2 * period + low div 2 ^ 31) div 1000000"
  proof (intro div_le_mono)
    have "n * (2 * period + k) = 2 * (n * period) + n * k" for n k by (simp add: algebra_simps)
    then show "2 * (TIMER_INTERVAL_MS * 10 ^ 12) \<le> ?n * (2 * period + low div 2 ^ 31)" using b by simp
  qed
  then show "\<exists>before after. now bf c = Inr before \<and> now bf (time_on_tick c) = Inr after
      \<and> after + TIMER_INTERVAL_MS * 1000000 \<le> before"
    using t after by (simp add: TIMER_INTERVAL_MS_def)
qed

text \<open>A 100 MHz counter of vendor 8086h, as the emulator has it, 5 ms after the last interrupt.\<close>

definition qemu_hpet :: Hpet where
  "qemu_hpet = \<lparr>hp_capabilities_and_id = hpet_capabilities 10000000 0x8086A201, hp_configuration = 1,
     hp_general_interrupt_status = 0, hp_counter_value = 700000, hp_timers = []\<rparr>"

theorem clock_now_witness:
  "\<exists>before after. now packed (clock_static\<lparr>ck_hpet := Some qemu_hpet, ck_last_hpet := 200000\<rparr>) = Inr before
     \<and> now packed (time_on_tick (clock_static\<lparr>ck_hpet := Some qemu_hpet, ck_last_hpet := 200000\<rparr>)) = Inr after
     \<and> after + 5000000 \<le> before"
  using clock_now[OF packed_packed, of "clock_static\<lparr>ck_hpet := Some qemu_hpet, ck_last_hpet := 200000\<rparr>",
      THEN conjunct2, rule_format, of qemu_hpet 10000000 "0x8086A201"]
  by (force simp: clock_static_def qemu_hpet_def TIMER_INTERVAL_MS_def)

end
