(* ===== verification/Net.thy ===== *)
theory Net
  imports Prelude Contracts
begin

text \<open>
  The network glue, \<open>kernel/src/net/mod.rs\<close>: the DHCP and IPv6 autoconfiguration tasks, the report of
  the configuration, and the poll functions behind the asynchronous socket operations.

  The protocol stack \<open>smoltcp\<close> is a parameter: the operations on an interface (\<open>iface_api\<close>) and on each
  kind of socket, with the documented behaviour that a property relies on as a hypothesis. A lock is
  held for the whole of a step or poll, so each of them is atomic.
\<close>

unbundle bit_operations_syntax

section \<open>Addresses and the interface\<close>

type_synonym ipv4 = u32
type_synonym ipv6 = "u16 list"

datatype IpAddress = Ipv4 ipv4 | Ipv6 ipv6

datatype IpCidr = CidrV4 ipv4 nat | CidrV6 ipv6 nat

datatype HardwareAddress = Ethernet "u8 list" | HwIp

record 'r iface_api =
  if_push :: "IpCidr \<Rightarrow> IpCidr list \<Rightarrow> IpCidr list"
  if_add_default_ipv4 :: "ipv4 \<Rightarrow> 'r \<Rightarrow> 'r"
  if_remove_default_ipv4 :: "'r \<Rightarrow> 'r"
  if_add_default_ipv6 :: "ipv6 \<Rightarrow> 'r \<Rightarrow> 'r"
  if_routes :: "'r \<Rightarrow> (IpCidr \<times> IpAddress) list"

record 'r InterfaceInner =
  ni_hardware_addr :: HardwareAddress
  ni_ip_addrs :: "IpCidr list"
  ni_routes :: 'r
  ni_dns_servers :: "IpAddress list"

section \<open>DHCP\<close>

record Dhcp4Config =
  dc_address :: "ipv4 \<times> nat"
  dc_router :: "ipv4 option"
  dc_dns_servers :: "ipv4 list"

datatype Dhcp4Event = Configure Dhcp4Config | Deconfigure

text \<open>\<open>iter().position(p)\<close>, and the removal of the element at a position.\<close>

fun find_position :: "('a \<Rightarrow> bool) \<Rightarrow> 'a list \<Rightarrow> nat option" where
  "find_position p [] = None"
| "find_position p (x # xs) = (if p x then Some 0 else map_option Suc (find_position p xs))"

definition remove_at :: "nat \<Rightarrow> 'a list \<Rightarrow> 'a list" where
  "remove_at i xs = take i xs @ drop (Suc i) xs"

lemma find_position_less: "find_position p xs = Some i \<Longrightarrow> i < length xs"
  by (induction xs arbitrary: i) (auto split: if_splits)

definition is_lease :: "Dhcp4Config \<Rightarrow> IpCidr \<Rightarrow> bool" where
  "is_lease config c = (case c of CidrV4 a n \<Rightarrow> (a, n) = dc_address config | CidrV6 a n \<Rightarrow> False)"

definition is_server :: "Dhcp4Config \<Rightarrow> IpAddress \<Rightarrow> bool" where
  "is_server config a = (case a of Ipv4 a \<Rightarrow> a \<in> set (dc_dns_servers config) | Ipv6 a \<Rightarrow> False)"

function remove_servers :: "Dhcp4Config \<Rightarrow> IpAddress list \<Rightarrow> IpAddress list" where
  "remove_servers config servers =
     (case find_position (is_server config) servers of
        Some index \<Rightarrow> remove_servers config (remove_at index servers)
      | None \<Rightarrow> servers)"
  by auto
termination
  by (relation "measure (length \<circ> snd)") (auto simp: remove_at_def dest!: find_position_less)

declare remove_servers.simps [simp del]

definition dhcp4_configure :: "'r iface_api \<Rightarrow> Dhcp4Config \<Rightarrow> 'r InterfaceInner \<Rightarrow> 'r InterfaceInner" where
  "dhcp4_configure ia config inner =
     (let inner = inner\<lparr>ni_ip_addrs := if_push ia (CidrV4 (fst (dc_address config)) (snd (dc_address config))) (ni_ip_addrs inner)\<rparr>;
          inner = inner\<lparr>ni_routes :=
            (case dc_router config of
               Some router \<Rightarrow> if_add_default_ipv4 ia router (ni_routes inner)
             | None \<Rightarrow> if_remove_default_ipv4 ia (ni_routes inner))\<rparr>
      in inner\<lparr>ni_dns_servers := ni_dns_servers inner @ map Ipv4 (dc_dns_servers config)\<rparr>)"

definition dhcp4_deconfigure :: "'r iface_api \<Rightarrow> Dhcp4Config \<Rightarrow> 'r InterfaceInner \<Rightarrow> 'r InterfaceInner" where
  "dhcp4_deconfigure ia config inner =
     (let inner = inner\<lparr>ni_ip_addrs :=
            (case find_position (is_lease config) (ni_ip_addrs inner) of
               Some index \<Rightarrow> remove_at index (ni_ip_addrs inner)
             | None \<Rightarrow> ni_ip_addrs inner)\<rparr>;
          inner = inner\<lparr>ni_routes := if_remove_default_ipv4 ia (ni_routes inner)\<rparr>
      in inner\<lparr>ni_dns_servers := remove_servers config (ni_dns_servers inner)\<rparr>)"

text \<open>One round of the task: the default driver, if any, and the configuration it remembers.\<close>

definition dhcp4_step ::
    "'r iface_api \<Rightarrow> Dhcp4Event \<Rightarrow> 'r InterfaceInner option \<times> Dhcp4Config option
       \<Rightarrow> ('r InterfaceInner option \<times> Dhcp4Config option) res" where
  "dhcp4_step ia event s =
     (case s of (default_driver, current_config) \<Rightarrow>
      case event of
        Configure config \<Rightarrow>
          res_bind (unwrap default_driver) (\<lambda>inner. Inr (Some (dhcp4_configure ia config inner), Some config))
      | Deconfigure \<Rightarrow>
          (case current_config of
             Some config \<Rightarrow>
               res_bind (unwrap default_driver) (\<lambda>inner. Inr (Some (dhcp4_deconfigure ia config inner), current_config))
           | None \<Rightarrow> Inr (default_driver, current_config)))"

definition dhcp4 ::
    "'r iface_api \<Rightarrow> Dhcp4Event list \<Rightarrow> 'r InterfaceInner option \<Rightarrow> ('r InterfaceInner option \<times> Dhcp4Config option) res" where
  "dhcp4 ia events default_driver = res_fold (dhcp4_step ia) events (default_driver, None)"

section \<open>IPv6 autoconfiguration\<close>

text \<open>The link-local address of \<open>auto6\<close>, from the six bytes of the hardware address.\<close>

definition auto6_link_ip :: "u8 list \<Rightarrow> ipv6" where
  "auto6_link_ip mac =
     (let a = push_bit 8 (ucast (mac ! 0 AND 0xFD)) OR ucast (mac ! 1);
          b = push_bit 8 (ucast (mac ! 2)) OR 0xFF;
          c = 0xFE00 OR ucast (mac ! 3);
          d = push_bit 8 (ucast (mac ! 4)) OR ucast (mac ! 5)
      in [0xFE80, 0, 0, 0, a, b, c, d])"

definition auto6_start :: "'r iface_api \<Rightarrow> 'r InterfaceInner \<Rightarrow> (ipv6 \<times> 'r InterfaceInner) option" where
  "auto6_start ia inner =
     (case ni_hardware_addr inner of
        Ethernet mac \<Rightarrow>
          (let ip = auto6_link_ip mac
           in Some (ip, inner\<lparr>ni_ip_addrs := if_push ia (CidrV6 ip 64) (ni_ip_addrs inner)\<rparr>))
      | HwIp \<Rightarrow> None)"

record RouterAdvert =
  ra_prefix_info :: "(ipv6 \<times> nat) option"
  ra_recursive_dns :: "ipv6 list option"

definition auto6_segments :: "ipv6 \<Rightarrow> ipv6 \<Rightarrow> ipv6" where
  "auto6_segments link_ip prefix = take 4 prefix @ take 4 (drop 4 link_ip)"

definition auto6_advert :: "'r iface_api \<Rightarrow> ipv6 \<Rightarrow> ipv6 \<Rightarrow> RouterAdvert \<Rightarrow> 'r InterfaceInner \<Rightarrow> 'r InterfaceInner" where
  "auto6_advert ia link_ip src_ip ra inner =
     (let inner =
        (case ra_prefix_info ra of
           Some (prefix, prefix_len) \<Rightarrow>
             inner\<lparr>ni_ip_addrs := if_push ia (CidrV6 (auto6_segments link_ip prefix) prefix_len) (ni_ip_addrs inner),
                   ni_routes := if_add_default_ipv6 ia src_ip (ni_routes inner)\<rparr>
         | None \<Rightarrow> inner)
      in case ra_recursive_dns ra of
           Some servers \<Rightarrow> inner\<lparr>ni_dns_servers := ni_dns_servers inner @ map Ipv6 servers\<rparr>
         | None \<Rightarrow> inner)"

section \<open>The report of the configuration\<close>

record InterfaceConfig =
  ic_mac :: "u8 list option"
  ic_ip_addrs :: "IpCidr list"
  ic_routes :: "(IpCidr \<times> IpAddress) list"
  ic_dns_servers :: "IpAddress list"

definition net_config :: "'r iface_api \<Rightarrow> 'r InterfaceInner option \<Rightarrow> InterfaceConfig option" where
  "net_config ia default_driver =
     (case default_driver of
        None \<Rightarrow> None
      | Some inner \<Rightarrow>
          Some \<lparr>ic_mac = (case ni_hardware_addr inner of Ethernet e \<Rightarrow> Some e | HwIp \<Rightarrow> None),
                ic_ip_addrs = ni_ip_addrs inner, ic_routes = if_routes ia (ni_routes inner),
                ic_dns_servers = ni_dns_servers inner\<rparr>)"

section \<open>Sockets\<close>

text \<open>
  A socket: the stack's own state, whether the polling task's waker is registered for receiving and
  for sending, and how often the interface task was woken through \<open>WAIT_CELL\<close>.
\<close>

record 'k socket =
  so_inner :: 'k
  so_recv_waker :: bool
  so_send_waker :: bool
  so_wakes :: nat

definition register_recv_waker :: "'k socket \<Rightarrow> 'k socket" where
  "register_recv_waker s = s\<lparr>so_recv_waker := True\<rparr>"

definition register_send_waker :: "'k socket \<Rightarrow> 'k socket" where
  "register_send_waker s = s\<lparr>so_send_waker := True\<rparr>"

definition wake_interface :: "'k socket \<Rightarrow> 'k socket" where
  "wake_interface s = s\<lparr>so_wakes := so_wakes s + 1\<rparr>"

datatype tcp_recv_error = Finished | InvalidState

datatype net_error =
    TcpConnect | TcpListen | TcpRecv tcp_recv_error | TcpSend | Wire | TcpClosed
  | IcmpRecv | IcmpSend | DnsStartQuery | DnsFinishQuery | DestinationUnreachable

record 'k tcp_api =
  tcp_recv_slice :: "nat \<Rightarrow> 'k \<Rightarrow> (tcp_recv_error + u8 list) \<times> 'k"
  tcp_send_slice :: "u8 list \<Rightarrow> 'k \<Rightarrow> nat option \<times> 'k"
  tcp_connect :: "IpAddress \<times> nat \<Rightarrow> nat \<Rightarrow> 'k \<Rightarrow> bool \<times> 'k"
  tcp_closed :: "'k \<Rightarrow> bool"
  tcp_can_send :: "'k \<Rightarrow> bool"
  tcp_is_open :: "'k \<Rightarrow> bool"

definition TcpSocket_read :: "'k tcp_api \<Rightarrow> nat \<Rightarrow> 'k socket \<Rightarrow> (net_error + u8 list) poll \<times> 'k socket" where
  "TcpSocket_read ta len s =
     (case tcp_recv_slice ta len (so_inner s) of
        (Inr data, k) \<Rightarrow>
          if length data > 0 then (Ready (Inr data), s\<lparr>so_inner := k\<rparr>)
          else (Pending, register_recv_waker (s\<lparr>so_inner := k\<rparr>))
      | (Inl e, k) \<Rightarrow>
          if e = Finished then (Ready (Inr []), s\<lparr>so_inner := k\<rparr>)
          else (Pending, register_recv_waker (s\<lparr>so_inner := k\<rparr>)))"

definition TcpSocket_write :: "'k tcp_api \<Rightarrow> u8 list \<Rightarrow> 'k socket \<Rightarrow> (net_error + nat) poll \<times> 'k socket" where
  "TcpSocket_write ta buf s =
     (if tcp_closed ta (so_inner s) then (Ready (Inl TcpClosed), s)
      else if tcp_can_send ta (so_inner s)
      then
        (case tcp_send_slice ta buf (so_inner s) of
           (Some n, k) \<Rightarrow> (Ready (Inr n), wake_interface (s\<lparr>so_inner := k\<rparr>))
         | (None, k) \<Rightarrow> (Ready (Inl TcpSend), s\<lparr>so_inner := k\<rparr>))
      else (Pending, register_send_waker s))"

text \<open>\<open>connect\<close>: the start of the connection, with a random 16-bit number, and the poll for its completion.\<close>

definition local_port :: "u16 \<Rightarrow> u16" where
  "local_port random = 49152 + random mod 16384"

definition TcpSocket_connect_start ::
    "'k tcp_api \<Rightarrow> IpAddress \<times> nat \<Rightarrow> u16 \<Rightarrow> 'k socket \<Rightarrow> (net_error + unit) \<times> 'k socket" where
  "TcpSocket_connect_start ta addr random s =
     (case tcp_connect ta addr (unat (local_port random)) (so_inner s) of
        (True, k) \<Rightarrow> (Inr (), wake_interface (s\<lparr>so_inner := k\<rparr>))
      | (False, k) \<Rightarrow> (Inl TcpConnect, s\<lparr>so_inner := k\<rparr>))"

definition TcpSocket_connect_poll :: "'k tcp_api \<Rightarrow> 'k socket \<Rightarrow> unit poll \<times> 'k socket" where
  "TcpSocket_connect_poll ta s =
     (if tcp_is_open ta (so_inner s) then (Ready (), s) else (Pending, register_send_waker s))"

datatype 'a dns_result = DnsResults 'a | DnsPending | DnsFailed

text \<open>The poll of a DNS query, whose waker the stack keeps with the query.\<close>

definition DnsSocket_query_poll :: "('k \<Rightarrow> 'a dns_result \<times> 'k) \<Rightarrow> 'k socket \<Rightarrow> (net_error + 'a) poll \<times> 'k socket" where
  "DnsSocket_query_poll get_query_result s =
     (case get_query_result (so_inner s) of
        (DnsResults results, k) \<Rightarrow> (Ready (Inr results), s\<lparr>so_inner := k\<rparr>)
      | (DnsPending, k) \<Rightarrow> (Pending, register_recv_waker (s\<lparr>so_inner := k\<rparr>))
      | (DnsFailed, k) \<Rightarrow> (Ready (Inl DnsFinishQuery), s\<lparr>so_inner := k\<rparr>))"

definition Dhcp4Socket_poll :: "('k \<Rightarrow> Dhcp4Event option \<times> 'k) \<Rightarrow> 'k socket \<Rightarrow> Dhcp4Event poll \<times> 'k socket" where
  "Dhcp4Socket_poll dhcp_poll s =
     (case dhcp_poll (so_inner s) of
        (None, k) \<Rightarrow> (Pending, register_recv_waker (s\<lparr>so_inner := k\<rparr>))
      | (Some v, k) \<Rightarrow> (Ready v, s\<lparr>so_inner := k\<rparr>))"

datatype icmp_recv_error = Exhausted | Truncated
datatype icmp_send_error = BufferFull | Unaddressable

definition IcmpSocket_read ::
    "('k \<Rightarrow> (icmp_recv_error + u8 list \<times> IpAddress) \<times> 'k) \<Rightarrow> 'k socket
       \<Rightarrow> (net_error + u8 list \<times> IpAddress) poll \<times> 'k socket" where
  "IcmpSocket_read recv_slice s =
     (case recv_slice (so_inner s) of
        (Inr r, k) \<Rightarrow> (Ready (Inr r), s\<lparr>so_inner := k\<rparr>)
      | (Inl Exhausted, k) \<Rightarrow> (Pending, register_recv_waker (s\<lparr>so_inner := k\<rparr>))
      | (Inl _, k) \<Rightarrow> (Ready (Inl IcmpRecv), s\<lparr>so_inner := k\<rparr>))"

definition IcmpSocket_write ::
    "('k \<Rightarrow> (icmp_send_error + unit) \<times> 'k) \<Rightarrow> 'k socket \<Rightarrow> (net_error + unit) poll \<times> 'k socket" where
  "IcmpSocket_write send_slice s =
     (case send_slice (so_inner s) of
        (Inr _, k) \<Rightarrow> (Ready (Inr ()), wake_interface (s\<lparr>so_inner := k\<rparr>))
      | (Inl BufferFull, k) \<Rightarrow> (Pending, register_send_waker (s\<lparr>so_inner := k\<rparr>))
      | (Inl _, k) \<Rightarrow> (Ready (Inl IcmpSend), s\<lparr>so_inner := k\<rparr>))"

lemmas poll_defs = register_recv_waker_def register_send_waker_def wake_interface_def

interpretation tcp_read: registering_poll "TcpSocket_read ta len" so_recv_waker
  by unfold_locales (auto simp: TcpSocket_read_def poll_defs split: prod.splits sum.splits if_splits)

interpretation tcp_write: registering_poll "TcpSocket_write ta buf" so_send_waker
  by unfold_locales (auto simp: TcpSocket_write_def poll_defs split: prod.splits option.splits if_splits)

interpretation tcp_connecting: registering_poll "TcpSocket_connect_poll ta" so_send_waker
  by unfold_locales (auto simp: TcpSocket_connect_poll_def poll_defs split: if_splits)

interpretation dns_query: registering_poll "DnsSocket_query_poll get_query_result" so_recv_waker
  by unfold_locales (auto simp: DnsSocket_query_poll_def poll_defs split: prod.splits dns_result.splits)

interpretation dhcp_event: registering_poll "Dhcp4Socket_poll dhcp_poll" so_recv_waker
  by unfold_locales (auto simp: Dhcp4Socket_poll_def poll_defs split: prod.splits option.splits)

interpretation icmp_read: registering_poll "IcmpSocket_read recv_slice" so_recv_waker
  by unfold_locales (auto simp: IcmpSocket_read_def poll_defs split: prod.splits sum.splits icmp_recv_error.splits)

interpretation icmp_write: registering_poll "IcmpSocket_write send_slice" so_send_waker
  by unfold_locales (auto simp: IcmpSocket_write_def poll_defs split: prod.splits sum.splits icmp_send_error.splits)

section \<open>Leases\<close>

text \<open>Pushing an address appends it while there is room; the capacity is the stack's.\<close>

definition iface_spec :: "'r iface_api \<Rightarrow> nat \<Rightarrow> bool" where
  "iface_spec ia cap \<longleftrightarrow> (\<forall>a xs. length xs < cap \<longrightarrow> if_push ia a xs = xs @ [a])"

lemma find_position_None: "find_position p xs = None \<longleftrightarrow> (\<forall>x\<in>set xs. \<not> p x)"
  by (induction xs) auto

lemma find_position_Some:
  "find_position p xs = Some i \<Longrightarrow> i < length xs \<and> p (xs ! i) \<and> (\<forall>k<i. \<not> p (xs ! k))"
proof (induction xs arbitrary: i)
  case (Cons x xs)
  then show ?case
    by (auto split: if_splits simp: nth_Cons split: nat.splits)
qed simp

lemma filter_remove_at:
  assumes "i < length xs" "p (xs ! i)"
  shows "filter (\<lambda>x. \<not> p x) (remove_at i xs) = filter (\<lambda>x. \<not> p x) xs"
proof -
  have "xs = take i xs @ xs ! i # drop (Suc i) xs" using assms(1) by (rule id_take_nth_drop)
  then have "filter (\<lambda>x. \<not> p x) xs = filter (\<lambda>x. \<not> p x) (take i xs @ xs ! i # drop (Suc i) xs)" by simp
  then show ?thesis using assms(2) by (simp add: remove_at_def)
qed

text \<open>The removal loop is a filter.\<close>

lemma remove_servers_eq: "remove_servers config servers = filter (\<lambda>a. \<not> is_server config a) servers"
proof (induction config servers rule: remove_servers.induct)
  case (1 config servers)
  show ?case
  proof (cases "find_position (is_server config) servers")
    case None
    moreover from None have "filter (\<lambda>a. \<not> is_server config a) servers = servers"
      by (simp add: find_position_None filter_id_conv)
    ultimately show ?thesis by (subst remove_servers.simps) simp
  next
    case (Some i)
    then have "remove_servers config servers = remove_servers config (remove_at i servers)"
      by (subst remove_servers.simps) simp
    then show ?thesis using 1[OF Some] find_position_Some[OF Some] by (simp add: filter_remove_at)
  qed
qed

abbreviation lease :: "Dhcp4Config \<Rightarrow> IpCidr" where
  "lease config \<equiv> CidrV4 (fst (dc_address config)) (snd (dc_address config))"

lemma is_lease_iff: "is_lease config c \<longleftrightarrow> c = lease config"
  by (cases "dc_address config") (auto simp: is_lease_def split: IpCidr.splits)

lemma find_position_append_new:
  "(\<forall>x\<in>set xs. \<not> p x) \<Longrightarrow> p y \<Longrightarrow> find_position p (xs @ [y]) = Some (length xs)"
  by (induction xs) auto

lemma configure_fields:
  assumes "iface_spec ia cap" "length (ni_ip_addrs inner) < cap"
  shows "ni_ip_addrs (dhcp4_configure ia c inner) = ni_ip_addrs inner @ [lease c]"
    "ni_dns_servers (dhcp4_configure ia c inner) = ni_dns_servers inner @ map Ipv4 (dc_dns_servers c)"
    "ni_hardware_addr (dhcp4_configure ia c inner) = ni_hardware_addr inner"
  using assms by (simp_all add: dhcp4_configure_def iface_spec_def Let_def)

lemma deconfigure_fields:
  "ni_dns_servers (dhcp4_deconfigure ia c inner) = filter (\<lambda>a. \<not> is_server c a) (ni_dns_servers inner)"
  "ni_routes (dhcp4_deconfigure ia c inner) = if_remove_default_ipv4 ia (ni_routes inner)"
  "ni_hardware_addr (dhcp4_deconfigure ia c inner) = ni_hardware_addr inner"
  by (simp_all add: dhcp4_deconfigure_def Let_def remove_servers_eq)

lemma deconfigure_last:
  assumes "ni_ip_addrs inner = xs @ [lease c]" "lease c \<notin> set xs"
  shows "ni_ip_addrs (dhcp4_deconfigure ia c inner) = xs"
proof -
  have "find_position (is_lease c) (xs @ [lease c]) = Some (length xs)"
    using assms(2) by (intro find_position_append_new) (auto simp: is_lease_iff)
  then show ?thesis using assms(1) by (simp add: dhcp4_deconfigure_def Let_def remove_at_def)
qed

lemma filter_map_is_server:
  "filter (\<lambda>a. \<not> is_server c a) (map Ipv4 xs) = map Ipv4 (filter (\<lambda>s. s \<notin> set (dc_dns_servers c)) xs)"
  by (induction xs) (simp_all add: is_server_def)


section \<open>Interface identifiers\<close>

definition segment_bytes :: "u16 \<Rightarrow> u8 list" where
  "segment_bytes s = [ucast (drop_bit 8 s), ucast s]"

lemma segment_bytes_join: "segment_bytes (push_bit 8 (ucast (hi :: u8)) OR ucast (lo :: u8)) = [hi, lo]"
proof -
  have "\<not> bit lo (8 + n)" for n using bit_imp_le_length[of lo "8 + n"] by auto
  then show ?thesis unfolding segment_bytes_def
    by (auto intro!: bit_word_eqI simp: bit_simps dest: bit_imp_le_length)
qed

text \<open>
  The addresses of \<open>auto6\<close>. The link-local address is \<open>fe80::/64\<close> with an interface identifier
  whose eight bytes are the hardware address with \<open>ff:fe\<close> in its middle, the universal/local bit
  cleared; so two cards get the same one only if their hardware addresses agree but for that bit. An
  address formed from an advertised prefix has the first half of the prefix and the same identifier.
\<close>

theorem auto6_addresses:
  assumes "length mac = 6" "length prefix = 8"
  shows "take 4 (auto6_link_ip mac) = [0xFE80, 0, 0, 0]
     \<and> concat (map segment_bytes (drop 4 (auto6_link_ip mac))) =
         [mac ! 0 AND 0xFD, mac ! 1, mac ! 2, 0xFF, 0xFE, mac ! 3, mac ! 4, mac ! 5]
     \<and> (\<forall>mac'. length mac' = 6 \<and> auto6_link_ip mac' = auto6_link_ip mac \<longrightarrow>
          mac' ! 0 AND 0xFD = mac ! 0 AND 0xFD \<and> tl mac' = tl mac)
     \<and> length (auto6_segments (auto6_link_ip mac) prefix) = 8
     \<and> take 4 (auto6_segments (auto6_link_ip mac) prefix) = take 4 prefix
     \<and> drop 4 (auto6_segments (auto6_link_ip mac) prefix) = drop 4 (auto6_link_ip mac)"
proof -
  have id: "concat (map segment_bytes (drop 4 (auto6_link_ip m))) =
      [m ! 0 AND 0xFD, m ! 1, m ! 2, 0xFF, 0xFE, m ! 3, m ! 4, m ! 5]" for m
  proof -
    have ff: "push_bit 8 (ucast x) OR 0xFF = push_bit 8 (ucast (x :: u8)) OR (ucast (0xFF :: u8) :: u16)"
      "0xFE00 OR ucast x = push_bit 8 (ucast (0xFE :: u8) :: u16) OR ucast x" for x :: u8 by simp_all
    have d: "drop 4 (auto6_link_ip m) = [push_bit 8 (ucast (m ! 0 AND 0xFD)) OR ucast (m ! 1),
        push_bit 8 (ucast (m ! 2)) OR 0xFF, 0xFE00 OR ucast (m ! 3), push_bit 8 (ucast (m ! 4)) OR ucast (m ! 5)]"
      unfolding auto6_link_ip_def Let_def by simp
    show ?thesis unfolding d ff list.map segment_bytes_join concat.simps append.simps ..
  qed
  have inj: "mac' ! 0 AND 0xFD = mac ! 0 AND 0xFD \<and> tl mac' = tl mac"
    if "length mac' = 6" "auto6_link_ip mac' = auto6_link_ip mac" for mac'
  proof -
    have eq: "[mac' ! 0 AND 0xFD, mac' ! 1, mac' ! 2, 0xFF, 0xFE, mac' ! 3, mac' ! 4, mac' ! 5] =
        [mac ! 0 AND 0xFD, mac ! 1, mac ! 2, 0xFF, 0xFE, mac ! 3, mac ! 4, mac ! 5]"
      using id[of mac'] id[of mac] that(2) by simp
    have tl: "tl m = [m ! 1, m ! 2, m ! 3, m ! 4, m ! 5]" if "length m = 6" for m :: "u8 list"
      using that by (auto simp: numeral_eq_Suc length_Suc_conv)
    show ?thesis using eq tl[OF that(1)] tl[OF assms(1)] by simp
  qed
  have len: "length (auto6_link_ip mac) = 8" "take 4 (auto6_link_ip mac) = [0xFE80, 0, 0, 0]"
    by (simp_all add: auto6_link_ip_def Let_def)
  show ?thesis using id[of mac] inj len assms(2) by (auto simp: auto6_segments_def)
qed

section \<open>Waiting on a socket\<close>

text \<open>When the stack reports an error other than the end of the stream at every poll, the read never ends.\<close>

lemma tcp_read_invalid:
  "fst (tcp_recv_slice ta len (so_inner s)) = Inl InvalidState \<Longrightarrow> fst (TcpSocket_read ta len s) = Pending"
  by (auto simp: TcpSocket_read_def split: prod.splits sum.splits)

lemma tcp_read_stuck:
  assumes "\<And>k. fst (tcp_recv_slice ta len k) = Inl InvalidState"
  shows "fst (await (TcpSocket_read ta len) es s) = Pending"
proof (induction es arbitrary: s)
  case (Cons e es)
  have "fst (TcpSocket_read ta len s) = Pending" by (rule tcp_read_invalid[OF assms])
  then show ?case using Cons by (auto split: prod.splits poll.splits)
qed (simp add: tcp_read_invalid[OF assms])

text \<open>
  The asynchronous socket operations. Whatever the stack and the other tasks do between its polls, an
  operation that is still waiting has its waker registered: TCP read, write and connect, DNS query, DHCP
  event, ICMP read and write. But not every wait ends: a TCP socket whose connection was reset or timed
  out answers every read with an error that is not the end of the stream, and such a read waits for
  ever instead of failing.
\<close>

theorem net_waits_registered:
  "(await (TcpSocket_read ta len) es1 s1 = (Pending, t1) \<longrightarrow> so_recv_waker t1)
 \<and> (await (TcpSocket_write ta buf) es1 s1 = (Pending, t1) \<longrightarrow> so_send_waker t1)
 \<and> (await (TcpSocket_connect_poll ta) es1 s1 = (Pending, t1) \<longrightarrow> so_send_waker t1)
 \<and> (await (DnsSocket_query_poll get_query_result) es2 s2 = (Pending, t2) \<longrightarrow> so_recv_waker t2)
 \<and> (await (Dhcp4Socket_poll dhcp_poll) es3 s3 = (Pending, t3) \<longrightarrow> so_recv_waker t3)
 \<and> (await (IcmpSocket_read recv_slice) es4 s4 = (Pending, t4) \<longrightarrow> so_recv_waker t4)
 \<and> (await (IcmpSocket_write send_slice) es5 s5 = (Pending, t5) \<longrightarrow> so_send_waker t5)
 \<and> ((\<forall>k. fst (tcp_recv_slice ta len k) = Inl InvalidState) \<longrightarrow> fst (await (TcpSocket_read ta len) es1 s1) = Pending)"
  by (intro conjI impI tcp_read.await_registered tcp_write.await_registered tcp_connecting.await_registered
      dns_query.await_registered dhcp_event.await_registered icmp_read.await_registered icmp_write.await_registered
      tcp_read_stuck; blast)

text \<open>
  The stack's documentation: starting a connection leaves the closed state, and a socket is open when
  it is not closed.
\<close>

definition tcp_states :: "'k tcp_api \<Rightarrow> bool" where
  "tcp_states ta \<longleftrightarrow> (\<forall>k. tcp_is_open ta k \<longleftrightarrow> \<not> tcp_closed ta k)
     \<and> (\<forall>addr port k. fst (tcp_connect ta addr port k) \<longrightarrow> \<not> tcp_closed ta (snd (tcp_connect ta addr port k)))"

text \<open>
  \<open>TcpSocket::connect\<close> picks a local port of the dynamic range and does not wait for the connection:
  right after the first segment is queued the socket counts as open, so its poll is ready at once.
\<close>

theorem tcp_connect_does_not_wait:
  assumes "tcp_states ta" "TcpSocket_connect_start ta addr random s = (Inr (), t)"
  shows "TcpSocket_connect_poll ta t = (Ready (), t) \<and> 49152 \<le> unat (local_port random) \<and> so_wakes t = so_wakes s + 1"
proof -
  obtain k where k: "tcp_connect ta addr (unat (local_port random)) (so_inner s) = (True, k)"
    "t = wake_interface (s\<lparr>so_inner := k\<rparr>)"
    using assms(2) by (auto simp: TcpSocket_connect_start_def split: prod.splits bool.splits)
  have "\<not> tcp_closed ta (snd (tcp_connect ta addr (unat (local_port random)) (so_inner s)))"
    using assms(1) k(1) unfolding tcp_states_def by (metis fst_conv)
  then have "tcp_is_open ta k" using assms(1) k(1) by (simp add: tcp_states_def)
  moreover have "unat (local_port random) = 49152 + unat random mod 16384"
  proof -
    have "unat random mod 16384 < 16384" by simp
    then show ?thesis by (simp add: local_port_def unat_word_ariths unat_mod_distrib)
  qed
  ultimately show ?thesis using k(2) by (simp add: TcpSocket_connect_poll_def wake_interface_def)
qed

section \<open>Witnesses\<close>

definition list_iface :: "ipv4 option iface_api" where
  "list_iface = \<lparr>if_push = (\<lambda>a xs. xs @ [a]), if_add_default_ipv4 = (\<lambda>r _. Some r), if_remove_default_ipv4 = (\<lambda>_. None),
     if_add_default_ipv6 = (\<lambda>_ r. r), if_routes = (\<lambda>_. [])\<rparr>"

definition plain_inner :: "ipv4 option InterfaceInner" where
  "plain_inner = \<lparr>ni_hardware_addr = Ethernet [0x52, 0x54, 0, 0x12, 0x34, 0x56], ni_ip_addrs = [], ni_routes = None, ni_dns_servers = []\<rparr>"

definition lease_of :: "ipv4 \<Rightarrow> Dhcp4Config" where
  "lease_of a = \<lparr>dc_address = (a, 24), dc_router = Some 1, dc_dns_servers = [a + 1]\<rparr>"


theorem auto6_addresses_witness:
  "auto6_link_ip [0x52, 0x54, 0, 0x12, 0x34, 0x56] = [0xFE80, 0, 0, 0, 0x5054, 0x00FF, 0xFE12, 0x3456]
   \<and> length (auto6_segments (auto6_link_ip [0x52, 0x54, 0, 0x12, 0x34, 0x56]) [0x2001, 0xDB8, 0, 0, 0, 0, 0, 0]) = 8"
  using auto6_addresses[of "[0x52, 0x54, 0, 0x12, 0x34, 0x56]" "[0x2001, 0xDB8, 0, 0, 0, 0, 0, 0]"]
  by (simp add: auto6_link_ip_def)

definition flag_tcp :: "bool tcp_api" where
  "flag_tcp = \<lparr>tcp_recv_slice = (\<lambda>n k. (Inl InvalidState, k)), tcp_send_slice = (\<lambda>b k. (Some 0, k)),
     tcp_connect = (\<lambda>a p k. (True, True)), tcp_closed = Not, tcp_can_send = (\<lambda>k. False), tcp_is_open = (\<lambda>k. k)\<rparr>"

definition closed_socket :: "bool socket" where
  "closed_socket = \<lparr>so_inner = False, so_recv_waker = False, so_send_waker = False, so_wakes = 0\<rparr>"

theorem net_waits_registered_witness:
  "fst (await (TcpSocket_read flag_tcp 512) [\<lambda>s. s, \<lambda>s. s] closed_socket) = Pending"
proof -
  have "\<forall>k. fst (tcp_recv_slice flag_tcp 512 k) = Inl InvalidState" by (simp add: flag_tcp_def)
  then show ?thesis using net_waits_registered[of flag_tcp 512 "[\<lambda>s. s, \<lambda>s. s]" closed_socket] by blast
qed

theorem tcp_connect_does_not_wait_witness:
  "\<exists>t. TcpSocket_connect_start flag_tcp (Ipv4 1, 80) 7 closed_socket = (Inr (), t)
     \<and> TcpSocket_connect_poll flag_tcp t = (Ready (), t)"
proof -
  have st: "tcp_states flag_tcp" by (simp add: tcp_states_def flag_tcp_def)
  have "TcpSocket_connect_start flag_tcp (Ipv4 1, 80) 7 closed_socket = (Inr (), closed_socket\<lparr>so_inner := True, so_wakes := 1\<rparr>)"
    by (simp add: TcpSocket_connect_start_def flag_tcp_def closed_socket_def wake_interface_def)
  from tcp_connect_does_not_wait[OF st this] this show ?thesis by blast
qed

end
