(* ===== verification/Pci.thy ===== *)
theory Pci
  imports Interrupts
begin

text \<open>
  PCI: enumeration of the devices (\<open>kernel/src/arch/x86_64/pci.rs\<close>, \<open>kernel/src/arch/common.rs\<close>) and
  their assignment to drivers (\<open>kernel/src/drivers/mod.rs\<close>).

  Configuration space is read through the crates \<open>acpi\<close> and \<open>pci_types\<close>; what they return for a
  function's address are the fields of the record \<open>pci_access\<close>. The recursion through bridges takes
  fuel, one unit per level: with bridges that lead to higher buses 256 units are enough, because there
  are 256 buses; \<open>None\<close> stands for a recursion that does not end.
\<close>

section \<open>Configuration space\<close>

text \<open>Segment, bus, device and function.\<close>

type_synonym PciAddress = "nat \<times> nat \<times> nat \<times> nat"

datatype HeaderType = Endpoint | PciPciBridge | OtherHeader

record 'cap pci_access =
  pa_segments :: "nat list"
  pa_physical_address :: "PciAddress \<Rightarrow> usize option"
  pa_multiple :: "PciAddress \<Rightarrow> bool"
  pa_id :: "PciAddress \<Rightarrow> nat \<times> nat"
  pa_revision_and_class :: "PciAddress \<Rightarrow> nat \<times> nat \<times> nat \<times> nat"
  pa_header_type :: "PciAddress \<Rightarrow> HeaderType"
  pa_subsystem :: "PciAddress \<Rightarrow> nat \<times> nat"
  pa_bar :: "PciAddress \<Rightarrow> nat \<Rightarrow> Bar option"
  pa_interrupt :: "PciAddress \<Rightarrow> nat \<times> nat"
  pa_capabilities :: "PciAddress \<Rightarrow> 'cap PciCapability list"
  pa_secondary_bus :: "PciAddress \<Rightarrow> nat"
  pa_subordinate_bus :: "PciAddress \<Rightarrow> nat"

record 'cap PciDevice =
  pd_physical_offset :: usize
  pd_configuration_address :: usize
  pd_address :: PciAddress
  pd_class :: nat
  pd_sub_class :: nat
  pd_interface :: nat
  pd_vendor_id :: nat
  pd_device_id :: nat
  pd_sub_vendor_id :: nat
  pd_sub_device_id :: nat
  pd_revision :: nat
  pd_bars :: "Bar option list"
  pd_interrupt_pin :: nat
  pd_interrupt_line :: nat
  pd_capabilities :: "'cap PciCapability list"

type_synonym 'cap devices = "PciAddress \<rightharpoonup> 'cap PciDevice"

section \<open>Enumeration\<close>

definition function_exists :: "'cap pci_access \<Rightarrow> PciAddress \<Rightarrow> bool" where
  "function_exists pa address = (pa_physical_address pa address \<noteq> None)"

text \<open>The base address registers: a 64-bit one takes the place of two, and the second is skipped.\<close>

fun bars_loop :: "(nat \<Rightarrow> Bar option) \<Rightarrow> nat list \<Rightarrow> bool \<Rightarrow> Bar option list \<Rightarrow> Bar option list" where
  "bars_loop bar [] skip_next bars = bars"
| "bars_loop bar (i # is) skip_next bars =
     (if skip_next then bars_loop bar is False bars
      else bars_loop bar is (case bar i of Some (BarMemory64 a sz) \<Rightarrow> True | _ \<Rightarrow> False) (bars[i := bar i]))"

definition read_bars :: "(nat \<Rightarrow> Bar option) \<Rightarrow> Bar option list" where
  "read_bars bar = bars_loop bar [0..<6] False (replicate 6 None)"

definition new_device :: "'cap pci_access \<Rightarrow> usize \<Rightarrow> PciAddress \<Rightarrow> 'cap PciDevice" where
  "new_device pa offset address =
     (case (pa_id pa address, pa_revision_and_class pa address, pa_subsystem pa address, pa_interrupt pa address) of
        ((vendor_id, device_id), (revision, class, sub_class, interface), (sub_vendor_id, sub_device_id), (pin, line)) \<Rightarrow>
          \<lparr>pd_physical_offset = offset, pd_configuration_address = the (pa_physical_address pa address),
           pd_address = address, pd_class = class, pd_sub_class = sub_class, pd_interface = interface,
           pd_vendor_id = vendor_id, pd_device_id = device_id, pd_sub_vendor_id = sub_vendor_id,
           pd_sub_device_id = sub_device_id, pd_revision = revision, pd_bars = read_bars (pa_bar pa address),
           pd_interrupt_pin = pin, pd_interrupt_line = line, pd_capabilities = pa_capabilities pa address\<rparr>)"

text \<open>A loop whose body may not return.\<close>

fun option_fold :: "('a \<Rightarrow> 's \<Rightarrow> 's option) \<Rightarrow> 'a list \<Rightarrow> 's \<Rightarrow> 's option" where
  "option_fold f [] s = Some s"
| "option_fold f (x # xs) s = Option.bind (f x s) (option_fold f xs)"

lemma option_fold_Nil: "option_fold f [] = Some"
  by (simp add: fun_eq_iff)

text \<open>\<open>scan_function\<close>, with the scan of a bus that it calls for bridges as an argument.\<close>

definition scan_function ::
    "'cap pci_access \<Rightarrow> usize \<Rightarrow> (nat \<Rightarrow> 'cap devices \<Rightarrow> 'cap devices option)
       \<Rightarrow> nat \<Rightarrow> nat \<Rightarrow> nat \<Rightarrow> nat \<Rightarrow> 'cap devices \<Rightarrow> 'cap devices option" where
  "scan_function pa offset scan segment bus device function_no devices =
     (let address = (segment, bus, device, function_no) in
      if function_exists pa address then
        (case pa_id pa address of (vendor_id, device_id) \<Rightarrow>
           if vendor_id = 0xFFFF \<or> device_id = 0xFFFF then Some devices
           else
             (case pa_header_type pa address of
                Endpoint \<Rightarrow> Some (devices(address \<mapsto> new_device pa offset address))
              | PciPciBridge \<Rightarrow>
                  option_fold scan [pa_secondary_bus pa address..<Suc (pa_subordinate_bus pa address)] devices
              | OtherHeader \<Rightarrow> Some devices))
      else Some devices)"

definition scan_device ::
    "'cap pci_access \<Rightarrow> usize \<Rightarrow> (nat \<Rightarrow> 'cap devices \<Rightarrow> 'cap devices option)
       \<Rightarrow> nat \<Rightarrow> nat \<Rightarrow> nat \<Rightarrow> 'cap devices \<Rightarrow> 'cap devices option" where
  "scan_device pa offset scan segment bus device devices =
     (let address = (segment, bus, device, 0) in
      if function_exists pa address then
        Option.bind (scan_function pa offset scan segment bus device 0 devices) (\<lambda>devices.
          if pa_multiple pa address
          then option_fold (scan_function pa offset scan segment bus device) [1..<8] devices
          else Some devices)
      else Some devices)"

primrec scan_bus ::
    "'cap pci_access \<Rightarrow> usize \<Rightarrow> nat \<Rightarrow> nat \<Rightarrow> nat \<Rightarrow> 'cap devices \<Rightarrow> 'cap devices option" where
  "scan_bus pa offset 0 segment bus devices = None"
| "scan_bus pa offset (Suc fuel) segment bus devices =
     option_fold (scan_device pa offset (scan_bus pa offset fuel segment) segment bus) [0..<32] devices"

definition scan_segment :: "'cap pci_access \<Rightarrow> usize \<Rightarrow> nat \<Rightarrow> nat \<Rightarrow> 'cap devices \<Rightarrow> 'cap devices option" where
  "scan_segment pa offset fuel segment devices =
     (let address = (segment, 0, 0, 0) in
      if function_exists pa address \<and> pa_multiple pa address
      then option_fold (scan_bus pa offset fuel segment) [0..<8] devices
      else scan_bus pa offset fuel segment 0 devices)"

definition resolve :: "'cap pci_access \<Rightarrow> usize \<Rightarrow> nat \<Rightarrow> 'cap devices option" where
  "resolve pa offset fuel = option_fold (scan_segment pa offset fuel) (pa_segments pa) Map.empty"

definition pci_init :: "'cap pci_access \<Rightarrow> usize \<Rightarrow> nat \<Rightarrow> 'cap devices \<Rightarrow> 'cap devices option" where
  "pci_init pa physical_offset fuel DEVICES = map_option (\<lambda>found. DEVICES ++ found) (resolve pa physical_offset fuel)"

section \<open>Drivers\<close>

text \<open>
  A driver's \<open>init\<close> claims the device, passes, or fails; the first that does not pass ends the search.
  The devices come in the order of their addresses.
\<close>

type_synonym ('cap, 's) driver_init = "'cap PciDevice \<Rightarrow> 's \<Rightarrow> (string + bool) \<times> 's"

fun try_drivers :: "('cap, 's) driver_init list \<Rightarrow> 'cap PciDevice \<Rightarrow> 's \<Rightarrow> 's" where
  "try_drivers [] device s = s"
| "try_drivers (init # inits) device s =
     (case init device s of
        (Inr True, s') \<Rightarrow> s'
      | (Inr False, s') \<Rightarrow> try_drivers inits device s'
      | (Inl e, s') \<Rightarrow> s')"

definition drivers_init :: "('cap, 's) driver_init list \<Rightarrow> 'cap PciDevice list \<Rightarrow> 's \<Rightarrow> 's" where
  "drivers_init inits devices s = fold (try_drivers inits) devices s"

section \<open>What a scan finds\<close>

text \<open>
  Functions that a scan of a bus looks at: those of existing devices, beyond the first only where the
  first says there are more. A function answers when it exists and its ids are valid.
\<close>

definition listed :: "'cap pci_access \<Rightarrow> nat \<Rightarrow> nat \<Rightarrow> nat \<Rightarrow> nat \<Rightarrow> bool" where
  "listed pa segment bus device function_no \<longleftrightarrow>
     device < 32 \<and> function_exists pa (segment, bus, device, 0)
   \<and> (function_no = 0 \<or> pa_multiple pa (segment, bus, device, 0) \<and> function_no < 8)"

definition answers :: "'cap pci_access \<Rightarrow> PciAddress \<Rightarrow> bool" where
  "answers pa a \<longleftrightarrow> function_exists pa a \<and> fst (pa_id pa a) \<noteq> 0xFFFF \<and> snd (pa_id pa a) \<noteq> 0xFFFF"

inductive behind :: "'cap pci_access \<Rightarrow> nat \<Rightarrow> nat \<Rightarrow> PciAddress \<Rightarrow> bool" for pa segment where
  endpoint: "listed pa segment bus device f \<Longrightarrow> answers pa (segment, bus, device, f) \<Longrightarrow>
     pa_header_type pa (segment, bus, device, f) = Endpoint \<Longrightarrow> behind pa segment bus (segment, bus, device, f)"
| bridge: "listed pa segment bus device f \<Longrightarrow> answers pa (segment, bus, device, f) \<Longrightarrow>
     pa_header_type pa (segment, bus, device, f) = PciPciBridge \<Longrightarrow>
     pa_secondary_bus pa (segment, bus, device, f) \<le> b \<Longrightarrow> b \<le> pa_subordinate_bus pa (segment, bus, device, f) \<Longrightarrow>
     behind pa segment b a \<Longrightarrow> behind pa segment bus a"

text \<open>The set of addresses that the scan of one function adds.\<close>

definition from_function :: "'cap pci_access \<Rightarrow> nat \<Rightarrow> nat \<Rightarrow> nat \<Rightarrow> nat \<Rightarrow> PciAddress set" where
  "from_function pa segment bus device f =
     (let a = (segment, bus, device, f) in
      if answers pa a
      then (case pa_header_type pa a of
              Endpoint \<Rightarrow> {a}
            | PciPciBridge \<Rightarrow> (\<Union>b\<in>{pa_secondary_bus pa a..pa_subordinate_bus pa a}. {x. behind pa segment b x})
            | OtherHeader \<Rightarrow> {})
      else {})"

lemma behind_iff:
  "behind pa segment bus x \<longleftrightarrow> (\<exists>device f. listed pa segment bus device f \<and> x \<in> from_function pa segment bus device f)"
proof
  assume "behind pa segment bus x"
  then show "\<exists>device f. listed pa segment bus device f \<and> x \<in> from_function pa segment bus device f"
    by (cases rule: behind.cases) (fastforce simp: from_function_def Let_def)+
next
  assume "\<exists>device f. listed pa segment bus device f \<and> x \<in> from_function pa segment bus device f"
  then show "behind pa segment bus x"
    by (auto simp: from_function_def Let_def split: if_splits HeaderType.splits intro: behind.intros)
qed

text \<open>Steps that add the devices of a set of addresses, and their composition.\<close>

definition adds :: "(PciAddress \<Rightarrow> 'd) \<Rightarrow> PciAddress set \<Rightarrow> ((PciAddress \<rightharpoonup> 'd) \<Rightarrow> (PciAddress \<rightharpoonup> 'd) option) \<Rightarrow> bool" where
  "adds dev S step \<longleftrightarrow> (\<forall>m. step m = Some (\<lambda>a. if a \<in> S then Some (dev a) else m a))"

lemma adds_none: "adds dev {} Some"
  by (simp add: adds_def)

lemma adds_bind: "adds dev S f \<Longrightarrow> adds dev T g \<Longrightarrow> adds dev (S \<union> T) (\<lambda>m. Option.bind (f m) g)"
  by (auto simp: adds_def fun_eq_iff)

lemma adds_fold:
  "(\<And>x. x \<in> set xs \<Longrightarrow> adds dev (S x) (f x)) \<Longrightarrow> adds dev (\<Union>x\<in>set xs. S x) (option_fold f xs)"
proof (induction xs)
  case Nil
  then show ?case by (simp add: adds_def)
next
  case (Cons x xs)
  have "adds dev (S x \<union> (\<Union>x\<in>set xs. S x)) (\<lambda>m. Option.bind (f x m) (option_fold f xs))"
    using Cons by (intro adds_bind) simp_all
  then show ?case by (simp add: adds_def)
qed

lemma scan_function_adds:
  assumes "\<And>b. answers pa (segment, bus, device, f) \<Longrightarrow> pa_header_type pa (segment, bus, device, f) = PciPciBridge \<Longrightarrow>
      pa_secondary_bus pa (segment, bus, device, f) \<le> b \<Longrightarrow> b \<le> pa_subordinate_bus pa (segment, bus, device, f) \<Longrightarrow>
      adds (new_device pa offset) {x. behind pa segment b x} (scan b)"
  shows "adds (new_device pa offset) (from_function pa segment bus device f) (scan_function pa offset scan segment bus device f)"
proof (cases "answers pa (segment, bus, device, f)")
  case False
  then have "scan_function pa offset scan segment bus device f = Some"
    by (auto simp: scan_function_def answers_def Let_def fun_eq_iff split: prod.splits)
  then show ?thesis using False by (simp add: from_function_def adds_none)
next
  case True
  let ?a = "(segment, bus, device, f)"
  have step: "scan_function pa offset scan segment bus device f = (\<lambda>m.
      case pa_header_type pa ?a of
        Endpoint \<Rightarrow> Some (m(?a \<mapsto> new_device pa offset ?a))
      | PciPciBridge \<Rightarrow> option_fold scan [pa_secondary_bus pa ?a..<Suc (pa_subordinate_bus pa ?a)] m
      | OtherHeader \<Rightarrow> Some m)"
    using True by (auto simp: scan_function_def answers_def Let_def fun_eq_iff split: prod.splits)
  show ?thesis
  proof (cases "pa_header_type pa ?a")
    case PciPciBridge
    have "adds (new_device pa offset) (\<Union>b\<in>set [pa_secondary_bus pa ?a..<Suc (pa_subordinate_bus pa ?a)]. {x. behind pa segment b x})
        (option_fold scan [pa_secondary_bus pa ?a..<Suc (pa_subordinate_bus pa ?a)])"
      using True PciPciBridge by (intro adds_fold assms) auto
    moreover have "set [pa_secondary_bus pa ?a..<Suc (pa_subordinate_bus pa ?a)] = {pa_secondary_bus pa ?a..pa_subordinate_bus pa ?a}"
      by auto
    ultimately show ?thesis unfolding step using True PciPciBridge by (simp add: from_function_def Let_def del: upt_Suc)
  qed (use True in \<open>auto simp: step from_function_def adds_def fun_eq_iff\<close>)
qed

lemma scan_device_adds:
  assumes "\<And>f. listed pa segment bus device f \<Longrightarrow>
      adds (new_device pa offset) (from_function pa segment bus device f) (scan_function pa offset scan segment bus device f)"
    "device < 32"
  shows "adds (new_device pa offset) (\<Union>f\<in>{f. listed pa segment bus device f}. from_function pa segment bus device f)
    (scan_device pa offset scan segment bus device)"
proof (cases "function_exists pa (segment, bus, device, 0)")
  case False
  then have "scan_device pa offset scan segment bus device = Some" by (simp add: scan_device_def fun_eq_iff)
  then show ?thesis using False by (simp add: listed_def adds_none)
next
  case ex: True
  let ?sf = "scan_function pa offset scan segment bus device" and ?ff = "from_function pa segment bus device"
  let ?more = "if pa_multiple pa (segment, bus, device, 0) then [1..<8] else []"
  have "adds (new_device pa offset) (?ff 0 \<union> (\<Union>f\<in>set ?more. ?ff f)) (\<lambda>m. Option.bind (?sf 0 m) (option_fold ?sf ?more))"
    using ex assms(2) by (intro adds_bind adds_fold assms(1)) (auto simp: listed_def split: if_splits)
  moreover have "?ff 0 \<union> (\<Union>f\<in>set ?more. ?ff f) = (\<Union>f\<in>{f. listed pa segment bus device f}. ?ff f)"
    using ex assms(2) by (auto simp: listed_def split: if_splits) (metis One_nat_def Suc_leI atLeastLessThan_iff gr0I)
  moreover have "(\<lambda>m. Option.bind (?sf 0 m) (option_fold ?sf ?more)) = scan_device pa offset scan segment bus device"
    using ex by (auto simp: scan_device_def fun_eq_iff option_fold_Nil)
  ultimately show ?thesis by simp
qed

text \<open>Bridges that lead to higher buses, as firmware numbers them.\<close>

definition bridges_ascend :: "'cap pci_access \<Rightarrow> bool" where
  "bridges_ascend pa \<longleftrightarrow> (\<forall>segment bus device f. answers pa (segment, bus, device, f)
     \<and> pa_header_type pa (segment, bus, device, f) = PciPciBridge \<longrightarrow>
     bus < pa_secondary_bus pa (segment, bus, device, f) \<and> pa_subordinate_bus pa (segment, bus, device, f) < 256)"

lemma scan_bus_adds:
  assumes "bridges_ascend pa"
  shows "256 \<le> bus + fuel \<Longrightarrow> bus < 256 \<Longrightarrow>
    adds (new_device pa offset) {x. behind pa segment bus x} (scan_bus pa offset fuel segment bus)"
proof (induction fuel arbitrary: bus)
  case (Suc fuel)
  have below: "adds (new_device pa offset) {x. behind pa segment b x} (scan_bus pa offset fuel segment b)"
    if "answers pa (segment, bus, device, f)" "pa_header_type pa (segment, bus, device, f) = PciPciBridge"
      "pa_secondary_bus pa (segment, bus, device, f) \<le> b" "b \<le> pa_subordinate_bus pa (segment, bus, device, f)" for device f b
  proof -
    have "bus < pa_secondary_bus pa (segment, bus, device, f)" "pa_subordinate_bus pa (segment, bus, device, f) < 256"
      using assms that(1,2) unfolding bridges_ascend_def by blast+
    then show ?thesis using that(3,4) Suc.prems by (intro Suc.IH) linarith+
  qed
  have "adds (new_device pa offset)
      (\<Union>device\<in>set [0..<32]. \<Union>f\<in>{f. listed pa segment bus device f}. from_function pa segment bus device f)
      (option_fold (scan_device pa offset (scan_bus pa offset fuel segment) segment bus) [0..<32])"
    using below by (intro adds_fold scan_device_adds scan_function_adds) auto
  moreover have "(\<Union>device\<in>set [0..<32]. \<Union>f\<in>{f. listed pa segment bus device f}. from_function pa segment bus device f)
      = {x. behind pa segment bus x}"
    by (auto simp: behind_iff listed_def)
  moreover have "scan_bus pa offset (Suc fuel) segment bus =
      option_fold (scan_device pa offset (scan_bus pa offset fuel segment) segment bus) [0..<32]" by (simp add: fun_eq_iff)
  ultimately show ?case by simp
qed simp

definition root_buses :: "'cap pci_access \<Rightarrow> nat \<Rightarrow> nat list" where
  "root_buses pa segment =
     (if function_exists pa (segment, 0, 0, 0) \<and> pa_multiple pa (segment, 0, 0, 0) then [0..<8] else [0])"

definition discovered :: "'cap pci_access \<Rightarrow> PciAddress \<Rightarrow> bool" where
  "discovered pa a \<longleftrightarrow> (\<exists>segment\<in>set (pa_segments pa).
     \<exists>bus\<in>set (root_buses pa segment). behind pa segment bus a)"

lemma resolve_adds:
  assumes "bridges_ascend pa"
  shows "resolve pa offset 256 = Some (\<lambda>a. if discovered pa a then Some (new_device pa offset a) else None)"
proof -
  let ?roots = "root_buses pa"
  have bus: "adds (new_device pa offset) {x. behind pa segment bus x} (scan_bus pa offset 256 segment bus)"
    if "bus < 8" for segment bus using assms that by (intro scan_bus_adds) simp_all
  have "adds (new_device pa offset) (\<Union>bus\<in>set (?roots segment). {x. behind pa segment bus x}) (scan_segment pa offset 256 segment)" for segment
  proof -
    have "scan_segment pa offset 256 segment = option_fold (scan_bus pa offset 256 segment) (?roots segment)"
      by (auto simp: scan_segment_def root_buses_def fun_eq_iff Let_def option_fold_Nil)
    moreover have "adds (new_device pa offset) (\<Union>bus\<in>set (?roots segment). {x. behind pa segment bus x})
        (option_fold (scan_bus pa offset 256 segment) (?roots segment))"
      by (intro adds_fold bus) (auto simp: root_buses_def split: if_splits)
    ultimately show ?thesis by (simp only:)
  qed
  then have "adds (new_device pa offset) (\<Union>segment\<in>set (pa_segments pa). \<Union>bus\<in>set (?roots segment). {x. behind pa segment bus x})
      (option_fold (scan_segment pa offset 256) (pa_segments pa))" by (intro adds_fold)
  moreover have "(\<Union>segment\<in>set (pa_segments pa). \<Union>bus\<in>set (?roots segment). {x. behind pa segment bus x}) = {a. discovered pa a}"
    by (auto simp: discovered_def)
  ultimately show ?thesis by (simp add: adds_def resolve_def)
qed

text \<open>A loop of bridges.\<close>

lemma option_fold_None:
  "x \<in> set xs \<Longrightarrow> (\<And>m. f x m = None) \<Longrightarrow> option_fold f xs m = None"
proof (induction xs arbitrary: m)
  case (Cons y xs)
  then show ?case by (cases "y = x") (auto intro: bind_eq_None_conv[THEN iffD2] split: Option.bind_splits)
qed simp

lemma scan_bus_loop:
  assumes "listed pa segment bus device f" "answers pa (segment, bus, device, f)"
    "pa_header_type pa (segment, bus, device, f) = PciPciBridge"
    "pa_secondary_bus pa (segment, bus, device, f) \<le> bus" "bus \<le> pa_subordinate_bus pa (segment, bus, device, f)"
  shows "scan_bus pa offset fuel segment bus m = None"
proof (induction fuel arbitrary: m)
  case (Suc fuel)
  let ?scan = "scan_bus pa offset fuel segment"
  have fn: "scan_function pa offset ?scan segment bus device f m = None" for m
    using assms(2-5) Suc.IH
    by (auto simp: scan_function_def answers_def Let_def split: prod.splits intro!: option_fold_None[of bus] simp del: upt_Suc)
  have "scan_device pa offset ?scan segment bus device m = None" for m
  proof (cases "f = 0")
    case True
    then show ?thesis using assms(1) fn by (simp add: scan_device_def listed_def)
  next
    case False
    then have "option_fold (scan_function pa offset ?scan segment bus device) [1..<8] m = None" for m
      using assms(1) fn by (intro option_fold_None[of f]) (auto simp: listed_def)
    then show ?thesis using assms(1) False
      by (auto simp: scan_device_def listed_def Let_def split: Option.bind_splits)
  qed
  moreover have "device \<in> set [0..<32]" using assms(1) by (simp add: listed_def)
  ultimately show ?case unfolding scan_bus.simps by (intro option_fold_None[of device])
qed simp

text \<open>
  C21. Enumeration. With bridges that lead to higher buses it ends, and \<open>pci_init\<close> enters exactly the
  endpoints that answer on a root bus or behind bridges, each with the contents of its own
  configuration space, and keeps every other entry. With a bridge on the first bus whose range of buses
  contains that bus, as one that firmware left unconfigured has, the recursion never ends, whatever
  the fuel.
\<close>

theorem pci_scan_exact:
  "(bridges_ascend pa \<longrightarrow> pci_init pa offset 256 DEVICES =
      Some (\<lambda>a. if discovered pa a then Some (new_device pa offset a) else DEVICES a))
 \<and> (\<forall>segment device f. segment \<in> set (pa_segments pa) \<and> listed pa segment 0 device f \<and> answers pa (segment, 0, device, f)
      \<and> pa_header_type pa (segment, 0, device, f) = PciPciBridge \<and> pa_secondary_bus pa (segment, 0, device, f) = 0 \<longrightarrow>
      pci_init pa offset fuel DEVICES = None)"
proof (intro conjI allI impI)
  assume "bridges_ascend pa"
  then show "pci_init pa offset 256 DEVICES = Some (\<lambda>a. if discovered pa a then Some (new_device pa offset a) else DEVICES a)"
    by (auto simp: pci_init_def resolve_adds map_add_def fun_eq_iff)
next
  fix segment device f
  assume a: "segment \<in> set (pa_segments pa) \<and> listed pa segment 0 device f \<and> answers pa (segment, 0, device, f)
      \<and> pa_header_type pa (segment, 0, device, f) = PciPciBridge \<and> pa_secondary_bus pa (segment, 0, device, f) = 0"
  then have loop: "scan_bus pa offset fuel segment 0 m = None" for m
    using scan_bus_loop[of pa segment 0 device f offset fuel m] by simp
  then have "option_fold (scan_bus pa offset fuel segment) [0..<8] m = None" for m
    by (intro option_fold_None[of 0]) simp_all
  then have "scan_segment pa offset fuel segment m = None" for m
    using loop by (simp add: scan_segment_def Let_def)
  then have "resolve pa offset fuel = None"
    unfolding resolve_def using a by (intro option_fold_None[of segment]) auto
  then show "pci_init pa offset fuel DEVICES = None" by (simp add: pci_init_def)
qed

text \<open>A machine with one network card on the root bus.\<close>

definition one_card :: "unit pci_access" where
  "one_card = \<lparr>pa_segments = [0], pa_physical_address = (\<lambda>a. if a = (0, 0, 3, 0) then Some 0xB0018000 else None),
     pa_multiple = (\<lambda>_. False), pa_id = (\<lambda>_. (0x8086, 0x100E)), pa_revision_and_class = (\<lambda>_. (3, 2, 0, 0)),
     pa_header_type = (\<lambda>_. Endpoint), pa_subsystem = (\<lambda>_. (0x1AF4, 0x1100)), pa_bar = (\<lambda>_ _. None), pa_interrupt = (\<lambda>_. (1, 11)),
     pa_capabilities = (\<lambda>_. []), pa_secondary_bus = (\<lambda>_. 0), pa_subordinate_bus = (\<lambda>_. 0)\<rparr>"

theorem pci_scan_exact_witness:
  "\<exists>devices. pci_init one_card 0 256 Map.empty = Some devices \<and> map_option pd_vendor_id (devices (0, 0, 3, 0)) = Some 0x8086"
proof -
  have asc: "bridges_ascend one_card" by (simp add: bridges_ascend_def one_card_def)
  have "listed one_card 0 0 3 0" "answers one_card (0, 0, 3, 0)" "pa_header_type one_card (0, 0, 3, 0) = Endpoint"
    by (simp_all add: listed_def answers_def function_exists_def one_card_def)
  then have "behind one_card 0 0 (0, 0, 3, 0)" by (rule behind.endpoint)
  then have "discovered one_card (0, 0, 3, 0)" by (auto simp: discovered_def root_buses_def one_card_def function_exists_def)
  moreover have "pd_vendor_id (new_device one_card 0 (0, 0, 3, 0)) = 0x8086" by (simp add: new_device_def one_card_def)
  ultimately show ?thesis using pci_scan_exact[of one_card 0 Map.empty] asc by auto
qed

end
