(* ===== verification/Debug_Log.thy ===== *)
theory Debug_Log
  imports Prelude
begin

text \<open>
  The kernel log: the event collector of \<open>kernel/src/debug.rs\<close>, the byte buffer the shell keeps
  behind it and the \<open>logs\<close> command that prints its tail (\<open>kernel/src/shell.rs\<close>), with UTF-8 as the
  standard library encodes and decodes it.

  Texts are lists of code points. Names, levels and formatted values reach the collector as texts:
  their formatting is the business of \<open>core::fmt\<close>.
\<close>

section \<open>UTF-8\<close>

definition scalar_value :: "nat \<Rightarrow> bool" where
  "scalar_value c \<longleftrightarrow> c < 0x110000 \<and> \<not> (0xD800 \<le> c \<and> c < 0xE000)"

definition utf8_char :: "nat \<Rightarrow> u8 list" where
  "utf8_char c = map of_nat
     (if c < 0x80 then [c]
      else if c < 0x800 then [0xC0 + c div 64, 0x80 + c mod 64]
      else if c < 0x10000 then [0xE0 + c div 4096, 0x80 + c div 64 mod 64, 0x80 + c mod 64]
      else [0xF0 + c div 262144, 0x80 + c div 4096 mod 64, 0x80 + c div 64 mod 64, 0x80 + c mod 64])"

definition as_bytes :: "nat list \<Rightarrow> u8 list" where
  "as_bytes s = concat (map utf8_char s)"

text \<open>
  The characters of a string slice that is not checked. On bytes that are not UTF-8 the source has no
  defined behaviour; the decoder below just stops there.
\<close>

abbreviation (input) continuation :: "u8 \<Rightarrow> nat" where
  "continuation b \<equiv> unat b - 0x80"

fun from_utf8_unchecked :: "u8 list \<Rightarrow> nat list" where
  "from_utf8_unchecked [] = []"
| "from_utf8_unchecked (a # bs) =
     (if unat a < 0x80 then unat a # from_utf8_unchecked bs
      else if unat a < 0xE0 then
        (case bs of
           b # bs \<Rightarrow> ((unat a - 0xC0) * 64 + continuation b) # from_utf8_unchecked bs
         | _ \<Rightarrow> [])
      else if unat a < 0xF0 then
        (case bs of
           b # c # bs \<Rightarrow> ((unat a - 0xE0) * 4096 + continuation b * 64 + continuation c) # from_utf8_unchecked bs
         | _ \<Rightarrow> [])
      else
        (case bs of
           b # c # d # bs \<Rightarrow>
             ((unat a - 0xF0) * 262144 + continuation b * 4096 + continuation c * 64 + continuation d) # from_utf8_unchecked bs
         | _ \<Rightarrow> []))"

section \<open>The event collector\<close>

text \<open>
  \<open>dl_serial\<close> is what \<open>arch::print\<close> has put out, \<open>dl_print\<close> the function stored in \<open>PRINT\<close> (\<open>None\<close> for the
  null pointer) and \<open>dl_debug\<close> the shell's buffer \<open>DEBUG\<close>, as that function leaves it: the printer of the
  framebuffer, which is installed first, leaves it alone.
\<close>

record debug_log =
  dl_serial :: "nat list"
  dl_print :: "(nat list \<Rightarrow> u8 list \<Rightarrow> u8 list) option"
  dl_debug :: "u8 list"

definition debug_log_static :: debug_log where
  "debug_log_static = \<lparr>dl_serial = [], dl_print = None, dl_debug = []\<rparr>"

definition debug_print :: "nat list \<Rightarrow> debug_log \<Rightarrow> debug_log" where
  "debug_print args st =
     (let st = st\<lparr>dl_serial := dl_serial st @ args\<rparr>
      in case dl_print st of
           None \<Rightarrow> st
         | Some print \<Rightarrow> st\<lparr>dl_debug := print args (dl_debug st)\<rparr>)"

definition set_print :: "(nat list \<Rightarrow> u8 list \<Rightarrow> u8 list) \<Rightarrow> debug_log \<Rightarrow> debug_log" where
  "set_print f st = st\<lparr>dl_print := Some f\<rparr>"

definition lit :: "string \<Rightarrow> nat list" where
  "lit s = map of_char s"

text \<open>The visitor carries a flag: whether the field is the first one.\<close>

definition record_debug :: "nat list \<times> nat list \<Rightarrow> bool \<times> debug_log \<Rightarrow> bool \<times> debug_log" where
  "record_debug field s =
     (case (field, s) of ((name, value), (first, st)) \<Rightarrow>
      let (first, st) = (if first then (False, debug_print (lit '' '') st) else (first, debug_print (lit ''; '') st))
      in if name = lit ''message'' then (first, debug_print value st)
         else (False, debug_print (name @ lit '' = '' @ value) st))"

definition Collector_event :: "nat list \<Rightarrow> (nat list \<times> nat list) list \<Rightarrow> debug_log \<Rightarrow> debug_log" where
  "Collector_event level fs st =
     (let st = debug_print level st;
          (_, st) = fold record_debug fs (True, st)
      in debug_print [10] st)"

definition Collector_log :: "nat list \<Rightarrow> nat list \<Rightarrow> debug_log \<Rightarrow> debug_log" where
  "Collector_log level args st = debug_print (level @ lit '' - '' @ args @ [10]) st"

section \<open>The buffer of the shell\<close>

definition shell_print :: "nat list \<Rightarrow> u8 list \<Rightarrow> u8 list" where
  "shell_print args debug = debug @ as_bytes args"

text \<open>\<open>str::parse::<u32>\<close>: an optional plus sign and at least one decimal digit, no overflow.\<close>

definition parse_u32 :: "nat list \<Rightarrow> nat option" where
  "parse_u32 s =
     (let digits = (case s of c # d # cs \<Rightarrow> if c = 43 then d # cs else s | _ \<Rightarrow> s);
          value = foldl (\<lambda>n c. 10 * n + (c - 48)) 0 digits
      in if digits \<noteq> [] \<and> list_all (\<lambda>c. 48 \<le> c \<and> c \<le> 57) digits \<and> value < 2 ^ 32
         then Some value else None)"

definition u32_add :: "nat \<Rightarrow> nat \<Rightarrow> nat res" where
  "u32_add a b = (if a + b < 2 ^ 32 then Inr (a + b) else Inl ArithOverflow)"

text \<open>
  \<open>rposition\<close> with the closure that counts newlines down, on the bytes in the order it visits them: the
  index of the byte it stops at is the number of bytes not yet visited.
\<close>

fun rposition_newline :: "u8 list \<Rightarrow> nat \<Rightarrow> nat option res" where
  "rposition_newline [] lines = Inr None"
| "rposition_newline (v # rest) lines =
     (if v = 10
      then res_bind (usize_sub lines 1) (\<lambda>lines.
           if lines = 0 then Inr (Some (length rest)) else rposition_newline rest lines)
      else rposition_newline rest lines)"

text \<open>What the command writes to the display.\<close>

definition logs :: "nat list list \<Rightarrow> u8 list \<Rightarrow> nat list res" where
  "logs args debug =
     res_bind
       (case (case args of [] \<Rightarrow> None | s # _ \<Rightarrow> parse_u32 s) of
          Some lines \<Rightarrow>
            res_bind (u32_add lines 1) (\<lambda>lines.
            res_bind (rposition_newline (rev debug) lines) (\<lambda>index.
              case index of Some index \<Rightarrow> Inr (drop index debug) | None \<Rightarrow> Inr debug))
        | None \<Rightarrow> Inr debug) (\<lambda>debug.
     Inr (from_utf8_unchecked debug @ [10]))"

section \<open>Decoding what was encoded\<close>

lemma unat_of_nat8: "n < 256 \<Longrightarrow> unat (of_nat n :: u8) = n"
  by (simp add: unat_of_nat)

text \<open>The digits of a code point to the base 64, with the quotients as variables.\<close>

lemma base_64:
  fixes c :: nat
  shows "c div 64 * 64 + c mod 64 = c"
    and "c div 4096 * 4096 + c div 64 mod 64 * 64 + c mod 64 = c"
    and "c div 262144 * 262144 + c div 4096 mod 64 * 4096 + c div 64 mod 64 * 64 + c mod 64 = c"
proof -
  have steps: "q'' * 262144 + r'' * 4096 + r' * 64 + r = c" "q' * 4096 + r' * 64 + r = c"
    if "c = q * 64 + r" "q = q' * 64 + r'" "q' = q'' * 64 + r''" for q q' q'' r r' r'' :: nat
    using that by simp_all
  have "c div 4096 = c div 64 div 64" "c div 262144 = c div 64 div 64 div 64"
    by (simp_all add: div_mult2_eq[symmetric])
  with steps[of "c div 64" "c mod 64" "c div 64 div 64" "c div 64 mod 64" "c div 64 div 64 div 64" "c div 64 div 64 mod 64"]
  show "c div 4096 * 4096 + c div 64 mod 64 * 64 + c mod 64 = c"
    and "c div 262144 * 262144 + c div 4096 mod 64 * 4096 + c div 64 mod 64 * 64 + c mod 64 = c"
    by (simp_all only: div_mult_mod_eq)
qed (rule div_mult_mod_eq)

lemma lead_bounds:
  "c < 0x800 \<Longrightarrow> c div 64 < (32::nat)"
  "c < 0x10000 \<Longrightarrow> c div 4096 < (16::nat)"
  "c < 0x110000 \<Longrightarrow> c div 262144 < (5::nat)"
  by (simp_all add: div_less_iff_less_mult)

lemma byte_bounds:
  "0x80 + n mod 64 < (256::nat)"
  "m < 32 \<Longrightarrow> 0xC0 + m < (256::nat)" "m < 16 \<Longrightarrow> 0xE0 + m < (256::nat)" "m < 5 \<Longrightarrow> 0xF0 + m < (256::nat)"
  using mod_less_divisor[of 64 n] by simp_all

lemmas utf8_simps = utf8_char_def unat_of_nat8 lead_bounds byte_bounds base_64

lemma from_utf8_char:
  assumes "c < 0x110000"
  shows "from_utf8_unchecked (utf8_char c @ bs) = c # from_utf8_unchecked bs"
proof -
  consider "c < 0x80" | "0x80 \<le> c" "c < 0x800" | "0x800 \<le> c" "c < 0x10000" | "0x10000 \<le> c" by linarith
  then show ?thesis
  proof cases
    case 1
    then show ?thesis by (simp add: utf8_simps del: of_nat_add)
  next
    case 2
    then show ?thesis using lead_bounds(1)[of c] by (simp add: utf8_simps del: of_nat_add)
  next
    case 3
    then show ?thesis using lead_bounds(2)[of c] by (simp add: utf8_simps del: of_nat_add)
  next
    case 4
    then show ?thesis using lead_bounds(3)[of c] assms by (simp add: utf8_simps del: of_nat_add)
  qed
qed

lemma from_utf8_as_bytes: "list_all scalar_value s \<Longrightarrow> from_utf8_unchecked (as_bytes s) = s"
  by (induction s) (simp_all add: as_bytes_def from_utf8_char scalar_value_def)

text \<open>The only character with a newline byte in its encoding is the newline.\<close>

lemma newline_not_in: "list_all (\<lambda>n. n < 256 \<and> n \<noteq> 10) ns \<Longrightarrow> (10::u8) \<notin> set (map of_nat ns)"
proof (induction ns)
  case (Cons n ns)
  then show ?case using unat_of_nat8[of n] by auto
qed simp

lemma utf8_char_newline:
  assumes "c < 0x110000" "c \<noteq> 10"
  shows "(10::u8) \<notin> set (utf8_char c)"
  unfolding utf8_char_def using assms by (intro newline_not_in) (simp add: lead_bounds byte_bounds)

section \<open>What the log holds\<close>

text \<open>An entry of the log: an event of \<open>tracing\<close> or a record of \<open>log\<close>; and the line it should leave.\<close>

datatype entry =
    TraceEvent "nat list" "(nat list \<times> nat list) list"
  | LogRecord "nat list" "nat list"

fun put_entry :: "entry \<Rightarrow> debug_log \<Rightarrow> debug_log" where
  "put_entry (TraceEvent level fs) = Collector_event level fs"
| "put_entry (LogRecord level args) = Collector_log level args"

definition field_text :: "nat list \<times> nat list \<Rightarrow> nat list" where
  "field_text f = (if fst f = lit ''message'' then snd f else fst f @ lit '' = '' @ snd f)"

fun fields_text :: "(nat list \<times> nat list) list \<Rightarrow> nat list" where
  "fields_text [] = []"
| "fields_text (f # fs) = lit '' '' @ field_text f @ concat (map (\<lambda>f. lit ''; '' @ field_text f) fs)"

fun entry_text :: "entry \<Rightarrow> nat list" where
  "entry_text (TraceEvent level fs) = level @ fields_text fs @ [10]"
| "entry_text (LogRecord level args) = level @ lit '' - '' @ args @ [10]"

definition appended :: "nat list \<Rightarrow> debug_log \<Rightarrow> debug_log \<Rightarrow> bool" where
  "appended s st st' \<longleftrightarrow> dl_print st' = dl_print st \<and> dl_serial st' = dl_serial st @ s
     \<and> (dl_print st = Some shell_print \<longrightarrow> dl_debug st' = dl_debug st @ as_bytes s)"

lemma as_bytes_append [simp]: "as_bytes (s @ t) = as_bytes s @ as_bytes t"
  by (simp add: as_bytes_def)

lemma as_bytes_newline [simp]: "as_bytes [] = []" "as_bytes (10 # s) = 10 # as_bytes s"
  by (simp_all add: as_bytes_def utf8_char_def)

lemma appended_refl: "appended [] st st"
  by (simp add: appended_def)

lemma appended_trans: "appended s st u \<Longrightarrow> appended t u v \<Longrightarrow> appended (s @ t) st v"
  by (auto simp: appended_def)

lemma debug_print_appended: "appended s st (debug_print s st)"
  by (auto simp: appended_def debug_print_def shell_print_def Let_def split: option.splits)

lemma record_debug_appended:
  "\<exists>st'. record_debug f (first, st) = (False, st') \<and> appended ((if first then lit '' '' else lit ''; '') @ field_text f) st st'"
  using appended_trans[OF debug_print_appended debug_print_appended]
  by (cases f) (auto simp: record_debug_def field_text_def)

lemma fold_record_debug:
  "\<exists>b st'. fold record_debug fs (False, st) = (b, st') \<and> appended (concat (map (\<lambda>f. lit ''; '' @ field_text f) fs)) st st'"
proof (induction fs arbitrary: st)
  case (Cons f fs)
  obtain u where u: "record_debug f (False, st) = (False, u)" "appended (lit ''; '' @ field_text f) st u"
    using record_debug_appended[of f False st] by auto
  with Cons.IH[of u] appended_trans[OF u(2)] show ?case by fastforce
qed (auto simp: appended_refl)

lemma put_entry_appended: "appended (entry_text e) st (put_entry e st)"
proof (cases e)
  case (LogRecord level args)
  then show ?thesis using debug_print_appended by (simp add: Collector_log_def)
next
  case (TraceEvent level fs)
  have "\<exists>b u. fold record_debug fs (True, debug_print level st) = (b, u) \<and> appended (level @ fields_text fs) st u"
  proof (cases fs)
    case Nil
    then show ?thesis using debug_print_appended by auto
  next
    case (Cons f gs)
    obtain u where u: "record_debug f (True, debug_print level st) = (False, u)"
      "appended (lit '' '' @ field_text f) (debug_print level st) u"
      using record_debug_appended[of f True "debug_print level st"] by auto
    obtain b v where v: "fold record_debug gs (False, u) = (b, v)" "appended (concat (map (\<lambda>f. lit ''; '' @ field_text f) gs)) u v"
      using fold_record_debug[of gs u] by blast
    show ?thesis using appended_trans[OF debug_print_appended appended_trans[OF u(2) v(2)]] u(1) v(1) Cons by auto
  qed
  then obtain b u where u: "fold record_debug fs (True, debug_print level st) = (b, u)" "appended (level @ fields_text fs) st u"
    by blast
  then show ?thesis using appended_trans[OF u(2) debug_print_appended[of "[10]" u]] TraceEvent
    by (auto simp: Collector_event_def)
qed

lemma put_entries_appended: "appended (concat (map entry_text es)) st (fold put_entry es st)"
proof (induction es arbitrary: st)
  case (Cons e es)
  show ?case using appended_trans[OF put_entry_appended Cons.IH] by simp
qed (simp add: appended_refl)

section \<open>The tail of the log\<close>

lemma rposition_none: "count_list bs 10 \<le> n \<Longrightarrow> rposition_newline bs (Suc n) = Inr None"
proof (induction bs arbitrary: n)
  case (Cons b bs)
  then show ?case by (cases n) auto
qed simp

lemma rposition_some: "count_list xs 10 = n \<Longrightarrow> rposition_newline (xs @ 10 # ys) (Suc n) = Inr (Some (length ys))"
proof (induction xs arbitrary: n)
  case (Cons x xs)
  then show ?case by (cases n) auto
qed simp

lemma count_as_bytes: "list_all scalar_value s \<Longrightarrow> count_list (as_bytes s) 10 = count_list s 10"
proof (induction s)
  case (Cons c s)
  have "count_list (utf8_char c) 10 = (if c = 10 then 1 else 0)"
    using Cons.prems utf8_char_newline[of c] by (auto simp: scalar_value_def count_list_0_iff utf8_char_def)
  with Cons show ?case by (simp add: as_bytes_def)
qed simp

lemma split_at_newline: "n < count_list s c \<Longrightarrow> \<exists>pre suf. s = pre @ c # suf \<and> count_list suf c = n"
proof (induction s)
  case (Cons x s)
  show ?case
  proof (cases "n < count_list s c")
    case True
    then show ?thesis using Cons.IH by (metis append_Cons)
  next
    case False
    with Cons.prems have "x = c" "count_list s c = n" by (auto split: if_splits)
    then show ?thesis by (intro exI[of _ "[]"] exI[of _ s]) auto
  qed
qed simp

lemma logs_all:
  assumes "list_all scalar_value s"
  shows "logs [] (as_bytes s) = Inr (s @ [10])"
    and "parse_u32 arg = None \<Longrightarrow> logs (arg # args) (as_bytes s) = Inr (s @ [10])"
  using assms by (simp_all add: logs_def from_utf8_as_bytes)

lemma logs_few:
  assumes "list_all scalar_value s" "parse_u32 arg = Some n" "n < 2 ^ 32 - 1" "count_list s 10 \<le> n"
  shows "logs (arg # args) (as_bytes s) = Inr (s @ [10])"
  using assms rposition_none[of "rev (as_bytes s)" n]
  by (simp add: logs_def u32_add_def from_utf8_as_bytes count_as_bytes)

lemma logs_tail:
  assumes "list_all scalar_value (pre @ 10 # suf)" "parse_u32 arg = Some n" "n < 2 ^ 32 - 1" "count_list suf 10 = n"
  shows "logs (arg # args) (as_bytes (pre @ 10 # suf)) = Inr (10 # suf @ [10])"
  using assms rposition_some[of "rev (as_bytes suf)" n "rev (as_bytes pre)"] from_utf8_as_bytes[of "10 # suf"]
  by (simp add: logs_def u32_add_def count_as_bytes)

lemma parse_u32_bound: "parse_u32 s = Some n \<Longrightarrow> n < 2 ^ 32"
  by (auto simp: parse_u32_def Let_def split: if_splits)

text \<open>
  C23. \<open>logs\<close> shows the log as it was written. After any sequence of events and records the serial port
  has had exactly their lines. Without a number \<open>logs\<close> prints all of them; with a number \<open>n\<close> it prints
  the text after the newline that precedes the last \<open>n\<close> lines, that newline included, or everything if
  there are not so many. The slice is taken on bytes and read without a check, and yet never cuts a
  character apart. The largest number of 32 bits makes the command panic by overflow.
\<close>

theorem logs_shows_events:
  assumes ok: "list_all scalar_value (concat (map entry_text es))"
    and st: "st = fold put_entry es (set_print shell_print debug_log_static)"
    and s: "s = concat (map entry_text es)"
  shows "dl_serial st = s \<and> logs [] (dl_debug st) = Inr (s @ [10])
    \<and> (case parse_u32 arg of
         None \<Rightarrow> logs (arg # args) (dl_debug st) = Inr (s @ [10])
       | Some n \<Rightarrow>
           if n = 2 ^ 32 - 1 then logs (arg # args) (dl_debug st) = Inl ArithOverflow
           else if count_list s 10 \<le> n then logs (arg # args) (dl_debug st) = Inr (s @ [10])
           else \<exists>pre suf. s = pre @ 10 # suf \<and> count_list suf 10 = n
                  \<and> logs (arg # args) (dl_debug st) = Inr (10 # suf @ [10]))"
proof -
  have ok: "list_all scalar_value s" using ok s by simp
  have "appended s (set_print shell_print debug_log_static) st" unfolding st s by (rule put_entries_appended)
  then have b: "dl_debug st = as_bytes s" "dl_serial st = s"
    by (auto simp: appended_def set_print_def debug_log_static_def)
  show ?thesis
  proof (cases "parse_u32 arg")
    case None
    then show ?thesis using b logs_all[OF ok] by simp
  next
    case (Some n)
    consider "n = 2 ^ 32 - 1" | "n < 2 ^ 32 - 1" "count_list s 10 \<le> n" | "n < 2 ^ 32 - 1" "n < count_list s 10"
      using parse_u32_bound[OF Some] by linarith
    then show ?thesis
    proof cases
      case 1
      then show ?thesis using Some b logs_all[OF ok] by (simp add: logs_def u32_add_def)
    next
      case 2
      then show ?thesis using Some b logs_all[OF ok] logs_few[OF ok Some] by simp
    next
      case 3
      obtain pre suf where p: "s = pre @ 10 # suf" "count_list suf 10 = n" using split_at_newline[OF 3(2)] by blast
      with logs_tail[of pre suf arg n args] ok Some 3(1) have "logs (arg # args) (dl_debug st) = Inr (10 # suf @ [10])"
        by (simp add: b)
      then show ?thesis using Some 3 p b logs_all[OF ok] by auto
    qed
  qed
qed

text \<open>Two entries, the first with an accented letter; \<open>logs 1\<close> shows the second.\<close>

definition two_entries :: "entry list" where
  "two_entries = [TraceEvent (lit ''INFO'') [(lit ''message'', [233]), (lit ''n'', lit ''1'')], LogRecord (lit ''WARN'') (lit ''x'')]"

theorem logs_shows_events_witness:
  "\<exists>pre suf. concat (map entry_text two_entries) = pre @ 10 # suf \<and> count_list suf 10 = 1
     \<and> logs [lit ''1''] (dl_debug (fold put_entry two_entries (set_print shell_print debug_log_static)))
         = Inr (10 # suf @ [10])"
proof -
  have ok: "list_all scalar_value (concat (map entry_text two_entries))"
    by (simp add: two_entries_def lit_def field_text_def scalar_value_def)
  have p: "parse_u32 (lit ''1'') = Some 1" by (simp add: parse_u32_def lit_def)
  have c: "count_list (concat (map entry_text two_entries)) 10 = 2"
    by (simp add: two_entries_def lit_def field_text_def)
  show ?thesis using logs_shows_events[OF ok refl refl, of "lit ''1''" "[]"] by (simp add: p c)
qed

end
