(* ===== verification/Shell.thy ===== *)
theory Shell
  imports Debug_Log Logo Contracts
begin

text \<open>
  The interactive shell, \<open>kernel/src/shell.rs\<close>: line editing, the splitting of the command line, the
  command table, and the wait for a running command or its cancellation. The commands themselves are in
  \<open>Commands\<close>.

  The shell is a task that is resumed at one of its two await points: the next key, or the selection
  between the running command and a key that cancels it. Other tasks (the running command among them)
  write to the display in between. A run is a sequence of such events in any order.
\<close>

section \<open>Keys and the command line\<close>

text \<open>The keys of \<open>pc_keyboard\<close>, as far as the shell tells them apart.\<close>

datatype KeyCode = Backspace | Delete | OtherKey nat

datatype DecodedKey = Unicode nat | RawKey KeyCode

text \<open>\<open>str::split(" ")\<close>.\<close>

fun split_space :: "nat list \<Rightarrow> nat list list" where
  "split_space [] = [[]]"
| "split_space (c # cs) =
     (if c = 32 then [] # split_space cs
      else case split_space cs of w # ws \<Rightarrow> (c # w) # ws | [] \<Rightarrow> [[c]])"

text \<open>The keys of the table: those registered by \<open>reg!\<close>, then \<open>help\<close>.\<close>

definition reg_commands :: "nat list list" where
  "reg_commands = map lit
     [''panic'', ''timing'', ''ifconfig'', ''dig'', ''http'', ''ping'', ''shutdown'', ''reboot'', ''logs'', ''logo'', ''lspci'']"

definition commands :: "nat list list" where
  "commands = reg_commands @ [lit ''help'']"

section \<open>The future of the running command\<close>

text \<open>
  \<open>Fuse\<close> keeps its future until it is ready. The future is the join handle of a spawned command; its
  result is the error of the join (with its debug text), else the payload of a panic that \<open>CatchUnwind\<close>
  caught, else the command's own result.
\<close>

type_synonym cmd_ret = "nat list + unit"
type_synonym join_result = "nat list + unit + cmd_ret"

definition Fuse_poll :: "('f \<Rightarrow> 'r poll) \<Rightarrow> 'f option \<Rightarrow> 'r poll \<times> 'f option" where
  "Fuse_poll poll inner =
     (case inner of
        Some fut \<Rightarrow> (case poll fut of Ready r \<Rightarrow> (Ready r, None) | Pending \<Rightarrow> (Pending, Some fut))
      | None \<Rightarrow> (Pending, None))"

definition Fuse_is_terminated :: "'f option \<Rightarrow> bool" where
  "Fuse_is_terminated inner = (inner = None)"

text \<open>The other future: keys are read and dropped until control-C, or until there is no keyboard.\<close>

fun wait_cancel :: "DecodedKey option list \<Rightarrow> unit poll \<times> DecodedKey option list" where
  "wait_cancel [] = (Pending, [])"
| "wait_cancel (None # ks) = (Ready (), ks)"
| "wait_cancel (Some k # ks) = (if k = Unicode 3 then (Ready (), ks) else wait_cancel ks)"

section \<open>The shell task\<close>

text \<open>
  \<open>sh_keys\<close> are the answers of \<open>next_key\<close> that are due, in order (\<open>None\<close>: no keyboard). A handle is the
  position of a command in the list of those spawned.
\<close>

datatype shell_pc = Editing | Running "nat option" | Ended

record shell =
  sh_line :: "nat list"
  sh_display :: Display
  sh_pc :: shell_pc
  sh_keys :: "DecodedKey option list"
  sh_spawned :: "(nat list \<times> nat list list) list"
  sh_cancelled :: "nat list"

definition sh_write :: "fb_float \<Rightarrow> fb_font \<Rightarrow> nat list \<Rightarrow> shell \<Rightarrow> shell res" where
  "sh_write fl font s st =
     res_bind (Display_write_str fl font s (sh_display st)) (\<lambda>d. Inr (st\<lparr>sh_display := d\<rparr>))"

definition shell_start :: "fb_float \<Rightarrow> fb_font \<Rightarrow> u8 list \<Rightarrow> Display \<Rightarrow> shell res" where
  "shell_start fl font logo_text display =
     res_bind (logo fl logo_text display) (\<lambda>display.
       sh_write fl font (lit ''> '')
         \<lparr>sh_line = [], sh_display = display, sh_pc = Editing, sh_keys = [], sh_spawned = [], sh_cancelled = []\<rparr>)"

text \<open>The end of an entered line: the line is cleared and the prompt written.\<close>

definition line_done :: "fb_float \<Rightarrow> fb_font \<Rightarrow> shell \<Rightarrow> shell res" where
  "line_done fl font st = sh_write fl font (lit ''> '') (st\<lparr>sh_line := [], sh_pc := Editing\<rparr>)"

definition line_entered :: "fb_float \<Rightarrow> fb_font \<Rightarrow> shell \<Rightarrow> shell res" where
  "line_entered fl font st =
     res_bind (sh_write fl font [10] st) (\<lambda>st.
     case split_space (sh_line st) of
       cmd # args \<Rightarrow>
         if cmd \<in> set commands
         then Inr (st\<lparr>sh_spawned := sh_spawned st @ [(cmd, args)], sh_pc := Running (Some (length (sh_spawned st)))\<rparr>)
         else res_bind (sh_write fl font (lit ''unknown command'' @ [10]) st) (line_done fl font)
     | [] \<Rightarrow> line_done fl font st)"

definition shell_key :: "fb_float \<Rightarrow> fb_font \<Rightarrow> DecodedKey \<Rightarrow> shell \<Rightarrow> shell res" where
  "shell_key fl font key st =
     (case key of
        Unicode c \<Rightarrow>
          if c = 13 \<or> c = 10 then line_entered fl font st
          else if c = 8 then sh_write fl font [8] (st\<lparr>sh_line := butlast (sh_line st)\<rparr>)
          else sh_write fl font [c] (st\<lparr>sh_line := sh_line st @ [c]\<rparr>)
      | RawKey k \<Rightarrow>
          (case k of
             Backspace \<Rightarrow> sh_write fl font [8] (st\<lparr>sh_line := butlast (sh_line st)\<rparr>)
           | Delete \<Rightarrow> sh_write fl font [8] (st\<lparr>sh_line := butlast (sh_line st)\<rparr>)
           | OtherKey _ \<Rightarrow> Inr st))"

text \<open>
  \<open>select_biased!\<close>: the command first, then the keys. \<open>jp\<close> is what the join handle answers at this poll.
\<close>

definition shell_select :: "fb_float \<Rightarrow> fb_font \<Rightarrow> (nat \<Rightarrow> join_result poll) \<Rightarrow> nat option \<Rightarrow> shell \<Rightarrow> shell res" where
  "shell_select fl font jp cmd_fut st =
     (case Fuse_poll jp cmd_fut of
        (Ready r, _) \<Rightarrow>
          res_bind (case r of Inl e \<Rightarrow> sh_write fl font (e @ [10]) st | Inr _ \<Rightarrow> Inr st) (line_done fl font)
      | (Pending, cmd_fut) \<Rightarrow>
          (case wait_cancel (sh_keys st) of
             (Ready _, ks) \<Rightarrow>
               let st = st\<lparr>sh_keys := ks\<rparr>;
                   st = (case cmd_fut of Some h \<Rightarrow> st\<lparr>sh_cancelled := sh_cancelled st @ [h]\<rparr> | None \<Rightarrow> st)
               in res_bind (sh_write fl font (lit ''Cancelled task'' @ [10]) st) (line_done fl font)
           | (Pending, ks) \<Rightarrow> Inr (st\<lparr>sh_keys := ks, sh_pc := Running cmd_fut\<rparr>)))"

text \<open>One resumption of the task.\<close>

definition shell_poll :: "fb_float \<Rightarrow> fb_font \<Rightarrow> (nat \<Rightarrow> join_result poll) \<Rightarrow> shell \<Rightarrow> shell res" where
  "shell_poll fl font jp st =
     (case sh_pc st of
        Editing \<Rightarrow>
          (case sh_keys st of
             [] \<Rightarrow> Inr st
           | None # ks \<Rightarrow> Inr (st\<lparr>sh_keys := ks, sh_pc := Ended\<rparr>)
           | Some key # ks \<Rightarrow> shell_key fl font key (st\<lparr>sh_keys := ks\<rparr>))
      | Running cmd_fut \<Rightarrow> shell_select fl font jp cmd_fut st
      | Ended \<Rightarrow> Inr st)"

text \<open>A key arrives, the task is polled, or another task writes to the display.\<close>

datatype sh_event =
    Typed "DecodedKey option"
  | Polled "nat \<Rightarrow> join_result poll"
  | Wrote "nat list"

fun shell_event :: "fb_float \<Rightarrow> fb_font \<Rightarrow> sh_event \<Rightarrow> shell \<Rightarrow> shell res" where
  "shell_event fl font (Typed k) st = Inr (st\<lparr>sh_keys := sh_keys st @ [k]\<rparr>)"
| "shell_event fl font (Polled jp) st = shell_poll fl font jp st"
| "shell_event fl font (Wrote s) st = sh_write fl font s st"

section \<open>Words\<close>

lemma split_space_nonempty [simp]: "split_space s \<noteq> []"
  by (induction s) (auto split: list.splits)

fun join_space :: "nat list list \<Rightarrow> nat list" where
  "join_space [] = []"
| "join_space [w] = w"
| "join_space (w # ws) = w @ 32 # join_space ws"

lemma join_space_Cons: "ws \<noteq> [] \<Longrightarrow> join_space (w # ws) = w @ 32 # join_space ws"
  by (cases ws) auto

lemma join_split: "join_space (split_space s) = s"
proof (induction s)
  case (Cons c s)
  obtain w ws where s: "split_space s = w # ws" by (cases "split_space s") auto
  then show ?case using Cons by (cases ws) (auto simp: join_space_Cons)
qed simp

lemma split_space_words: "w \<in> set (split_space s) \<Longrightarrow> 32 \<notin> set w"
proof (induction s arbitrary: w)
  case (Cons c s)
  obtain v ws where s: "split_space s = v # ws" by (cases "split_space s") auto
  then show ?case using Cons by (auto split: if_splits)
qed simp

lemma split_space_word: "32 \<notin> set w \<Longrightarrow> split_space w = [w]"
  by (induction w) auto

lemma split_space_append: "32 \<notin> set w \<Longrightarrow> split_space (w @ 32 # s) = w # split_space s"
  by (induction w) auto

lemma split_join: "ws \<noteq> [] \<Longrightarrow> (\<forall>w\<in>set ws. 32 \<notin> set w) \<Longrightarrow> split_space (join_space ws) = ws"
proof (induction ws rule: join_space.induct)
  case (3 w v ws)
  then show ?case by (simp add: split_space_append)
qed (auto simp: split_space_word)

section \<open>The shell never panics\<close>

text \<open>
  What every event keeps: the display is well-formed; only commands of the table were spawned; a
  command is cancelled at most once; and the running one is the last spawned and not cancelled.
\<close>

definition shell_inv :: "usize \<Rightarrow> shell \<Rightarrow> bool" where
  "shell_inv w st \<longleftrightarrow> text_inv w (sh_display st)
     \<and> (\<forall>(cmd, args)\<in>set (sh_spawned st). cmd \<in> set commands)
     \<and> distinct (sh_cancelled st) \<and> (\<forall>h\<in>set (sh_cancelled st). h < length (sh_spawned st))
     \<and> (\<forall>f. sh_pc st = Running f \<longrightarrow>
          (\<exists>h. f = Some h \<and> length (sh_spawned st) = Suc h \<and> h \<notin> set (sh_cancelled st)))"

lemma sh_write_inv:
  assumes "mono_font font w" "text_inv w (sh_display st)"
  shows "\<exists>d. sh_write fl font s st = Inr (st\<lparr>sh_display := d\<rparr>) \<and> text_inv w d"
proof -
  obtain d where "Display_write_str fl font s (sh_display st) = Inr d" "text_inv w d"
    using res_fold_total[where P = "text_inv w" and f = "Display_write_char fl font" and xs = s, OF assms(2)]
      write_char_inv[OF assms(1)] by (auto simp: Display_write_str_def)
  then show ?thesis by (auto simp: sh_write_def)
qed

lemma sh_write_shell_inv:
  assumes font: "mono_font font w" and inv: "shell_inv w st"
  shows "\<exists>st'. sh_write fl font s st = Inr st' \<and> shell_inv w st' \<and> (\<exists>d. st' = st\<lparr>sh_display := d\<rparr>)"
  using sh_write_inv[OF font, of st fl s] inv by (fastforce simp: shell_inv_def)

lemma line_done_inv:
  assumes "mono_font font w" "shell_inv w st"
  shows "\<exists>st'. line_done fl font st = Inr st' \<and> shell_inv w st'
    \<and> (\<exists>d. st' = st\<lparr>sh_line := [], sh_pc := Editing, sh_display := d\<rparr>)"
proof -
  have "shell_inv w (st\<lparr>sh_line := [], sh_pc := Editing\<rparr>)" using assms(2) by (simp add: shell_inv_def)
  from sh_write_shell_inv[OF assms(1) this] show ?thesis by (auto simp: line_done_def)
qed

lemma write_then_done_inv:
  assumes "mono_font font w" "shell_inv w st"
  shows "\<exists>st'. res_bind (sh_write fl font s st) (line_done fl font) = Inr st' \<and> shell_inv w st'
    \<and> (\<exists>d. st' = st\<lparr>sh_line := [], sh_pc := Editing, sh_display := d\<rparr>)"
proof -
  obtain u d where u: "sh_write fl font s st = Inr u" "shell_inv w u" "u = st\<lparr>sh_display := d\<rparr>"
    using sh_write_shell_inv[OF assms] by blast
  show ?thesis using line_done_inv[OF assms(1) u(2), of fl] u(1,3) by auto
qed

text \<open>The state after an entered line.\<close>

lemma line_entered_inv:
  assumes "mono_font font w" "shell_inv w st" "sh_pc st = Editing"
  shows "\<exists>st' d. line_entered fl font st = Inr st' \<and> shell_inv w st'
    \<and> st' = (if hd (split_space (sh_line st)) \<in> set commands
        then st\<lparr>sh_spawned := sh_spawned st @ [(hd (split_space (sh_line st)), tl (split_space (sh_line st)))],
               sh_pc := Running (Some (length (sh_spawned st))), sh_display := d\<rparr>
        else st\<lparr>sh_line := [], sh_display := d\<rparr>)"
proof -
  obtain u d where u: "sh_write fl font [10] st = Inr u" "shell_inv w u" "u = st\<lparr>sh_display := d\<rparr>"
    using sh_write_shell_inv[OF assms(1,2)] by blast
  obtain cmd args where s: "split_space (sh_line st) = cmd # args" by (cases "split_space (sh_line st)") auto
  show ?thesis
  proof (cases "cmd \<in> set commands")
    case True
    let ?v = "u\<lparr>sh_spawned := sh_spawned u @ [(cmd, args)], sh_pc := Running (Some (length (sh_spawned u)))\<rparr>"
    have "shell_inv w ?v" using u(2) True by (auto simp: shell_inv_def less_Suc_eq)
    moreover have "line_entered fl font st = Inr ?v" using u s True by (simp add: line_entered_def)
    ultimately show ?thesis using u(3) s True by (intro exI[of _ ?v] exI[of _ d]) simp
  next
    case False
    obtain v e where v: "res_bind (sh_write fl font (lit ''unknown command'' @ [10]) u) (line_done fl font) = Inr v"
      "shell_inv w v" "v = u\<lparr>sh_line := [], sh_pc := Editing, sh_display := e\<rparr>"
      using write_then_done_inv[OF assms(1) u(2)] by metis
    have "line_entered fl font st = Inr v" unfolding line_entered_def using u(1,3) s False v(1) by simp
    then show ?thesis using u(3) s False v(2,3) assms(3) by (intro exI[of _ v] exI[of _ e]) simp
  qed
qed

text \<open>The line after a key that does not end it.\<close>

fun edit :: "DecodedKey \<Rightarrow> nat list \<Rightarrow> nat list" where
  "edit (Unicode c) line = (if c = 8 then butlast line else line @ [c])"
| "edit (RawKey Backspace) line = butlast line"
| "edit (RawKey Delete) line = butlast line"
| "edit (RawKey (OtherKey _)) line = line"

definition edits :: "DecodedKey \<Rightarrow> bool" where
  "edits k \<longleftrightarrow> k \<noteq> Unicode 13 \<and> k \<noteq> Unicode 10"

lemma edit_key_inv:
  assumes "mono_font font w" "shell_inv w st" "edits k"
  shows "\<exists>st' d. shell_key fl font k st = Inr st' \<and> shell_inv w st' \<and> st' = st\<lparr>sh_line := edit k (sh_line st), sh_display := d\<rparr>"
proof -
  have inv: "shell_inv w (st\<lparr>sh_line := l\<rparr>)" for l using assms(2) by (simp add: shell_inv_def)
  have wr: "\<exists>st' d. sh_write fl font s (st\<lparr>sh_line := l\<rparr>) = Inr st' \<and> shell_inv w st' \<and> st' = st\<lparr>sh_line := l, sh_display := d\<rparr>" for s l
    using sh_write_shell_inv[OF assms(1) inv[of l], of fl s] by auto
  have id: "\<exists>d. st = st\<lparr>sh_display := d\<rparr>" by (rule exI[of _ "sh_display st"]) simp
  show ?thesis using assms(2,3) wr id by (cases "(k, sh_line st)" rule: edit.cases) (auto simp: shell_key_def edits_def)
qed

lemma shell_key_inv:
  assumes "mono_font font w" "shell_inv w st" "sh_pc st = Editing"
  shows "\<exists>st'. shell_key fl font k st = Inr st' \<and> shell_inv w st'"
proof (cases "edits k")
  case True
  then show ?thesis using edit_key_inv[OF assms(1,2)] by blast
next
  case False
  then have "shell_key fl font k st = line_entered fl font st" by (auto simp: edits_def shell_key_def)
  then show ?thesis using line_entered_inv[OF assms] by auto
qed

text \<open>The wait for the running command.\<close>

lemma wait_cancel_Pending:
  "wait_cancel ks = (Pending, ks') \<longleftrightarrow> ks' = [] \<and> None \<notin> set ks \<and> Some (Unicode 3) \<notin> set ks"
  by (induction ks rule: wait_cancel.induct) auto

lemma wait_cancel_first:
  assumes "None \<notin> set ks" "Some (Unicode 3) \<notin> set ks" "k = None \<or> k = Some (Unicode 3)"
  shows "wait_cancel (ks @ k # rest) = (Ready (), rest)"
  using assms by (induction ks rule: wait_cancel.induct) auto

lemma shell_select_ready:
  assumes "mono_font font w" "shell_inv w st" "jp h = Ready r"
  shows "\<exists>st' d. shell_select fl font jp (Some h) st = Inr st' \<and> shell_inv w st'
    \<and> st' = st\<lparr>sh_line := [], sh_pc := Editing, sh_display := d\<rparr>"
  using assms(3) line_done_inv[OF assms(1,2), of fl] write_then_done_inv[OF assms(1,2), of fl]
  by (auto simp: shell_select_def Fuse_poll_def split: sum.splits)

lemma shell_select_cancel:
  assumes "mono_font font w" "shell_inv w st" "sh_pc st = Running (Some h)" "jp h = Pending"
    "wait_cancel (sh_keys st) = (Ready u, ks)"
  shows "\<exists>st' d. shell_select fl font jp (Some h) st = Inr st' \<and> shell_inv w st'
    \<and> st' = st\<lparr>sh_keys := ks, sh_cancelled := sh_cancelled st @ [h], sh_line := [], sh_pc := Editing, sh_display := d\<rparr>"
proof -
  let ?u = "st\<lparr>sh_keys := ks, sh_cancelled := sh_cancelled st @ [h], sh_pc := Editing\<rparr>"
  let ?v = "st\<lparr>sh_keys := ks, sh_cancelled := sh_cancelled st @ [h]\<rparr>"
  have "shell_inv w ?u" using assms(2,3) by (auto simp: shell_inv_def)
  from write_then_done_inv[OF assms(1) this, of fl "lit ''Cancelled task'' @ [10]"]
  have "\<exists>st'. res_bind (sh_write fl font (lit ''Cancelled task'' @ [10]) ?u) (line_done fl font) = Inr st' \<and> shell_inv w st'
      \<and> (\<exists>d. st' = ?u\<lparr>sh_line := [], sh_pc := Editing, sh_display := d\<rparr>)" .
  moreover have "res_bind (sh_write fl font s ?u) (line_done fl font) = res_bind (sh_write fl font s ?v) (line_done fl font)" for s
    by (simp add: sh_write_def line_done_def res_bind_assoc)
  ultimately show ?thesis using assms(4,5) by (auto simp: shell_select_def Fuse_poll_def)
qed

lemma shell_poll_inv:
  assumes "mono_font font w" "shell_inv w st"
  shows "\<exists>st'. shell_poll fl font jp st = Inr st' \<and> shell_inv w st'"
proof (cases "sh_pc st")
  case Editing
  have keys: "shell_inv w (st\<lparr>sh_keys := ks\<rparr>)" for ks using assms(2) by (simp add: shell_inv_def)
  have "shell_inv w (st\<lparr>sh_keys := ks, sh_pc := Ended\<rparr>)" for ks using assms(2) by (simp add: shell_inv_def)
  then show ?thesis using Editing assms(2) shell_key_inv[OF assms(1) keys] by (auto simp: shell_poll_def split: list.splits option.splits)
next
  case (Running f)
  obtain h where h: "f = Some h" using assms(2) Running by (auto simp: shell_inv_def)
  show ?thesis
  proof (cases "jp h")
    case (Ready r)
    then show ?thesis using shell_select_ready[where fl = fl and jp = jp and h = h, OF assms Ready] Running h by (auto simp: shell_poll_def)
  next
    case Pending
    obtain q ks where w: "wait_cancel (sh_keys st) = (q, ks)" by (cases "wait_cancel (sh_keys st)")
    show ?thesis
    proof (cases q)
      case (Ready u)
      then show ?thesis using shell_select_cancel[where jp = jp and h = h and fl = fl, OF assms _ Pending] w Running h by (auto simp: shell_poll_def)
    next
      case P: Pending
      then show ?thesis using Pending w Running h assms(2)
        by (auto simp: shell_poll_def shell_select_def Fuse_poll_def shell_inv_def)
    qed
  qed
qed (use assms(2) in \<open>simp add: shell_poll_def\<close>)

lemma shell_event_inv:
  assumes "mono_font font w" "shell_inv w st"
  shows "\<exists>st'. shell_event fl font e st = Inr st' \<and> shell_inv w st'"
proof (cases e)
  case (Typed k)
  then show ?thesis using assms(2) by (simp add: shell_inv_def)
next
  case (Polled jp)
  then show ?thesis using shell_poll_inv[OF assms] by simp
next
  case (Wrote s)
  then show ?thesis using sh_write_shell_inv[OF assms, of fl s] by auto
qed

text \<open>
  C22. The shell survives every input. On a display that is well-formed once the logo is drawn, with a
  font of fixed width, the shell starts, and whatever keys arrive, whatever other tasks print and
  whatever the spawned commands answer, in any order, no event makes it panic. All along the display
  stays well-formed, only commands of the table are spawned, one at a time, and no command is cancelled
  twice.
\<close>

theorem shell_never_panics:
  assumes "mono_font font w" and "logo fl logo_text d = Inr d1" and "text_inv w d1"
  shows "\<exists>st st'. shell_start fl font logo_text d = Inr st
    \<and> res_fold (shell_event fl font) evs st = Inr st' \<and> shell_inv w st'"
proof -
  let ?s = "\<lparr>sh_line = [], sh_display = d1, sh_pc = Editing, sh_keys = [], sh_spawned = [], sh_cancelled = []\<rparr>"
  have "shell_inv w ?s" using assms(3) by (simp add: shell_inv_def)
  then obtain st where st: "sh_write fl font (lit ''> '') ?s = Inr st" "shell_inv w st"
    using sh_write_shell_inv[OF assms(1)] by blast
  have "shell_start fl font logo_text d = Inr st" using st(1) assms(2) by (simp add: shell_start_def)
  moreover have "\<exists>st'. res_fold (shell_event fl font) evs st = Inr st' \<and> shell_inv w st'"
    by (rule res_fold_total[where P = "shell_inv w", OF st(2)]) (rule shell_event_inv[OF assms(1)])
  ultimately show ?thesis by blast
qed

section \<open>From keys to commands\<close>

lemma run_edits:
  assumes "mono_font font w" "shell_inv w st" "sh_pc st = Editing" "list_all edits ks"
    "sh_keys st = map Some ks @ rest" "length jps = length ks"
  shows "\<exists>st' d. res_fold (shell_event fl font) (map Polled jps) st = Inr st' \<and> shell_inv w st'
    \<and> st' = st\<lparr>sh_line := fold edit ks (sh_line st), sh_keys := rest, sh_display := d\<rparr>"
  using assms
proof (induction ks arbitrary: st jps)
  case Nil
  then show ?case by (auto intro!: exI[of _ "sh_display st"])
next
  case (Cons k ks)
  obtain jp jps' where jps: "jps = jp # jps'" "length jps' = length ks" using Cons.prems(6) by (cases jps) auto
  let ?s = "st\<lparr>sh_keys := map Some ks @ rest\<rparr>"
  have "shell_inv w ?s" using Cons.prems(2) by (simp add: shell_inv_def)
  then obtain u d where u: "shell_key fl font k ?s = Inr u" "shell_inv w u" "u = ?s\<lparr>sh_line := edit k (sh_line ?s), sh_display := d\<rparr>"
    using edit_key_inv[OF Cons.prems(1), of ?s k fl] Cons.prems(4) by auto
  have "shell_event fl font (Polled jp) st = Inr u" using u(1) Cons.prems(3,5) by (simp add: shell_poll_def)
  moreover have "sh_pc u = Editing" "list_all edits ks" "sh_keys u = map Some ks @ rest" using u(3) Cons.prems by auto
  ultimately show ?case using Cons.IH[OF Cons.prems(1) u(2) _ _ _ jps(2)] u(3) jps(1) by auto
qed

text \<open>
  A typed line is executed as typed. From the prompt, after any sequence of editing keys (characters,
  backspaces in their three forms, keys without effect) and Return, the shell has edited the line as
  the keys say, and spawned the command named by the first word with the remaining words as its arguments
  if the table has it, and nothing otherwise, going back to an empty line. The words are the unique
  division of the line at its spaces: joined by single spaces they give the line again.
\<close>

theorem shell_executes_line:
  assumes "mono_font font w" "shell_inv w st" "sh_pc st = Editing" "sh_line st = []"
    and "list_all edits ks" "enter = Unicode 13 \<or> enter = Unicode 10"
    and "sh_keys st = map Some ks @ Some enter # rest" "length jps = Suc (length ks)"
  shows "\<exists>st' cmd args. res_fold (shell_event fl font) (map Polled jps) st = Inr st'
    \<and> join_space (cmd # args) = fold edit ks [] \<and> (\<forall>v\<in>set (cmd # args). 32 \<notin> set v)
    \<and> (\<forall>ws. ws \<noteq> [] \<longrightarrow> join_space ws = fold edit ks [] \<longrightarrow> (\<forall>v\<in>set ws. 32 \<notin> set v) \<longrightarrow> ws = cmd # args)
    \<and> sh_keys st' = rest \<and> sh_cancelled st' = sh_cancelled st
    \<and> (if cmd \<in> set commands
       then sh_spawned st' = sh_spawned st @ [(cmd, args)] \<and> sh_pc st' = Running (Some (length (sh_spawned st)))
       else sh_spawned st' = sh_spawned st \<and> sh_pc st' = Editing \<and> sh_line st' = [])"
proof -
  obtain jps1 jp where jps: "jps = jps1 @ [jp]" "length jps1 = length ks"
    using assms(8) by (metis length_append_singleton length_Suc_conv_rev nat.inject)
  obtain u d where u: "res_fold (shell_event fl font) (map Polled jps1) st = Inr u" "shell_inv w u"
    "u = st\<lparr>sh_line := fold edit ks (sh_line st), sh_keys := Some enter # rest, sh_display := d\<rparr>"
    using run_edits[OF assms(1-3,5,7) jps(2)] by metis
  let ?u = "u\<lparr>sh_keys := rest\<rparr>"
  let ?ws = "split_space (fold edit ks [])"
  have l: "sh_line ?u = fold edit ks []" "sh_pc ?u = Editing" "shell_inv w ?u"
    using u(2,3) assms(3,4) by (auto simp: shell_inv_def)
  have p: "shell_event fl font (Polled jp) u = line_entered fl font ?u"
    using assms(3,6) u(3) by (auto simp: shell_poll_def shell_key_def)
  obtain v e where v: "line_entered fl font ?u = Inr v"
    "v = (if hd ?ws \<in> set commands
        then ?u\<lparr>sh_spawned := sh_spawned ?u @ [(hd ?ws, tl ?ws)], sh_pc := Running (Some (length (sh_spawned ?u))), sh_display := e\<rparr>
        else ?u\<lparr>sh_line := [], sh_display := e\<rparr>)"
    using line_entered_inv[OF assms(1) l(3,2), of fl] unfolding l(1) by metis
  have run: "res_fold (shell_event fl font) (map Polled jps) st = Inr v" using u(1) p v(1) by (simp add: jps(1) res_fold_append)
  have ws: "hd ?ws # tl ?ws = ?ws" by simp
  have uniq: "ws = ?ws" if "ws \<noteq> []" "join_space ws = fold edit ks []" "\<forall>v\<in>set ws. 32 \<notin> set v" for ws
    using split_join[OF that(1,3)] that(2) by simp
  show ?thesis
    by (intro exI[of _ v] exI[of _ "hd ?ws"] exI[of _ "tl ?ws"], unfold ws join_split)
      (use run v(2) u(3) uniq l(2) split_space_words in \<open>auto simp: ws\<close>)
qed

section \<open>While a command runs\<close>

text \<open>
  What ends the wait for a running command. If the command is done, its result is looked at first:
  whether it succeeded, failed with an error or panicked, the shell does the same thing, it goes back to
  the prompt without a word. If it is not done, keys are consumed: as long as control-C is not among
  them they are dropped and the command keeps running; the first control-C cancels exactly the running
  command, drops the keys before it and leaves the keys after it for the next line.
\<close>

theorem shell_waits_for_command:
  assumes "mono_font font w" "shell_inv w st" "sh_pc st = Running (Some h)"
  shows "(\<forall>r r'. shell_poll fl font (\<lambda>_. Ready (Inr r)) st = shell_poll fl font (\<lambda>_. Ready (Inr r')) st)
    \<and> (\<forall>r. \<exists>d. shell_poll fl font (\<lambda>_. Ready r) st = Inr (st\<lparr>sh_line := [], sh_pc := Editing, sh_display := d\<rparr>))
    \<and> (\<forall>ks. sh_keys st = map Some ks \<longrightarrow> Unicode 3 \<notin> set ks \<longrightarrow>
          shell_poll fl font (\<lambda>_. Pending) st = Inr (st\<lparr>sh_keys := []\<rparr>))
    \<and> (\<forall>ks rest. sh_keys st = map Some ks @ Some (Unicode 3) # rest \<longrightarrow> Unicode 3 \<notin> set ks \<longrightarrow>
          (\<exists>d. shell_poll fl font (\<lambda>_. Pending) st
             = Inr (st\<lparr>sh_keys := rest, sh_cancelled := sh_cancelled st @ [h], sh_line := [], sh_pc := Editing, sh_display := d\<rparr>)))"
proof (intro conjI allI impI)
  fix r r'
  show "shell_poll fl font (\<lambda>_. Ready (Inr r)) st = shell_poll fl font (\<lambda>_. Ready (Inr r')) st"
    using assms(3) by (simp add: shell_poll_def shell_select_def Fuse_poll_def)
next
  fix r
  show "\<exists>d. shell_poll fl font (\<lambda>_. Ready r) st = Inr (st\<lparr>sh_line := [], sh_pc := Editing, sh_display := d\<rparr>)"
    using shell_select_ready[where jp = "\<lambda>_. Ready r" and h = h and r = r and fl = fl, OF assms(1,2)] assms(3)
    by (auto simp: shell_poll_def)
next
  fix ks
  assume ks: "sh_keys st = map Some ks" "Unicode 3 \<notin> set ks"
  then have "wait_cancel (sh_keys st) = (Pending, [])" by (auto simp: wait_cancel_Pending)
  moreover have "st\<lparr>sh_keys := [], sh_pc := Running (Some h)\<rparr> = st\<lparr>sh_keys := []\<rparr>" using assms(3) by simp
  ultimately show "shell_poll fl font (\<lambda>_. Pending) st = Inr (st\<lparr>sh_keys := []\<rparr>)"
    using assms(3) by (simp add: shell_poll_def shell_select_def Fuse_poll_def)
next
  fix ks rest
  assume ks: "sh_keys st = map Some ks @ Some (Unicode 3) # rest" "Unicode 3 \<notin> set ks"
  then have "wait_cancel (sh_keys st) = (Ready (), rest)" by (auto intro: wait_cancel_first)
  from shell_select_cancel[where jp = "\<lambda>_. Pending" and fl = fl, OF assms _ this] assms(3)
  show "\<exists>d. shell_poll fl font (\<lambda>_. Pending) st
      = Inr (st\<lparr>sh_keys := rest, sh_cancelled := sh_cancelled st @ [h], sh_line := [], sh_pc := Editing, sh_display := d\<rparr>)"
    by (auto simp: shell_poll_def)
qed

text \<open>
  Backspace erases the prompt. The shell pops the line but writes the backspace to the display in
  any case: with an empty line, every press moves the cursor one glyph to the left and blanks it, until
  it reaches the border, although the two glyphs there are the prompt.
\<close>

theorem shell_backspace_erases_prompt:
  assumes "mono_font font w" "text_inv w (sh_display st)" "sh_line st = []"
    "fb_x_pos (sh_display st) = BORDER_PADDING + 2 * w" "k \<in> {Unicode 8, RawKey Backspace, RawKey Delete}"
  shows "\<exists>st1 st2. shell_key fl font k st = Inr st1 \<and> sh_line st1 = [] \<and> fb_x_pos (sh_display st1) = BORDER_PADDING + w
    \<and> shell_key fl font k st1 = Inr st2 \<and> sh_line st2 = [] \<and> fb_x_pos (sh_display st2) = BORDER_PADDING"
proof -
  have w: "0 < w" using assms(1) by (simp add: mono_font_def)
  have key: "\<exists>d. shell_key fl font k s = Inr (s\<lparr>sh_line := [], sh_display := d\<rparr>) \<and> text_inv w d
      \<and> fb_x_pos d = (if fb_x_pos (sh_display s) > BORDER_PADDING then fb_x_pos (sh_display s) - w else BORDER_PADDING)"
    if "text_inv w (sh_display s)" "sh_line s = []" for s
    using backspace_inv[OF w that(1), of fl font] that(2) assms(5)
    by (auto simp: shell_key_def sh_write_def Display_write_str_def)
  obtain d1 where d1: "shell_key fl font k st = Inr (st\<lparr>sh_line := [], sh_display := d1\<rparr>)" "text_inv w d1"
    "fb_x_pos d1 = BORDER_PADDING + w" using key[OF assms(2,3)] assms(4) w by auto
  obtain d2 where d2: "shell_key fl font k (st\<lparr>sh_line := [], sh_display := d1\<rparr>) = Inr (st\<lparr>sh_line := [], sh_display := d2\<rparr>)"
    "fb_x_pos d2 = BORDER_PADDING"
    using key[of "st\<lparr>sh_line := [], sh_display := d1\<rparr>"] d1(2,3) w by auto
  show ?thesis using d1 d2 by auto
qed

section \<open>A shell on a small display\<close>

definition tiny_shell :: shell where
  "tiny_shell = \<lparr>sh_line = [], sh_display = tiny_display\<lparr>fb_x_pos := 3, fb_last_char_width := 1\<rparr>, sh_pc = Editing,
     sh_keys = map Some [Unicode 108, Unicode 111, RawKey (OtherKey 4), Unicode 120, Unicode 8, Unicode 103, Unicode 111, Unicode 32, Unicode 13, Unicode 33],
     sh_spawned = [], sh_cancelled = []\<rparr>"

lemma dot_font_mono: "mono_font dot_font 1"
  by (simp add: mono_font_def dot_font_def fb_consts)

lemma tiny_shell_text: "text_inv 1 (sh_display tiny_shell)"
  using tiny_ok by (simp add: text_inv_def tiny_shell_def display_ok_def) (simp add: tiny_display_def fb_consts)

lemma tiny_shell_inv: "shell_inv 1 tiny_shell"
  using tiny_shell_text by (simp add: shell_inv_def) (simp add: tiny_shell_def)

text \<open>The logo of one transparent pixel column on an empty display.\<close>

definition clear_logo :: "u8 list" where
  "clear_logo = [1, 0, 0, 0, 2, 0, 0, 0, 1, 0, 0, 0, 0, 0]"

definition blank_display :: Display where
  "blank_display = \<lparr>fb_buffer = replicate 160 0, fb_cache = None, fb_width = 4, fb_height = 40, fb_stride = 4,
     fb_bytes_per_pixel = 1, fb_pixel_format = FmtU8, fb_x_pos = 1, fb_y_pos = 4, fb_last_char_width = 0\<rparr>"

theorem shell_never_panics_witness:
  "\<exists>st st'. shell_start plain_float dot_font clear_logo blank_display = Inr st
    \<and> res_fold (shell_event plain_float dot_font)
        [Typed (Some (Unicode 97)), Polled (\<lambda>_. Pending), Wrote [98, 10, 8], Typed (Some (Unicode 10)), Polled (\<lambda>_. Pending), Typed None, Polled (\<lambda>_. Pending)] st = Inr st'
    \<and> shell_inv 1 st'"
proof (rule shell_never_panics[OF dot_font_mono])
  show "logo plain_float clear_logo blank_display = Inr blank_display"
    by (simp add: logo_def clear_logo_def blank_display_def Display_clear_def le_u32_def le_u16_def rgba_step_def
        Display_write_pixel_def fb_consts)
  show "text_inv 1 blank_display"
    by (simp add: text_inv_def display_ok_def blank_display_def fb_consts)
qed

theorem shell_executes_line_witness:
  "\<exists>st'. res_fold (shell_event plain_float dot_font) (map Polled (replicate 9 (\<lambda>_. Pending))) tiny_shell = Inr st'
    \<and> sh_spawned st' = [(lit ''logo'', [[]])]"
proof -
  let ?ks = "[Unicode 108, Unicode 111, RawKey (OtherKey 4), Unicode 120, Unicode 8, Unicode 103, Unicode 111, Unicode 32]"
  have ed: "list_all edits ?ks" by (simp add: edits_def)
  have line: "fold edit ?ks [] = lit ''logo '' " by (simp add: lit_def)
  have keys: "sh_keys tiny_shell = map Some ?ks @ Some (Unicode 13) # [Some (Unicode 33)]" by (simp add: tiny_shell_def)
  have len: "length (replicate 9 (\<lambda>_::nat. (Pending :: join_result poll))) = Suc (length ?ks)" by simp
  have st: "sh_pc tiny_shell = Editing" "sh_line tiny_shell = []" "sh_spawned tiny_shell = []" by (simp_all add: tiny_shell_def)
  have j: "join_space [lit ''logo'', []] = lit ''logo '' " "\<forall>v\<in>set [lit ''logo'', []]. 32 \<notin> set v" by (simp_all add: lit_def)
  obtain st' cmd args where s: "res_fold (shell_event plain_float dot_font) (map Polled (replicate 9 (\<lambda>_. Pending))) tiny_shell = Inr st'"
    "[lit ''logo'', []] = cmd # args"
    "if cmd \<in> set commands then sh_spawned st' = sh_spawned tiny_shell @ [(cmd, args)] \<and> sh_pc st' = Running (Some (length (sh_spawned tiny_shell)))
       else sh_spawned st' = sh_spawned tiny_shell \<and> sh_pc st' = Editing \<and> sh_line st' = []"
    using shell_executes_line[where fl = plain_float, OF dot_font_mono tiny_shell_inv st(1,2) ed disjI1[OF refl] keys len]
    unfolding line using j by blast
  moreover have "lit ''logo'' \<in> set commands" by (simp add: commands_def reg_commands_def)
  ultimately show ?thesis using st(3) by auto
qed

theorem shell_waits_for_command_witness:
  "\<exists>d. shell_poll plain_float dot_font (\<lambda>_. Pending)
      (tiny_shell\<lparr>sh_pc := Running (Some 0), sh_spawned := [(lit ''logs'', [])], sh_keys := map Some [Unicode 97, Unicode 3, Unicode 98]\<rparr>)
    = Inr (tiny_shell\<lparr>sh_pc := Editing, sh_spawned := [(lit ''logs'', [])], sh_keys := [Some (Unicode 98)], sh_cancelled := [0],
        sh_line := [], sh_display := d\<rparr>)"
proof -
  let ?st = "tiny_shell\<lparr>sh_pc := Running (Some 0), sh_spawned := [(lit ''logs'', [])], sh_keys := map Some [Unicode 97, Unicode 3, Unicode 98]\<rparr>"
  have "shell_inv 1 ?st" using tiny_shell_text
    by (simp add: shell_inv_def commands_def reg_commands_def) (simp add: tiny_shell_def)
  then have "\<forall>ks rest. sh_keys ?st = map Some ks @ Some (Unicode 3) # rest \<longrightarrow> Unicode 3 \<notin> set ks \<longrightarrow>
      (\<exists>d. shell_poll plain_float dot_font (\<lambda>_. Pending) ?st
         = Inr (?st\<lparr>sh_keys := rest, sh_cancelled := sh_cancelled ?st @ [0], sh_line := [], sh_pc := Editing, sh_display := d\<rparr>))"
    using shell_waits_for_command[OF dot_font_mono, of ?st 0 plain_float] by simp
  from this[rule_format, of "[Unicode 97]" "[Some (Unicode 98)]"] show ?thesis
    by (simp add: tiny_shell_def)
qed

theorem shell_backspace_erases_prompt_witness:
  "\<exists>st1 st2. shell_key plain_float dot_font (RawKey Backspace) tiny_shell = Inr st1 \<and> sh_line st1 = []
    \<and> fb_x_pos (sh_display st1) = BORDER_PADDING + 1
    \<and> shell_key plain_float dot_font (RawKey Backspace) st1 = Inr st2 \<and> sh_line st2 = [] \<and> fb_x_pos (sh_display st2) = BORDER_PADDING"
  by (rule shell_backspace_erases_prompt[OF dot_font_mono tiny_shell_text]) (simp_all add: tiny_shell_def BORDER_PADDING_def)

end
