(* ===== verification/Commands.thy ===== *)
theory Commands
  imports Shell Net Pci
begin

text \<open>
  The commands of the shell (\<open>mod commands\<close> of \<open>kernel/src/shell.rs\<close>) and the ping task of
  \<open>kernel/src/net/mod.rs\<close>. A command is modelled by the texts it writes to the display and the way it
  ends: a result, an error, or a panic, which \<open>CatchUnwind\<close> turns into the result of the task.

  The crates \<open>url\<close>, \<open>httparse\<close> and \<open>http\<close>, the formatting of addresses, and what the network answers are
  parameters.
\<close>

section \<open>Outcomes of commands\<close>

datatype 'e cmd_fail = CmdPanic panic | CmdErr 'e

type_synonym ('e, 'a) cmd = "'e cmd_fail + 'a"
type_synonym 'e cmd_run = "nat list list \<times> ('e, unit) cmd"

definition or_panic :: "'a res \<Rightarrow> ('e, 'a) cmd" where
  "or_panic r = (case r of Inl p \<Rightarrow> Inl (CmdPanic p) | Inr x \<Rightarrow> Inr x)"

definition or_err :: "'e + 'a \<Rightarrow> ('e, 'a) cmd" where
  "or_err r = (case r of Inl e \<Rightarrow> Inl (CmdErr e) | Inr x \<Rightarrow> Inr x)"

text \<open>Writes that happen after something that may fail.\<close>

definition and_write :: "('e, 'a) cmd \<Rightarrow> ('a \<Rightarrow> 'e cmd_run) \<Rightarrow> 'e cmd_run" where
  "and_write m f = (case m of Inl e \<Rightarrow> ([], Inl e) | Inr x \<Rightarrow> f x)"

lemma or_panic_simps [simp]: "or_panic (Inl p) = Inl (CmdPanic p)" "or_panic (Inr x) = Inr x"
  by (simp_all add: or_panic_def)

lemma or_err_simps [simp]: "or_err (Inl e) = Inl (CmdErr e)" "or_err (Inr x) = Inr x"
  by (simp_all add: or_err_def)

lemma and_write_simps [simp]: "and_write (Inl e) f = ([], Inl e)" "and_write (Inr x) f = f x"
  by (simp_all add: and_write_def)

section \<open>Commands without the network\<close>

definition cmd_panic :: "nat list list \<Rightarrow> 'e cmd_run" where
  "cmd_panic args = ([], Inl (CmdPanic ExplicitPanic))"

text \<open>\<open>line i\<close>: the formatted clocks at the start of round \<open>i\<close>.\<close>

definition cmd_timing :: "(nat \<Rightarrow> nat list) \<Rightarrow> nat list list \<Rightarrow> 'e cmd_run" where
  "cmd_timing line args =
     and_write (or_panic (res_bind (index_at args 0) (\<lambda>s. unwrap (parse_u32 s)))) (\<lambda>n.
       (map line [0..<n], Inr ()))"

definition hex_digit :: "nat \<Rightarrow> nat" where
  "hex_digit n = (if n < 10 then 48 + n else 87 + n)"

definition hex_02 :: "nat \<Rightarrow> nat list" where
  "hex_02 n = [hex_digit (n div 16), hex_digit (n mod 16)]"

definition hex_04 :: "nat \<Rightarrow> nat list" where
  "hex_04 n = [hex_digit (n div 4096), hex_digit (n div 256 mod 16), hex_digit (n div 16 mod 16), hex_digit (n mod 16)]"

text \<open>The \<open>Display\<close> implementations of library types.\<close>

record 'e fmt_env =
  fm_cidr :: "IpCidr \<Rightarrow> nat list"
  fm_addr :: "IpAddress \<Rightarrow> nat list"
  fm_pci :: "PciAddress \<Rightarrow> nat list"
  fm_error :: "'e \<Rightarrow> nat list"
  fm_millis :: "nat \<Rightarrow> nat list"
  fm_nat :: "nat \<Rightarrow> nat list"

definition cmd_ifconfig :: "'e fmt_env \<Rightarrow> InterfaceConfig option \<Rightarrow> nat list list \<Rightarrow> 'e cmd_run" where
  "cmd_ifconfig fm config args =
     (case config of
        None \<Rightarrow> ([lit ''No interface'' @ [10]], Inr ())
      | Some conf \<Rightarrow>
          ((case ic_mac conf of
              Some mac \<Rightarrow>
                [lit ''ether '' @ hex_02 (unat (mac ! 0)) @ lit '':'' @ hex_02 (unat (mac ! 1)) @ lit '':'' @ hex_02 (unat (mac ! 2))
                   @ lit '':'' @ hex_02 (unat (mac ! 3)) @ lit '':'' @ hex_02 (unat (mac ! 4)) @ lit '':'' @ hex_02 (unat (mac ! 5)) @ [10]]
            | None \<Rightarrow> [])
           @ map (\<lambda>addr. lit ''inet  '' @ fm_cidr fm addr @ [10]) (ic_ip_addrs conf)
           @ map (\<lambda>addr. lit ''dns   '' @ fm_addr fm addr @ [10]) (ic_dns_servers conf)
           @ map (\<lambda>(cidr, via). lit ''route '' @ fm_cidr fm cidr @ lit '' via '' @ fm_addr fm via @ [10]) (ic_routes conf),
           Inr ()))"

text \<open>The devices in the order of the tree map, with their names.\<close>

definition cmd_lspci :: "'e fmt_env \<Rightarrow> ('cap PciDevice \<Rightarrow> nat list) \<Rightarrow> (PciAddress \<times> 'cap PciDevice) list \<Rightarrow> nat list list \<Rightarrow> 'e cmd_run" where
  "cmd_lspci fm name devices args =
     (map (\<lambda>(address, device).
        lit ''PCI '' @ fm_pci fm address @ lit '' '' @ hex_04 (pd_vendor_id device) @ lit '':'' @ hex_04 (pd_device_id device)
        @ lit '' '' @ name device @ [10]) devices, Inr ())"

definition cmd_logs :: "u8 list \<Rightarrow> nat list list \<Rightarrow> 'e cmd_run" where
  "cmd_logs debug args = and_write (or_panic (logs args debug)) (\<lambda>s. ([s], Inr ()))"

text \<open>\<open>names\<close> are the keys registered before \<open>help\<close>, in the order the hash map yields them.\<close>

fun join_newline :: "nat list list \<Rightarrow> nat list" where
  "join_newline [] = []"
| "join_newline [w] = w"
| "join_newline (w # ws) = w @ 10 # join_newline ws"

definition cmd_help :: "nat list list \<Rightarrow> nat list list \<Rightarrow> 'e cmd_run" where
  "cmd_help names args = ([lit ''Available commands:'' @ [10] @ join_newline names @ [10]], Inr ())"

section \<open>Name lookup\<close>

datatype DnsQueryType = DnsA | DnsAaaa | DnsCname | DnsNs | DnsSoa

text \<open>
  The network as the commands see it: whether an interface exists (\<open>DEFAULT_DRIVER\<close>), and what a query
  answers within the given number of milliseconds (\<open>None\<close>: the time is over).
\<close>

record net_env =
  ne_driver :: bool
  ne_query :: "nat \<Rightarrow> nat list \<Rightarrow> DnsQueryType \<Rightarrow> (net_error + IpAddress list) option"

definition DnsSocket_new :: "net_env \<Rightarrow> (net_error, unit) cmd" where
  "DnsSocket_new ne = (if ne_driver ne then Inr () else Inl (CmdPanic UnwrapFailed))"

definition to_lowercase :: "nat list \<Rightarrow> nat list" where
  "to_lowercase s = map (\<lambda>c. if 65 \<le> c \<and> c \<le> 90 then c + 32 else c) s"

definition query_type :: "nat list \<Rightarrow> DnsQueryType option" where
  "query_type s =
     (if s = lit ''a'' then Some DnsA
      else if s = lit ''aaaa'' then Some DnsAaaa
      else if s = lit ''cname'' then Some DnsCname
      else if s = lit ''ns'' then Some DnsNs
      else if s = lit ''soa'' then Some DnsSoa
      else None)"

definition cmd_dig :: "net_error fmt_env \<Rightarrow> net_env \<Rightarrow> nat list list \<Rightarrow> net_error cmd_run" where
  "cmd_dig fm ne args =
     and_write (or_panic (index_at args 1)) (\<lambda>host.
     and_write (or_panic (index_at args 0)) (\<lambda>t.
     case query_type (to_lowercase t) of
       None \<Rightarrow> ([], Inr ())
     | Some typ \<Rightarrow>
         and_write (DnsSocket_new ne) (\<lambda>_.
         case ne_query ne 500 host typ of
           None \<Rightarrow> ([lit ''DNS query timed out'' @ [10]], Inr ())
         | Some v \<Rightarrow> and_write (or_err v) (\<lambda>results. (map (\<lambda>item. fm_addr fm item @ [10]) results, Inr ())))))"

section \<open>Fetching a page\<close>

datatype url_host = Domain "nat list" | HostIpv4 ipv4 | HostIpv6 ipv6

record url =
  ur_host :: "url_host option"
  ur_path :: "nat list"
  ur_host_str :: "nat list option"

datatype http_status = ParseError | Partial | Complete nat

datatype get_error = NetError net_error | UrlError | LookupTimedOut

text \<open>
  \<open>'s\<close> is the state of the connection, \<open>'n\<close> and \<open>'v\<close> are the names and values of headers. The parser
  answers with its status, the code if it has one, and the 64 header slots.
\<close>

record ('s, 'n, 'v) http_env =
  ht_url_parse :: "nat list \<Rightarrow> url option"
  ht_connect :: "IpAddress \<times> nat \<Rightarrow> net_error + 's"
  ht_write :: "u8 list \<Rightarrow> 's \<Rightarrow> (net_error + nat) \<times> 's"
  ht_read :: "nat \<Rightarrow> 's \<Rightarrow> (net_error + u8 list) \<times> 's"
  ht_parse :: "u8 list \<Rightarrow> http_status \<times> nat option \<times> (nat list \<times> u8 list) list"
  ht_status_ok :: "nat \<Rightarrow> bool"
  ht_name :: "nat list \<Rightarrow> 'n option"
  ht_value :: "u8 list \<Rightarrow> 'v option"
  ht_lossy :: "u8 list \<Rightarrow> nat list"

record ('n, 'v) response =
  rs_status :: nat
  rs_headers :: "'n \<rightharpoonup> 'v"
  rs_body :: "u8 list"

text \<open>The read loop; \<open>None\<close> when the connection never ends.\<close>

partial_function (option) read_all ::
    "(nat \<Rightarrow> 's \<Rightarrow> (net_error + u8 list) \<times> 's) \<Rightarrow> u8 list \<Rightarrow> 's \<Rightarrow> (net_error + u8 list) option" where
  "read_all read body s =
     (case read 512 s of
        (Inl e, s') \<Rightarrow> Some (Inl e)
      | (Inr data, s') \<Rightarrow> if length data = 0 then Some (Inr body) else read_all read (body @ data) s')"

definition get_payload :: "nat list \<Rightarrow> nat list \<Rightarrow> u8 list" where
  "get_payload path host =
     as_bytes (lit ''GET '' @ path @ lit '' HTTP/1.1'' @ [13, 10] @ lit ''Host: '' @ host @ [13, 10]
       @ lit ''Connection: close'' @ [13, 10, 13, 10])"

definition get_address :: "net_env \<Rightarrow> url \<Rightarrow> (get_error, IpAddress) cmd" where
  "get_address ne url =
     (case ur_host url of
        Some (Domain name) \<Rightarrow>
          res_bind (if ne_driver ne then Inr () else Inl (CmdPanic UnwrapFailed)) (\<lambda>_.
          case ne_query ne 3000 name DnsA of
            None \<Rightarrow> Inl (CmdErr LookupTimedOut)
          | Some (Inl e) \<Rightarrow> Inl (CmdErr (NetError e))
          | Some (Inr results) \<Rightarrow> or_panic (index_at results 0))
      | Some (HostIpv4 ip) \<Rightarrow> Inr (Ipv4 ip)
      | Some (HostIpv6 ip) \<Rightarrow> Inr (Ipv6 ip)
      | None \<Rightarrow> Inl (CmdPanic ExplicitPanic))"

definition net_step :: "net_error + 'a \<Rightarrow> (get_error, 'a) cmd" where
  "net_step r = (case r of Inl e \<Rightarrow> Inl (CmdErr (NetError e)) | Inr x \<Rightarrow> Inr x)"

definition insert_headers :: "('s, 'n, 'v) http_env \<Rightarrow> (nat list \<times> u8 list) list \<Rightarrow> 'n \<rightharpoonup> 'v" where
  "insert_headers he headers =
     fold (\<lambda>(name, value) m.
       case (ht_name he name, ht_value he value) of
         (Some n, Some v) \<Rightarrow> m(n \<mapsto> v)
       | _ \<Rightarrow> m) headers Map.empty"

definition get_response :: "('s, 'n, 'v) http_env \<Rightarrow> u8 list \<Rightarrow> (get_error, ('n, 'v) response) cmd" where
  "get_response he body =
     (case ht_parse he body of
        (Complete n, code, headers) \<Rightarrow>
          (case code of
             None \<Rightarrow> Inl (CmdPanic UnwrapFailed)
           | Some code \<Rightarrow>
               if length body < n then Inl (CmdPanic IndexOutOfBounds)
               else if \<not> ht_status_ok he code then Inl (CmdPanic UnwrapFailed)
               else Inr \<lparr>rs_status = code, rs_headers = insert_headers he headers, rs_body = drop n body\<rparr>)
      | _ \<Rightarrow> Inl (CmdPanic UnwrapFailed))"

definition http_get :: "net_env \<Rightarrow> ('s, 'n, 'v) http_env \<Rightarrow> nat list \<Rightarrow> (get_error, ('n, 'v) response) cmd option" where
  "http_get ne he u =
     (case ht_url_parse he u of
        None \<Rightarrow> Some (Inl (CmdErr UrlError))
      | Some url \<Rightarrow>
          (case res_bind (get_address ne url) (\<lambda>ip.
                res_bind (net_step (ht_connect he (ip, 80))) (\<lambda>s.
                res_bind (or_panic (unwrap (ur_host_str url))) (\<lambda>host.
                let (r, s) = ht_write he (get_payload (ur_path url) host) s in
                res_bind (net_step r) (\<lambda>_. Inr s)))) of
             Inl e \<Rightarrow> Some (Inl e)
           | Inr s \<Rightarrow>
               map_option (\<lambda>r. res_bind (net_step r) (get_response he)) (read_all (ht_read he) [] s)))"

text \<open>\<open>None\<close> when the fetch never ends.\<close>

definition cmd_http :: "get_error fmt_env \<Rightarrow> net_env \<Rightarrow> ('s, 'n, 'v) http_env \<Rightarrow> nat list list \<Rightarrow> get_error cmd_run option" where
  "cmd_http fm ne he args =
     (case index_at args 0 of
        Inl p \<Rightarrow> Some ([], Inl (CmdPanic p))
      | Inr verb \<Rightarrow>
          if verb = lit ''get''
          then (case index_at args 1 of
                  Inl p \<Rightarrow> Some ([], Inl (CmdPanic p))
                | Inr u \<Rightarrow>
                    map_option (\<lambda>r.
                      case r of
                        Inr res \<Rightarrow> ([ht_lossy he (rs_body res)], Inr ())
                      | Inl (CmdErr e) \<Rightarrow> ([lit ''Error: '' @ fm_error fm e], Inr ())
                      | Inl (CmdPanic p) \<Rightarrow> ([], Inl (CmdPanic p))) (http_get ne he u))
          else Some ([], Inr ()))"

section \<open>Ping\<close>

text \<open>
  One round of the ping task: what the socket answers to the write and to the read, the time between,
  and whether the receiver still takes the report.
\<close>

record ping_round =
  pr_write :: "net_error + unit"
  pr_read :: "net_error + nat \<times> IpAddress"
  pr_time :: nat
  pr_taken :: bool

datatype ping_end = PingWaits | PingStops | PingPanics panic

type_synonym ping_report = "IpAddress \<times> nat \<times> nat \<times> nat"

definition mixed_families :: "IpAddress \<Rightarrow> IpAddress \<Rightarrow> bool" where
  "mixed_families src dest = (case (src, dest) of (Ipv6 _, Ipv4 _) \<Rightarrow> True | _ \<Rightarrow> False)"

text \<open>
  The sequence number is the next value of the 16-bit range \<open>0..\<close>, which computes its successor before
  it yields a value and panics when there is none.
\<close>

fun ping_task :: "IpAddress \<Rightarrow> IpAddress \<Rightarrow> nat \<Rightarrow> ping_round list \<Rightarrow> ping_report list \<times> ping_end" where
  "ping_task src dest seq_no [] = ([], PingWaits)"
| "ping_task src dest seq_no (r # rs) =
     (if \<not> seq_no + 1 < 2 ^ 16 then ([], PingPanics ArithOverflow)
      else if mixed_families src dest then ([], PingPanics ExplicitPanic)
      else case pr_write r of
        Inl e \<Rightarrow> ([], PingPanics UnwrapFailed)
      | Inr _ \<Rightarrow>
          (case pr_read r of
             Inl e \<Rightarrow> ([], PingStops)
           | Inr (n, from) \<Rightarrow>
               if pr_taken r
               then (case ping_task src dest (seq_no + 1) rs of (reports, e) \<Rightarrow> ((from, n, seq_no, pr_time r) # reports, e))
               else ([], PingStops)))"

text \<open>\<open>source\<close> is \<open>get_source_address\<close> of the interface. The reports are those the receiver gets.\<close>

definition net_ping ::
    "net_env \<Rightarrow> (IpAddress \<Rightarrow> IpAddress option) \<Rightarrow> ping_round list \<Rightarrow> IpAddress \<Rightarrow> (net_error, ping_report list \<times> ping_end) cmd" where
  "net_ping ne source rounds dest_ip =
     (if \<not> ne_driver ne then Inl (CmdPanic UnwrapFailed)
      else case source dest_ip of
        None \<Rightarrow> Inl (CmdErr DestinationUnreachable)
      | Some src_ip \<Rightarrow> Inr (ping_task src_ip dest_ip 0 rounds))"

text \<open>\<open>parse\<close> is the parser of addresses. The result is \<open>None\<close> as long as the ping task is alive.\<close>

definition cmd_ping ::
    "net_error fmt_env \<Rightarrow> net_env \<Rightarrow> (nat list \<Rightarrow> IpAddress option) \<Rightarrow> (IpAddress \<Rightarrow> IpAddress option) \<Rightarrow> ping_round list
     \<Rightarrow> nat list list \<Rightarrow> nat list list \<times> (net_error, unit) cmd option" where
  "cmd_ping fm ne parse source rounds args =
     (case or_panic (index_at args 0) of
        Inl e \<Rightarrow> ([], Some (Inl e))
      | Inr host \<Rightarrow>
          let run = (\<lambda>ip.
            case net_ping ne source rounds ip of
              Inl e \<Rightarrow> ([], Some (Inl e))
            | Inr (reports, e) \<Rightarrow>
                (map (\<lambda>(from, bytes, seq, time).
                   fm_nat fm bytes @ lit '' bytes from '' @ fm_addr fm from @ lit '' icmp_seq='' @ fm_nat fm seq
                   @ lit '' time='' @ fm_millis fm time @ lit ''ms'' @ [10]) reports,
                 if e = PingWaits then None else Some (Inr ())))
          in case parse host of
               Some ip \<Rightarrow> run ip
             | None \<Rightarrow>
                 (case res_bind (DnsSocket_new ne) (\<lambda>_.
                         case ne_query ne 3000 host DnsA of
                           None \<Rightarrow> Inr None
                         | Some v \<Rightarrow> res_bind (or_err v) (\<lambda>results. res_bind (or_panic (index_at results 0)) (\<lambda>ip. Inr (Some ip)))) of
                    Inl e \<Rightarrow> ([], Some (Inl e))
                  | Inr None \<Rightarrow> ([lit ''DNS lookup timed out'' @ [10]], Some (Inr ()))
                  | Inr (Some ip) \<Rightarrow> run ip))"

section \<open>Reports of the commands\<close>

text \<open>A connection that delivers the given chunks and is then closed by the peer.\<close>

fun delivers :: "(nat \<Rightarrow> 's \<Rightarrow> (net_error + u8 list) \<times> 's) \<Rightarrow> u8 list list \<Rightarrow> 's \<Rightarrow> bool" where
  "delivers read [] s \<longleftrightarrow> fst (read 512 s) = Inr []"
| "delivers read (c # cs) s \<longleftrightarrow> c \<noteq> [] \<and> fst (read 512 s) = Inr c \<and> delivers read cs (snd (read 512 s))"

lemma read_all_delivers: "delivers read cs s \<Longrightarrow> read_all read body s = Some (Inr (body @ concat cs))"
proof (induction cs arbitrary: body s)
  case Nil
  then show ?case by (subst read_all.simps) (auto split: prod.splits)
next
  case (Cons c cs)
  then show ?case by (subst read_all.simps) (auto split: prod.splits)
qed

text \<open>
  What \<open>http get\<close> fetches. Once the name is resolved and the connection made, the body is what
  follows the header in the bytes of all reads up to the close, whatever part of the request the one
  write took; a response that is cut off inside its header, or that is none, is not an error but a
  panic, as is a name that resolves to no address.
\<close>

theorem http_get_page:
  assumes "ht_url_parse he u = Some url"
    and "get_address ne url = Inr ip" "ht_connect he (ip, 80) = Inr s" "ur_host_str url = Some host"
    and "ht_write he (get_payload (ur_path url) host) s = (Inr k, s')"
    and "delivers (ht_read he) chunks s'" "ht_parse he (concat chunks) = (status, code, headers)"
  shows "(status = Partial \<or> status = ParseError \<longrightarrow> http_get ne he u = Some (Inl (CmdPanic UnwrapFailed)))
    \<and> (\<forall>n c. status = Complete n \<longrightarrow> code = Some c \<longrightarrow> n \<le> length (concat chunks) \<longrightarrow> ht_status_ok he c \<longrightarrow>
         http_get ne he u = Some (Inr \<lparr>rs_status = c, rs_headers = insert_headers he headers, rs_body = drop n (concat chunks)\<rparr>))
    \<and> (\<forall>url' name. ht_url_parse he v = Some url' \<longrightarrow> ur_host url' = Some (Domain name) \<longrightarrow>
         ne_query ne 3000 name DnsA = Some (Inr []) \<longrightarrow> ne_driver ne \<longrightarrow>
         http_get ne he v = Some (Inl (CmdPanic IndexOutOfBounds)))"
proof -
  have "http_get ne he u = Some (get_response he (concat chunks))"
    using assms(1-5) read_all_delivers[OF assms(6), of "[]"] by (simp add: http_get_def net_step_def)
  then show ?thesis using assms(7) by (auto simp: get_response_def http_get_def get_address_def)
qed

lemma ping_task_seq:
  assumes "ping_task src dest n rs = (reports, e)" "n < 2 ^ 16"
  shows "map (\<lambda>(_, _, seq, _). seq) reports = [n..<n + length reports] \<and> n + length reports < 2 ^ 16
    \<and> length reports \<le> length rs"
  using assms
proof (induction rs arbitrary: n reports)
  case (Cons r rs)
  show ?case
  proof (cases reports)
    case Nil
    then show ?thesis using Cons.prems(2) by simp
  next
    case (Cons q qs)
    obtain e' where t: "n + 1 < 2 ^ 16" "ping_task src dest (n + 1) rs = (qs, e')" "fst (snd (snd q)) = n"
      using Cons.prems(1) Cons by (fastforce split: if_splits sum.splits prod.splits)
    have "e' = e" using Cons.prems(1) Cons t by (auto split: if_splits sum.splits prod.splits)
    then show ?thesis using Cons.IH[of "n + 1" qs] t Cons by (auto simp: upt_conv_Cons case_prod_beta simp del: upt_Suc)
  qed
qed auto

lemma ping_task_long:
  assumes "list_all (\<lambda>r. pr_write r = Inr () \<and> (\<exists>x. pr_read r = Inr x) \<and> pr_taken r) rs" "\<not> mixed_families src dest" "n < 2 ^ 16"
  shows "snd (ping_task src dest n rs) = (if n + length rs < 2 ^ 16 then PingWaits else PingPanics ArithOverflow)"
  using assms
proof (induction rs arbitrary: n)
  case (Cons r rs)
  show ?case
  proof (cases "n + 1 < 2 ^ 16")
    case True
    then show ?thesis using Cons.IH[of "n + 1"] Cons.prems by (auto split: prod.splits)
  next
    case False
    then show ?thesis using Cons.prems(3) by simp
  qed
qed simp

text \<open>
  The reports of \<open>ping\<close> carry the sequence numbers 0, 1, 2 and so on without a gap. A peer that
  always answers is pinged 65535 times; then the task panics on the overflow of its 16-bit counter.
\<close>

theorem ping_reports:
  assumes "ping_task src dest 0 rounds = (reports, e)"
  shows "map (\<lambda>(_, _, seq, _). seq) reports = [0..<length reports] \<and> length reports < 2 ^ 16
    \<and> (list_all (\<lambda>r. pr_write r = Inr () \<and> (\<exists>x. pr_read r = Inr x) \<and> pr_taken r) rounds \<and> \<not> mixed_families src dest \<longrightarrow>
         e = (if length rounds < 2 ^ 16 then PingWaits else PingPanics ArithOverflow))"
  using ping_task_seq[OF assms] ping_task_long[of rounds src dest 0] assms by auto

section \<open>A small web\<close>

definition page_env :: "(u8 list list, nat list, u8 list) http_env" where
  "page_env = \<lparr>ht_url_parse = (\<lambda>u. Some \<lparr>ur_host = Some (HostIpv4 1), ur_path = u, ur_host_str = Some [49]\<rparr>),
     ht_connect = (\<lambda>_. Inr [[72, 84], [10], [65, 66]]), ht_write = (\<lambda>bs s. (Inr 1, s)),
     ht_read = (\<lambda>n s. case s of [] \<Rightarrow> (Inr [], []) | c # cs \<Rightarrow> (Inr c, cs)),
     ht_parse = (\<lambda>bs. if length bs < 3 then (Partial, None, []) else (Complete 3, Some 200, [([104], [118]), ([], [])])),
     ht_status_ok = (\<lambda>c. c = 200), ht_name = (\<lambda>s. if s = [] then None else Some s), ht_value = Some, ht_lossy = map unat\<rparr>"

theorem http_get_page_witness:
  "http_get \<lparr>ne_driver = True, ne_query = (\<lambda>_ _ _. None)\<rparr> page_env [47]
    = Some (Inr \<lparr>rs_status = 200, rs_headers = [[104] \<mapsto> [118]], rs_body = [65, 66]\<rparr>)"
proof -
  let ?ne = "\<lparr>ne_driver = True, ne_query = (\<lambda>_ _ _. None)\<rparr>"
  let ?url = "\<lparr>ur_host = Some (HostIpv4 1), ur_path = [47], ur_host_str = Some [49]\<rparr>"
  have "insert_headers page_env [([104], [118]), ([], [])] = [[104] \<mapsto> [118]]"
    by (simp add: insert_headers_def page_env_def)
  moreover have "http_get ?ne page_env [47] = Some (Inr \<lparr>rs_status = 200,
      rs_headers = insert_headers page_env [([104], [118]), ([], [])], rs_body = drop 3 (concat [[72, 84], [10], [65, 66]])\<rparr>)"
    using http_get_page[of page_env "[47]" ?url ?ne "Ipv4 1" "[[72, 84], [10], [65, 66]]" "[49]" 1 "[[72, 84], [10], [65, 66]]"
        "[[72, 84], [10], [65, 66]]" "Complete 3" "Some 200" "[([104], [118]), ([], [])]"]
    by (simp add: page_env_def get_address_def)
  ultimately show ?thesis by simp
qed

theorem ping_reports_witness:
  "\<exists>reports e. ping_task (Ipv4 1) (Ipv4 2) 0 (replicate 3 \<lparr>pr_write = Inr (), pr_read = Inr (40, Ipv4 2), pr_time = 5, pr_taken = True\<rparr>) = (reports, e)
    \<and> e = PingWaits"
proof -
  obtain reports e where t: "ping_task (Ipv4 1) (Ipv4 2) 0 (replicate 3 \<lparr>pr_write = Inr (), pr_read = Inr (40, Ipv4 2), pr_time = 5, pr_taken = True\<rparr>) = (reports, e)"
    by (meson surj_pair)
  show ?thesis using ping_reports[OF t] t by (auto simp: mixed_families_def list_all_def)
qed

end
