(* ===== verification/Executor.thy ===== *)
theory Executor
  imports Contracts "HOL-Library.Multiset"
begin

text \<open>
  The task executor, \<open>kernel/src/task/executor.rs\<close>: the table of per-core schedulers, work stealing,
  the loop of a core, spawning and the catching of panics.

  The schedulers, the injection queue and their stealers come from \<open>maitake\<close> and are a parameter, with
  the documented behaviour of \<open>spawn_n\<close> as the hypothesis \<open>sched_spec\<close>; so is the random generator. An
  attempt to steal is one atomic step here.
\<close>

section \<open>Schedulers\<close>

text \<open>
  \<open>'q\<close> is the state of a scheduler, \<open>'j\<close> that of the injection queue. \<open>spawn_n\<close> of a stealer moves at most
  the given number of tasks to the target and says how many.
\<close>

record ('q, 'j, 't) sched_api =
  sa_new :: 'q
  sa_spawn :: "'t \<Rightarrow> 'q \<Rightarrow> 'q"
  sa_tick :: "'q \<Rightarrow> bool \<times> 'q"
  sa_try_steal :: "'q \<Rightarrow> bool"
  sa_initial_task_count :: "'q \<Rightarrow> nat"
  sa_spawn_n :: "'q \<Rightarrow> 'q \<Rightarrow> nat \<Rightarrow> nat \<times> 'q \<times> 'q"
  ij_spawn :: "'t \<Rightarrow> 'j \<Rightarrow> 'j"
  ij_try_steal :: "'j \<Rightarrow> bool"
  ij_spawn_n :: "'j \<Rightarrow> 'q \<Rightarrow> nat \<Rightarrow> nat \<times> 'j \<times> 'q"

definition MAX_CORES :: usize where "MAX_CORES = 32"
definition MAX_STEAL_ATTEMPTS :: nat where "MAX_STEAL_ATTEMPTS = 16"
definition MAX_STOLEN_PER_TICK :: usize where "MAX_STOLEN_PER_TICK = 256"

record ('q, 'j) Runtime =
  rt_cores :: "'q option list"
  rt_injector :: 'j
  rt_initialized :: usize

definition RUNTIME :: "'j \<Rightarrow> ('q, 'j) Runtime" where
  "RUNTIME injector = \<lparr>rt_cores = replicate MAX_CORES None, rt_injector = injector, rt_initialized = 0\<rparr>"

definition active_cores :: "('q, 'j) Runtime \<Rightarrow> usize" where
  "active_cores rt = rt_initialized rt"

text \<open>The counter is advanced before the assertion, so the runtime comes back in either case.\<close>

definition new_scheduler :: "('q, 'j, 't) sched_api \<Rightarrow> ('q, 'j) Runtime \<Rightarrow> usize res \<times> ('q, 'j) Runtime" where
  "new_scheduler sa rt =
     (let n = rt_initialized rt;
          rt = rt\<lparr>rt_initialized := n + 1\<rparr>
      in if \<not> n < MAX_CORES then (Inl AssertFailed, rt)
         else (Inr n, rt\<lparr>rt_cores := (rt_cores rt)[n := Some (case rt_cores rt ! n of None \<Rightarrow> sa_new sa | Some q \<Rightarrow> q)]\<rparr>))"

definition try_steal_from :: "('q, 'j, 't) sched_api \<Rightarrow> ('q, 'j) Runtime \<Rightarrow> usize \<Rightarrow> 'q option res" where
  "try_steal_from sa rt idx =
     res_bind (index_at (rt_cores rt) idx) (\<lambda>core.
     Inr (case core of
            None \<Rightarrow> None
          | Some q \<Rightarrow> if sa_try_steal sa q then Some q else None))"

section \<open>An executor\<close>

record 'g Executor =
  ex_id :: usize
  ex_running :: bool
  ex_rng :: 'g

definition Executor_new ::
    "('q, 'j, 't) sched_api \<Rightarrow> 'g \<Rightarrow> ('q, 'j) Runtime \<Rightarrow> 'g Executor res \<times> ('q, 'j) Runtime" where
  "Executor_new sa seed rt =
     (case new_scheduler sa rt of
        (Inl p, rt) \<Rightarrow> (Inl p, rt)
      | (Inr i, rt) \<Rightarrow> (Inr \<lparr>ex_id = i, ex_running = False, ex_rng = seed\<rparr>, rt))"

text \<open>The executor's own scheduler is the entry of the table under its number.\<close>

definition own_scheduler :: "'g Executor \<Rightarrow> ('q, 'j) Runtime \<Rightarrow> 'q res" where
  "own_scheduler ex rt = res_bind (index_at (rt_cores rt) (ex_id ex)) unwrap"

definition steal_injected ::
    "('q, 'j, 't) sched_api \<Rightarrow> 'g Executor \<Rightarrow> ('q, 'j) Runtime \<Rightarrow> (usize \<times> ('q, 'j) Runtime) res" where
  "steal_injected sa ex rt =
     res_bind (own_scheduler ex rt) (\<lambda>own.
     case ij_spawn_n sa (rt_injector rt) own MAX_STOLEN_PER_TICK of (n, injr, own) \<Rightarrow>
       Inr (n, rt\<lparr>rt_injector := injr, rt_cores := (rt_cores rt)[ex_id ex := Some own]\<rparr>))"

text \<open>The attempts to steal from another core; \<open>None\<close> when all attempts failed.\<close>

fun steal_attempts ::
    "('q, 'j, 't) sched_api \<Rightarrow> (usize \<Rightarrow> 'g \<Rightarrow> usize \<times> 'g) \<Rightarrow> nat \<Rightarrow> 'g Executor \<Rightarrow> ('q, 'j) Runtime
     \<Rightarrow> (usize option \<times> 'g Executor \<times> ('q, 'j) Runtime) res" where
  "steal_attempts sa gen_range 0 ex rt = Inr (None, ex, rt)"
| "steal_attempts sa gen_range (Suc n) ex rt =
     (if active_cores rt \<le> 1 then Inr (None, ex, rt)
      else
        let (victim_idx, g) = gen_range (active_cores rt) (ex_rng ex);
            ex = ex\<lparr>ex_rng := g\<rparr>
        in if victim_idx = ex_id ex then steal_attempts sa gen_range n ex rt
           else res_bind (try_steal_from sa rt victim_idx) (\<lambda>victim.
             case victim of
               None \<Rightarrow> steal_attempts sa gen_range n ex rt
             | Some q \<Rightarrow>
                 let num_steal = min (sa_initial_task_count sa q div 2) MAX_STOLEN_PER_TICK
                 in res_bind (own_scheduler ex rt) (\<lambda>own.
                    case sa_spawn_n sa q own num_steal of (k, q, own) \<Rightarrow>
                      Inr (Some k, ex, rt\<lparr>rt_cores := (rt_cores rt)[victim_idx := Some q, ex_id ex := Some own]\<rparr>))))"

definition try_steal ::
    "('q, 'j, 't) sched_api \<Rightarrow> (usize \<Rightarrow> 'g \<Rightarrow> usize \<times> 'g) \<Rightarrow> 'g Executor \<Rightarrow> ('q, 'j) Runtime
     \<Rightarrow> (usize \<times> 'g Executor \<times> ('q, 'j) Runtime) res" where
  "try_steal sa gen_range ex rt =
     (if ij_try_steal sa (rt_injector rt)
      then res_bind (steal_injected sa ex rt) (\<lambda>(n, rt). Inr (n, ex, rt))
      else
        res_bind (steal_attempts sa gen_range MAX_STEAL_ATTEMPTS ex rt) (\<lambda>(r, ex, rt).
        case r of
          Some n \<Rightarrow> Inr (n, ex, rt)
        | None \<Rightarrow>
            if ij_try_steal sa (rt_injector rt)
            then res_bind (steal_injected sa ex rt) (\<lambda>(n, rt). Inr (n, ex, rt))
            else Inr (0, ex, rt)))"

definition tick ::
    "('q, 'j, 't) sched_api \<Rightarrow> (usize \<Rightarrow> 'g \<Rightarrow> usize \<times> 'g) \<Rightarrow> 'g Executor \<Rightarrow> ('q, 'j) Runtime
     \<Rightarrow> (bool \<times> 'g Executor \<times> ('q, 'j) Runtime) res" where
  "tick sa gen_range ex rt =
     res_bind (own_scheduler ex rt) (\<lambda>own.
     let (has_remaining, own) = sa_tick sa own;
         rt = rt\<lparr>rt_cores := (rt_cores rt)[ex_id ex := Some own]\<rparr>
     in if has_remaining then Inr (True, ex, rt)
        else res_bind (try_steal sa gen_range ex rt) (\<lambda>(stolen, ex, rt). Inr (stolen > 0, ex, rt)))"

text \<open>
  The loop of a core: whether the core goes on at once, has returned, or has enabled interrupts and
  halted. A second call of \<open>run\<close> on a running executor returns at once.
\<close>

datatype run_outcome = Continues | Returned | Halted

definition run_start :: "'g Executor \<Rightarrow> run_outcome \<times> 'g Executor" where
  "run_start ex = (if ex_running ex then (Returned, ex) else (Continues, ex\<lparr>ex_running := True\<rparr>))"

definition run_round ::
    "('q, 'j, 't) sched_api \<Rightarrow> (usize \<Rightarrow> 'g \<Rightarrow> usize \<times> 'g) \<Rightarrow> 'g Executor \<Rightarrow> ('q, 'j) Runtime
     \<Rightarrow> (run_outcome \<times> 'g Executor \<times> ('q, 'j) Runtime) res" where
  "run_round sa gen_range ex rt =
     res_bind (tick sa gen_range ex rt) (\<lambda>(more, ex, rt).
       Inr (if more then Continues else if \<not> ex_running ex then Returned else Halted, ex, rt))"

section \<open>Tasks\<close>

text \<open>
  A task whose poll may panic. \<open>CatchUnwind\<close> makes the panic the task's result; \<open>inspect\<close> only prints.
\<close>

definition CatchUnwind_poll :: "('f \<Rightarrow> 'p + 'r poll \<times> 'f) \<Rightarrow> 'f \<Rightarrow> ('p + 'r) poll \<times> 'f" where
  "CatchUnwind_poll poll f =
     (case poll f of
        Inr (Ready v, f) \<Rightarrow> (Ready (Inr v), f)
      | Inr (Pending, f) \<Rightarrow> (Pending, f)
      | Inl e \<Rightarrow> (Ready (Inl e), f))"

text \<open>\<open>spawn\<close> from a core that runs its loop (its number), or from a place without a scheduler.\<close>

definition executor_spawn :: "('q, 'j, 't) sched_api \<Rightarrow> usize option \<Rightarrow> 't \<Rightarrow> ('q, 'j) Runtime \<Rightarrow> ('q, 'j) Runtime res" where
  "executor_spawn sa scheduler future rt =
     (case scheduler of
        Some i \<Rightarrow>
          res_bind (res_bind (index_at (rt_cores rt) i) unwrap) (\<lambda>q.
            Inr (rt\<lparr>rt_cores := (rt_cores rt)[i := Some (sa_spawn sa future q)]\<rparr>))
      | None \<Rightarrow> Inr (rt\<lparr>rt_injector := ij_spawn sa future (rt_injector rt)\<rparr>))"

section \<open>No task is lost\<close>

text \<open>
  What the documentation of the library promises: \<open>qt\<close> and \<open>jt\<close> read off the tasks of a scheduler and of
  the injection queue; a stealer moves as many tasks as it reports and no more than it may.
\<close>

definition sched_spec :: "('q, 'j, 't) sched_api \<Rightarrow> ('q \<Rightarrow> 't multiset) \<Rightarrow> ('j \<Rightarrow> 't multiset) \<Rightarrow> bool" where
  "sched_spec sa qt jt \<longleftrightarrow>
     qt (sa_new sa) = {#}
     \<and> (\<forall>t q. qt (sa_spawn sa t q) = add_mset t (qt q)) \<and> (\<forall>t j. jt (ij_spawn sa t j) = add_mset t (jt j))
     \<and> (\<forall>q. sa_initial_task_count sa q = size (qt q))
     \<and> (\<forall>v q n k v' q'. sa_spawn_n sa v q n = (k, v', q') \<longrightarrow>
          k \<le> n \<and> (\<exists>moved. size moved = k \<and> qt v = qt v' + moved \<and> qt q' = qt q + moved))
     \<and> (\<forall>j q n k j' q'. ij_spawn_n sa j q n = (k, j', q') \<longrightarrow>
          k \<le> n \<and> (\<exists>moved. size moved = k \<and> jt j = jt j' + moved \<and> qt q' = qt q + moved))"

lemma sched_specD:
  assumes "sched_spec sa qt jt"
  shows "sa_spawn_n sa v q n = (k, v', q') \<Longrightarrow> k \<le> n \<and> (\<exists>moved. size moved = k \<and> qt v = qt v' + moved \<and> qt q' = qt q + moved)"
    and "ij_spawn_n sa j q n = (k, j', q') \<Longrightarrow> k \<le> n \<and> (\<exists>moved. size moved = k \<and> jt j = jt j' + moved \<and> qt q' = qt q + moved)"
  using assms by (auto simp: sched_spec_def)

definition rng_spec :: "(usize \<Rightarrow> 'g \<Rightarrow> usize \<times> 'g) \<Rightarrow> bool" where
  "rng_spec gen_range \<longleftrightarrow> (\<forall>n g. 0 < n \<longrightarrow> fst (gen_range n g) < n)"

text \<open>Exactly the first \<open>initialized\<close> cores have a scheduler.\<close>

definition runtime_ok :: "('q, 'j) Runtime \<Rightarrow> bool" where
  "runtime_ok rt \<longleftrightarrow> length (rt_cores rt) = MAX_CORES \<and> rt_initialized rt \<le> MAX_CORES
     \<and> (\<forall>i<MAX_CORES. rt_cores rt ! i \<noteq> None \<longleftrightarrow> i < rt_initialized rt)"

definition core_tasks :: "('q \<Rightarrow> 't multiset) \<Rightarrow> ('q, 'j) Runtime \<Rightarrow> nat \<Rightarrow> 't multiset" where
  "core_tasks qt rt i = (case rt_cores rt ! i of None \<Rightarrow> {#} | Some q \<Rightarrow> qt q)"

definition all_tasks :: "('q \<Rightarrow> 't multiset) \<Rightarrow> ('j \<Rightarrow> 't multiset) \<Rightarrow> ('q, 'j) Runtime \<Rightarrow> 't multiset" where
  "all_tasks qt jt rt = jt (rt_injector rt) + (\<Sum>i<MAX_CORES. core_tasks qt rt i)"

lemma sum_change:
  fixes f g :: "nat \<Rightarrow> 'a::comm_monoid_add"
  assumes "a < n" "\<forall>i<n. i \<noteq> a \<longrightarrow> g i = f i"
  shows "(\<Sum>i<n. g i) = g a + (\<Sum>i\<in>{..<n} - {a}. f i)" and "(\<Sum>i<n. f i) = f a + (\<Sum>i\<in>{..<n} - {a}. f i)"
proof -
  have "(\<Sum>i\<in>{..<n} - {a}. g i) = (\<Sum>i\<in>{..<n} - {a}. f i)" using assms(2) by (intro sum.cong) auto
  then show "(\<Sum>i<n. g i) = g a + (\<Sum>i\<in>{..<n} - {a}. f i)" using assms(1) sum.remove[of "{..<n}" a g] by simp
  show "(\<Sum>i<n. f i) = f a + (\<Sum>i\<in>{..<n} - {a}. f i)" using assms(1) sum.remove[of "{..<n}" a f] by simp
qed

text \<open>A theft: \<open>k\<close> tasks came to core \<open>a\<close> from the source, which is another core or the injection queue.\<close>

definition stolen ::
    "('q \<Rightarrow> 't multiset) \<Rightarrow> ('j \<Rightarrow> 't multiset) \<Rightarrow> nat \<Rightarrow> ('q, 'j) Runtime \<Rightarrow> nat \<Rightarrow> nat option \<Rightarrow> ('q, 'j) Runtime \<Rightarrow> bool" where
  "stolen qt jt a rt k source rt' \<longleftrightarrow>
     (\<exists>moved. size moved = k \<and> core_tasks qt rt' a = core_tasks qt rt a + moved
        \<and> (case source of
             None \<Rightarrow> jt (rt_injector rt) = jt (rt_injector rt') + moved \<and> k \<le> MAX_STOLEN_PER_TICK
           | Some v \<Rightarrow> v \<noteq> a \<and> v < MAX_CORES \<and> rt_injector rt' = rt_injector rt
                \<and> core_tasks qt rt v = core_tasks qt rt' v + moved
                \<and> k \<le> min (size (core_tasks qt rt v) div 2) MAX_STOLEN_PER_TICK))
     \<and> (\<forall>i<MAX_CORES. i \<noteq> a \<longrightarrow> Some i \<noteq> source \<longrightarrow> rt_cores rt' ! i = rt_cores rt ! i)
     \<and> runtime_ok rt' \<and> rt_initialized rt' = rt_initialized rt"

lemma stolen_conserves:
  assumes "stolen qt jt a rt k source rt'" "a < MAX_CORES"
  shows "all_tasks qt jt rt' = all_tasks qt jt rt"
proof -
  obtain m where m: "core_tasks qt rt' a = core_tasks qt rt a + m"
    and src: "case source of None \<Rightarrow> jt (rt_injector rt) = jt (rt_injector rt') + m
       | Some v \<Rightarrow> v \<noteq> a \<and> v < MAX_CORES \<and> rt_injector rt' = rt_injector rt \<and> core_tasks qt rt v = core_tasks qt rt' v + m"
    using assms(1) unfolding stolen_def by (auto split: option.splits)
  have rest: "\<forall>i<MAX_CORES. i \<noteq> a \<longrightarrow> Some i \<noteq> source \<longrightarrow> core_tasks qt rt' i = core_tasks qt rt i"
    using assms(1) by (simp add: stolen_def core_tasks_def)
  show ?thesis
  proof (cases source)
    case None
    then have "(\<Sum>i<MAX_CORES. core_tasks qt rt' i) = (\<Sum>i<MAX_CORES. core_tasks qt rt i) + m"
      using sum_change[OF assms(2), of "core_tasks qt rt'" "core_tasks qt rt"] rest m by simp
    then show ?thesis using src None by (simp add: all_tasks_def)
  next
    case (Some v)
    let ?f = "(core_tasks qt rt)(v := core_tasks qt rt' v)"
    have v: "v \<noteq> a" "v < MAX_CORES" "core_tasks qt rt v = core_tasks qt rt' v + m" using src Some by auto
    have "(\<Sum>i<MAX_CORES. core_tasks qt rt' i) = (\<Sum>i<MAX_CORES. ?f i) + m"
      using sum_change[OF assms(2), of "core_tasks qt rt'" ?f] rest m v(1) Some by simp
    moreover have "(\<Sum>i<MAX_CORES. core_tasks qt rt i) = (\<Sum>i<MAX_CORES. ?f i) + m"
      using sum_change[OF v(2), of ?f "core_tasks qt rt"] v(3) by simp
    ultimately show ?thesis using src Some by (simp add: all_tasks_def)
  qed
qed

lemma own_scheduler_ok:
  assumes "runtime_ok rt" "ex_id ex < rt_initialized rt"
  shows "\<exists>q. own_scheduler ex rt = Inr q \<and> rt_cores rt ! ex_id ex = Some q" and "ex_id ex < length (rt_cores rt)"
  using assms by (auto simp: runtime_ok_def own_scheduler_def)

lemma runtime_ok_update:
  assumes "runtime_ok rt" "i < rt_initialized rt"
  shows "runtime_ok (rt\<lparr>rt_cores := (rt_cores rt)[i := Some q]\<rparr>)"
  using assms by (auto simp: runtime_ok_def nth_list_update)

lemma steal_injected_ok:
  assumes spec: "sched_spec sa qt jt" and ok: "runtime_ok rt" "ex_id ex < rt_initialized rt"
  shows "\<exists>k rt'. steal_injected sa ex rt = Inr (k, rt') \<and> stolen qt jt (ex_id ex) rt k None rt'"
proof -
  obtain q where q: "own_scheduler ex rt = Inr q" "rt_cores rt ! ex_id ex = Some q" using own_scheduler_ok[OF ok] by blast
  obtain k j' q' where s: "ij_spawn_n sa (rt_injector rt) q MAX_STOLEN_PER_TICK = (k, j', q')" by (metis prod_cases3)
  then obtain m where m: "k \<le> MAX_STOLEN_PER_TICK" "size m = k" "jt (rt_injector rt) = jt j' + m" "qt q' = qt q + m"
    using sched_specD(2)[OF spec] by blast
  let ?r = "rt\<lparr>rt_injector := j', rt_cores := (rt_cores rt)[ex_id ex := Some q']\<rparr>"
  have "runtime_ok ?r" using runtime_ok_update[OF ok, of q'] by (simp add: runtime_ok_def)
  then have "stolen qt jt (ex_id ex) rt k None ?r" unfolding stolen_def core_tasks_def
    using m q(2) own_scheduler_ok(2)[OF ok] by (auto intro!: exI[of _ m])
  then show ?thesis using q(1) s by (simp add: steal_injected_def)
qed

lemma steal_attempts_ok:
  assumes spec: "sched_spec sa qt jt" and rng: "rng_spec gen_range" and ok: "runtime_ok rt" "ex_id ex < rt_initialized rt"
  shows "\<exists>r ex' rt'. steal_attempts sa gen_range n ex rt = Inr (r, ex', rt') \<and> ex_id ex' = ex_id ex \<and> ex_running ex' = ex_running ex
    \<and> (case r of None \<Rightarrow> rt' = rt | Some k \<Rightarrow> \<exists>v. stolen qt jt (ex_id ex) rt k (Some v) rt')"
  using ok(2)
proof (induction n arbitrary: ex)
  case (Suc n)
  show ?case
  proof (cases "active_cores rt \<le> 1")
    case False
    obtain v g where vg: "gen_range (active_cores rt) (ex_rng ex) = (v, g)" by (cases "gen_range (active_cores rt) (ex_rng ex)")
    let ?ex = "ex\<lparr>ex_rng := g\<rparr>"
    have v: "v < rt_initialized rt" using rng vg False unfolding rng_spec_def active_cores_def
      by (metis fst_conv gr_zeroI zero_le_one)
    then have vl: "v < length (rt_cores rt)" "v < MAX_CORES" using ok(1) by (auto simp: runtime_ok_def)
    have IH: "\<exists>r ex' rt'. steal_attempts sa gen_range n ?ex rt = Inr (r, ex', rt') \<and> ex_id ex' = ex_id ex \<and> ex_running ex' = ex_running ex
        \<and> (case r of None \<Rightarrow> rt' = rt | Some k \<Rightarrow> \<exists>v. stolen qt jt (ex_id ex) rt k (Some v) rt')"
      using Suc.IH[of ?ex] Suc.prems by (simp cong: option.case_cong)
    obtain q where q: "rt_cores rt ! v = Some q" using ok(1) v vl by (fastforce simp: runtime_ok_def)
    show ?thesis
    proof (cases "v = ex_id ex \<or> \<not> sa_try_steal sa q")
      case True
      then have "steal_attempts sa gen_range (Suc n) ex rt = steal_attempts sa gen_range n ?ex rt"
        using False vg q vl by (auto simp: try_steal_from_def Let_def)
      then show ?thesis using IH by simp
    next
      case nv: False
      obtain own where own: "own_scheduler ?ex rt = Inr own" "rt_cores rt ! ex_id ex = Some own"
        using own_scheduler_ok[OF ok(1), of ?ex] Suc.prems by auto
      let ?n = "min (sa_initial_task_count sa q div 2) MAX_STOLEN_PER_TICK"
      obtain k q' own' where s: "sa_spawn_n sa q own ?n = (k, q', own')" by (metis prod_cases3)
      then obtain m where m: "k \<le> ?n" "size m = k" "qt q = qt q' + m" "qt own' = qt own + m"
        using sched_specD(1)[OF spec] by blast
      have cnt: "sa_initial_task_count sa q = size (qt q)" using spec by (simp add: sched_spec_def)
      let ?r = "rt\<lparr>rt_cores := (rt_cores rt)[v := Some q', ex_id ex := Some own']\<rparr>"
      have "runtime_ok ?r"
        using runtime_ok_update[OF runtime_ok_update[OF ok(1) v, of q'], of "ex_id ex" own'] Suc.prems by simp
      then have "stolen qt jt (ex_id ex) rt k (Some v) ?r" unfolding stolen_def core_tasks_def
        using m nv own(2) q vl own_scheduler_ok(2)[OF ok(1) Suc.prems] cnt by (auto intro!: exI[of _ m] simp: nth_list_update)
      moreover have "steal_attempts sa gen_range (Suc n) ex rt = Inr (Some k, ?ex, ?r)"
        using False vg q vl nv own(1) s by (simp add: try_steal_from_def Let_def)
      ultimately show ?thesis by auto
    qed
  qed simp
qed simp

text \<open>
  C24. Work stealing loses no task and duplicates none. On a consistent runtime an executor's attempt to
  steal never panics; the tasks of all queues together stay the same; the executor has gained exactly
  the number it reports, at most 256; it took them from the injection queue, or from one other core,
  never itself, of which it took at most half; no other queue has changed. If it reports none, nothing
  has moved.
\<close>

theorem executor_steal_conserves:
  assumes "sched_spec sa qt jt" "rng_spec gen_range" "runtime_ok rt" "ex_id ex < rt_initialized rt"
  shows "\<exists>k ex' rt'. try_steal sa gen_range ex rt = Inr (k, ex', rt') \<and> ex_id ex' = ex_id ex
    \<and> all_tasks qt jt rt' = all_tasks qt jt rt \<and> runtime_ok rt' \<and> rt_initialized rt' = rt_initialized rt
    \<and> k \<le> MAX_STOLEN_PER_TICK
    \<and> (rt' = rt \<and> k = 0 \<or> (\<exists>source. source \<noteq> Some (ex_id ex) \<and> stolen qt jt (ex_id ex) rt k source rt'))"
proof -
  have id: "ex_id ex < MAX_CORES" using assms(3,4) by (simp add: runtime_ok_def)
  have fin: "all_tasks qt jt rt' = all_tasks qt jt rt \<and> runtime_ok rt' \<and> rt_initialized rt' = rt_initialized rt
      \<and> k \<le> MAX_STOLEN_PER_TICK \<and> source \<noteq> Some (ex_id ex)"
    if s: "stolen qt jt (ex_id ex) rt k source rt'" for k source rt'
    using stolen_conserves[OF s id] s by (auto simp: stolen_def split: option.splits)
  obtain k1 rt1 where inject: "steal_injected sa ex rt = Inr (k1, rt1)" "stolen qt jt (ex_id ex) rt k1 None rt1"
    using steal_injected_ok[OF assms(1,3,4)] by blast
  show ?thesis
  proof (cases "ij_try_steal sa (rt_injector rt)")
    case True
    then have "try_steal sa gen_range ex rt = Inr (k1, ex, rt1)" using inject(1) by (simp add: try_steal_def)
    then show ?thesis using fin[OF inject(2)] inject(2) by auto
  next
    case False
    obtain r ex1 rt2 where a: "steal_attempts sa gen_range MAX_STEAL_ATTEMPTS ex rt = Inr (r, ex1, rt2)" "ex_id ex1 = ex_id ex"
      "case r of None \<Rightarrow> rt2 = rt | Some k \<Rightarrow> \<exists>v. stolen qt jt (ex_id ex) rt k (Some v) rt2"
      using steal_attempts_ok[OF assms, of MAX_STEAL_ATTEMPTS] by blast
    show ?thesis
    proof (cases r)
      case None
      then have "try_steal sa gen_range ex rt = Inr (0, ex1, rt)" using a False by (simp add: try_steal_def)
      then show ?thesis using a(2) assms(3) by simp
    next
      case (Some k)
      then obtain v where v: "stolen qt jt (ex_id ex) rt k (Some v) rt2" using a(3) by auto
      have "try_steal sa gen_range ex rt = Inr (k, ex1, rt2)" using a(1) Some False by (simp add: try_steal_def)
      then show ?thesis using fin[OF v] v a(2) by auto
    qed
  qed
qed

section \<open>Starting cores\<close>

fun start_cores :: "('q, 'j, 't) sched_api \<Rightarrow> nat \<Rightarrow> ('q, 'j) Runtime \<Rightarrow> usize res list \<times> ('q, 'j) Runtime" where
  "start_cores sa 0 rt = ([], rt)"
| "start_cores sa (Suc n) rt =
     (case start_cores sa n rt of (rs, rt) \<Rightarrow> case new_scheduler sa rt of (r, rt) \<Rightarrow> (rs @ [r], rt))"

lemma start_cores_state:
  "\<exists>rt. start_cores sa n (RUNTIME j) = (map (\<lambda>i. if i < MAX_CORES then Inr i else Inl AssertFailed) [0..<n], rt)
    \<and> rt_initialized rt = n \<and> rt_injector rt = j \<and> length (rt_cores rt) = MAX_CORES
    \<and> (\<forall>i<MAX_CORES. rt_cores rt ! i = (if i < n then Some (sa_new sa) else None))"
proof (induction n)
  case (Suc n)
  then obtain rt where rt: "start_cores sa n (RUNTIME j) = (map (\<lambda>i. if i < MAX_CORES then Inr i else Inl AssertFailed) [0..<n], rt)"
    "rt_initialized rt = n" "rt_injector rt = j" "length (rt_cores rt) = MAX_CORES"
    "\<forall>i<MAX_CORES. rt_cores rt ! i = (if i < n then Some (sa_new sa) else None)" by blast
  then show ?case by (auto simp: new_scheduler_def Let_def nth_list_update less_Suc_eq)
qed (simp add: RUNTIME_def)

text \<open>
  Cores get the numbers 0 to 31, each once, with an empty scheduler of their own, and the runtime is
  consistent as long as there are no more. The 33rd core panics, but has already been counted: from then
  on a core that looks for work and draws the number 32 reads past the table and panics too.
\<close>

theorem executor_core_numbers:
  assumes spec: "sched_spec sa qt jt" and start: "start_cores sa n (RUNTIME j) = (rs, rt)"
  shows "rs = map (\<lambda>i. if i < 32 then Inr i else Inl AssertFailed) [0..<n]
    \<and> (n \<le> 32 \<longrightarrow> runtime_ok rt \<and> all_tasks qt jt rt = jt j)
    \<and> (32 < n \<longrightarrow> \<not> ij_try_steal sa j \<longrightarrow> gen_range n (ex_rng ex) = (32, g) \<longrightarrow> ex_id ex < 32 \<longrightarrow>
         try_steal sa gen_range ex rt = Inl IndexOutOfBounds)"
proof -
  have st: "rs = map (\<lambda>i. if i < MAX_CORES then Inr i else Inl AssertFailed) [0..<n]"
    "rt_initialized rt = n" "rt_injector rt = j" "length (rt_cores rt) = MAX_CORES"
    "\<forall>i<MAX_CORES. rt_cores rt ! i = (if i < n then Some (sa_new sa) else None)"
    using start_cores_state[of sa n j] start by auto
  have "core_tasks qt rt i = {#}" if "i < MAX_CORES" for i
    using st(5) spec that by (simp add: core_tasks_def sched_spec_def)
  then have "all_tasks qt jt rt = jt j" by (simp add: all_tasks_def st(3))
  moreover have "runtime_ok rt" if "n \<le> 32" using that st by (simp add: runtime_ok_def MAX_CORES_def)
  moreover have "try_steal sa gen_range ex rt = Inl IndexOutOfBounds"
    if "32 < n" "\<not> ij_try_steal sa j" "gen_range n (ex_rng ex) = (32, g)" "ex_id ex < 32"
  proof -
    have "steal_attempts sa gen_range (Suc a) ex rt = Inl IndexOutOfBounds" for a using that st
      by (simp add: active_cores_def try_steal_from_def MAX_CORES_def Let_def)
    moreover have "MAX_STEAL_ATTEMPTS = Suc 15" by (simp add: MAX_STEAL_ATTEMPTS_def)
    ultimately have "steal_attempts sa gen_range MAX_STEAL_ATTEMPTS ex rt = Inl IndexOutOfBounds" by metis
    then show ?thesis using that(2) st(3) by (simp add: try_steal_def)
  qed
  ultimately show ?thesis using st(1) by (simp add: MAX_CORES_def)
qed

section \<open>Spawning\<close>

lemma executor_spawn_all_tasks:
  assumes "sched_spec sa qt jt" "runtime_ok rt" "case scheduler of None \<Rightarrow> True | Some i \<Rightarrow> i < rt_initialized rt"
  shows "\<exists>rt'. executor_spawn sa scheduler t rt = Inr rt' \<and> all_tasks qt jt rt' = add_mset t (all_tasks qt jt rt) \<and> runtime_ok rt'"
proof (cases scheduler)
  case None
  then show ?thesis using assms by (simp add: executor_spawn_def all_tasks_def sched_spec_def core_tasks_def runtime_ok_def)
next
  case (Some i)
  then have i: "i < rt_initialized rt" "i < MAX_CORES" "i < length (rt_cores rt)" using assms(2,3) by (auto simp: runtime_ok_def)
  then obtain q where q: "rt_cores rt ! i = Some q" using assms(2) by (fastforce simp: runtime_ok_def)
  let ?r = "rt\<lparr>rt_cores := (rt_cores rt)[i := Some (sa_spawn sa t q)]\<rparr>"
  have "core_tasks qt ?r i = add_mset t (core_tasks qt rt i)" using q i(3) assms(1) by (simp add: core_tasks_def sched_spec_def)
  moreover have "\<forall>k<MAX_CORES. k \<noteq> i \<longrightarrow> core_tasks qt ?r k = core_tasks qt rt k" by (simp add: core_tasks_def)
  ultimately have "all_tasks qt jt ?r = add_mset t (all_tasks qt jt rt)"
    using sum_change[OF i(2), of "core_tasks qt ?r" "core_tasks qt rt"] by (simp add: all_tasks_def)
  then show ?thesis using q i(3) Some runtime_ok_update[OF assms(2) i(1)] by (simp add: executor_spawn_def)
qed

section \<open>Schedulers that are lists\<close>

definition list_sched :: "(nat list, nat list, nat) sched_api" where
  "list_sched = \<lparr>sa_new = [], sa_spawn = (\<lambda>t q. q @ [t]), sa_tick = (\<lambda>q. (1 < length q, tl q)),
     sa_try_steal = (\<lambda>q. q \<noteq> []), sa_initial_task_count = length,
     sa_spawn_n = (\<lambda>v q n. (min n (length v), drop n v, q @ take n v)),
     ij_spawn = (\<lambda>t q. q @ [t]), ij_try_steal = (\<lambda>q. q \<noteq> []),
     ij_spawn_n = (\<lambda>v q n. (min n (length v), drop n v, q @ take n v))\<rparr>"

lemma list_sched_spec: "sched_spec list_sched mset mset"
proof -
  have "mset v = mset (drop n v) + mset (take n v)" for v :: "nat list" and n
    by (metis append_take_drop_id mset_append add.commute)
  then show ?thesis
    by (auto simp: sched_spec_def list_sched_def intro!: exI[of _ "mset (take _ _)"])
qed

theorem executor_steal_conserves_witness:
  "\<exists>k ex' rt'. try_steal list_sched (\<lambda>n g. (0, g)) \<lparr>ex_id = 1, ex_running = True, ex_rng = ()\<rparr>
      \<lparr>rt_cores = Some [1, 2, 3, 4, 5] # Some [] # replicate 30 None, rt_injector = [], rt_initialized = 2\<rparr> = Inr (k, ex', rt')
    \<and> k \<le> MAX_STOLEN_PER_TICK"
proof -
  let ?rt = "\<lparr>rt_cores = Some [1, 2, 3, 4, 5] # Some [] # replicate 30 None, rt_injector = [], rt_initialized = 2\<rparr>"
  have "runtime_ok ?rt" by (auto simp: runtime_ok_def MAX_CORES_def nth_Cons split: nat.splits)
  moreover have "rng_spec (\<lambda>n g :: unit. (0, g))" by (simp add: rng_spec_def)
  moreover have "ex_id \<lparr>ex_id = 1, ex_running = True, ex_rng = ()\<rparr> < rt_initialized ?rt" by simp
  ultimately show ?thesis using executor_steal_conserves[OF list_sched_spec] by blast
qed

theorem executor_core_numbers_witness:
  "try_steal list_sched (\<lambda>n g. (n - 1, g)) \<lparr>ex_id = 0, ex_running = True, ex_rng = ()\<rparr> (snd (start_cores list_sched 33 (RUNTIME [])))
    = Inl IndexOutOfBounds"
proof -
  obtain rs rt where s: "start_cores list_sched 33 (RUNTIME []) = (rs, rt)" by (cases "start_cores list_sched 33 (RUNTIME [])")
  have "\<not> ij_try_steal list_sched []" by (simp add: list_sched_def)
  then show ?thesis
    using executor_core_numbers[OF list_sched_spec s, of "\<lambda>n g. (n - 1, g)" "\<lparr>ex_id = 0, ex_running = True, ex_rng = ()\<rparr>" "()"] s
    by simp
qed

end
