(* ===== verification/Dma.thy ===== *)
theory Dma
  imports Snalloc
begin

text \<open>
  Buffers shared with devices, \<open>kernel/src/drivers/dma.rs\<close>. The heap and the page tables are the record
  \<open>dma_env\<close> on an arbitrary state of the machine.
\<close>

record 'h dma_env =
  da_alloc_zeroed :: "Layout \<Rightarrow> 'h \<Rightarrow> usize \<times> 'h"
  da_dealloc :: "usize \<Rightarrow> Layout \<Rightarrow> 'h \<Rightarrow> 'h"
  da_translate :: "usize \<Rightarrow> 'h \<Rightarrow> usize option"

text \<open>\<open>core::alloc::Layout\<close>: a size of at most \<open>isize::MAX\<close> after rounding up, an alignment that is a power of two.\<close>

definition power_of_two :: "nat \<Rightarrow> bool" where
  "power_of_two n \<longleftrightarrow> n \<noteq> 0 \<and> n AND (n - 1) = 0"

definition Layout_from_size_align :: "usize \<Rightarrow> usize \<Rightarrow> Layout option" where
  "Layout_from_size_align size_of align =
     (if power_of_two align \<and> size_of + align \<le> 2 ^ 63 then Some \<lparr>lsize = size_of, lalign = align\<rparr> else None)"

definition Layout_array :: "usize \<Rightarrow> usize \<Rightarrow> usize \<Rightarrow> Layout option" where
  "Layout_array size_of align_of n = Layout_from_size_align (size_of * n) align_of"

definition Layout_align_to :: "usize \<Rightarrow> Layout \<Rightarrow> Layout option" where
  "Layout_align_to align l = Layout_from_size_align (lsize l) (max (lalign l) align)"

record Dma =
  dm_layout :: Layout
  dm_ptr :: usize
  dm_len :: usize

text \<open>The element type is given by its size and its alignment; a single value is a slice of length one.\<close>

definition Dma_new_zeroed_slice ::
    "'h dma_env \<Rightarrow> usize \<times> usize \<Rightarrow> usize \<Rightarrow> usize \<Rightarrow> 'h \<Rightarrow> (Dma \<times> 'h) res" where
  "Dma_new_zeroed_slice da t len align h =
     res_bind (assert_that (align \<ge> snd t)) (\<lambda>_.
     res_bind (unwrap (Layout_array (fst t) (snd t) len)) (\<lambda>l.
     res_bind (unwrap (Layout_align_to align l)) (\<lambda>layout.
     case da_alloc_zeroed da layout h of (ptr, h) \<Rightarrow>
       if ptr = 0 then Inl ExplicitPanic
       else Inr (\<lparr>dm_layout = layout, dm_ptr = ptr, dm_len = len\<rparr>, h))))"

definition Dma_new_zeroed :: "'h dma_env \<Rightarrow> usize \<times> usize \<Rightarrow> usize \<Rightarrow> 'h \<Rightarrow> (Dma \<times> 'h) res" where
  "Dma_new_zeroed da t align h =
     res_bind (assert_that (align \<ge> snd t)) (\<lambda>_.
     res_bind (unwrap (Layout_align_to align \<lparr>lsize = fst t, lalign = snd t\<rparr>)) (\<lambda>layout.
     case da_alloc_zeroed da layout h of (ptr, h) \<Rightarrow>
       if ptr = 0 then Inl ExplicitPanic
       else Inr (\<lparr>dm_layout = layout, dm_ptr = ptr, dm_len = 1\<rparr>, h)))"

definition Dma_phys_addr :: "'h dma_env \<Rightarrow> Dma \<Rightarrow> 'h \<Rightarrow> usize res" where
  "Dma_phys_addr da self h = unwrap (da_translate da (dm_ptr self) h)"

definition Dma_leak :: "Dma \<Rightarrow> usize" where
  "Dma_leak self = dm_ptr self"

definition Dma_drop :: "'h dma_env \<Rightarrow> Dma \<Rightarrow> 'h \<Rightarrow> 'h" where
  "Dma_drop da self h = (if dm_ptr self \<noteq> 0 then da_dealloc da (dm_ptr self) (dm_layout self) h else h)"

section \<open>What a device may rely on\<close>

text \<open>
  The documented behaviour of the heap and of translation: blocks are aligned and, when handed out
  zeroed, hold zeros (\<open>byte\<close> reads a virtual address); a translation is linear within a page.
\<close>

definition dma_spec :: "'h dma_env \<Rightarrow> (usize \<Rightarrow> 'h \<Rightarrow> u8) \<Rightarrow> bool" where
  "dma_spec da byte \<longleftrightarrow>
     (\<forall>l h ptr h'. da_alloc_zeroed da l h = (ptr, h') \<longrightarrow> ptr \<noteq> 0 \<longrightarrow>
        lalign l dvd ptr \<and> (\<forall>i<lsize l. byte (ptr + i) h' = 0))
     \<and> (\<forall>va pa i h. da_translate da va h = Some pa \<longrightarrow> va mod 4096 + i < 4096 \<longrightarrow> da_translate da (va + i) h = Some (pa + i))"

text \<open>
  A buffer with page alignment: the alignment asked for is kept, the contents are zero, and the physical
  address \<open>phys_addr\<close> answers is that of the first page. It says nothing about later pages.
\<close>

lemma dma_page_buffer:
  assumes spec: "dma_spec da byte" and new: "Dma_new_zeroed_slice da t len 4096 h = Inr (d, h')"
  shows "dm_len d = len \<and> 4096 dvd dm_ptr d \<and> lsize (dm_layout d) = fst t * len
    \<and> (\<forall>i<fst t * len. byte (dm_ptr d + i) h' = 0)
    \<and> (\<forall>pa. Dma_phys_addr da d h' = Inr pa \<longrightarrow> (\<forall>i<4096. da_translate da (dm_ptr d + i) h' = Some (pa + i)))"
proof -
  obtain l where l: "snd t \<le> 4096" "Layout_array (fst t) (snd t) len = Some l" "Layout_align_to 4096 l = Some (dm_layout d)"
    "da_alloc_zeroed da (dm_layout d) h = (dm_ptr d, h')" "dm_ptr d \<noteq> 0" "dm_len d = len"
    using new by (auto simp: Dma_new_zeroed_slice_def case_prod_beta split: if_splits)
  have "dm_layout d = \<lparr>lsize = fst t * len, lalign = 4096\<rparr>"
    using l(1,2,3) by (auto simp: Layout_array_def Layout_align_to_def Layout_from_size_align_def split: if_splits)
  then have la: "lsize (dm_layout d) = fst t * len" "lalign (dm_layout d) = 4096" by simp_all
  have al: "4096 dvd dm_ptr d" "\<forall>i<fst t * len. byte (dm_ptr d + i) h' = 0"
    using spec l(4,5) la unfolding dma_spec_def by metis+
  moreover have "da_translate da (dm_ptr d + i) h' = Some (pa + i)" if "Dma_phys_addr da d h' = Inr pa" "i < 4096" for pa i
    using spec that al(1) unfolding dma_spec_def Dma_phys_addr_def by (simp add: dvd_eq_mod_eq_0)
  ultimately show ?thesis using l(6) la by simp
qed

end
