(* ===== verification/Nvme.thy ===== *)
theory Nvme
  imports Bitfield Dma Interrupts
begin

text \<open>
  The NVMe driver, \<open>kernel/src/drivers/nvme.rs\<close> (present in the tree, its \<open>mod\<close> line is commented out):
  the register layouts, the structures shared with the controller, a submission and completion queue
  pair with its phase bit, and the bring-up of a controller.

  The controller, the memory it shares with the driver and the services of the kernel are the records
  \<open>nvme_hw\<close> and \<open>dma_env\<close> on an arbitrary state of the machine.
\<close>

section \<open>Registers\<close>

definition Capabilities_layout :: "nat list" where
  "Capabilities_layout = [16, 1, 1, 1, 5, 8, 4, 1, 1, 5, 1, 1, 1, 2, 4, 4, 1, 1, 1, 1, 1]"

definition Version_layout :: "nat list" where
  "Version_layout = [8, 8, 16]"

definition ControllerConfiguration_layout :: "nat list" where
  "ControllerConfiguration_layout = [1, 3, 3, 4, 3, 2, 4, 4, 1]"

definition ControllerStatus_layout :: "nat list" where
  "ControllerStatus_layout = [1, 1, 2, 1, 1, 1]"

definition AdminQueueAttributes_layout :: "nat list" where
  "AdminQueueAttributes_layout = [12, 4, 12, 4]"

text \<open>The fields the driver uses, by their position.\<close>

definition MQES :: nat where "MQES = 0"
definition DSTRD :: nat where "DSTRD = 6"
definition CSS_NVM :: nat where "CSS_NVM = 8"
definition MPSMIN :: nat where "MPSMIN = 14"
definition CC_EN :: nat where "CC_EN = 0"
definition CC_CSS :: nat where "CC_CSS = 2"
definition CC_AMS :: nat where "CC_AMS = 4"
definition CC_IOSQES :: nat where "CC_IOSQES = 6"
definition CC_IOCQES :: nat where "CC_IOCQES = 7"
definition CSTS_RDY :: nat where "CSTS_RDY = 0"
definition CSTS_CFS :: nat where "CSTS_CFS = 1"
definition ASQS :: nat where "ASQS = 0"
definition ACQS :: nat where "ACQS = 2"

definition REG_CAP :: nat where "REG_CAP = 0x00"
definition REG_CC :: nat where "REG_CC = 0x14"
definition REG_CSTS :: nat where "REG_CSTS = 0x1C"
definition REG_AQA :: nat where "REG_AQA = 0x24"
definition REG_ASQ :: nat where "REG_ASQ = 0x28"
definition REG_ACQ :: nat where "REG_ACQ = 0x30"

datatype ControllerCommandSet = CssNvm | CssIo | CssAdmin

fun css_bits :: "ControllerCommandSet \<Rightarrow> u32" where
  "css_bits CssNvm = 0" | "css_bits CssIo = 6" | "css_bits CssAdmin = 7"

datatype ArbitrationMechanism = RoundRobin | WeightedRoundRobin | VendorSpecific

fun ams_bits :: "ArbitrationMechanism \<Rightarrow> u32" where
  "ams_bits RoundRobin = 0" | "ams_bits WeightedRoundRobin = 1" | "ams_bits VendorSpecific = 7"

section \<open>Commands and completions\<close>

datatype AdminOpcode = CreateSq | CreateCq | Identify | UnknownOpcode

fun opcode_byte :: "AdminOpcode \<Rightarrow> nat" where
  "opcode_byte CreateSq = 1" | "opcode_byte CreateCq = 5" | "opcode_byte Identify = 6" | "opcode_byte UnknownOpcode = 255"

datatype IdentifyCns = CnsNamespace | CnsController | CnsActivateList | CnsUnknown

fun cns_byte :: "IdentifyCns \<Rightarrow> nat" where
  "cns_byte CnsNamespace = 0" | "cns_byte CnsController = 1" | "cns_byte CnsActivateList = 2" | "cns_byte CnsUnknown = 255"

record IdentifyCommand =
  ic_opcode :: nat
  ic_command_id :: nat
  ic_nsid :: nat
  ic_prp1 :: usize
  ic_cns :: nat

record CreateQueueCommand =
  cr_opcode :: nat
  cr_command_id :: nat
  cr_prp1 :: usize
  cr_id :: nat
  cr_q_size :: nat
  cr_flags :: nat
  cr_cqid :: nat

text \<open>The members of the union that the driver builds; the reserved words are zero.\<close>

datatype NvmeCommand =
    CIdentify IdentifyCommand
  | CCreateSq CreateQueueCommand
  | CCreateCq CreateQueueCommand

text \<open>The store of a half-word at byte 2, where all members have their command identifier.\<close>

fun set_command_id :: "nat \<Rightarrow> NvmeCommand \<Rightarrow> NvmeCommand" where
  "set_command_id i (CIdentify c) = CIdentify (c\<lparr>ic_command_id := i\<rparr>)"
| "set_command_id i (CCreateSq c) = CCreateSq (c\<lparr>cr_command_id := i\<rparr>)"
| "set_command_id i (CCreateCq c) = CCreateCq (c\<lparr>cr_command_id := i\<rparr>)"

fun cmd_id :: "NvmeCommand \<Rightarrow> nat" where
  "cmd_id (CIdentify c) = ic_command_id c"
| "cmd_id (CCreateSq c) = cr_command_id c"
| "cmd_id (CCreateCq c) = cr_command_id c"

record CompletionQueueEntry =
  ce_result :: nat
  ce_sq_head :: nat
  ce_sq_id :: nat
  ce_command_id :: nat
  ce_status :: u16

record LbaFormat =
  lf_ms :: nat
  lf_ds :: nat

record IdentifyController =
  ico_mdts :: nat
  ico_nn :: nat

record IdentifyNamespace =
  ins_nsze :: usize
  ins_flbas :: u8
  ins_lbaf :: "LbaFormat list"

section \<open>The machine\<close>

record 'h nvme_hw =
  nv_read32 :: "nat \<Rightarrow> 'h \<Rightarrow> u32 \<times> 'h"
  nv_write32 :: "nat \<Rightarrow> u32 \<Rightarrow> 'h \<Rightarrow> 'h"
  nv_read64 :: "nat \<Rightarrow> 'h \<Rightarrow> u64 \<times> 'h"
  nv_write64 :: "nat \<Rightarrow> u64 \<Rightarrow> 'h \<Rightarrow> 'h"
  nv_store :: "Dma \<Rightarrow> usize \<Rightarrow> NvmeCommand \<Rightarrow> 'h \<Rightarrow> 'h"
  nv_load :: "Dma \<Rightarrow> usize \<Rightarrow> 'h \<Rightarrow> CompletionQueueEntry \<times> 'h"
  nv_identity :: "Dma \<Rightarrow> 'h \<Rightarrow> IdentifyController"
  nv_nsids :: "Dma \<Rightarrow> 'h \<Rightarrow> nat list"
  nv_namespace :: "Dma \<Rightarrow> 'h \<Rightarrow> IdentifyNamespace"
  nv_set_command :: "'h \<Rightarrow> 'h"
  nv_map_address :: "usize \<Rightarrow> usize \<Rightarrow> 'h \<Rightarrow> usize res \<times> 'h"

text \<open>The accessors of the two register widths.\<close>

record nvme_bits =
  nb_64 :: "u64 bitfield"
  nb_32 :: "u32 bitfield"

datatype nvme_error = NvmePanic panic | UnknownBar | NotSupported | Fatal | CommandError nat

definition io_checked :: "'a res \<Rightarrow> ('h, nvme_error, 'a) io" where
  "io_checked r h = (case r of Inl p \<Rightarrow> Some (Inl (NvmePanic p), h) | Inr x \<Rightarrow> Some (Inr x, h))"

definition io_dma :: "('h \<Rightarrow> (Dma \<times> 'h) res) \<Rightarrow> ('h, nvme_error, Dma) io" where
  "io_dma f h = (case f h of Inl p \<Rightarrow> Some (Inl (NvmePanic p), h) | Inr (d, h') \<Rightarrow> Some (Inr d, h'))"

section \<open>A queue pair\<close>

record QueuePair =
  qp_queue_id :: usize
  qp_command_id :: nat
  qp_submission :: Dma
  qp_submission_index :: usize
  qp_completion :: Dma
  qp_completion_index :: usize
  qp_phase :: bool

definition sizeof_Command :: "usize \<times> usize" where "sizeof_Command = (64, 8)"
definition sizeof_CompletionQueueEntry :: "usize \<times> usize" where "sizeof_CompletionQueueEntry = (16, 4)"

text \<open>\<open>queue_id\<close> is the value of the static counter \<open>QUEUE_ID\<close>, which is incremented.\<close>

definition QueuePair_new :: "'h dma_env \<Rightarrow> usize \<Rightarrow> usize \<Rightarrow> ('h, nvme_error, QueuePair) io" where
  "QueuePair_new da queue_id n =
     io_bind (io_dma (Dma_new_zeroed_slice da sizeof_Command n 4096)) (\<lambda>submission.
     io_bind (io_dma (Dma_new_zeroed_slice da sizeof_CompletionQueueEntry n 4096)) (\<lambda>completion.
     io_return \<lparr>qp_queue_id = queue_id, qp_command_id = 0, qp_submission = submission, qp_submission_index = 0,
       qp_completion = completion, qp_completion_index = 0, qp_phase = True\<rparr>))"

definition doorbell_offset :: "nvme_bits \<Rightarrow> usize \<Rightarrow> usize \<Rightarrow> u64 \<Rightarrow> usize" where
  "doorbell_offset nb queue_id doorbell cap =
     0x1000 + ((queue_id * 2 + doorbell) * (4 * 2 ^ unat (bf_get (nb_64 nb) Capabilities_layout DSTRD cap)))"

definition set_doorbell :: "'h nvme_hw \<Rightarrow> nvme_bits \<Rightarrow> QueuePair \<Rightarrow> usize \<Rightarrow> usize \<Rightarrow> ('h, nvme_error, unit) io" where
  "set_doorbell nv nb self doorbell index =
     io_bind (io_step (nv_read64 nv REG_CAP)) (\<lambda>cap.
     io_modify (nv_write32 nv (doorbell_offset nb (qp_queue_id self) doorbell cap) (of_nat index)))"

definition io_spin :: "('h \<Rightarrow> 'v \<times> 'h) \<Rightarrow> ('v \<Rightarrow> bool) \<Rightarrow> ('h, 'e, 'v) io" where
  "io_spin rd p h = map_option (\<lambda>(v, h'). (Inr v, h')) (spin_until rd p h)"

text \<open>
  \<open>submit\<close> in the state as it is when it returns, with the queue pair updated also when the command
  failed: the second component of an error is the pair it leaves behind.
\<close>

definition QueuePair_submit ::
    "'h nvme_hw \<Rightarrow> nvme_bits \<Rightarrow> NvmeCommand \<Rightarrow> QueuePair \<Rightarrow> ('h, nvme_error, (nat + CompletionQueueEntry) \<times> QueuePair) io" where
  "QueuePair_submit nv nb command self =
     (let command = set_command_id (qp_command_id self) command in
      io_bind (io_checked (if qp_command_id self + 1 < 2 ^ 16 then Inr (qp_command_id self + 1) else Inl ArithOverflow)) (\<lambda>i.
      let self = self\<lparr>qp_command_id := i\<rparr> in
      io_bind (io_checked (if qp_submission_index self < dm_len (qp_submission self) then Inr () else Inl IndexOutOfBounds)) (\<lambda>_.
      io_bind (io_modify (nv_store nv (qp_submission self) (qp_submission_index self) command)) (\<lambda>_.
      io_bind (io_checked (usize_rem (qp_submission_index self + 1) (dm_len (qp_submission self)))) (\<lambda>si.
      let self = self\<lparr>qp_submission_index := si\<rparr> in
      io_bind (set_doorbell nv nb self 0 si) (\<lambda>_.
      io_bind (io_checked (if qp_completion_index self < dm_len (qp_completion self) then Inr () else Inl IndexOutOfBounds)) (\<lambda>_.
      io_bind (io_spin (nv_load nv (qp_completion self) (qp_completion_index self))
                 (\<lambda>cmd. (ce_status cmd AND 1 = 1) = qp_phase self)) (\<lambda>_.
      io_bind (io_step (nv_load nv (qp_completion self) (qp_completion_index self))) (\<lambda>cmd.
      let status = drop_bit 1 (ce_status cmd) in
      if status \<noteq> 0 then io_return (Inl (unat status), self)
      else
        io_bind (io_checked (usize_rem (qp_completion_index self + 1) (dm_len (qp_completion self)))) (\<lambda>ci.
        let self = self\<lparr>qp_completion_index := ci, qp_phase := (if ci = 0 then \<not> qp_phase self else qp_phase self)\<rparr> in
        io_bind (set_doorbell nv nb self 1 ci) (\<lambda>_.
        io_return (Inr cmd, self))))))))))))"

text \<open>\<open>submit(...)?\<close>: the error ends the caller.\<close>

definition submit_or_fail ::
    "'h nvme_hw \<Rightarrow> nvme_bits \<Rightarrow> NvmeCommand \<Rightarrow> QueuePair \<Rightarrow> ('h, nvme_error, CompletionQueueEntry \<times> QueuePair) io" where
  "submit_or_fail nv nb command self =
     io_bind (QueuePair_submit nv nb command self) (\<lambda>(r, self).
       case r of Inl s \<Rightarrow> io_fail (CommandError s) | Inr e \<Rightarrow> io_return (e, self))"

section \<open>The controller\<close>

definition config_set :: "'h nvme_hw \<Rightarrow> nvme_bits \<Rightarrow> (nat \<times> u32) list \<Rightarrow> ('h, nvme_error, unit) io" where
  "config_set nv nb fs =
     io_bind (io_step (nv_read32 nv REG_CC)) (\<lambda>c.
     io_modify (nv_write32 nv REG_CC (fold (\<lambda>(i, v). bf_set (nb_32 nb) ControllerConfiguration_layout i v) fs c)))"

definition set_enable :: "'h nvme_hw \<Rightarrow> nvme_bits \<Rightarrow> bool \<Rightarrow> ('h, nvme_error, unit) io" where
  "set_enable nv nb enabled =
     io_bind (config_set nv nb [(CC_EN, of_bool enabled)]) (\<lambda>_.
     io_bind (io_spin (nv_read32 nv REG_CSTS) (\<lambda>s.
        (bf_get (nb_32 nb) ControllerStatus_layout CSTS_RDY s \<noteq> 0) = enabled
        \<or> bf_get (nb_32 nb) ControllerStatus_layout CSTS_CFS s \<noteq> 0)) (\<lambda>_.
     io_return ()))"

definition set_css :: "'h nvme_hw \<Rightarrow> nvme_bits \<Rightarrow> ControllerCommandSet \<Rightarrow> ('h, nvme_error, unit) io" where
  "set_css nv nb css = config_set nv nb [(CC_CSS, css_bits css)]"

definition set_ams :: "'h nvme_hw \<Rightarrow> nvme_bits \<Rightarrow> ArbitrationMechanism \<Rightarrow> ('h, nvme_error, unit) io" where
  "set_ams nv nb ams = config_set nv nb [(CC_AMS, ams_bits ams)]"

definition set_queue_entry_sizes :: "'h nvme_hw \<Rightarrow> nvme_bits \<Rightarrow> u8 \<Rightarrow> u8 \<Rightarrow> ('h, nvme_error, unit) io" where
  "set_queue_entry_sizes nv nb iosqes iocqes = config_set nv nb [(CC_IOSQES, ucast iosqes), (CC_IOCQES, ucast iocqes)]"

definition set_admin_queue_attributes :: "'h nvme_hw \<Rightarrow> nvme_bits \<Rightarrow> u16 \<Rightarrow> u16 \<Rightarrow> ('h, nvme_error, unit) io" where
  "set_admin_queue_attributes nv nb asqs acqs =
     io_modify (nv_write32 nv REG_AQA
       (bf_set (nb_32 nb) AdminQueueAttributes_layout ACQS (ucast acqs)
         (bf_set (nb_32 nb) AdminQueueAttributes_layout ASQS (ucast asqs) 0)))"

definition identify :: "IdentifyCns \<Rightarrow> nat \<Rightarrow> nat \<Rightarrow> usize \<Rightarrow> NvmeCommand" where
  "identify cns command_id nsid prp1 =
     CIdentify \<lparr>ic_opcode = opcode_byte Identify, ic_command_id = command_id, ic_nsid = nsid, ic_prp1 = prp1, ic_cns = cns_byte cns\<rparr>"

definition usize_shl_1 :: "usize \<Rightarrow> usize res" where
  "usize_shl_1 n = (if n < 64 then Inr (2 ^ n) else Inl ArithOverflow)"

text \<open>
  What the driver computes from the identification of a namespace: its blocks and their size. The
  transfer limits have no other use, so their type is the default one of 32 bits with a sign.
\<close>

definition i32_shl_1 :: "nat \<Rightarrow> int res" where
  "i32_shl_1 n = (if n < 31 then Inr (2 ^ n) else if n = 31 then Inr (- (2 ^ 31)) else Inl ArithOverflow)"

definition i32_mul :: "int \<Rightarrow> int \<Rightarrow> int res" where
  "i32_mul a b = (if - (2 ^ 31) \<le> a * b \<and> a * b < 2 ^ 31 then Inr (a * b) else Inl ArithOverflow)"

definition namespace_info :: "nat \<Rightarrow> IdentifyNamespace \<Rightarrow> (usize \<times> usize) res" where
  "namespace_info max_transfer_shift ns =
     res_bind (index_at (ins_lbaf ns) (unat (ins_flbas ns AND 31))) (\<lambda>f.
     res_bind (usize_shl_1 (lf_ds f)) (\<lambda>block_size.
     res_bind (index_at (ins_lbaf ns) (unat (ins_flbas ns AND 15))) (\<lambda>g.
     res_bind (usize_sub max_transfer_shift (lf_ds g)) (\<lambda>n.
     res_bind (i32_shl_1 n) (\<lambda>max_lbas.
     res_bind (i32_shl_1 (lf_ds g)) (\<lambda>lba.
     res_bind (i32_mul max_lbas lba) (\<lambda>_.
     res_bind (usize_mul (ins_nsze ns) block_size) (\<lambda>_.
     Inr (ins_nsze ns, block_size)))))))))"

text \<open>One round of the loop over namespaces: the queue pair and what was found so far.\<close>

definition identify_namespace ::
    "'h nvme_hw \<Rightarrow> nvme_bits \<Rightarrow> 'h dma_env \<Rightarrow> nat \<Rightarrow> nat \<Rightarrow> QueuePair \<times> (usize \<times> usize) list
     \<Rightarrow> ('h, nvme_error, QueuePair \<times> (usize \<times> usize) list) io" where
  "identify_namespace nv nb da max_transfer_shift nsid s =
     (case s of (admin_queue, found) \<Rightarrow>
      if nsid = 0 then io_return (admin_queue, found)
      else
        io_bind (io_dma (Dma_new_zeroed da (4096, 8) 4096)) (\<lambda>d.
        io_bind (io_gets (Dma_phys_addr da d)) (\<lambda>r.
        io_bind (io_checked r) (\<lambda>prp1.
        io_bind (submit_or_fail nv nb (identify CnsNamespace 5 nsid prp1) admin_queue) (\<lambda>(_, admin_queue).
        io_bind (io_gets (nv_namespace nv d)) (\<lambda>ns.
        io_bind (io_checked (namespace_info max_transfer_shift ns)) (\<lambda>info.
        io_return (admin_queue, found @ [info]))))))))"

fun io_fold :: "('x \<Rightarrow> 'a \<Rightarrow> ('h, 'e, 'a) io) \<Rightarrow> 'x list \<Rightarrow> 'a \<Rightarrow> ('h, 'e, 'a) io" where
  "io_fold f [] a = io_return a"
| "io_fold f (x # xs) a = io_bind (f x a) (io_fold f xs)"

definition create_queue :: "AdminOpcode \<Rightarrow> nat \<Rightarrow> Dma \<Rightarrow> usize \<Rightarrow> usize \<Rightarrow> nat \<Rightarrow> CreateQueueCommand" where
  "create_queue op command_id ring prp1 queue_id cqid =
     \<lparr>cr_opcode = opcode_byte op, cr_command_id = command_id, cr_prp1 = prp1, cr_id = queue_id mod 2 ^ 16,
      cr_q_size = (dm_len ring - 1) mod 2 ^ 16, cr_flags = 1, cr_cqid = cqid\<rparr>"

definition phys_of :: "'h dma_env \<Rightarrow> Dma \<Rightarrow> ('h, nvme_error, usize) io" where
  "phys_of da d = io_bind (io_gets (Dma_phys_addr da d)) io_checked"

text \<open>The admin queue is set up and the controller enabled.\<close>

definition admin_setup ::
    "'h nvme_hw \<Rightarrow> nvme_bits \<Rightarrow> 'h dma_env \<Rightarrow> usize \<Rightarrow> u64 \<Rightarrow> ('h, nvme_error, QueuePair) io" where
  "admin_setup nv nb da queue_id cap =
     io_bind (set_enable nv nb False) (\<lambda>_.
     let queue_size = ucast (bf_get (nb_64 nb) Capabilities_layout MQES cap) :: u16 in
     io_bind (QueuePair_new da queue_id (unat queue_size)) (\<lambda>admin_queue.
     io_bind (set_admin_queue_attributes nv nb queue_size queue_size) (\<lambda>_.
     io_bind (phys_of da (qp_submission admin_queue)) (\<lambda>asq.
     io_bind (io_modify (nv_write64 nv REG_ASQ (of_nat asq))) (\<lambda>_.
     io_bind (phys_of da (qp_completion admin_queue)) (\<lambda>acq.
     io_bind (io_modify (nv_write64 nv REG_ACQ (of_nat acq))) (\<lambda>_.
     io_bind (set_css nv nb CssNvm) (\<lambda>_.
     io_bind (set_ams nv nb RoundRobin) (\<lambda>_.
     io_bind (set_queue_entry_sizes nv nb 6 4) (\<lambda>_.
     io_bind (set_enable nv nb True) (\<lambda>_.
     io_bind (io_step (nv_read32 nv REG_CSTS)) (\<lambda>s.
     if bf_get (nb_32 nb) ControllerStatus_layout CSTS_CFS s \<noteq> 0 then io_fail Fatal
     else io_return admin_queue))))))))))))"

definition Controller_new ::
    "'h nvme_hw \<Rightarrow> nvme_bits \<Rightarrow> 'h dma_env \<Rightarrow> usize \<Rightarrow> Bar option \<Rightarrow> ('h, nvme_error, (usize \<times> usize) list) io" where
  "Controller_new nv nb da queue_id bar0 =
     io_bind (io_modify (nv_set_command nv)) (\<lambda>_.
     io_bind (case bar0 of
                Some (BarMemory64 address n) \<Rightarrow> io_checked (res_bind (phys_new address) (\<lambda>a. Inr (a, n)))
              | Some (BarMemory32 address n) \<Rightarrow> io_checked (res_bind (phys_new address) (\<lambda>a. Inr (a, n)))
              | _ \<Rightarrow> io_fail UnknownBar) (\<lambda>(address, n).
     io_bind (io_step (nv_map_address nv address n)) (\<lambda>r.
     io_bind (io_checked r) (\<lambda>_.
     io_bind (io_step (nv_read64 nv REG_CAP)) (\<lambda>cap.
     if bf_get (nb_64 nb) Capabilities_layout CSS_NVM cap = 0 then io_fail NotSupported
     else
       io_bind (admin_setup nv nb da queue_id cap) (\<lambda>admin_queue.
       io_bind (io_dma (Dma_new_zeroed da (4096, 4) 4096)) (\<lambda>identity.
       io_bind (phys_of da identity) (\<lambda>prp1.
       io_bind (submit_or_fail nv nb (identify CnsController 0 0 prp1) admin_queue) (\<lambda>(_, admin_queue).
       io_bind (QueuePair_new da (queue_id + 1) (unat (ucast (bf_get (nb_64 nb) Capabilities_layout MQES cap) :: u16))) (\<lambda>io_queue.
       io_bind (phys_of da (qp_completion io_queue)) (\<lambda>prp1.
       io_bind (submit_or_fail nv nb (CCreateCq (create_queue CreateCq 1 (qp_completion io_queue) prp1 (qp_queue_id io_queue) 0)) admin_queue) (\<lambda>(_, admin_queue).
       io_bind (phys_of da (qp_submission io_queue)) (\<lambda>prp1.
       io_bind (submit_or_fail nv nb (CCreateSq (create_queue CreateSq 3 (qp_submission io_queue) prp1 (qp_queue_id io_queue) (qp_queue_id io_queue mod 2 ^ 16))) admin_queue) (\<lambda>(_, admin_queue).
       io_bind (io_step (nv_read64 nv REG_CAP)) (\<lambda>cap.
       io_bind (io_gets (nv_identity nv identity)) (\<lambda>ident.
       let shift = 12 + unat (bf_get (nb_64 nb) Capabilities_layout MPSMIN cap);
           max_transfer_shift = (if ico_mdts ident \<noteq> 0 then shift + ico_mdts ident else 20)
       in
       io_bind (io_dma (Dma_new_zeroed_slice da (4, 4) (ico_nn ident) 4096)) (\<lambda>nsids.
       io_bind (phys_of da nsids) (\<lambda>prp1.
       io_bind (submit_or_fail nv nb (identify CnsActivateList 4 0 prp1) admin_queue) (\<lambda>(_, admin_queue).
       io_bind (io_gets (nv_nsids nv nsids)) (\<lambda>ids.
       io_bind (io_fold (identify_namespace nv nb da max_transfer_shift) ids (admin_queue, [])) (\<lambda>(_, found).
       io_return found)))))))))))))))))))))"

definition nvme_init ::
    "'h nvme_hw \<Rightarrow> nvme_bits \<Rightarrow> 'h dma_env \<Rightarrow> usize \<Rightarrow> nat \<Rightarrow> nat \<Rightarrow> Bar option \<Rightarrow> ('h, nvme_error, bool) io" where
  "nvme_init nv nb da queue_id class_code sub_class bar0 =
     (if class_code \<noteq> 1 \<or> sub_class \<noteq> 8 then io_return False
      else io_bind (Controller_new nv nb da queue_id bar0) (\<lambda>_. io_return True))"

section \<open>A controller\<close>

text \<open>
  The side of the controller for one queue pair, as the NVMe specification describes it: a write to the
  submission doorbell makes the entries up to the new tail due; after some time, counted in reads of the
  completion ring, the controller executes them in order and posts a completion for each, with its phase
  bit, which flips at every turn of the ring.
\<close>

record nvme_dev =
  nd_sq :: "nat \<Rightarrow> NvmeCommand"
  nd_cq :: "nat \<Rightarrow> CompletionQueueEntry"
  nd_size :: nat
  nd_head :: nat
  nd_tail :: nat
  nd_cq_tail :: nat
  nd_phase :: bool
  nd_wait :: nat
  nd_log :: "NvmeCommand list"

type_synonym exec = "NvmeCommand \<Rightarrow> nat \<times> nat"

definition completion_of :: "exec \<Rightarrow> nat \<Rightarrow> bool \<Rightarrow> nat \<Rightarrow> NvmeCommand \<Rightarrow> CompletionQueueEntry" where
  "completion_of ex q phase sq_head c =
     \<lparr>ce_result = snd (ex c), ce_sq_head = sq_head, ce_sq_id = q, ce_command_id = cmd_id c,
      ce_status = of_nat (2 * fst (ex c) + of_bool phase)\<rparr>"

definition dev_one :: "exec \<Rightarrow> nat \<Rightarrow> nvme_dev \<Rightarrow> nvme_dev" where
  "dev_one ex q h =
     (let c = nd_sq h (nd_head h);
          head = (nd_head h + 1) mod nd_size h
      in h\<lparr>nd_cq := (nd_cq h)(nd_cq_tail h := completion_of ex q (nd_phase h) head c), nd_head := head,
           nd_cq_tail := (nd_cq_tail h + 1) mod nd_size h,
           nd_phase := (if nd_cq_tail h + 1 = nd_size h then \<not> nd_phase h else nd_phase h),
           nd_log := nd_log h @ [c]\<rparr>)"

definition dev_run :: "exec \<Rightarrow> nat \<Rightarrow> nvme_dev \<Rightarrow> nvme_dev" where
  "dev_run ex q h = (dev_one ex q ^^ ((nd_tail h + nd_size h - nd_head h) mod nd_size h)) h"

definition dev_load :: "exec \<Rightarrow> nat \<Rightarrow> nat \<Rightarrow> nvme_dev \<Rightarrow> CompletionQueueEntry \<times> nvme_dev" where
  "dev_load ex q i h =
     (if nd_wait h = 0 then (nd_cq (dev_run ex q h) i, dev_run ex q h)
      else (nd_cq h i, h\<lparr>nd_wait := nd_wait h - 1\<rparr>))"

text \<open>\<open>latency k\<close> is the time the controller takes when it has executed \<open>k\<close> commands; the doorbell stride is 0.\<close>

definition dev_hw :: "exec \<Rightarrow> (nat \<Rightarrow> nat) \<Rightarrow> nat \<Rightarrow> nvme_dev nvme_hw" where
  "dev_hw ex latency q =
     \<lparr>nv_read32 = (\<lambda>r h. (0, h)),
      nv_write32 = (\<lambda>r v h. if r = 0x1000 + 8 * q then h\<lparr>nd_tail := unat v, nd_wait := latency (length (nd_log h))\<rparr> else h),
      nv_read64 = (\<lambda>r h. (0, h)), nv_write64 = (\<lambda>r v h. h),
      nv_store = (\<lambda>d i c h. h\<lparr>nd_sq := (nd_sq h)(i := c)\<rparr>), nv_load = (\<lambda>d. dev_load ex q),
      nv_identity = (\<lambda>d h. \<lparr>ico_mdts = 0, ico_nn = 0\<rparr>), nv_nsids = (\<lambda>d h. []),
      nv_namespace = (\<lambda>d h. \<lparr>ins_nsze = 0, ins_flbas = 0, ins_lbaf = []\<rparr>),
      nv_set_command = (\<lambda>h. h), nv_map_address = (\<lambda>a n h. (Inr a, h))\<rparr>"

text \<open>
  Driver and controller agree: on the size of the rings, on the next slot of each, on the phase, and the
  slots of the completion ring that the driver has not seen in this turn still have the old phase bit.
\<close>

definition linked :: "nat \<Rightarrow> nat \<Rightarrow> QueuePair \<Rightarrow> nvme_dev \<Rightarrow> bool" where
  "linked q n qp h \<longleftrightarrow> 2 \<le> n \<and> n < 2 ^ 16 \<and> qp_queue_id qp = q
     \<and> dm_len (qp_submission qp) = n \<and> dm_len (qp_completion qp) = n \<and> nd_size h = n
     \<and> nd_head h = qp_submission_index qp \<and> nd_tail h = qp_submission_index qp \<and> qp_submission_index qp < n
     \<and> nd_cq_tail h = qp_completion_index qp \<and> qp_completion_index qp < n \<and> nd_phase h = qp_phase qp
     \<and> qp_command_id qp = length (nd_log h)
     \<and> (\<forall>i<n. (ce_status (nd_cq h i) AND 1 = 1) = (if i < qp_completion_index qp then qp_phase qp else \<not> qp_phase qp))"

lemma succ_mod: "i < n \<Longrightarrow> (i + 1) mod n = (if i + 1 = n then 0 else i + 1)" for n :: nat
  by auto

lemma one_pending: "i < n \<Longrightarrow> 2 \<le> n \<Longrightarrow> ((i + 1) mod n + n - i) mod n = 1" for n :: nat
proof (cases "i + 1 = n")
  case False
  assume "i < n" "2 \<le> n"
  then have "(i + 1) mod n + n - i = n + 1" using False succ_mod[of i n] by auto
  then have "((i + 1) mod n + n - i) mod n = 1 mod n" by (simp only: mod_add_self1)
  then show ?thesis using \<open>2 \<le> n\<close> by (simp only: mod_less)
qed auto

lemma status_bits:
  assumes "s < 2 ^ 15"
  shows "(of_nat (2 * s + of_bool b) :: u16) AND 1 = of_bool b" and "drop_bit 1 (of_nat (2 * s + of_bool b) :: u16) = of_nat s"
proof -
  have lt: "2 * s + of_bool b < 2 ^ 16" using assms by (cases b) auto
  have u: "unat (of_nat (2 * s + of_bool b) :: u16) = 2 * s + of_bool b"
    using lt by (simp add: unat_of_nat del: of_nat_add of_nat_mult)
  have "unat ((of_nat (2 * s + of_bool b) :: u16) AND 1) = unat (of_bool b :: u16)"
    unfolding unsigned_and_eq u by (cases b) (simp_all add: and_one_eq)
  then show "(of_nat (2 * s + of_bool b) :: u16) AND 1 = of_bool b" by (simp only: unsigned_word_eqI)
  have "unat (drop_bit 1 (of_nat (2 * s + of_bool b) :: u16)) = unat (of_nat s :: u16)"
    using assms lt unfolding unsigned_drop_bit_eq u by (cases b) (simp_all add: drop_bit_eq_div unat_of_nat take_bit_nat_eq_self)
  then show "drop_bit 1 (of_nat (2 * s + of_bool b) :: u16) = of_nat s" by (simp only: unsigned_word_eqI)
qed

lemma dev_run_idle: "nd_tail h = nd_head h \<Longrightarrow> nd_head h < nd_size h \<Longrightarrow> dev_run ex q h = h"
  by (simp add: dev_run_def)

lemma dev_run_one:
  "nd_head h < nd_size h \<Longrightarrow> 2 \<le> nd_size h \<Longrightarrow> nd_tail h = (nd_head h + 1) mod nd_size h \<Longrightarrow> dev_run ex q h = dev_one ex q h"
  using one_pending[of "nd_head h" "nd_size h"] by (simp add: dev_run_def)

text \<open>Waiting for a completion that is not there yet: the controller gets to run, and then the slot is new.\<close>

lemma spin_completion:
  assumes "\<not> p (nd_cq h i)" "p (nd_cq (dev_run ex q (h\<lparr>nd_wait := 0\<rparr>)) i)"
  shows "spin_until (dev_load ex q i) p h = Some (nd_cq (dev_run ex q (h\<lparr>nd_wait := 0\<rparr>)) i, dev_run ex q (h\<lparr>nd_wait := 0\<rparr>))"
  using assms
proof (induction "nd_wait h" arbitrary: h)
  case 0
  have h: "h\<lparr>nd_wait := 0\<rparr> = h" using 0(1) by simp
  show ?case using 0 unfolding h by (subst spin_until.simps) (simp add: dev_load_def)
next
  case (Suc k)
  let ?h = "h\<lparr>nd_wait := nd_wait h - 1\<rparr>"
  have "spin_until (dev_load ex q i) p h = spin_until (dev_load ex q i) p ?h"
    using Suc.hyps(2) Suc.prems(1) by (subst spin_until.simps) (simp add: dev_load_def)
  moreover have "?h\<lparr>nd_wait := 0\<rparr> = h\<lparr>nd_wait := 0\<rparr>" by simp
  ultimately show ?case using Suc.hyps(1)[of ?h] Suc.hyps(2) Suc.prems by simp
qed

text \<open>The two doorbells.\<close>

lemma doorbell_offset_packed:
  "bitfield_packed (nb_64 nb) \<Longrightarrow> doorbell_offset nb q d 0 = 0x1000 + 8 * q + 4 * d"
  by (simp add: doorbell_offset_def bitfield_packed_def field_get_def)

lemma set_doorbell_dev:
  assumes "bitfield_packed (nb_64 nb)" "qp_queue_id qp = q" "i < 2 ^ 32"
  shows "set_doorbell (dev_hw ex latency q) nb qp 0 i h = Some (Inr (), h\<lparr>nd_tail := i, nd_wait := latency (length (nd_log h))\<rparr>)"
    and "set_doorbell (dev_hw ex latency q) nb qp 1 i h = Some (Inr (), h)"
  using assms by (simp_all add: set_doorbell_def dev_hw_def io_bind_def doorbell_offset_packed unat_of_nat take_bit_nat_eq_self)

text \<open>
  What one call of \<open>submit\<close> does when driver and controller agree: the state at the wait, the completion
  posted, and how the call ends.
\<close>

definition after_submit :: "exec \<Rightarrow> nat \<Rightarrow> NvmeCommand \<Rightarrow> QueuePair \<Rightarrow> nvme_dev \<Rightarrow> nvme_dev" where
  "after_submit ex q c qp h =
     dev_one ex q (h\<lparr>nd_sq := (nd_sq h)(qp_submission_index qp := set_command_id (qp_command_id qp) c),
       nd_tail := (qp_submission_index qp + 1) mod nd_size h, nd_wait := 0\<rparr>)"

lemma cmd_id_set [simp]: "cmd_id (set_command_id i c) = i"
  by (cases c) simp_all

lemma submit_linked:
  assumes nb: "bitfield_packed (nb_64 nb)" and link: "linked q n qp h" and id: "Suc (qp_command_id qp) < 2 ^ 16"
    and st: "fst (ex (set_command_id (qp_command_id qp) c)) < 2 ^ 15"
  defines "c' \<equiv> set_command_id (qp_command_id qp) c"
  defines "h' \<equiv> after_submit ex q c qp h"
  defines "qp' \<equiv> qp\<lparr>qp_command_id := Suc (qp_command_id qp), qp_submission_index := (Suc (qp_submission_index qp)) mod n\<rparr>"
  defines "e \<equiv> completion_of ex q (qp_phase qp) ((Suc (qp_submission_index qp)) mod n) c'"
  shows "QueuePair_submit (dev_hw ex latency q) nb c qp h =
      (if fst (ex c') = 0
       then Some (Inr (Inr e, qp'\<lparr>qp_completion_index := (Suc (qp_completion_index qp)) mod n,
              qp_phase := (if (Suc (qp_completion_index qp)) mod n = 0 then \<not> qp_phase qp else qp_phase qp)\<rparr>), h')
       else Some (Inr (Inl (fst (ex c')), qp'), h'))"
proof -
  let ?si = "(Suc (qp_submission_index qp)) mod n"
  have n: "2 \<le> n" "n < 2 ^ 16" "dm_len (qp_submission qp) = n" "dm_len (qp_completion qp) = n" "nd_size h = n"
    "nd_head h = qp_submission_index qp" "qp_submission_index qp < n" "nd_cq_tail h = qp_completion_index qp"
    "qp_completion_index qp < n" "nd_phase h = qp_phase qp" "qp_queue_id qp = q"
    and stale: "(ce_status (nd_cq h (qp_completion_index qp)) AND 1 = 1) \<noteq> qp_phase qp"
    using link by (auto simp: linked_def)
  have small: "x mod n < n" for x using n(1) by simp
  have small32: "x mod n < 2 ^ 32" for x by (rule less_trans[OF small]) (use n(2) in simp)
  note si = small[of "Suc (qp_submission_index qp)"] small32[of "Suc (qp_submission_index qp)"]
    and ci = small32[of "Suc (qp_completion_index qp)"]
  let ?h1 = "h\<lparr>nd_sq := (nd_sq h)(qp_submission_index qp := c'), nd_tail := ?si, nd_wait := latency (length (nd_log h))\<rparr>"
  have h': "h' = dev_one ex q (?h1\<lparr>nd_wait := 0\<rparr>)" by (simp add: h'_def after_submit_def c'_def n(5))
  have run: "dev_run ex q (?h1\<lparr>nd_wait := 0\<rparr>) = h'" unfolding h' using n si by (intro dev_run_one) simp_all
  have slot: "nd_cq h' (qp_completion_index qp) = e" using n by (simp add: h' dev_one_def Let_def e_def)
  have hh: "nd_wait h' = 0" "nd_head h' = ?si" "nd_tail h' = ?si" "nd_size h' = n"
    using n by (simp_all add: h' dev_one_def Let_def)
  have idle: "dev_run ex q h' = h'" using hh si by (intro dev_run_idle) simp_all
  have bits: "(ce_status e AND 1 = 1) = qp_phase qp" "drop_bit (Suc 0) (ce_status e) = of_nat (fst (ex c'))"
    using status_bits[OF st] by (simp_all add: e_def completion_of_def c'_def of_bool_def)
  let ?p = "\<lambda>cmd. (ce_status cmd AND 1 = 1) = qp_phase qp"
  have spin: "spin_until (dev_load ex q (qp_completion_index qp)) ?p ?h1 = Some (e, h')"
    using spin_completion[of ?p ?h1 "qp_completion_index qp" ex q] stale bits(1) unfolding run slot by simp
  have load: "dev_load ex q (qp_completion_index qp) h' = (e, h')" using hh(1) idle slot by (simp add: dev_load_def)
  have zero: "(of_nat (fst (ex c')) :: u16) = 0 \<longleftrightarrow> fst (ex c') = 0" "unat (of_nat (fst (ex c')) :: u16) = fst (ex c')"
    using st by (simp_all add: c'_def unat_of_nat take_bit_nat_eq_self of_nat_eq_0_iff unat_eq_0[symmetric] del: unat_eq_0)
  have store: "nv_store (dev_hw ex latency q) d i x = (\<lambda>h. h\<lparr>nd_sq := (nd_sq h)(i := x)\<rparr>)" for d i x by (simp add: dev_hw_def)
  have ld: "nv_load (dev_hw ex latency q) d = dev_load ex q" for d by (simp add: dev_hw_def)
  have ok: "io_checked (Inr x) = io_return x" for x :: 'b by (rule ext) (simp add: io_checked_def)
  let ?q1 = "qp\<lparr>qp_command_id := Suc (qp_command_id qp)\<rparr>"
  have door: "set_doorbell (dev_hw ex latency q) nb qp' 0 ?si (h\<lparr>nd_sq := (nd_sq h)(qp_submission_index qp := c')\<rparr>) = Some (Inr (), ?h1)"
    using set_doorbell_dev(1)[OF nb, of qp' q ?si] n(11) si(2) by (simp add: qp'_def)
  have door1: "set_doorbell (dev_hw ex latency q) nb r (Suc 0) ((Suc (qp_completion_index qp)) mod n) h' = Some (Inr (), h')"
    if "qp_queue_id r = q" for r using set_doorbell_dev(2)[OF nb that ci] by simp
  have rem: "usize_rem x n = Inr (x mod n)" for x using n(1) by simp
  have idx: "qp_submission_index qp' = ?si" "qp_completion qp' = qp_completion qp" "qp_completion_index qp' = qp_completion_index qp"
    "qp_phase qp' = qp_phase qp" "qp_queue_id qp' = q" using n(11) by (simp_all add: qp'_def)
  have q1: "?q1\<lparr>qp_submission_index := ?si\<rparr> = qp'" by (simp add: qp'_def)
  have "QueuePair_submit (dev_hw ex latency q) nb c qp h =
      io_bind (io_spin (dev_load ex q (qp_completion_index qp)) ?p) (\<lambda>_.
      io_bind (io_step (dev_load ex q (qp_completion_index qp))) (\<lambda>cmd.
      let status = drop_bit (Suc 0) (ce_status cmd) in
      if status \<noteq> 0 then io_return (Inl (unat status), qp')
      else
        io_bind (io_checked (usize_rem (Suc (qp_completion_index qp)) n)) (\<lambda>ci.
        let self = qp'\<lparr>qp_completion_index := ci, qp_phase := (if ci = 0 then \<not> qp_phase qp else qp_phase qp)\<rparr> in
        io_bind (set_doorbell (dev_hw ex latency q) nb self (Suc 0) ci) (\<lambda>_.
        io_return (Inr cmd, self))))) ?h1"
    unfolding QueuePair_submit_def Let_def c'_def[symmetric]
    using id by (simp add: n(3,4,7,9) ok store ld rem q1 door idx cong: if_cong)
  also have "\<dots> = (if fst (ex c') = 0
       then Some (Inr (Inr e, qp'\<lparr>qp_completion_index := (Suc (qp_completion_index qp)) mod n,
              qp_phase := (if (Suc (qp_completion_index qp)) mod n = 0 then \<not> qp_phase qp else qp_phase qp)\<rparr>), h')
       else Some (Inr (Inl (fst (ex c')), qp'), h'))"
    by (simp add: io_spin_def spin load bits(2) zero Let_def ok rem door1 idx)
  finally show ?thesis .
qed

lemma linked_preserved:
  assumes link: "linked q n qp h" and st: "fst (ex (set_command_id (qp_command_id qp) c)) < 2 ^ 15"
  shows "linked q n (qp\<lparr>qp_command_id := Suc (qp_command_id qp), qp_submission_index := Suc (qp_submission_index qp) mod n,
      qp_completion_index := Suc (qp_completion_index qp) mod n,
      qp_phase := (if Suc (qp_completion_index qp) mod n = 0 then \<not> qp_phase qp else qp_phase qp)\<rparr>)
    (after_submit ex q c qp h)"
proof -
  let ?c' = "set_command_id (qp_command_id qp) c"
  let ?ci = "qp_completion_index qp"
  let ?e = "completion_of ex q (qp_phase qp) (Suc (qp_submission_index qp) mod n) ?c'"
  let ?h' = "after_submit ex q c qp h"
  have n: "2 \<le> n" "nd_size h = n" "nd_head h = qp_submission_index qp" "nd_cq_tail h = ?ci" "?ci < n"
    "nd_phase h = qp_phase qp" "qp_submission_index qp < n"
    and old: "\<forall>i<n. (ce_status (nd_cq h i) AND 1 = 1) = (if i < ?ci then qp_phase qp else \<not> qp_phase qp)"
    using link by (auto simp: linked_def)
  have h': "nd_cq ?h' = (nd_cq h)(?ci := ?e)" "nd_head ?h' = Suc (qp_submission_index qp) mod n" "nd_tail ?h' = Suc (qp_submission_index qp) mod n"
    "nd_size ?h' = n" "nd_cq_tail ?h' = Suc ?ci mod n" "nd_log ?h' = nd_log h @ [?c']"
    "nd_phase ?h' = (if Suc ?ci = n then \<not> qp_phase qp else qp_phase qp)"
    using n by (simp_all add: after_submit_def dev_one_def Let_def)
  have bit: "(ce_status ?e AND 1 = 1) = qp_phase qp"
    using status_bits(1)[OF st, of "qp_phase qp"] by (simp add: completion_of_def of_bool_def)
  have wrap: "Suc ?ci mod n = 0 \<longleftrightarrow> Suc ?ci = n" using succ_mod[OF n(5)] by auto
  have ci: "Suc ?ci mod n = (if Suc ?ci = n then 0 else Suc ?ci)" using succ_mod[OF n(5)] by simp
  show ?thesis unfolding linked_def using link old bit n
    by (auto simp: linked_def h' wrap ci less_Suc_eq)
qed

fun submit_all ::
    "'h nvme_hw \<Rightarrow> nvme_bits \<Rightarrow> NvmeCommand list \<Rightarrow> QueuePair \<Rightarrow> ('h, nvme_error, (nat + CompletionQueueEntry) list \<times> QueuePair) io" where
  "submit_all nv nb [] qp = io_return ([], qp)"
| "submit_all nv nb (c # cs) qp =
     io_bind (QueuePair_submit nv nb c qp) (\<lambda>(r, qp). io_bind (submit_all nv nb cs qp) (\<lambda>(rs, qp). io_return (r # rs, qp)))"

text \<open>The commands as the controller sees them, numbered from \<open>k\<close>, and the answers the caller should get.\<close>

definition numbered :: "nat \<Rightarrow> NvmeCommand list \<Rightarrow> NvmeCommand list" where
  "numbered k cs = map2 set_command_id [k..<k + length cs] cs"

lemma numbered_simps [simp]: "numbered k [] = []" "numbered k (c # cs) = set_command_id k c # numbered (Suc k) cs"
  by (simp_all add: numbered_def upt_conv_Cons del: upt_Suc)

definition answered :: "exec \<Rightarrow> NvmeCommand \<Rightarrow> nat + CompletionQueueEntry \<Rightarrow> bool" where
  "answered ex c r \<longleftrightarrow> (\<exists>e. r = Inr e \<and> ce_command_id e = cmd_id c \<and> ce_result e = snd (ex c))"

lemma submit_all_linked:
  assumes "bitfield_packed (nb_64 nb)" "linked q n qp h" "qp_command_id qp + length cs < 2 ^ 16"
    "\<forall>c\<in>set (numbered (qp_command_id qp) cs). fst (ex c) = 0"
  shows "\<exists>rs qp' h'. submit_all (dev_hw ex latency q) nb cs qp h = Some (Inr (rs, qp'), h') \<and> linked q n qp' h'
    \<and> list_all2 (answered ex) (numbered (qp_command_id qp) cs) rs \<and> nd_log h' = nd_log h @ numbered (qp_command_id qp) cs"
  using assms
proof (induction cs arbitrary: qp h)
  case (Cons c cs)
  let ?c' = "set_command_id (qp_command_id qp) c"
  let ?qp = "qp\<lparr>qp_command_id := Suc (qp_command_id qp), qp_submission_index := Suc (qp_submission_index qp) mod n,
      qp_completion_index := Suc (qp_completion_index qp) mod n,
      qp_phase := (if Suc (qp_completion_index qp) mod n = 0 then \<not> qp_phase qp else qp_phase qp)\<rparr>"
  let ?e = "completion_of ex q (qp_phase qp) (Suc (qp_submission_index qp) mod n) ?c'"
  have id: "Suc (qp_command_id qp) < 2 ^ 16" and z: "fst (ex ?c') = 0" using Cons.prems(3,4) by auto
  then have st: "fst (ex ?c') < 2 ^ 15" by simp
  have sub: "QueuePair_submit (dev_hw ex latency q) nb c qp h = Some (Inr (Inr ?e, ?qp), after_submit ex q c qp h)"
    using submit_linked[where ex = ex and c = c, OF Cons.prems(1,2) id st] z by simp
  have ln: "linked q n ?qp (after_submit ex q c qp h)" by (rule linked_preserved[where ex = ex and c = c, OF Cons.prems(2) st])
  have lg: "nd_log (after_submit ex q c qp h) = nd_log h @ [?c']"
    using Cons.prems(2) by (simp add: after_submit_def dev_one_def Let_def linked_def)
  obtain rs qp' h' where r: "submit_all (dev_hw ex latency q) nb cs ?qp (after_submit ex q c qp h) = Some (Inr (rs, qp'), h')"
    "linked q n qp' h'" "list_all2 (answered ex) (numbered (Suc (qp_command_id qp)) cs) rs"
    "nd_log h' = nd_log (after_submit ex q c qp h) @ numbered (Suc (qp_command_id qp)) cs"
    using Cons.IH[OF Cons.prems(1) ln] Cons.prems(3,4) by auto
  have "answered ex ?c' (Inr ?e)" by (simp add: answered_def completion_of_def)
  then show ?case using sub r lg by simp
qed auto


section \<open>Errors are not consumed\<close>

text \<open>A slot the controller will not write next: reading it gives the same entry, whatever it executes.\<close>

definition settled :: "nat \<Rightarrow> CompletionQueueEntry \<Rightarrow> nvme_dev \<Rightarrow> bool" where
  "settled i v h \<longleftrightarrow> nd_cq h i = v \<and> 2 \<le> nd_size h \<and> nd_head h < nd_size h
     \<and> (nd_tail h = nd_head h \<or> nd_tail h = (nd_head h + 1) mod nd_size h \<and> nd_cq_tail h \<noteq> i)"

lemma settled_load:
  assumes "settled i v h"
  shows "\<exists>h'. dev_load ex q i h = (v, h') \<and> settled i v h' \<and> (0 < nd_wait h \<longrightarrow> nd_log h' = nd_log h \<and> nd_wait h' = nd_wait h - 1)"
proof (cases "nd_wait h = 0")
  case True
  have "nd_cq (dev_run ex q h) i = v \<and> settled i v (dev_run ex q h)"
  proof (cases "nd_tail h = nd_head h")
    case idle: True
    then show ?thesis using assms dev_run_idle[OF idle, of ex q] by (simp add: settled_def)
  next
    case False
    then have run: "dev_run ex q h = dev_one ex q h" using assms by (intro dev_run_one) (auto simp: settled_def)
    show ?thesis unfolding run using assms False by (auto simp: settled_def dev_one_def Let_def)
  qed
  then show ?thesis using True by (simp add: dev_load_def)
next
  case False
  then show ?thesis using assms by (simp add: dev_load_def settled_def)
qed

lemma spin_at_once: "p (fst (rd h)) \<Longrightarrow> io_spin rd p h = Some (Inr (fst (rd h)), snd (rd h))"
  by (simp add: io_spin_def spin_until_now case_prod_beta)

lemma submit_settled:
  assumes nb: "bitfield_packed (nb_64 nb)" and q: "qp_queue_id qp = q" and id: "Suc (qp_command_id qp) < 2 ^ 16"
    and n: "dm_len (qp_submission qp) = n" "dm_len (qp_completion qp) = n" "nd_size h = n" "n < 2 ^ 16" "qp_completion_index qp < n"
    and idle: "nd_head h = qp_submission_index qp" "nd_tail h = qp_submission_index qp" "nd_cq_tail h \<noteq> qp_completion_index qp"
    and v: "settled (qp_completion_index qp) v h" "(ce_status v AND 1 = 1) = qp_phase qp" "drop_bit 1 (ce_status v) \<noteq> 0"
  shows "\<exists>qp' h'. QueuePair_submit (dev_hw ex latency q) nb c qp h = Some (Inr (Inl (unat (drop_bit 1 (ce_status v))), qp'), h')
    \<and> (1 < latency (length (nd_log h)) \<longrightarrow> nd_log h' = nd_log h)"
proof -
  let ?ci = "qp_completion_index qp" and ?si = "Suc (qp_submission_index qp) mod n"
  let ?c' = "set_command_id (qp_command_id qp) c"
  let ?qp = "qp\<lparr>qp_command_id := Suc (qp_command_id qp), qp_submission_index := ?si\<rparr>"
  let ?h0 = "h\<lparr>nd_sq := (nd_sq h)(qp_submission_index qp := ?c')\<rparr>"
  let ?h1 = "?h0\<lparr>nd_tail := ?si, nd_wait := latency (length (nd_log h))\<rparr>"
  have si: "qp_submission_index qp < n" "2 \<le> n" using v(1) idle n(3) by (auto simp: settled_def)
  have "?si < n" using si by simp
  then have si32: "?si < 2 ^ 32" using n(4) by simp
  have "settled ?ci v ?h1" using v(1) idle n(3) si by (simp add: settled_def)
  then obtain h2 where h2: "dev_load ex q ?ci ?h1 = (v, h2)" "settled ?ci v h2"
    "0 < latency (length (nd_log h)) \<longrightarrow> nd_log h2 = nd_log h \<and> nd_wait h2 = latency (length (nd_log h)) - 1"
    using settled_load[of ?ci v ?h1 ex q] by auto
  obtain h3 where h3: "dev_load ex q ?ci h2 = (v, h3)" "0 < nd_wait h2 \<longrightarrow> nd_log h3 = nd_log h2"
    using settled_load[OF h2(2), of ex q] by auto
  have door: "set_doorbell (dev_hw ex latency q) nb ?qp 0 ?si ?h0 = Some (Inr (), ?h1)"
    using set_doorbell_dev(1)[OF nb, of ?qp q ?si] q si32 by simp
  have store: "nv_store (dev_hw ex latency q) d i x = (\<lambda>h. h\<lparr>nd_sq := (nd_sq h)(i := x)\<rparr>)" for d i x by (simp add: dev_hw_def)
  have ld: "nv_load (dev_hw ex latency q) d = dev_load ex q" for d by (simp add: dev_hw_def)
  have ok: "io_checked (Inr x) = io_return x" for x :: 'b by (rule ext) (simp add: io_checked_def)
  have rem: "usize_rem x n = Inr (x mod n)" for x using si(2) by simp
  have st: "drop_bit (Suc 0) (ce_status v) \<noteq> 0" using v(3) by simp
  have "QueuePair_submit (dev_hw ex latency q) nb c qp h = Some (Inr (Inl (unat (drop_bit (Suc 0) (ce_status v))), ?qp), h3)"
    unfolding QueuePair_submit_def Let_def
    using id si n h2(1) h3(1) v(2) st
    by (simp add: ok store ld rem door spin_at_once)
  moreover have "nd_log h3 = nd_log h" if "1 < latency (length (nd_log h))" using that h2(3) h3(2) by simp
  ultimately show ?thesis by auto
qed

text \<open>
  A failed command is reported twice. After a completion with an error status \<open>submit\<close> returns without
  moving on in the completion ring, so the next call, whatever its command, finds the same entry with the
  right phase bit, does not wait, and returns the same error, possibly before the controller has executed
  the command at all.
\<close>

theorem nvme_error_repeats:
  assumes "bitfield_packed (nb_64 nb)" "linked q n qp h" "qp_command_id qp + 2 < 2 ^ 16"
    and s: "fst (ex (set_command_id (qp_command_id qp) c)) = s" "0 < s" "s < 2 ^ 15"
  shows "\<exists>qp1 h1. QueuePair_submit (dev_hw ex latency q) nb c qp h = Some (Inr (Inl s, qp1), h1)
    \<and> (\<exists>qp2 h2. QueuePair_submit (dev_hw ex latency q) nb c2 qp1 h1 = Some (Inr (Inl s, qp2), h2)
        \<and> (1 < latency (length (nd_log h1)) \<longrightarrow> nd_log h2 = nd_log h1))"
proof -
  let ?c' = "set_command_id (qp_command_id qp) c"
  let ?qp = "qp\<lparr>qp_command_id := Suc (qp_command_id qp), qp_submission_index := Suc (qp_submission_index qp) mod n\<rparr>"
  let ?h = "after_submit ex q c qp h"
  let ?e = "completion_of ex q (qp_phase qp) (Suc (qp_submission_index qp) mod n) ?c'"
  have id: "Suc (qp_command_id qp) < 2 ^ 16" "Suc (qp_command_id ?qp) < 2 ^ 16" using assms(3) by simp_all
  have st: "fst (ex ?c') < 2 ^ 15" using s by simp
  have sub: "QueuePair_submit (dev_hw ex latency q) nb c qp h = Some (Inr (Inl s, ?qp), ?h)"
    using submit_linked[where ex = ex and c = c, OF assms(1,2) id(1) st] s by simp
  have n: "2 \<le> n" "n < 2 ^ 16" "dm_len (qp_submission qp) = n" "dm_len (qp_completion qp) = n" "nd_size h = n" "qp_queue_id qp = q"
    "nd_head h = qp_submission_index qp" "nd_cq_tail h = qp_completion_index qp" "qp_completion_index qp < n" "nd_phase h = qp_phase qp"
    using assms(2) by (auto simp: linked_def)
  have h: "nd_cq ?h (qp_completion_index qp) = ?e" "nd_size ?h = n" "nd_head ?h = Suc (qp_submission_index qp) mod n"
    "nd_tail ?h = Suc (qp_submission_index qp) mod n" "nd_cq_tail ?h = Suc (qp_completion_index qp) mod n"
    using n by (simp_all add: after_submit_def dev_one_def Let_def)
  have ne: "nd_cq_tail ?h \<noteq> qp_completion_index qp" using succ_mod[OF n(9)] n(1) by (auto simp: h(5))
  have sett: "settled (qp_completion_index qp) ?e ?h" using h n(1) by (simp add: settled_def)
  have bits: "(ce_status ?e AND 1 = 1) = qp_phase qp" "drop_bit 1 (ce_status ?e) = of_nat s"
    using status_bits[OF st, of "qp_phase qp"] s(1) by (simp_all add: completion_of_def of_bool_def)
  have us: "unat (of_nat s :: u16) = s" using s(3) by (simp add: unat_of_nat take_bit_nat_eq_self)
  then have nz: "drop_bit 1 (ce_status ?e) \<noteq> 0" using s(2) bits(2) by auto
  have "\<exists>qp2 h2. QueuePair_submit (dev_hw ex latency q) nb c2 ?qp ?h = Some (Inr (Inl (unat (drop_bit 1 (ce_status ?e))), qp2), h2)
      \<and> (1 < latency (length (nd_log ?h)) \<longrightarrow> nd_log h2 = nd_log ?h)"
    using n h ne bits(1) nz sett id(2) by (intro submit_settled[OF assms(1)]) simp_all
  then show ?thesis unfolding bits(2) us using sub by blast
qed

section \<open>The layout of the shared structures\<close>

text \<open>
  Structures are laid out by the rules of C (\<open>repr(C)\<close>): a type is its size and alignment, a field stands at
  the next multiple of its alignment, and the size is rounded up to the largest alignment.
\<close>

definition ty_u8 :: "usize \<times> usize" where "ty_u8 = (1, 1)"
definition ty_u16 :: "usize \<times> usize" where "ty_u16 = (2, 2)"
definition ty_u32 :: "usize \<times> usize" where "ty_u32 = (4, 4)"
definition ty_u64 :: "usize \<times> usize" where "ty_u64 = (8, 8)"

definition array_of :: "nat \<Rightarrow> usize \<times> usize \<Rightarrow> usize \<times> usize" where
  "array_of n t = (n * fst t, snd t)"

definition round_up :: "usize \<Rightarrow> usize \<Rightarrow> usize" where
  "round_up x a = (x + a - 1) div a * a"

fun struct_end :: "(string \<times> usize \<times> usize) list \<Rightarrow> usize \<Rightarrow> usize" where
  "struct_end [] pos = pos"
| "struct_end ((name, n, a) # fs) pos = struct_end fs (round_up pos a + n)"

fun struct_align :: "(string \<times> usize \<times> usize) list \<Rightarrow> usize \<Rightarrow> usize" where
  "struct_align [] m = m"
| "struct_align ((name, n, a) # fs) m = struct_align fs (max a m)"

definition struct_of :: "(string \<times> usize \<times> usize) list \<Rightarrow> usize \<times> usize" where
  "struct_of fs = (round_up (struct_end fs 0) (struct_align fs 1), struct_align fs 1)"

fun offset_from :: "(string \<times> usize \<times> usize) list \<Rightarrow> string \<Rightarrow> usize \<Rightarrow> usize option" where
  "offset_from [] name pos = None"
| "offset_from ((f, n, a) # fs) name pos =
     (if f = name then Some (round_up pos a) else offset_from fs name (round_up pos a + n))"

definition offset_of :: "(string \<times> usize \<times> usize) list \<Rightarrow> string \<Rightarrow> usize option" where
  "offset_of fs name = offset_from fs name 0"

definition DataPointer_fields :: "(string \<times> usize \<times> usize) list" where
  "DataPointer_fields =
    [(''prp1'', ty_u64), (''prp2'', ty_u64)]"

definition CompletionQueueEntry_fields :: "(string \<times> usize \<times> usize) list" where
  "CompletionQueueEntry_fields =
    [(''result'', ty_u32), (''reserved'', ty_u32), (''sq_head'', ty_u16), (''sq_id'', ty_u16),
     (''command_id'', ty_u16), (''status'', ty_u16)]"

definition CommonCommand_fields :: "(string \<times> usize \<times> usize) list" where
  "CommonCommand_fields =
    [(''opcode'', ty_u8), (''flags'', ty_u8), (''command_id'', ty_u16), (''namespace_id'', ty_u32),
     (''cdw2'', array_of 2 ty_u32), (''metadata'', ty_u64), (''data_ptr'', (struct_of DataPointer_fields)), (''cdw10'', ty_u32),
     (''cdw11'', ty_u32), (''cdw12'', ty_u32), (''cdw13'', ty_u32), (''cdw14'', ty_u32),
     (''cdw15'', ty_u32)]"

definition IdentifyCommand_fields :: "(string \<times> usize \<times> usize) list" where
  "IdentifyCommand_fields =
    [(''opcode'', ty_u8), (''flags'', ty_u8), (''command_id'', ty_u16), (''nsid'', ty_u32),
     (''reserved2'', array_of 2 ty_u64), (''data_ptr'', (struct_of DataPointer_fields)), (''cns'', ty_u8), (''reserved3'', ty_u8),
     (''controller_id'', ty_u16), (''reserved11'', array_of 5 ty_u32)]"

definition ReadWriteCommand_fields :: "(string \<times> usize \<times> usize) list" where
  "ReadWriteCommand_fields =
    [(''opcode'', ty_u8), (''flags'', ty_u8), (''command_id'', ty_u16), (''nsid'', ty_u32),
     (''reserved2'', ty_u64), (''metadata'', ty_u64), (''data_ptr'', (struct_of DataPointer_fields)), (''start_lba'', ty_u64),
     (''length'', ty_u16), (''control'', ty_u16), (''ds_mgmt'', ty_u32), (''ref_tag'', ty_u32),
     (''app_tag'', ty_u16), (''app_mask'', ty_u16)]"

definition CreateSQCommand_fields :: "(string \<times> usize \<times> usize) list" where
  "CreateSQCommand_fields =
    [(''opcode'', ty_u8), (''flags'', ty_u8), (''command_id'', ty_u16), (''reserved1'', array_of 5 ty_u32),
     (''prp1'', ty_u64), (''prp2'', ty_u64), (''sqid'', ty_u16), (''q_size'', ty_u16),
     (''sq_flags'', ty_u16), (''cqid'', ty_u16), (''reserved2'', array_of 4 ty_u32)]"

definition CreateCQCommand_fields :: "(string \<times> usize \<times> usize) list" where
  "CreateCQCommand_fields =
    [(''opcode'', ty_u8), (''flags'', ty_u8), (''command_id'', ty_u16), (''reserved1'', array_of 5 ty_u32),
     (''prp1'', ty_u64), (''prp2'', ty_u64), (''cqid'', ty_u16), (''q_size'', ty_u16),
     (''cq_flags'', ty_u16), (''irq_vector'', ty_u16), (''reserved2'', array_of 4 ty_u32)]"

definition PowerState_fields :: "(string \<times> usize \<times> usize) list" where
  "PowerState_fields =
    [(''max_power'', ty_u16), (''rsvd1'', ty_u8), (''flags'', ty_u8), (''entry_lat'', ty_u32),
     (''exit_lat'', ty_u32), (''read_tput'', ty_u8), (''read_lat'', ty_u8), (''write_tput'', ty_u8),
     (''write_lat'', ty_u8), (''idle_power'', ty_u16), (''idle_scale'', ty_u8), (''rsvd2'', ty_u8),
     (''active_power'', ty_u16), (''active_work_scale'', ty_u8), (''rsvd3'', array_of 9 ty_u8)]"

definition IdentifyController_fields :: "(string \<times> usize \<times> usize) list" where
  "IdentifyController_fields =
    [(''vid'', ty_u16), (''ssvid'', ty_u16), (''sn'', array_of 20 ty_u8), (''mn'', array_of 40 ty_u8),
     (''fr'', array_of 8 ty_u8), (''rab'', ty_u8), (''ieee'', array_of 3 ty_u8), (''cmic'', ty_u8),
     (''mdts'', ty_u8), (''cntlid'', ty_u16), (''ver'', ty_u32), (''rtd3r'', ty_u32),
     (''rtd3e'', ty_u32), (''oaes'', ty_u32), (''ctratt'', ty_u32), (''reserved100'', array_of 28 ty_u8),
     (''crdt1'', ty_u16), (''crdt2'', ty_u16), (''crdt3'', ty_u16), (''reserved134'', array_of 122 ty_u8),
     (''oacs'', ty_u16), (''acl'', ty_u8), (''aerl'', ty_u8), (''frmw'', ty_u8),
     (''lpa'', ty_u8), (''elpe'', ty_u8), (''npss'', ty_u8), (''avscc'', ty_u8),
     (''apsta'', ty_u8), (''wctemp'', ty_u16), (''cctemp'', ty_u16), (''mtfa'', ty_u16),
     (''hmpre'', ty_u32), (''hmmin'', ty_u32), (''tnvmcap'', array_of 16 ty_u8), (''unvmcap'', array_of 16 ty_u8),
     (''rpmbs'', ty_u32), (''edstt'', ty_u16), (''dsto'', ty_u8), (''fwug'', ty_u8),
     (''kas'', ty_u16), (''hctma'', ty_u16), (''mntmt'', ty_u16), (''mxtmt'', ty_u16),
     (''sanicap'', ty_u32), (''hmminds'', ty_u32), (''hmmaxd'', ty_u16), (''reserved338'', array_of 4 ty_u8),
     (''anatt'', ty_u8), (''anacap'', ty_u8), (''anagrpmax'', ty_u32), (''nanagrpid'', ty_u32),
     (''reserved352'', array_of 160 ty_u8), (''sqes'', ty_u8), (''cqes'', ty_u8), (''maxcmd'', ty_u16),
     (''nn'', ty_u32), (''oncs'', ty_u16), (''fuses'', ty_u16), (''fna'', ty_u8),
     (''vwc'', ty_u8), (''awun'', ty_u16), (''awupf'', ty_u16), (''nvscc'', ty_u8),
     (''nwpc'', ty_u8), (''acwu'', ty_u16), (''reserved534'', array_of 2 ty_u8), (''sgls'', ty_u32),
     (''mnan'', ty_u32), (''reserved544'', array_of 224 ty_u8), (''subnqn'', array_of 256 ty_u8), (''reserved1024'', array_of 768 ty_u8),
     (''ioccsz'', ty_u32), (''iorcsz'', ty_u32), (''icdoff'', ty_u16), (''ctrattr'', ty_u8),
     (''msdbd'', ty_u8), (''reserved1804'', array_of 244 ty_u8), (''psd'', array_of 32 (struct_of PowerState_fields)), (''vs'', array_of 1024 ty_u8)]"

definition LbaFormat_fields :: "(string \<times> usize \<times> usize) list" where
  "LbaFormat_fields =
    [(''ms'', ty_u16), (''ds'', ty_u8), (''rp'', ty_u8)]"

definition IdentifyNamespace_fields :: "(string \<times> usize \<times> usize) list" where
  "IdentifyNamespace_fields =
    [(''nsze'', ty_u64), (''ncap'', ty_u64), (''nuse'', ty_u64), (''nsfeat'', ty_u8),
     (''nlbaf'', ty_u8), (''flbas'', ty_u8), (''mc'', ty_u8), (''dpc'', ty_u8),
     (''dps'', ty_u8), (''nmic'', ty_u8), (''rescap'', ty_u8), (''fpi'', ty_u8),
     (''dlfeat'', ty_u8), (''nawun'', ty_u16), (''nawupf'', ty_u16), (''nacwu'', ty_u16),
     (''nabsn'', ty_u16), (''nabo'', ty_u16), (''nabspf'', ty_u16), (''noiob'', ty_u16),
     (''nvmcap'', array_of 16 ty_u8), (''npwg'', ty_u16), (''npwa'', ty_u16), (''npdg'', ty_u16),
     (''npda'', ty_u16), (''nows'', ty_u16), (''reserved74'', array_of 18 ty_u8), (''anagrpid'', ty_u32),
     (''reserved96'', array_of 3 ty_u8), (''nsattr'', ty_u8), (''nvmsetid'', ty_u16), (''endgid'', ty_u16),
     (''nguid'', array_of 16 ty_u8), (''eui64'', array_of 8 ty_u8), (''lbaf'', array_of 16 (struct_of LbaFormat_fields)), (''reserved192'', array_of 192 ty_u8),
     (''vs'', array_of 3712 ty_u8)]"

lemmas layout_defs = ty_u8_def ty_u16_def ty_u32_def ty_u64_def array_of_def round_up_def struct_of_def offset_of_def

lemma command_layouts:
  "struct_of CommonCommand_fields = (64, 8)" "offset_of CommonCommand_fields ''command_id'' = Some 2"
  "struct_of IdentifyCommand_fields = (64, 8)" "offset_of IdentifyCommand_fields ''command_id'' = Some 2"
  "offset_of IdentifyCommand_fields ''data_ptr'' = Some 24" "offset_of IdentifyCommand_fields ''cns'' = Some 40"
  "struct_of ReadWriteCommand_fields = (64, 8)" "offset_of ReadWriteCommand_fields ''command_id'' = Some 2"
  "struct_of CreateSQCommand_fields = (64, 8)" "offset_of CreateSQCommand_fields ''command_id'' = Some 2"
  "offset_of CreateSQCommand_fields ''prp1'' = Some 24"
  "struct_of CreateCQCommand_fields = (64, 8)" "offset_of CreateCQCommand_fields ''command_id'' = Some 2"
  "offset_of CreateCQCommand_fields ''prp1'' = Some 24"
  by (simp_all add: layout_defs CommonCommand_fields_def IdentifyCommand_fields_def ReadWriteCommand_fields_def
      CreateSQCommand_fields_def CreateCQCommand_fields_def DataPointer_fields_def)

lemma completion_layout:
  "struct_of CompletionQueueEntry_fields = (16, 4)" "offset_of CompletionQueueEntry_fields ''status'' = Some 14"
  "offset_of CompletionQueueEntry_fields ''command_id'' = Some 12"
  by (simp_all add: layout_defs CompletionQueueEntry_fields_def)

lemma controller_layout:
  "struct_of IdentifyController_fields = (4096, 4)" "offset_of IdentifyController_fields ''mdts'' = Some 77"
  "offset_of IdentifyController_fields ''nn'' = Some 516"
  by (simp_all add: layout_defs IdentifyController_fields_def PowerState_fields_def)

lemma namespace_layout:
  "struct_of LbaFormat_fields = (4, 2)" "struct_of IdentifyNamespace_fields = (4096, 8)"
  "offset_of IdentifyNamespace_fields ''flbas'' = Some 26" "offset_of IdentifyNamespace_fields ''lbaf'' = Some 128"
  by (simp_all add: layout_defs IdentifyNamespace_fields_def LbaFormat_fields_def del: One_nat_def)


section \<open>The size of the admin queue\<close>

lemma admin_attributes_fields:
  assumes "bitfield_packed (nb_32 nb)" "unat n < 4096"
  shows "unat (field_get AdminQueueAttributes_layout ASQS
      (bf_set (nb_32 nb) AdminQueueAttributes_layout ACQS (ucast n)
        (bf_set (nb_32 nb) AdminQueueAttributes_layout ASQS (ucast n) 0))) = unat (n :: u16)"
proof -
  have "unat (take_bit 12 (ucast n :: u32)) = unat n"
    using assms(2) by (simp add: unsigned_take_bit_eq unsigned_ucast_eq take_bit_nat_eq_self)
  then show ?thesis using assms(1)
    by (simp add: bitfield_packed_def field_get_set_other field_get_set_same AdminQueueAttributes_layout_def ASQS_def ACQS_def field_offset_def)
qed

text \<open>
  The driver and the controller disagree on the size of the admin queue. The attribute register takes
  the number of entries less one (as the fields \<open>q_size\<close> of the queues created later do), but gets the
  number itself: for a ring of \<open>n\<close> entries the controller is told of \<open>n + 1\<close>. When the driver wraps after
  its last slot, the controller executes the entry of that slot and then whatever is in memory behind
  the ring, which the driver has never written.
\<close>

theorem nvme_admin_queue_size:
  assumes "bitfield_packed (nb_32 nb)" "unat n < 4096" "2 \<le> unat n"
    and v: "v = bf_set (nb_32 nb) AdminQueueAttributes_layout ACQS (ucast n)
        (bf_set (nb_32 nb) AdminQueueAttributes_layout ASQS (ucast n) 0)"
    and dev: "nd_size h = unat (field_get AdminQueueAttributes_layout ASQS v) + 1"
    and last_slot: "nd_head h = unat n - 1" "nd_sq h (unat n - 1) = c" "nd_tail h = (unat n - 1 + 1) mod unat n"
  shows "set_admin_queue_attributes nv nb n n g = Some (Inr (), nv_write32 nv REG_AQA v g)
    \<and> nd_size h = unat n + 1 \<and> nd_log (dev_run ex q h) = nd_log h @ [c, nd_sq h (unat n)]"
proof -
  have sz: "nd_size h = Suc (unat n)" using dev admin_attributes_fields[OF assms(1,2)] by (simp add: v)
  have tail: "nd_tail h = 0" using last_slot(3) assms(3) by simp
  have "(nd_tail h + nd_size h - nd_head h) mod nd_size h = 2" using sz tail last_slot(1) assms(3) by simp
  then have "dev_run ex q h = dev_one ex q (dev_one ex q h)" by (simp add: dev_run_def numeral_2_eq_2)
  moreover have "nd_log (dev_one ex q (dev_one ex q h)) = nd_log h @ [c, nd_sq h (unat n)]"
    using sz last_slot(1,2) assms(3) by (simp add: dev_one_def Let_def)
  ultimately show ?thesis using sz by (simp add: set_admin_queue_attributes_def v)
qed

section \<open>A small controller\<close>

definition small_dma :: Dma where
  "small_dma = \<lparr>dm_layout = \<lparr>lsize = 128, lalign = 4096\<rparr>, dm_ptr = 4096, dm_len = 2\<rparr>"

definition small_pair :: QueuePair where
  "small_pair = \<lparr>qp_queue_id = 0, qp_command_id = 0, qp_submission = small_dma, qp_submission_index = 0,
     qp_completion = small_dma, qp_completion_index = 0, qp_phase = True\<rparr>"

definition small_dev :: nvme_dev where
  "small_dev = \<lparr>nd_sq = (\<lambda>_. identify CnsUnknown 0 0 0),
     nd_cq = (\<lambda>_. \<lparr>ce_result = 0, ce_sq_head = 0, ce_sq_id = 0, ce_command_id = 0, ce_status = 0\<rparr>),
     nd_size = 2, nd_head = 0, nd_tail = 0, nd_cq_tail = 0, nd_phase = True, nd_wait = 0, nd_log = []\<rparr>"

definition packed_bits :: nvme_bits where
  "packed_bits = \<lparr>nb_64 = packed, nb_32 = packed\<rparr>"

lemma small_linked: "linked 0 2 small_pair small_dev"
  by (simp add: linked_def small_pair_def small_dma_def small_dev_def)

lemma packed_bits_packed: "bitfield_packed (nb_64 packed_bits)" "bitfield_packed (nb_32 packed_bits)"
  by (simp_all add: packed_bits_def packed_packed)


theorem nvme_error_repeats_witness:
  "\<exists>qp1 h1. QueuePair_submit (dev_hw (\<lambda>c. (if cmd_id c = 0 then 2 else 0, 0)) (\<lambda>_. 9) 0) packed_bits (identify CnsController 0 0 4096) small_pair small_dev
      = Some (Inr (Inl 2, qp1), h1)
    \<and> (\<exists>qp2 h2. QueuePair_submit (dev_hw (\<lambda>c. (if cmd_id c = 0 then 2 else 0, 0)) (\<lambda>_. 9) 0) packed_bits (identify CnsController 0 0 4096) qp1 h1
        = Some (Inr (Inl 2, qp2), h2) \<and> nd_log h2 = nd_log h1)"
  using nvme_error_repeats[OF packed_bits_packed(1) small_linked, of "\<lambda>c. (if cmd_id c = 0 then 2 else 0, 0)" "identify CnsController 0 0 4096" 2 "\<lambda>_. 9" "identify CnsController 0 0 4096"]
  by (simp add: small_pair_def)

theorem nvme_admin_queue_size_witness:
  "\<exists>h :: nvme_dev. nd_head h = 1 \<and> nd_tail h = 0 \<and> nd_log (dev_run (\<lambda>c. (0, 0)) 0 h) = nd_log h @ [nd_sq h 1, nd_sq h 2]"
proof -
  let ?h = "small_dev\<lparr>nd_size := 3, nd_head := 1\<rparr>"
  have two: "unat (2 :: u16) = 2" by simp
  have "nd_size ?h = unat (field_get AdminQueueAttributes_layout ASQS
      (bf_set (nb_32 packed_bits) AdminQueueAttributes_layout ACQS (ucast (2 :: u16))
        (bf_set (nb_32 packed_bits) AdminQueueAttributes_layout ASQS (ucast (2 :: u16)) 0))) + 1"
    using admin_attributes_fields[OF packed_bits_packed(2), of 2] by simp
  from nvme_admin_queue_size[OF packed_bits_packed(2) _ _ refl this, of "nd_sq ?h 1" "dev_hw (\<lambda>c. (0, 0)) (\<lambda>_. 0) 0" small_dev "\<lambda>c. (0, 0)" 0]
  have "nd_log (dev_run (\<lambda>c. (0, 0)) 0 ?h) = nd_log ?h @ [nd_sq ?h 1, nd_sq ?h 2]" by (simp add: small_dev_def)
  then show ?thesis by (intro exI[of _ ?h]) (simp add: small_dev_def)
qed

end
