(* ===== verification/Panic.thy ===== *)
theory Panic
  imports Debug_Log
begin

text \<open>
  Panics: the handler and its backtrace (\<open>kernel/src/panic.rs\<close>), and the per-core storage its counter
  lives in (\<open>kernel/src/local.rs\<close>, \<open>kernel/src/arch/x86_64/local.rs\<close>).

  The unwinder, the reader of debug information and the demangler are parameters: what they answer is an
  argument. Messages are the texts given to \<open>error!\<close>.
\<close>

section \<open>Per-core storage\<close>

text \<open>
  The memory of each core behind its GS register, \<open>None\<close> before \<open>local::init\<close> has run there; it maps the
  number of a \<open>Local\<close> to the value of that core. The values are counters.
\<close>

type_synonym gs_data = "nat \<rightharpoonup> usize"
type_synonym cores = "nat \<Rightarrow> gs_data option"

record Local =
  lo_id :: nat
  lo_initializer :: usize

definition local_init :: "nat \<Rightarrow> cores \<Rightarrow> cores" where
  "local_init core cs = cs(core := Some Map.empty)"

definition Local_with :: "Local \<Rightarrow> nat \<Rightarrow> (usize \<Rightarrow> 'r \<times> usize) \<Rightarrow> cores \<Rightarrow> ('r \<times> cores) res" where
  "Local_with self core f cs =
     res_bind (unwrap (cs core)) (\<lambda>data.
     let v = (case data (lo_id self) of Some v \<Rightarrow> v | None \<Rightarrow> lo_initializer self);
         (r, v') = f v
     in Inr (r, cs(core := Some (data(lo_id self \<mapsto> v')))))"

definition fetch_add_1 :: "usize \<Rightarrow> usize \<times> usize" where
  "fetch_add_1 v = (v, (v + 1) mod 2 ^ 64)"

definition fetch_sub_1 :: "usize \<Rightarrow> usize \<times> usize" where
  "fetch_sub_1 v = (v, (v + (2 ^ 64 - 1)) mod 2 ^ 64)"

section \<open>The backtrace\<close>

record StackFrame =
  fr_address :: usize
  fr_symbol :: "(usize \<times> nat list) option"
  fr_file :: "nat list option"
  fr_line :: "nat option"
  fr_column :: "nat option"

text \<open>
  The kernel file as the libraries read it: the symbol table, if there is one, as values, sizes and names
  (which may be unreadable), the address of the first executable segment, and the debug information.
\<close>

record kernel_file =
  kf_symbols :: "(usize \<times> usize \<times> nat list option) list option"
  kf_link_base :: "usize option"
  kf_location :: "usize \<Rightarrow> (nat list option \<times> nat option \<times> nat option) option"

fun find_symbol :: "usize \<Rightarrow> usize \<Rightarrow> (usize \<times> usize \<times> nat list option) list \<Rightarrow> (usize \<times> nat list) option res" where
  "find_symbol addr off [] = Inr None"
| "find_symbol addr off ((value, sz, name) # table) =
     res_bind (usize_add value off) (\<lambda>start.
     res_bind (usize_add start sz) (\<lambda>stop.
     if start \<le> addr \<and> addr < stop then Inr (map_option (\<lambda>r. (start, r)) name)
     else find_symbol addr off table))"

definition get_symbol :: "kernel_file \<Rightarrow> usize \<Rightarrow> usize \<Rightarrow> StackFrame res" where
  "get_symbol kf off addr =
     (let info = \<lparr>fr_address = addr, fr_symbol = None, fr_file = None, fr_line = None, fr_column = None\<rparr>;
          mapped = addr - off
      in if mapped = 0 then Inr info
         else
           let info = (case kf_location kf mapped of
                         None \<Rightarrow> info
                       | Some (f, l, c) \<Rightarrow> info\<lparr>fr_file := f, fr_line := l, fr_column := c\<rparr>)
           in case kf_symbols kf of
                None \<Rightarrow> Inr info
              | Some table \<Rightarrow> res_bind (find_symbol addr off table) (\<lambda>s. Inr (info\<lparr>fr_symbol := s\<rparr>)))"

text \<open>
  \<open>stack_trace\<close>: the callback is called for every frame of the stack and keeps the first \<open>limit\<close> of them.
  \<open>None\<close> when the kernel file cannot be read.
\<close>

fun trace_frames :: "kernel_file \<Rightarrow> usize \<Rightarrow> nat \<Rightarrow> usize list \<Rightarrow> StackFrame list res" where
  "trace_frames kf off limit [] = Inr []"
| "trace_frames kf off limit (addr # addrs) =
     res_bind (get_symbol kf off addr) (\<lambda>frame.
     if limit > 0 then res_bind (trace_frames kf off (limit - 1) addrs) (\<lambda>fs. Inr (frame # fs))
     else trace_frames kf off limit addrs)"

definition stack_trace :: "kernel_file option \<Rightarrow> usize \<Rightarrow> nat \<Rightarrow> usize list \<Rightarrow> StackFrame list res" where
  "stack_trace kfile load_base limit addrs =
     (case kfile of
        None \<Rightarrow> Inr []
      | Some kf \<Rightarrow>
          let link_base = (case kf_link_base kf of Some b \<Rightarrow> b | None \<Rightarrow> 0xffffffff80000000)
          in res_bind (usize_sub load_base link_base) (\<lambda>off. trace_frames kf off limit addrs))"

text \<open>
  The lines printed for a frame; \<open>hex\<close> and \<open>dec\<close> format numbers. The subtraction of the symbol's start can
  overflow, in principle.
\<close>

record panic_fmt =
  pf_hex16 :: "usize \<Rightarrow> nat list"
  pf_hex :: "usize \<Rightarrow> nat list"
  pf_dec :: "nat \<Rightarrow> nat list"
  pf_demangle :: "nat list \<Rightarrow> nat list"

definition print_stack_frame :: "panic_fmt \<Rightarrow> StackFrame \<Rightarrow> nat list list \<Rightarrow> nat list list res" where
  "print_stack_frame pf frame log =
     res_bind (case fr_symbol frame of
        Some (f_addr, f_name) \<Rightarrow>
          res_bind (usize_sub (fr_address frame) f_addr) (\<lambda>d.
            Inr (lit ''  0x'' @ pf_hex16 pf (fr_address frame) @ lit '' '' @ pf_demangle pf f_name @ lit ''+0x'' @ pf_hex pf d))
      | None \<Rightarrow> Inr (lit ''  0x'' @ pf_hex16 pf (fr_address frame))) (\<lambda>line.
     Inr (log @ [line, lit ''      at '' @ (case fr_file frame of Some f \<Rightarrow> f | None \<Rightarrow> []) @ lit '':''
            @ pf_dec pf (case fr_line frame of Some n \<Rightarrow> n | None \<Rightarrow> 0) @ lit '':''
            @ pf_dec pf (case fr_column frame of Some n \<Rightarrow> n | None \<Rightarrow> 0)]))"

definition print_stack_frames :: "panic_fmt \<Rightarrow> StackFrame list \<Rightarrow> nat list list \<Rightarrow> nat list list res" where
  "print_stack_frames pf frames log = res_fold (print_stack_frame pf) frames log"

section \<open>The panic handler\<close>

record PanicData =
  pd_info :: "nat list"
  pd_stack_frames :: "StackFrame list"

text \<open>What can travel through an unwind.\<close>

datatype payload = PanicPayload PanicData | StrPayload "nat list" | OtherPayload

record panic_state =
  ps_full :: bool
  ps_cores :: cores
  ps_log :: "nat list list"

definition PANIC_COUNT :: "nat \<Rightarrow> Local" where
  "PANIC_COUNT i = \<lparr>lo_id = i, lo_initializer = 0\<rparr>"

datatype handler_end = HaltLoop | Unwinds PanicData

text \<open>
  \<open>begin\<close> is what the unwinder does with the payload: \<open>None\<close> when it finds a handler, which takes over, else
  the name of the code it returns.
\<close>

record panic_call =
  pc_core :: nat
  pc_info :: "nat list"
  pc_stack :: "usize list"
  pc_can_unwind :: bool
  pc_begin :: "nat list option"

definition panic_handler ::
    "panic_fmt \<Rightarrow> kernel_file option \<Rightarrow> usize \<Rightarrow> nat \<Rightarrow> panic_call \<Rightarrow> panic_state \<Rightarrow> (handler_end \<times> panic_state) res" where
  "panic_handler pf kfile load_base count_id pc st =
     (let log = (\<lambda>s st. st\<lparr>ps_log := ps_log st @ [s]\<rparr>);
          frames = (\<lambda>fs st. res_bind (print_stack_frames pf fs (ps_log st)) (\<lambda>l. Inr (st\<lparr>ps_log := l\<rparr>))) in
      if \<not> ps_full st
      then
        res_bind (stack_trace kfile load_base 16 (pc_stack pc)) (\<lambda>fs.
        res_bind (frames fs (log (lit ''PANIC DURING INIT '' @ pc_info pc) st)) (\<lambda>st.
        Inr (HaltLoop, st)))
      else
        res_bind (Local_with (PANIC_COUNT count_id) (pc_core pc) fetch_add_1 (ps_cores st)) (\<lambda>(old, cs).
        let st = st\<lparr>ps_cores := cs\<rparr> in
        if old > 0 then Inr (HaltLoop, log (lit ''PANIC IN PANIC: '' @ pc_info pc) st)
        else
          res_bind (stack_trace kfile load_base 16 (pc_stack pc)) (\<lambda>fs.
          if \<not> pc_can_unwind pc
          then res_bind (frames fs (log (lit ''UNHANDLED (no-unwind) '' @ pc_info pc) st)) (\<lambda>st. Inr (HaltLoop, st))
          else
            case pc_begin pc of
              None \<Rightarrow> Inr (Unwinds \<lparr>pd_info = pc_info pc, pd_stack_frames = fs\<rparr>, st)
            | Some code \<Rightarrow>
                res_bind (frames fs (log (lit ''UNHANDLED ('' @ code @ lit '') '' @ pc_info pc) st)) (\<lambda>st. Inr (HaltLoop, st)))))"

text \<open>The payload is dropped on some core.\<close>

definition PanicData_drop :: "nat \<Rightarrow> nat \<Rightarrow> panic_state \<Rightarrow> panic_state res" where
  "PanicData_drop count_id core st =
     res_bind (Local_with (PANIC_COUNT count_id) core fetch_sub_1 (ps_cores st)) (\<lambda>(_, cs). Inr (st\<lparr>ps_cores := cs\<rparr>))"

definition inspect :: "panic_fmt \<Rightarrow> payload \<Rightarrow> panic_state \<Rightarrow> panic_state res" where
  "inspect pf e st =
     (case e of
        PanicPayload data \<Rightarrow>
          res_bind (print_stack_frames pf (pd_stack_frames data) (ps_log st @ [pd_info data])) (\<lambda>l. Inr (st\<lparr>ps_log := l\<rparr>))
      | StrPayload s \<Rightarrow> Inr (st\<lparr>ps_log := ps_log st @ [s]\<rparr>)
      | OtherPayload \<Rightarrow> Inr (st\<lparr>ps_log := ps_log st @ [lit ''external panic, halting'']\<rparr>))"

text \<open>\<open>catch_unwind\<close> of a function that returns or unwinds: the result, or \<open>None\<close> for the halt loop.\<close>

definition panic_catch_unwind :: "panic_fmt \<Rightarrow> payload + 'a \<Rightarrow> panic_state \<Rightarrow> ('a option \<times> panic_state) res" where
  "panic_catch_unwind pf r st =
     (case r of
        Inr v \<Rightarrow> Inr (Some v, st)
      | Inl e \<Rightarrow> res_bind (inspect pf e st) (\<lambda>st. Inr (None, st)))"

section \<open>Backtraces\<close>

text \<open>No symbol of the table reaches past the end of the address space.\<close>

definition symbols_fit :: "usize \<Rightarrow> kernel_file \<Rightarrow> bool" where
  "symbols_fit off kf \<longleftrightarrow> (\<forall>table. kf_symbols kf = Some table \<longrightarrow> (\<forall>(v, sz, _)\<in>set table. v + off + sz < 2 ^ 64))"

definition covers :: "usize \<Rightarrow> usize \<Rightarrow> usize \<times> usize \<times> nat list option \<Rightarrow> bool" where
  "covers addr off s \<longleftrightarrow> (case s of (v, sz, _) \<Rightarrow> v + off \<le> addr \<and> addr < v + off + sz)"

lemma find_symbol_first:
  assumes "\<forall>(v, sz, _)\<in>set table. v + off + sz < 2 ^ 64"
  shows "find_symbol addr off table =
    Inr (case find (covers addr off) table of None \<Rightarrow> None | Some (v, sz, name) \<Rightarrow> map_option (\<lambda>r. (v + off, r)) name)"
  using assms
proof (induction table)
  case (Cons s table)
  obtain v sz name where s: "s = (v, sz, name)" by (cases s)
  have "v + off + sz < 2 ^ 64" using Cons.prems s by auto
  then have "usize_add v off = Inr (v + off)" "usize_add (v + off) sz = Inr (v + off + sz)" by simp_all
  then show ?case using Cons s by (simp add: covers_def)
qed simp

text \<open>The frame for an address: its symbol is the first that covers it.\<close>

definition frame_of :: "kernel_file \<Rightarrow> usize \<Rightarrow> usize \<Rightarrow> StackFrame \<Rightarrow> bool" where
  "frame_of kf off addr fr \<longleftrightarrow> fr_address fr = addr
     \<and> fr_symbol fr = (if addr \<le> off then None
         else case kf_symbols kf of
                None \<Rightarrow> None
              | Some table \<Rightarrow> (case find (covers addr off) table of None \<Rightarrow> None | Some (v, sz, name) \<Rightarrow> map_option (\<lambda>r. (v + off, r)) name))"

lemma get_symbol_frame:
  assumes "symbols_fit off kf"
  shows "\<exists>fr. get_symbol kf off addr = Inr fr \<and> frame_of kf off addr fr"
  using assms find_symbol_first[of _ off addr]
  by (auto simp: get_symbol_def Let_def frame_of_def symbols_fit_def split: option.splits)

lemma trace_frames_exact:
  assumes "symbols_fit off kf"
  shows "\<exists>fs. trace_frames kf off limit addrs = Inr fs \<and> list_all2 (frame_of kf off) (take limit addrs) fs"
proof (induction addrs arbitrary: limit)
  case (Cons addr addrs)
  obtain fr where fr: "get_symbol kf off addr = Inr fr" "frame_of kf off addr fr" using get_symbol_frame[OF assms] by blast
  obtain fs where fs: "trace_frames kf off (limit - 1) addrs = Inr fs" "list_all2 (frame_of kf off) (take (limit - 1) addrs) fs"
    using Cons.IH by blast
  show ?case
  proof (cases limit)
    case 0
    then show ?thesis using Cons.IH[of 0] fr by auto
  next
    case (Suc k)
    then show ?thesis using fr fs by auto
  qed
qed simp

lemma frame_symbol_below:
  assumes "frame_of kf off addr fr" "fr_symbol fr = Some (start, name)"
  shows "start \<le> fr_address fr"
proof -
  obtain table v sz where t: "kf_symbols kf = Some table" "find (covers addr off) table = Some (v, sz, Some name)" "start = v + off"
    using assms by (auto simp: frame_of_def eq_commute[of "Some (start, name)"] split: if_splits option.splits)
  then have "covers addr off (v, sz, Some name)" by (auto simp: find_Some_iff)
  then show ?thesis using assms(1) t(3) by (simp add: covers_def frame_of_def)
qed

lemma print_frames_total:
  assumes "\<forall>fr\<in>set fs. \<forall>start name. fr_symbol fr = Some (start, name) \<longrightarrow> start \<le> fr_address fr"
  shows "\<exists>l. print_stack_frames pf fs log = Inr l"
  using assms unfolding print_stack_frames_def
proof (induction fs arbitrary: log)
  case (Cons fr fs)
  have "\<exists>l. print_stack_frame pf fr log = Inr l"
    using Cons.prems by (auto simp: print_stack_frame_def split: option.splits)
  then show ?case using Cons by auto
qed simp

text \<open>
  A backtrace of at most \<open>limit\<close> frames, one per address from the innermost out, each with the first
  symbol of the table whose range, moved by the load offset, contains the address. Printing it cannot
  overflow: a symbol never starts after the address it is shown for. If the kernel is loaded below the
  address it is linked at, taking the backtrace itself panics.
\<close>

theorem stack_trace_exact:
  assumes "symbols_fit (load_base - link_base) kf" "kf_link_base kf = Some link_base"
  shows "if load_base < link_base then stack_trace (Some kf) load_base limit addrs = Inl ArithOverflow
    else \<exists>fs. stack_trace (Some kf) load_base limit addrs = Inr fs \<and> length fs = min limit (length addrs)
      \<and> list_all2 (frame_of kf (load_base - link_base)) (take limit addrs) fs
      \<and> (\<forall>pf log. \<exists>l. print_stack_frames pf fs log = Inr l)"
proof (cases "load_base < link_base")
  case True
  then show ?thesis using assms(2) by (simp add: stack_trace_def)
next
  case False
  obtain fs where fs: "trace_frames kf (load_base - link_base) limit addrs = Inr fs"
    "list_all2 (frame_of kf (load_base - link_base)) (take limit addrs) fs" using trace_frames_exact[OF assms(1)] by blast
  have "\<forall>fr\<in>set fs. \<forall>start name. fr_symbol fr = Some (start, name) \<longrightarrow> start \<le> fr_address fr"
    using fs(2) frame_symbol_below by (metis in_set_conv_nth list_all2_conv_all_nth)
  from print_frames_total[OF this] have pr: "\<exists>l. print_stack_frames pf fs log = Inr l" for pf log by blast
  have "stack_trace (Some kf) load_base limit addrs = Inr fs" using fs(1) False assms(2) by (simp add: stack_trace_def)
  moreover have "length fs = min limit (length addrs)" using list_all2_lengthD[OF fs(2)] by simp
  ultimately show ?thesis using False fs(2) pr by auto
qed

section \<open>The panic counter\<close>

definition count_of :: "nat \<Rightarrow> cores \<Rightarrow> nat \<Rightarrow> usize option" where
  "count_of count_id cs core = map_option (\<lambda>data. case data count_id of Some v \<Rightarrow> v | None \<Rightarrow> 0) (cs core)"

lemma Local_with_count:
  assumes "count_of i cs core = Some v"
  shows "\<exists>cs'. Local_with (PANIC_COUNT i) core f cs = Inr (fst (f v), cs') \<and> count_of i cs' = (count_of i cs)(core \<mapsto> snd (f v))"
proof -
  obtain data where d: "cs core = Some data" "(case data i of Some v \<Rightarrow> v | None \<Rightarrow> 0) = v" using assms by (auto simp: count_of_def)
  let ?cs = "cs(core \<mapsto> data(i \<mapsto> snd (f v)))"
  have "Local_with (PANIC_COUNT i) core f cs = Inr (fst (f v), ?cs)"
    using d by (simp add: Local_with_def PANIC_COUNT_def case_prod_beta Let_def cong: option.case_cong)
  moreover have "count_of i ?cs = (count_of i cs)(core \<mapsto> snd (f v))" by (auto simp: count_of_def fun_eq_iff)
  ultimately show ?thesis by blast
qed

lemma second_panic_halts:
  assumes "ps_full st" "count_of i (ps_cores st) (pc_core pc) = Some v" "0 < v"
  shows "\<exists>st'. panic_handler pf kfile load_base i pc st = Inr (HaltLoop, st')
    \<and> ps_log st' = ps_log st @ [lit ''PANIC IN PANIC: '' @ pc_info pc]"
proof -
  obtain cs where "Local_with (PANIC_COUNT i) (pc_core pc) fetch_add_1 (ps_cores st) = Inr (v, cs)"
    using Local_with_count[OF assms(2), of fetch_add_1] by (auto simp: fetch_add_1_def)
  then have "panic_handler pf kfile load_base i pc st =
      Inr (HaltLoop, st\<lparr>ps_cores := cs, ps_log := ps_log st @ [lit ''PANIC IN PANIC: '' @ pc_info pc]\<rparr>)"
    using assms(1,3) by (simp add: panic_handler_def Let_def)
  then show ?thesis by simp
qed

lemma first_panic_unwinds:
  assumes "ps_full st" "count_of i (ps_cores st) (pc_core pc) = Some 0" "pc_can_unwind pc" "pc_begin pc = None"
    "stack_trace kfile load_base 16 (pc_stack pc) = Inr fs"
  shows "\<exists>st'. panic_handler pf kfile load_base i pc st = Inr (Unwinds \<lparr>pd_info = pc_info pc, pd_stack_frames = fs\<rparr>, st')
    \<and> ps_full st' \<and> count_of i (ps_cores st') = (count_of i (ps_cores st))(pc_core pc \<mapsto> 1)"
proof -
  obtain cs where cs: "Local_with (PANIC_COUNT i) (pc_core pc) fetch_add_1 (ps_cores st) = Inr (0, cs)"
    "count_of i cs = (count_of i (ps_cores st))(pc_core pc \<mapsto> 1)"
    using Local_with_count[OF assms(2), of fetch_add_1] by (auto simp: fetch_add_1_def)
  then have "panic_handler pf kfile load_base i pc st = Inr (Unwinds \<lparr>pd_info = pc_info pc, pd_stack_frames = fs\<rparr>, st\<lparr>ps_cores := cs\<rparr>)"
    using assms by (simp add: panic_handler_def Let_def)
  then show ?thesis using cs(2) assms(1) by simp
qed

lemma drop_counts:
  assumes "count_of i (ps_cores st) core = Some v" "v < 2 ^ 64"
  shows "\<exists>st'. PanicData_drop i core st = Inr st' \<and> ps_full st' = ps_full st
    \<and> count_of i (ps_cores st') = (count_of i (ps_cores st))(core \<mapsto> (if v = 0 then 2 ^ 64 - 1 else v - 1))"
proof -
  have "(v + (2 ^ 64 - 1)) mod 2 ^ 64 = (if v = 0 then 2 ^ 64 - 1 else v - 1)"
  proof (cases v)
    case (Suc k)
    then have "v + (2 ^ 64 - 1) = k + 2 ^ 64" by simp
    then have "(v + (2 ^ 64 - 1)) mod 2 ^ 64 = k mod 2 ^ 64" by (simp only: mod_add_self2)
    then show ?thesis using Suc assms(2) by simp
  qed simp
  then show ?thesis using Local_with_count[OF assms(1), of fetch_sub_1] by (auto simp: PanicData_drop_def fetch_sub_1_def)
qed

text \<open>
  C28. The counter that tells a panic inside the panic handler from a first one is kept per core, but a
  payload may be dropped on any core. A first panic that is caught leaves the counter of its core at 1
  until the payload is dropped; every panic on that core in between halts it. Dropped on the same core,
  the counter is back at 0. Dropped on another core, the first core stays at 1 and the counter of the
  other wraps to its largest value: from then on any panic on either core halts that core, although no
  panic is being handled.
\<close>

theorem panic_counter:
  assumes "ps_full st" "count_of i (ps_cores st) (pc_core pc) = Some 0" "count_of i (ps_cores st) other = Some 0" "other \<noteq> pc_core pc"
    and "pc_can_unwind pc" "pc_begin pc = None" "stack_trace kfile load_base 16 (pc_stack pc) = Inr fs"
  shows "\<exists>st1. panic_handler pf kfile load_base i pc st = Inr (Unwinds \<lparr>pd_info = pc_info pc, pd_stack_frames = fs\<rparr>, st1)
    \<and> (\<forall>pc'. pc_core pc' = pc_core pc \<longrightarrow> (\<exists>st'. panic_handler pf kfile load_base i pc' st1 = Inr (HaltLoop, st')))
    \<and> (\<exists>st2. PanicData_drop i (pc_core pc) st1 = Inr st2 \<and> count_of i (ps_cores st2) = count_of i (ps_cores st))
    \<and> (\<exists>st2. PanicData_drop i other st1 = Inr st2 \<and> count_of i (ps_cores st2) other = Some (2 ^ 64 - 1)
        \<and> (\<forall>pc'. pc_core pc' \<in> {pc_core pc, other} \<longrightarrow> (\<exists>st'. panic_handler pf kfile load_base i pc' st2 = Inr (HaltLoop, st'))))"
proof -
  obtain st1 where st1: "panic_handler pf kfile load_base i pc st = Inr (Unwinds \<lparr>pd_info = pc_info pc, pd_stack_frames = fs\<rparr>, st1)"
    "ps_full st1" "count_of i (ps_cores st1) = (count_of i (ps_cores st))(pc_core pc \<mapsto> 1)"
    using first_panic_unwinds[OF assms(1,2,5,6,7)] by blast
  have again: "\<exists>st'. panic_handler pf kfile load_base i pc' st1 = Inr (HaltLoop, st')" if "pc_core pc' = pc_core pc" for pc'
    using second_panic_halts[where i = i and pc = pc' and v = 1 and pf = pf and kfile = kfile and load_base = load_base, OF st1(2)] that st1(3) by auto
  obtain st2 where st2: "PanicData_drop i (pc_core pc) st1 = Inr st2" "count_of i (ps_cores st2) = (count_of i (ps_cores st1))(pc_core pc \<mapsto> 0)"
    using drop_counts[of i st1 "pc_core pc" 1] st1(3) by auto
  have restored: "count_of i (ps_cores st2) = count_of i (ps_cores st)" using st2(2) st1(3) assms(2) by (auto simp: fun_eq_iff)
  obtain st3 where st3: "PanicData_drop i other st1 = Inr st3" "ps_full st3"
    "count_of i (ps_cores st3) = (count_of i (ps_cores st1))(other \<mapsto> 2 ^ 64 - 1)"
    using drop_counts[of i st1 other 0] st1(2,3) assms(3,4) by auto
  have "\<exists>st'. panic_handler pf kfile load_base i pc' st3 = Inr (HaltLoop, st')" if "pc_core pc' \<in> {pc_core pc, other}" for pc'
    using second_panic_halts[where i = i and pc = pc' and v = 1 and pf = pf and kfile = kfile and load_base = load_base, OF st3(2)]
      second_panic_halts[where i = i and pc = pc' and v = "2 ^ 64 - 1" and pf = pf and kfile = kfile and load_base = load_base, OF st3(2)] that st3(3) st1(3) assms(4) by auto
  then show ?thesis using st1(1) again st2(1) restored st3(1,3) by auto
qed

section \<open>A kernel with one function\<close>

definition one_symbol :: kernel_file where
  "one_symbol = \<lparr>kf_symbols = Some [(0xffffffff80000010, 32, Some (lit ''f''))], kf_link_base = Some 0xffffffff80000000, kf_location = (\<lambda>_. None)\<rparr>"

definition plain_fmt :: panic_fmt where
  "plain_fmt = \<lparr>pf_hex16 = (\<lambda>n. [n]), pf_hex = (\<lambda>n. [n]), pf_dec = (\<lambda>n. [n]), pf_demangle = (\<lambda>s. s)\<rparr>"

theorem stack_trace_exact_witness:
  "\<exists>fs. stack_trace (Some one_symbol) 0xffffffff80001000 1 [0xffffffff80001018, 5] = Inr fs
    \<and> map fr_symbol fs = [Some (0xffffffff80001010, lit ''f'')]"
proof -
  have fit: "symbols_fit (0xffffffff80001000 - 0xffffffff80000000) one_symbol" by (simp add: symbols_fit_def one_symbol_def)
  have lb: "kf_link_base one_symbol = Some 0xffffffff80000000" by (simp add: one_symbol_def)
  obtain fs where fs: "stack_trace (Some one_symbol) 0xffffffff80001000 1 [0xffffffff80001018, 5] = Inr fs"
    "list_all2 (frame_of one_symbol 0x1000) [0xffffffff80001018] fs"
    using stack_trace_exact[OF fit lb, of 1 "[0xffffffff80001018, 5]"] by auto
  then obtain fr where "fs = [fr]" "frame_of one_symbol 0x1000 0xffffffff80001018 fr" by (auto simp: list_all2_Cons1)
  then show ?thesis using fs(1) by (simp add: frame_of_def one_symbol_def covers_def)
qed

theorem panic_counter_witness:
  "\<exists>st1 st2 st'. panic_handler plain_fmt None 0 0 \<lparr>pc_core = 0, pc_info = [120], pc_stack = [], pc_can_unwind = True, pc_begin = None\<rparr>
      \<lparr>ps_full = True, ps_cores = (\<lambda>_. Some Map.empty), ps_log = []\<rparr> = Inr (Unwinds \<lparr>pd_info = [120], pd_stack_frames = []\<rparr>, st1)
    \<and> PanicData_drop 0 1 st1 = Inr st2
    \<and> panic_handler plain_fmt None 0 0 \<lparr>pc_core = 1, pc_info = [121], pc_stack = [], pc_can_unwind = True, pc_begin = None\<rparr> st2 = Inr (HaltLoop, st')"
proof -
  let ?pc = "\<lparr>pc_core = 0, pc_info = [120], pc_stack = [], pc_can_unwind = True, pc_begin = None\<rparr>"
  let ?pc' = "\<lparr>pc_core = 1, pc_info = [121], pc_stack = [], pc_can_unwind = True, pc_begin = None\<rparr>"
  let ?st = "\<lparr>ps_full = True, ps_cores = (\<lambda>_. Some Map.empty), ps_log = []\<rparr>"
  have c: "ps_full ?st" "count_of 0 (ps_cores ?st) (pc_core ?pc) = Some 0" "count_of 0 (ps_cores ?st) 1 = Some 0" "1 \<noteq> pc_core ?pc"
    "pc_can_unwind ?pc" "pc_begin ?pc = None" "stack_trace None 0 16 (pc_stack ?pc) = Inr []"
    by (simp_all add: count_of_def stack_trace_def)
  obtain st1 st2 where s: "panic_handler plain_fmt None 0 0 ?pc ?st = Inr (Unwinds \<lparr>pd_info = pc_info ?pc, pd_stack_frames = []\<rparr>, st1)"
    "PanicData_drop 0 1 st1 = Inr st2"
    "\<forall>pc'. pc_core pc' \<in> {pc_core ?pc, 1} \<longrightarrow> (\<exists>st'. panic_handler plain_fmt None 0 0 pc' st2 = Inr (HaltLoop, st'))"
    using panic_counter[OF c, of plain_fmt] by blast
  from s(3)[rule_format, of ?pc'] obtain st' where "panic_handler plain_fmt None 0 0 ?pc' st2 = Inr (HaltLoop, st')" by auto
  then show ?thesis using s(1,2) by auto
qed

end
