(* ===== verification/Locks.thy ===== *)
theory Locks
  imports Prelude
begin

text \<open>
  Spin locks, interrupts and several cores. A critical section is the list of its lock operations, in
  the order of the source; a core runs sections one after the other and, whenever its interrupts are
  enabled, may be interrupted at any point by a handler, which runs with interrupts disabled and takes
  locks of its own. A spin lock that is taken makes the core wait; it is not re-entrant.

  The first part is generic: the machine of cores and locks, and a discipline (locks are taken in the
  order of a rank, and those that handlers take are above every lock held with interrupts enabled) that
  excludes deadlock. The second part is the kernel: the locks of the network stack
  (\<open>kernel/src/net/mod.rs\<close>), of its two drivers, of the log, the display, the heap and the page tables,
  with the operations that take them.
\<close>

section \<open>Cores and locks\<close>

datatype 'l act = Acquire 'l | Release 'l | IntrOff | IntrOn

text \<open>
  A frame is what is left of a section and how often interrupts are disabled in it
  (\<open>without_interrupts\<close> nests); a core is the stack of its frames. A handler is entered through an
  interrupt gate, with interrupts disabled.
\<close>

type_synonym 'l cpu = "('l act list \<times> nat) list"

record 'l cores =
  cs_cpus :: "nat \<Rightarrow> 'l cpu"
  cs_owner :: "'l \<Rightarrow> nat option"

definition idle :: "'l cores" where
  "idle = \<lparr>cs_cpus = (\<lambda>_. []), cs_owner = (\<lambda>_. None)\<rparr>"

text \<open>One operation of core \<open>c\<close>; \<open>None\<close> when it has nothing to do or waits for a lock. Only the owner releases a lock.\<close>

definition exec :: "nat \<Rightarrow> 'l cores \<Rightarrow> 'l cores option" where
  "exec c s =
     (case cs_cpus s c of
        [] \<Rightarrow> None
      | (acts, n) # fs \<Rightarrow>
          (let put = (\<lambda>f. s\<lparr>cs_cpus := (cs_cpus s)(c := f)\<rparr>) in
           case acts of
             [] \<Rightarrow> Some (put fs)
           | Acquire l # as \<Rightarrow>
               if cs_owner s l = None then Some (put ((as, n) # fs)\<lparr>cs_owner := (cs_owner s)(l := Some c)\<rparr>) else None
           | Release l # as \<Rightarrow>
               if cs_owner s l = Some c then Some (put ((as, n) # fs)\<lparr>cs_owner := (cs_owner s)(l := None)\<rparr>) else None
           | IntrOff # as \<Rightarrow> Some (put ((as, Suc n) # fs))
           | IntrOn # as \<Rightarrow> Some (put ((as, n - 1) # fs))))"

definition interruptible :: "'l cpu \<Rightarrow> bool" where
  "interruptible fs \<longleftrightarrow> (case fs of [] \<Rightarrow> True | (_, n) # _ \<Rightarrow> n = 0)"

inductive lock_step :: "'l act list set \<Rightarrow> 'l act list set \<Rightarrow> 'l cores \<Rightarrow> 'l cores \<Rightarrow> bool" for sections handlers where
  start: "cs_cpus s c = [] \<Longrightarrow> acts \<in> sections \<Longrightarrow>
    lock_step sections handlers s (s\<lparr>cs_cpus := (cs_cpus s)(c := [(acts, 0)])\<rparr>)"
| interrupt: "interruptible (cs_cpus s c) \<Longrightarrow> acts \<in> handlers \<Longrightarrow>
    lock_step sections handlers s (s\<lparr>cs_cpus := (cs_cpus s)(c := (acts, 1) # cs_cpus s c)\<rparr>)"
| run: "exec c s = Some s' \<Longrightarrow> lock_step sections handlers s s'"

definition lock_reach :: "'l act list set \<Rightarrow> 'l act list set \<Rightarrow> 'l cores \<Rightarrow> bool" where
  "lock_reach sections handlers s \<longleftrightarrow> (lock_step sections handlers)\<^sup>*\<^sup>* idle s"

definition waits_for :: "nat \<Rightarrow> 'l \<Rightarrow> 'l cores \<Rightarrow> bool" where
  "waits_for c l s \<longleftrightarrow> (\<exists>as n fs. cs_cpus s c = (Acquire l # as, n) # fs) \<and> cs_owner s l \<noteq> None"

section \<open>A discipline without deadlock\<close>

text \<open>
  \<open>disciplined rank lo hi base held n acts\<close>: with the locks \<open>held\<close> and interrupts disabled \<open>n\<close> times, the rest
  of the section takes only locks of rank \<open>lo\<close> or more, each above all it holds; while interrupts are
  enabled it holds locks below \<open>hi\<close> only; it never enables interrupts more often than it disabled them
  (\<open>base\<close> times are not its own), and at its end it holds nothing and interrupts are as at its start.
\<close>

fun disciplined :: "('l \<Rightarrow> nat) \<Rightarrow> nat \<Rightarrow> nat \<Rightarrow> nat \<Rightarrow> 'l list \<Rightarrow> nat \<Rightarrow> 'l act list \<Rightarrow> bool" where
  "disciplined rank lo hi base held n [] \<longleftrightarrow> held = [] \<and> n = base"
| "disciplined rank lo hi base held n (Acquire l # as) \<longleftrightarrow>
     lo \<le> rank l \<and> (n = 0 \<longrightarrow> rank l < hi) \<and> list_all (\<lambda>h. rank h < rank l) held
     \<and> disciplined rank lo hi base (l # held) n as"
| "disciplined rank lo hi base held n (Release l # as) \<longleftrightarrow>
     l \<in> set held \<and> disciplined rank lo hi base (remove1 l held) n as"
| "disciplined rank lo hi base held n (IntrOff # as) \<longleftrightarrow> disciplined rank lo hi base held (Suc n) as"
| "disciplined rank lo hi base held n (IntrOn # as) \<longleftrightarrow>
     base < n \<and> (n = 1 \<longrightarrow> list_all (\<lambda>h. rank h < hi) held) \<and> disciplined rank lo hi base held (n - 1) as"

text \<open>Sections that hold nothing can be put one after the other, or inside one that holds lower locks.\<close>

lemma disciplined_nest:
  assumes "disciplined rank lo' hi n inner m as" "disciplined rank lo hi base held n bs" "n \<le> m" "base \<le> n" "lo \<le> lo'"
    "\<forall>h\<in>set held. rank h < lo' \<and> (n = 0 \<longrightarrow> rank h < hi)"
  shows "disciplined rank lo hi base (inner @ held) m (as @ bs)"
  using assms
proof (induction as arbitrary: inner m)
  case (Cons a as)
  show ?case
  proof (cases a)
    case (Acquire l)
    then show ?thesis using Cons by (fastforce simp: list_all_iff)
  next
    case (Release l)
    then show ?thesis using Cons.IH[of "remove1 l inner" m] Cons.prems by (simp add: remove1_append)
  next
    case IntrOff
    then show ?thesis using Cons by simp
  next
    case IntrOn
    then show ?thesis using Cons.IH[of inner "m - 1"] Cons.prems by (auto simp: list_all_iff)
  qed
qed simp

lemma disciplined_concat:
  assumes "\<And>b. b \<in> set bs \<Longrightarrow> disciplined rank lo hi n [] n b"
  shows "disciplined rank lo hi n [] n (concat bs)"
  using assms
proof (induction bs)
  case (Cons b bs)
  then show ?case using disciplined_nest[of rank lo hi n "[]" n b lo n "[]" "concat bs"] by simp
qed simp

text \<open>What the discipline means for a core, whose frames are a section, a handler, or a handler on a section.\<close>

fun cpu_ok :: "('l \<Rightarrow> nat) \<Rightarrow> nat \<Rightarrow> 'l cpu \<Rightarrow> 'l list \<Rightarrow> bool" where
  "cpu_ok rank hi [] held \<longleftrightarrow> held = []"
| "cpu_ok rank hi [(as, n)] held \<longleftrightarrow>
     disciplined rank 0 hi 0 held n as \<and> (n = 0 \<longrightarrow> (\<forall>h\<in>set held. rank h < hi))
     \<or> disciplined rank hi hi 1 held n as \<and> 1 \<le> n"
| "cpu_ok rank hi [(as, n), (bs, m)] held \<longleftrightarrow>
     (\<exists>h1 h2. held = h1 @ h2 \<and> disciplined rank hi hi 1 h1 n as \<and> 1 \<le> n
       \<and> disciplined rank 0 hi 0 h2 m bs \<and> m = 0 \<and> (\<forall>h\<in>set h2. rank h < hi))"
| "cpu_ok rank hi (f # g # h # fs) held \<longleftrightarrow> False"

definition locks_inv :: "('l \<Rightarrow> nat) \<Rightarrow> nat \<Rightarrow> 'l cores \<Rightarrow> bool" where
  "locks_inv rank hi s \<longleftrightarrow>
     (\<forall>c. \<exists>held. cpu_ok rank hi (cs_cpus s c) held \<and> distinct held \<and> (\<forall>l. cs_owner s l = Some c \<longleftrightarrow> l \<in> set held))"

lemma locks_inv_other:
  assumes inv: "locks_inv rank hi s" and same: "\<And>d. d \<noteq> c \<Longrightarrow> cs_cpus s' d = cs_cpus s d"
    and owner: "\<And>l d. d \<noteq> c \<Longrightarrow> cs_owner s' l = Some d \<longleftrightarrow> cs_owner s l = Some d"
    and own: "cpu_ok rank hi (cs_cpus s' c) held" "distinct held" "\<And>l. cs_owner s' l = Some c \<longleftrightarrow> l \<in> set held"
  shows "locks_inv rank hi s'"
  unfolding locks_inv_def
proof
  fix d
  show "\<exists>held. cpu_ok rank hi (cs_cpus s' d) held \<and> distinct held \<and> (\<forall>l. cs_owner s' l = Some d \<longleftrightarrow> l \<in> set held)"
  proof (cases "d = c")
    case True
    then show ?thesis using own by blast
  next
    case False
    then show ?thesis using inv same[OF False] owner[OF False] unfolding locks_inv_def by metis
  qed
qed

text \<open>A core in the discipline: what it is about to take is above all it holds, and taking or giving back keeps the discipline.\<close>

lemma cpu_ok_acquire:
  assumes "cpu_ok rank hi ((Acquire l # as, n) # fs) held"
  shows "(\<forall>h\<in>set held. rank h < rank l) \<and> cpu_ok rank hi ((as, n) # fs) (l # held)"
  using assms
proof (cases fs)
  case (Cons f fs')
  then obtain bs m where f: "fs = [(bs, m)]" using assms by (cases f; cases fs') auto
  then obtain h1 h2 where h: "held = h1 @ h2" "hi \<le> rank l" "list_all (\<lambda>h. rank h < rank l) h1"
    "disciplined rank hi hi 1 (l # h1) n as" "1 \<le> n" "disciplined rank 0 hi 0 h2 m bs" "m = 0" "\<forall>h\<in>set h2. rank h < hi"
    using assms by auto
  then have "cpu_ok rank hi ((as, n) # fs) (l # held)" unfolding f cpu_ok.simps by (intro exI[of _ "l # h1"] exI[of _ h2]) simp
  then show ?thesis using h by (auto simp: list_all_iff)
qed (auto simp: list_all_iff)

lemma cpu_ok_release:
  assumes "cpu_ok rank hi ((Release l # as, n) # fs) held"
  shows "l \<in> set held \<and> cpu_ok rank hi ((as, n) # fs) (remove1 l held)"
  using assms
proof (cases fs)
  case (Cons f fs')
  then obtain bs m where f: "fs = [(bs, m)]" using assms by (cases f; cases fs') auto
  then obtain h1 h2 where h: "held = h1 @ h2" "l \<in> set h1"
    "disciplined rank hi hi 1 (remove1 l h1) n as" "1 \<le> n" "disciplined rank 0 hi 0 h2 m bs" "m = 0" "\<forall>h\<in>set h2. rank h < hi"
    using assms by auto
  then have "cpu_ok rank hi ((as, n) # fs) (remove1 l held)" unfolding f cpu_ok.simps
    by (intro exI[of _ "remove1 l h1"] exI[of _ h2]) (simp add: remove1_append)
  then show ?thesis using h by auto
qed (auto dest: notin_set_remove1)

lemma cpu_ok_intr:
  "cpu_ok rank hi ((IntrOff # as, n) # fs) held \<Longrightarrow> cpu_ok rank hi ((as, Suc n) # fs) held"
  "cpu_ok rank hi ((IntrOn # as, n) # fs) held \<Longrightarrow> cpu_ok rank hi ((as, n - 1) # fs) held"
  "cpu_ok rank hi (([], n) # fs) held \<Longrightarrow> cpu_ok rank hi fs held"
  by (cases fs; cases "tl fs"; force simp: list_all_iff)+

lemma exec_inv:
  assumes inv: "locks_inv rank hi s" and run: "exec c s = Some s'"
  shows "locks_inv rank hi s'"
proof -
  obtain held where h: "cpu_ok rank hi (cs_cpus s c) held" "distinct held" "\<And>l. cs_owner s l = Some c \<longleftrightarrow> l \<in> set held"
    using inv unfolding locks_inv_def by blast
  obtain acts n fs where f: "cs_cpus s c = (acts, n) # fs" using run by (auto simp: exec_def split: list.splits)
  note keep = locks_inv_other[OF inv, of c s']
  show ?thesis
  proof (cases acts)
    case Nil
    then have s': "s' = s\<lparr>cs_cpus := (cs_cpus s)(c := fs)\<rparr>" using run f by (simp add: exec_def)
    have "cpu_ok rank hi fs held" using h(1) cpu_ok_intr(3)[of rank hi n fs held] unfolding f Nil by simp
    then show ?thesis using h(2,3) by (intro keep[of held]) (simp_all add: s')
  next
    case (Cons a as)
    show ?thesis
    proof (cases a)
      case (Acquire l)
      then have s': "cs_owner s l = None"
        "s' = s\<lparr>cs_cpus := (cs_cpus s)(c := (as, n) # fs), cs_owner := (cs_owner s)(l := Some c)\<rparr>"
        using run f Cons by (auto simp: exec_def split: if_splits)
      have "cpu_ok rank hi ((as, n) # fs) (l # held)" "l \<notin> set held"
        using cpu_ok_acquire[of rank hi l as n fs held] h(1) h(3)[of l] s'(1) unfolding f Cons Acquire by auto
      then show ?thesis using h(2,3) s'(1) by (intro keep[of "l # held"]) (auto simp: s'(2))
    next
      case (Release l)
      then have s': "cs_owner s l = Some c"
        "s' = s\<lparr>cs_cpus := (cs_cpus s)(c := (as, n) # fs), cs_owner := (cs_owner s)(l := None)\<rparr>"
        using run f Cons by (auto simp: exec_def split: if_splits)
      have "cpu_ok rank hi ((as, n) # fs) (remove1 l held)"
        using cpu_ok_release[of rank hi l as n fs held] h(1) unfolding f Cons Release by simp
      then show ?thesis using h(2) by (intro keep[of "remove1 l held"]) (auto simp: s' simp flip: h(3))
    next
      case IntrOff
      then have s': "s' = s\<lparr>cs_cpus := (cs_cpus s)(c := (as, Suc n) # fs)\<rparr>" using run f Cons by (simp add: exec_def)
      have "cpu_ok rank hi ((as, Suc n) # fs) held" using h(1) cpu_ok_intr(1)[of rank hi as n fs held] unfolding f Cons IntrOff by simp
      then show ?thesis using h(2,3) by (intro keep[of held]) (simp_all add: s')
    next
      case IntrOn
      then have s': "s' = s\<lparr>cs_cpus := (cs_cpus s)(c := (as, n - 1) # fs)\<rparr>" using run f Cons by (simp add: exec_def)
      have "cpu_ok rank hi ((as, n - 1) # fs) held" using h(1) cpu_ok_intr(2)[of rank hi as n fs held] unfolding f Cons IntrOn by simp
      then show ?thesis using h(2,3) by (intro keep[of held]) (simp_all add: s')
    qed
  qed
qed

text \<open>A core that holds a lock and cannot go on waits for a lock above it, which is held.\<close>

lemma blocked_waits_above:
  assumes inv: "locks_inv rank hi s" and own: "cs_owner s l = Some c" and blocked: "exec c s = None"
  shows "\<exists>l'. rank l < rank l' \<and> waits_for c l' s"
proof -
  obtain held where h: "cpu_ok rank hi (cs_cpus s c) held" "\<And>l. cs_owner s l = Some c \<longleftrightarrow> l \<in> set held"
    using inv unfolding locks_inv_def by blast
  have l: "l \<in> set held" using h(2) own by blast
  then obtain acts n fs where f: "cs_cpus s c = (acts, n) # fs" using h(1) by (cases "cs_cpus s c") auto
  have "\<exists>l' as. acts = Acquire l' # as \<and> cs_owner s l' \<noteq> None"
  proof (cases acts)
    case (Cons a as)
    then show ?thesis using blocked f h cpu_ok_release[of rank hi _ as n fs held]
      by (cases a) (auto simp: exec_def split: if_splits)
  qed (use blocked f in \<open>auto simp: exec_def\<close>)
  then show ?thesis using cpu_ok_acquire[of rank hi _ _ n fs held] h(1) f l by (auto simp: waits_for_def)
qed

lemma cpu_ok_interrupted:
  assumes "cpu_ok rank hi fs held" "interruptible fs" "disciplined rank hi hi 1 [] 1 acts"
  shows "cpu_ok rank hi ((acts, 1) # fs) held"
proof (cases fs)
  case Nil
  then show ?thesis using assms by simp
next
  case (Cons f gs)
  obtain bs m where f: "f = (bs, m)" by (cases f)
  have m: "m = 0" using assms(2) by (simp add: interruptible_def Cons f)
  show ?thesis
  proof (cases gs)
    case Nil
    then have "disciplined rank 0 hi 0 held 0 bs" "\<forall>h\<in>set held. rank h < hi" using assms(1) by (auto simp: Cons f m)
    then show ?thesis unfolding Cons f Nil m cpu_ok.simps using assms(3) by (intro exI[of _ "[]"] exI[of _ held]) simp
  next
    case (Cons g gs')
    then show ?thesis using assms(1) unfolding \<open>fs = f # gs\<close> f m by (cases g; cases gs') auto
  qed
qed

text \<open>
  The interface between the machine and a set of sections and handlers that keep to the discipline.
\<close>

locale lock_order =
  fixes rank :: "'l \<Rightarrow> nat" and hi bound :: nat and sections handlers :: "'l act list set"
  assumes rank_bounded: "rank l < bound"
    and sections_disciplined: "acts \<in> sections \<Longrightarrow> disciplined rank 0 hi 0 [] 0 acts"
    and handlers_disciplined: "acts \<in> handlers \<Longrightarrow> disciplined rank hi hi 1 [] 1 acts"
begin

lemma step_inv:
  assumes "lock_step sections handlers s s'" "locks_inv rank hi s"
  shows "locks_inv rank hi s'"
  using assms(1)
proof cases
  case (start c acts)
  obtain held where h: "cpu_ok rank hi (cs_cpus s c) held" "\<And>l. cs_owner s l = Some c \<longleftrightarrow> l \<in> set held"
    using assms(2) unfolding locks_inv_def by blast
  show ?thesis using h start sections_disciplined
    by (intro locks_inv_other[OF assms(2), of c s' "[]"]) auto
next
  case (interrupt c acts)
  obtain held where h: "cpu_ok rank hi (cs_cpus s c) held" "distinct held" "\<And>l. cs_owner s l = Some c \<longleftrightarrow> l \<in> set held"
    using assms(2) unfolding locks_inv_def by blast
  have "cpu_ok rank hi ((acts, 1) # cs_cpus s c) held"
    using cpu_ok_interrupted[OF h(1) interrupt(2) handlers_disciplined[OF interrupt(3)]] .
  then show ?thesis using h interrupt by (intro locks_inv_other[OF assms(2), of c s' held]) auto
next
  case (run c)
  then show ?thesis using exec_inv assms(2) by blast
qed

lemma reach_inv: "lock_reach sections handlers s \<Longrightarrow> locks_inv rank hi s"
  unfolding lock_reach_def
proof (induction rule: rtranclp_induct)
  case base
  show ?case by (simp add: locks_inv_def idle_def)
qed (rule step_inv)

lemma no_deadlock:
  assumes reach: "lock_reach sections handlers s" and wait: "waits_for c l s"
  shows "\<exists>d l'. rank l \<le> rank l' \<and> cs_owner s l' = Some d \<and> exec d s \<noteq> None"
proof -
  let ?P = "\<lambda>l'. rank l \<le> rank l' \<and> cs_owner s l' \<noteq> None"
  have "?P l" using wait by (simp add: waits_for_def)
  then obtain l' where l': "?P l'" "\<And>m. ?P m \<Longrightarrow> rank m \<le> rank l'"
    using ex_has_greatest_nat[of ?P l rank bound] rank_bounded less_imp_le by metis
  then obtain d where d: "cs_owner s l' = Some d" by auto
  have "exec d s \<noteq> None"
  proof
    assume "exec d s = None"
    then obtain m where m: "rank l' < rank m" "waits_for d m s"
      using blocked_waits_above[OF reach_inv[OF reach] d] by blast
    then have "?P m" using l'(1) by (simp add: waits_for_def)
    then show False using l'(2) m(1) by force
  qed
  then show ?thesis using l'(1) d by blast
qed

end

section \<open>Deadlock is for ever\<close>

text \<open>
  Cores that wait for each other's locks with interrupts disabled: no step of any core helps them,
  since a lock is given back by its owner only.
\<close>

definition stuck :: "nat set \<Rightarrow> 'l cores \<Rightarrow> bool" where
  "stuck C s \<longleftrightarrow> (\<forall>c\<in>C. \<exists>l as n fs d. cs_cpus s c = (Acquire l # as, Suc n) # fs \<and> cs_owner s l = Some d \<and> d \<in> C)"

lemma stuck_exec: "stuck C s \<Longrightarrow> c \<in> C \<Longrightarrow> exec c s = None"
  by (fastforce simp: stuck_def exec_def)

lemma exec_keeps_owner:
  assumes "exec d s = Some s'" "cs_owner s l = Some c" "c \<noteq> d"
  shows "cs_owner s' l = Some c"
  using assms by (auto simp: exec_def Let_def split: list.splits act.splits if_splits)

lemma exec_other_cpu: "exec d s = Some s' \<Longrightarrow> c \<noteq> d \<Longrightarrow> cs_cpus s' c = cs_cpus s c"
  by (auto simp: exec_def Let_def split: list.splits act.splits if_splits)

lemma stuck_step:
  assumes st: "stuck C s" and step: "lock_step sections handlers s s'"
  shows "stuck C s'"
  using step
proof cases
  case (run d)
  then have d: "d \<notin> C" using stuck_exec[OF st] by auto
  show ?thesis unfolding stuck_def
  proof
    fix c
    assume c: "c \<in> C"
    then obtain l as n fs e where "cs_cpus s c = (Acquire l # as, Suc n) # fs" "cs_owner s l = Some e" "e \<in> C"
      using st unfolding stuck_def by blast
    then show "\<exists>l as n fs d. cs_cpus s' c = (Acquire l # as, Suc n) # fs \<and> cs_owner s' l = Some d \<and> d \<in> C"
      using exec_keeps_owner[OF run] exec_other_cpu[OF run] c d by metis
  qed
qed (use st in \<open>auto simp: stuck_def interruptible_def\<close>)

lemma stuck_forever: "(lock_step sections handlers)\<^sup>*\<^sup>* s s' \<Longrightarrow> stuck C s \<Longrightarrow> stuck C s'"
  by (induction rule: rtranclp_induct) (auto intro: stuck_step)

section \<open>The locks of the kernel\<close>

text \<open>
  \<open>LIface\<close> is the mutex around \<open>InterfaceInner\<close>, \<open>LSockets\<close> is \<open>SOCKETS\<close>, \<open>LDevice\<close> the mutex around the
  network driver, \<open>LLog\<close> the lock of \<open>Collector::event\<close>, \<open>LLogBuffer\<close> is \<open>DEBUG\<close> of the shell, \<open>LDisplay\<close> is
  \<open>DISPLAY\<close>, \<open>LHeap\<close> the lock of the global allocator, \<open>LMapper\<close> and \<open>LFrames\<close> are \<open>MAPPER\<close> and
  \<open>FRAME_ALLOCATOR\<close>, \<open>L8042\<close> is \<open>DRIVER\<close> of the keyboard controller.
\<close>

datatype kernel_lock = LIface | LSockets | LDevice | LLog | LLogBuffer | LDisplay | LHeap | LMapper | LFrames | L8042

fun lock_rank :: "kernel_lock \<Rightarrow> nat" where
  "lock_rank LIface = 0" | "lock_rank LSockets = 1" | "lock_rank LDevice = 2" | "lock_rank LLog = 3"
| "lock_rank LLogBuffer = 4" | "lock_rank LDisplay = 5" | "lock_rank LHeap = 6" | "lock_rank LMapper = 7"
| "lock_rank LFrames = 8" | "lock_rank L8042 = 9"

text \<open>
  \<open>lazy_map\<close>, which runs in the page fault handler with interrupts disabled; an operation of the
  allocator, which may touch a page for the first time; several of them.
\<close>

definition lazy_map_locks :: "kernel_lock act list" where
  "lazy_map_locks = [IntrOff, Acquire LMapper, Acquire LFrames, Release LFrames, Release LMapper, IntrOn]"

definition heap_locks :: "bool \<Rightarrow> kernel_lock act list" where
  "heap_locks fault = [Acquire LHeap] @ (if fault then lazy_map_locks else []) @ [Release LHeap]"

definition heap_uses :: "bool list \<Rightarrow> kernel_lock act list" where
  "heap_uses faults = concat (map heap_locks faults)"

text \<open>\<open>map_pages_from\<close>: the search asks \<open>available\<close> page by page, then both locks are held for the mapping.\<close>

definition map_pages_from_locks :: "nat \<Rightarrow> kernel_lock act list" where
  "map_pages_from_locks pages =
     concat (replicate pages [Acquire LMapper, Release LMapper])
     @ [Acquire LMapper, Acquire LFrames, Release LFrames, Release LMapper]"

text \<open>
  The network driver: the calls of \<open>smoltcp\<close> (receive, the two tokens), \<open>poll\<close> and \<open>address\<close>. The E1000 driver
  allocates outside its lock, the virtio driver builds the packet inside it. In both the lock is taken
  with interrupts disabled, but for \<open>poll\<close> and \<open>address\<close> of the E1000.
\<close>

datatype nic = E1000Nic | VirtioNic
datatype nic_call = NicReceive | NicRxConsume | NicTxConsume "bool list" | NicPoll | NicAddress | StackWork "bool list"

fun nic_locks :: "nic \<Rightarrow> nic_call \<Rightarrow> kernel_lock act list" where
  "nic_locks _ (StackWork faults) = heap_uses faults"
| "nic_locks E1000Nic (NicTxConsume faults) =
     heap_uses faults @ [IntrOff, Acquire LDevice, Release LDevice, IntrOn] @ heap_uses faults"
| "nic_locks E1000Nic NicPoll = [Acquire LDevice, Release LDevice]"
| "nic_locks E1000Nic NicAddress = [Acquire LDevice, Release LDevice]"
| "nic_locks VirtioNic (NicTxConsume faults) =
     [IntrOff, Acquire LDevice] @ heap_uses faults @ [Release LDevice, IntrOn]"
| "nic_locks _ _ = [IntrOff, Acquire LDevice, Release LDevice, IntrOn]"

text \<open>
  The sections of the kernel. \<open>NetPoll\<close> is the body of the loop in \<open>Interface::run\<close>, with any calls of the
  driver; \<open>SocketCall\<close> any method that takes \<open>SOCKETS\<close> alone; \<open>IfaceCall\<close> the arms of \<open>dhcp4\<close> and \<open>auto6\<close>,
  \<open>config\<close> and \<open>ping\<close>; \<open>IfaceSocketCall\<close> is \<open>connect\<close>, \<open>DnsSocket::new\<close> and \<open>query\<close>. \<open>LogEvent\<close> is
  \<open>Collector::event\<close> with one list per call of \<open>print\<close>: before the shell runs it goes to the display, later
  to the buffer of the shell. \<open>DisplayWrite\<close> and \<open>ReadLog\<close> are the shell and its \<open>logs\<close>.
\<close>

datatype kernel_task =
    NetPoll "nic_call list" | NicCall nic_call
  | SocketCall "bool list" | IfaceCall "bool list" | IfaceSocketCall "bool list" "bool list"
  | LogEvent bool "bool list list" | DisplayWrite "bool list" | ReadLog "bool list"
  | MapPages nat | HeapWork "bool list"

definition print_locks :: "bool \<Rightarrow> bool list \<Rightarrow> kernel_lock act list" where
  "print_locks early faults =
     (if early then [IntrOff, Acquire LDisplay, Release LDisplay, IntrOn]
      else [Acquire LLogBuffer] @ heap_uses faults @ [Release LLogBuffer])"

definition event_locks :: "bool \<Rightarrow> bool list list \<Rightarrow> kernel_lock act list" where
  "event_locks early prints = [Acquire LLog] @ concat (map (print_locks early) prints) @ [Release LLog]"

fun task_locks :: "nic \<Rightarrow> kernel_task \<Rightarrow> kernel_lock act list" where
  "task_locks nic (NetPoll calls) =
     [Acquire LIface, Acquire LSockets] @ concat (map (nic_locks nic) calls) @ [Release LSockets, Release LIface]"
| "task_locks nic (NicCall call) = nic_locks nic call"
| "task_locks nic (SocketCall faults) = [Acquire LSockets] @ heap_uses faults @ [Release LSockets]"
| "task_locks nic (IfaceCall faults) = [Acquire LIface] @ heap_uses faults @ [Release LIface]"
| "task_locks nic (IfaceSocketCall faults faults') =
     [Acquire LIface] @ heap_uses faults @ [Acquire LSockets] @ heap_uses faults' @ [Release LSockets, Release LIface]"
| "task_locks nic (LogEvent early prints) = event_locks early prints"
| "task_locks nic (DisplayWrite faults) = [Acquire LDisplay] @ heap_uses faults @ [Release LDisplay]"
| "task_locks nic (ReadLog faults) = [Acquire LLogBuffer, Acquire LDisplay] @ heap_uses faults @ [Release LDisplay, Release LLogBuffer]"
| "task_locks nic (MapPages pages) = map_pages_from_locks pages"
| "task_locks nic (HeapWork faults) = heap_uses faults"

text \<open>
  The interrupt handlers: the timer, TLB flushes and spurious interrupts take no lock, nor does the
  E1000, whose handler reaches the driver through a raw pointer; virtio locks its driver; the keyboard
  controller locks its own; a vector without a handler and an error of the local APIC are logged.
\<close>

datatype kernel_irq = TimerIrq | TlbFlushIrq | SpuriousIrq | NicIrq | I8042Irq | EmptyVectorIrq "bool list list" | ApicErrorIrq "bool list list"

fun irq_locks :: "nic \<Rightarrow> kernel_irq \<Rightarrow> kernel_lock act list" where
  "irq_locks VirtioNic NicIrq = [Acquire LDevice, Release LDevice]"
| "irq_locks _ I8042Irq = [Acquire L8042, Release L8042]"
| "irq_locks _ (EmptyVectorIrq prints) = event_locks False prints"
| "irq_locks _ (ApicErrorIrq prints) = event_locks False prints"
| "irq_locks _ _ = []"

fun quiet_irq :: "kernel_irq \<Rightarrow> bool" where
  "quiet_irq (EmptyVectorIrq _) = False" | "quiet_irq (ApicErrorIrq _) = False" | "quiet_irq _ = True"

definition quiet_handlers :: "nic \<Rightarrow> kernel_lock act list set" where
  "quiet_handlers nic = irq_locks nic ` Collect quiet_irq"

subsection \<open>The sections keep to the order\<close>

lemma heap_disciplined: "disciplined lock_rank 6 9 n [] n (heap_uses faults)"
  unfolding heap_uses_def
  by (rule disciplined_concat) (auto simp: heap_locks_def lazy_map_locks_def)

text \<open>Heap operations inside a section that holds lower locks.\<close>

lemma heap_inside:
  assumes "disciplined lock_rank lo 9 base held n bs" "lo \<le> 6" "base \<le> n" "\<forall>h\<in>set held. lock_rank h < 6"
  shows "disciplined lock_rank lo 9 base held n (heap_uses faults @ bs)"
  using disciplined_nest[OF heap_disciplined assms(1)] assms(2-4) by fastforce

lemma nic_disciplined: "disciplined lock_rank 2 9 0 [] 0 (nic_locks E1000Nic call)"
  using heap_inside[of 2 0 "[]" 0 "[]"] heap_inside[of 2 0 "[]" 0 "[IntrOff, Acquire LDevice, Release LDevice, IntrOn] @ heap_uses _"]
  by (cases call) (simp_all add: heap_inside)

lemma nics_inside:
  assumes "disciplined lock_rank 0 9 0 held 0 bs" "\<forall>h\<in>set held. lock_rank h < 2"
  shows "disciplined lock_rank 0 9 0 held 0 (concat (map (nic_locks E1000Nic) calls) @ bs)"
proof -
  have "disciplined lock_rank 2 9 0 [] 0 (concat (map (nic_locks E1000Nic) calls))"
    using nic_disciplined by (intro disciplined_concat) auto
  from disciplined_nest[OF this assms(1)] assms(2) show ?thesis by fastforce
qed

lemma print_disciplined: "disciplined lock_rank 4 9 0 [] 0 (print_locks early faults)"
  by (simp add: print_locks_def heap_inside)

lemma event_disciplined: "disciplined lock_rank 0 9 0 [] 0 (event_locks early prints)"
proof -
  have "disciplined lock_rank 4 9 0 [] 0 (concat (map (print_locks early) prints))"
    using print_disciplined by (intro disciplined_concat) auto
  from disciplined_nest[OF this, of 0 0 "[LLog]" "[Release LLog]"] show ?thesis by (simp add: event_locks_def)
qed

lemma map_pages_disciplined: "disciplined lock_rank 0 9 0 [] 0 (map_pages_from_locks pages)"
  unfolding map_pages_from_locks_def
  by (induction pages) simp_all

lemma task_disciplined: "disciplined lock_rank 0 9 0 [] 0 (task_locks E1000Nic task)"
  using disciplined_nest[OF nic_disciplined, of 0 0 "[]" "[]"] disciplined_nest[OF heap_disciplined[of 0], of 0 0 "[]" "[]"]
  by (cases task) (simp_all add: nics_inside heap_inside event_disciplined map_pages_disciplined)

interpretation e1000_kernel: lock_order lock_rank 9 10 "range (task_locks E1000Nic)" "quiet_handlers E1000Nic"
proof
  show "lock_rank l < 10" for l by (cases l) simp_all
  show "disciplined lock_rank 0 9 0 [] 0 acts" if "acts \<in> range (task_locks E1000Nic)" for acts
    using that task_disciplined by blast
  show "disciplined lock_rank 9 9 1 [] 1 acts" if acts: "acts \<in> quiet_handlers E1000Nic" for acts
  proof -
    obtain i where "acts = irq_locks E1000Nic i" "quiet_irq i" using acts by (auto simp: quiet_handlers_def)
    then show ?thesis by (cases i) simp_all
  qed
qed


subsection \<open>Where the order is broken\<close>

text \<open>A core that is idle starts a section and runs its first operations; what it has to do next.\<close>

fun exec_n :: "nat \<Rightarrow> nat \<Rightarrow> 'l cores \<Rightarrow> 'l cores option" where
  "exec_n 0 c s = Some s"
| "exec_n (Suc k) c s = (case exec c s of None \<Rightarrow> None | Some s' \<Rightarrow> exec_n k c s')"

lemma exec_n_reach: "exec_n k c s = Some s' \<Longrightarrow> (lock_step sections handlers)\<^sup>*\<^sup>* s s'"
  by (induction k arbitrary: s) (auto split: option.splits intro: lock_step.run converse_rtranclp_into_rtranclp)

lemma start_reach:
  assumes "cs_cpus s c = []" "acts \<in> sections" "exec_n k c (s\<lparr>cs_cpus := (cs_cpus s)(c := [(acts, 0)])\<rparr>) = Some s'"
  shows "(lock_step sections handlers)\<^sup>*\<^sup>* s s'"
  using lock_step.start[OF assms(1,2)] exec_n_reach[OF assms(3)] by (rule converse_rtranclp_into_rtranclp)

lemma interrupt_reach:
  assumes "interruptible (cs_cpus s c)" "acts \<in> handlers"
    "exec_n k c (s\<lparr>cs_cpus := (cs_cpus s)(c := (acts, 1) # cs_cpus s c)\<rparr>) = Some s'"
  shows "(lock_step sections handlers)\<^sup>*\<^sup>* s s'"
  using lock_step.interrupt[OF assms(1,2)] exec_n_reach[OF assms(3)] by (rule converse_rtranclp_into_rtranclp)

lemmas run_defs = exec_def heap_uses_def heap_locks_def lazy_map_locks_def event_locks_def print_locks_def idle_def
  interruptible_def numeral_eq_Suc

definition virtio_core0 :: "kernel_lock cores" where
  "virtio_core0 = \<lparr>cs_cpus = (\<lambda>_. [])(0 := [([Release LHeap], 0)]), cs_owner = (\<lambda>_. None)(LHeap := Some 0)\<rparr>"

definition virtio_both :: "kernel_lock cores" where
  "virtio_both = \<lparr>cs_cpus = (\<lambda>_. [])(0 := [([Release LHeap], 0)], 1 := [([Acquire LHeap, Release LHeap, Release LDevice, IntrOn], 1)]),
     cs_owner = (\<lambda>_. None)(LHeap := Some 0, LDevice := Some 1)\<rparr>"

definition virtio_stuck :: "kernel_lock cores" where
  "virtio_stuck = virtio_both\<lparr>cs_cpus := (cs_cpus virtio_both)(0 := [([Acquire LDevice, Release LDevice], 1), ([Release LHeap], 0)])\<rparr>"

text \<open>
  C30. With the virtio driver two cores can deadlock for ever. One core allocates and is interrupted by
  the network card while it holds the lock of the heap; the handler waits for the driver, which another
  core holds with interrupts disabled while it allocates the buffer of an outgoing packet, and so waits
  for the heap. Nothing that any core does afterwards lets either of them go on.
\<close>

theorem virtio_heap_deadlock:
  "\<exists>s. lock_reach (range (task_locks VirtioNic)) (quiet_handlers VirtioNic) s
     \<and> waits_for 0 LDevice s \<and> cs_owner s LDevice = Some 1 \<and> waits_for 1 LHeap s \<and> cs_owner s LHeap = Some 0
     \<and> (\<forall>s'. (lock_step (range (task_locks VirtioNic)) (quiet_handlers VirtioNic))\<^sup>*\<^sup>* s s' \<longrightarrow>
          exec 0 s' = None \<and> exec 1 s' = None)"
proof -
  let ?S = "range (task_locks VirtioNic)" and ?H = "quiet_handlers VirtioNic"
  have secs: "heap_uses [False] \<in> ?S" "nic_locks VirtioNic (NicTxConsume [False]) \<in> ?S"
    using rangeI[of "task_locks VirtioNic" "HeapWork [False]"] rangeI[of "task_locks VirtioNic" "NicCall (NicTxConsume [False])"] by simp_all
  have irq: "[Acquire LDevice, Release LDevice] \<in> ?H"
    unfolding quiet_handlers_def by (rule image_eqI[of _ _ NicIrq]) simp_all
  have "(lock_step ?S ?H)\<^sup>*\<^sup>* idle virtio_core0"
    by (rule start_reach[OF _ secs(1), of _ 0 1]) (simp_all add: run_defs virtio_core0_def)
  also have "(lock_step ?S ?H)\<^sup>*\<^sup>* virtio_core0 virtio_both"
    by (rule start_reach[OF _ secs(2), of _ 1 2]) (simp_all add: run_defs virtio_core0_def virtio_both_def)
  also have "(lock_step ?S ?H)\<^sup>*\<^sup>* virtio_both virtio_stuck"
    by (rule interrupt_reach[OF _ irq, of _ 0 0]) (simp_all add: run_defs virtio_both_def virtio_stuck_def)
  finally have reach: "lock_reach ?S ?H virtio_stuck" by (simp add: lock_reach_def)
  have st: "stuck {0, 1} virtio_stuck" by (simp add: stuck_def virtio_stuck_def virtio_both_def)
  have "exec c s' = None" if "(lock_step ?S ?H)\<^sup>*\<^sup>* virtio_stuck s'" "c \<in> {0, 1}" for s' c
    using stuck_forever[OF that(1) st] that(2) by (rule stuck_exec)
  then show ?thesis using reach by (intro exI[of _ virtio_stuck]) (auto simp: waits_for_def virtio_stuck_def virtio_both_def)
qed

definition log_core0 :: "kernel_lock cores" where
  "log_core0 = \<lparr>cs_cpus = (\<lambda>_. [])(0 := [([Release LLog], 0)]), cs_owner = (\<lambda>_. None)(LLog := Some 0)\<rparr>"

text \<open>
  An interrupt on a vector without a handler stops the core for ever when it hits an event that is
  being logged: \<open>Collector::event\<close> holds its lock with interrupts enabled, and the warning about the missing
  handler waits for the same lock on the same core.
\<close>

theorem log_in_interrupt_deadlock:
  "\<exists>s. lock_reach (range (task_locks nic)) (range (irq_locks nic)) s \<and> waits_for 0 LLog s \<and> cs_owner s LLog = Some 0
     \<and> (\<forall>s'. (lock_step (range (task_locks nic)) (range (irq_locks nic)))\<^sup>*\<^sup>* s s' \<longrightarrow> exec 0 s' = None)"
proof -
  let ?S = "range (task_locks nic)" and ?H = "range (irq_locks nic)"
  let ?s = "log_core0\<lparr>cs_cpus := (cs_cpus log_core0)(0 := [([Acquire LLog, Release LLog], 1), ([Release LLog], 0)])\<rparr>"
  have sec: "[Acquire LLog, Release LLog] \<in> ?S"
    by (rule range_eqI[of _ _ "LogEvent False []"]) (simp add: event_locks_def)
  have irq: "[Acquire LLog, Release LLog] \<in> ?H"
    by (rule range_eqI[of _ _ "EmptyVectorIrq []"]) (cases nic; simp add: event_locks_def)
  have "(lock_step ?S ?H)\<^sup>*\<^sup>* idle log_core0"
    by (rule start_reach[OF _ sec, of _ 0 1]) (simp_all add: run_defs log_core0_def)
  also have "(lock_step ?S ?H)\<^sup>*\<^sup>* log_core0 ?s"
    by (rule interrupt_reach[OF _ irq, of _ 0 0]) (simp_all add: run_defs log_core0_def)
  finally have reach: "lock_reach ?S ?H ?s" by (simp add: lock_reach_def)
  have st: "stuck {0} ?s" by (simp add: stuck_def log_core0_def)
  have "exec 0 s' = None" if "(lock_step ?S ?H)\<^sup>*\<^sup>* ?s s'" for s'
    using stuck_forever[OF that st] by (rule stuck_exec) simp
  then show ?thesis using reach by (intro exI[of _ ?s]) (auto simp: waits_for_def log_core0_def)
qed

subsection \<open>Two cores and one driver\<close>

definition two_polling :: "kernel_lock cores" where
  "two_polling = \<lparr>cs_cpus = (\<lambda>_. [])(0 := [([Release LDevice], 0)], 1 := [([Acquire LDevice, Release LDevice], 0)]),
     cs_owner = (\<lambda>_. None)(LDevice := Some 0)\<rparr>"

lemma two_polling_reach: "lock_reach (range (task_locks E1000Nic)) (quiet_handlers E1000Nic) two_polling"
proof -
  let ?S = "range (task_locks E1000Nic)" and ?H = "quiet_handlers E1000Nic"
  let ?s = "\<lparr>cs_cpus = (\<lambda>_. [])(0 := [([Release LDevice], 0)]), cs_owner = (\<lambda>_. None)(LDevice := Some 0)\<rparr>"
  have sec: "nic_locks E1000Nic NicPoll \<in> ?S" by (rule range_eqI[of _ _ "NicCall NicPoll"]) simp
  have "(lock_step ?S ?H)\<^sup>*\<^sup>* idle ?s"
    by (rule start_reach[OF _ sec, of _ 0 1]) (simp_all add: run_defs)
  also have "(lock_step ?S ?H)\<^sup>*\<^sup>* ?s two_polling"
    by (rule start_reach[OF _ sec, of _ 1 0]) (simp_all add: run_defs two_polling_def)
  finally show ?thesis by (simp add: lock_reach_def)
qed


theorem virtio_heap_deadlock_witness: "\<exists>s. waits_for 0 LDevice s \<and> waits_for 1 LHeap s \<and> exec 0 s = None \<and> exec 1 s = None"
proof -
  obtain s where "waits_for 0 LDevice s" "waits_for 1 LHeap s"
    "\<forall>s'. (lock_step (range (task_locks VirtioNic)) (quiet_handlers VirtioNic))\<^sup>*\<^sup>* s s' \<longrightarrow> exec 0 s' = None \<and> exec 1 s' = None"
    using virtio_heap_deadlock by blast
  then show ?thesis by blast
qed

theorem log_in_interrupt_deadlock_witness: "\<exists>s :: kernel_lock cores. waits_for 0 LLog s \<and> exec 0 s = None"
proof -
  obtain s where "waits_for 0 LLog s"
    "\<forall>s'. (lock_step (range (task_locks E1000Nic)) (range (irq_locks E1000Nic)))\<^sup>*\<^sup>* s s' \<longrightarrow> exec 0 s' = None"
    using log_in_interrupt_deadlock[of E1000Nic] by blast
  then show ?thesis by blast
qed

end
