(* ===== verification/Config_Space.thy ===== *)
theory Config_Space
  imports Pci
begin

text \<open>
  The four ways in which the kernel reaches the configuration space of a PCI function: the accessor of
  the enumeration (\<open>kernel/src/arch/x86_64/pci.rs\<close>), the methods of \<open>PciDevice\<close> (\<open>kernel/src/arch/common.rs\<close>),
  the host of the ACPI interpreter (\<open>kernel/src/arch/x86_64/acpi.rs\<close>) and the accessor of the virtio
  transport (\<open>kernel/src/drivers/virtio/mod.rs\<close>); and the search of ACPI tables for the interpreter.

  Memory-mapped accesses are the record \<open>volatile_mem\<close> on an arbitrary state of the machine, by virtual
  address and width. Pointer arithmetic on raw pointers does not check for overflow.
\<close>

record 'h volatile_mem =
  vm_read8 :: "usize \<Rightarrow> 'h \<Rightarrow> u8 \<times> 'h"
  vm_read16 :: "usize \<Rightarrow> 'h \<Rightarrow> u16 \<times> 'h"
  vm_read32 :: "usize \<Rightarrow> 'h \<Rightarrow> u32 \<times> 'h"
  vm_write8 :: "usize \<Rightarrow> u8 \<Rightarrow> 'h \<Rightarrow> 'h"
  vm_write16 :: "usize \<Rightarrow> u16 \<Rightarrow> 'h \<Rightarrow> 'h"
  vm_write32 :: "usize \<Rightarrow> u32 \<Rightarrow> 'h \<Rightarrow> 'h"

definition byte_add :: "usize \<Rightarrow> usize \<Rightarrow> usize" where
  "byte_add p n = (p + n) mod 2 ^ 64"

section \<open>Enumeration\<close>

definition ConfigRegionAccess_ptr ::
    "'cap pci_access \<Rightarrow> 'pt mapper_api \<Rightarrow> 'pt memory_state \<Rightarrow> PciAddress \<Rightarrow> usize \<Rightarrow> usize res" where
  "ConfigRegionAccess_ptr pa ma st address offset =
     res_bind (unwrap (pa_physical_address pa address)) (\<lambda>phys.
     res_bind (phys_new phys) (\<lambda>phys.
     res_bind (translate_phys_addr ma phys st) (\<lambda>va. Inr (byte_add va offset))))"

definition ConfigRegionAccess_read ::
    "'h volatile_mem \<Rightarrow> 'cap pci_access \<Rightarrow> 'pt mapper_api \<Rightarrow> 'pt memory_state \<Rightarrow> PciAddress \<Rightarrow> usize \<Rightarrow> 'h \<Rightarrow> (u32 \<times> 'h) res" where
  "ConfigRegionAccess_read vm pa ma st address offset h =
     res_bind (ConfigRegionAccess_ptr pa ma st address offset) (\<lambda>ptr. Inr (vm_read32 vm ptr h))"

definition ConfigRegionAccess_write ::
    "'h volatile_mem \<Rightarrow> 'cap pci_access \<Rightarrow> 'pt mapper_api \<Rightarrow> 'pt memory_state \<Rightarrow> PciAddress \<Rightarrow> usize \<Rightarrow> u32 \<Rightarrow> 'h \<Rightarrow> 'h res" where
  "ConfigRegionAccess_write vm pa ma st address offset v h =
     res_bind (ConfigRegionAccess_ptr pa ma st address offset) (\<lambda>ptr. Inr (vm_write32 vm ptr v h))"

section \<open>A device\<close>

text \<open>\<open>PciDevice::read\<close> and \<open>write\<close>, which use the physical address as a pointer.\<close>

definition PciDevice_ptr :: "'cap PciDevice \<Rightarrow> usize \<Rightarrow> usize res" where
  "PciDevice_ptr d offset = usize_add (pd_configuration_address d) offset"

definition PciDevice_read16 :: "'h volatile_mem \<Rightarrow> 'cap PciDevice \<Rightarrow> usize \<Rightarrow> 'h \<Rightarrow> (u16 \<times> 'h) res" where
  "PciDevice_read16 vm d offset h = res_bind (PciDevice_ptr d offset) (\<lambda>ptr. Inr (vm_read16 vm ptr h))"

definition PciDevice_read32 :: "'h volatile_mem \<Rightarrow> 'cap PciDevice \<Rightarrow> usize \<Rightarrow> 'h \<Rightarrow> (u32 \<times> 'h) res" where
  "PciDevice_read32 vm d offset h = res_bind (PciDevice_ptr d offset) (\<lambda>ptr. Inr (vm_read32 vm ptr h))"

definition PciDevice_write16 :: "'h volatile_mem \<Rightarrow> 'cap PciDevice \<Rightarrow> usize \<Rightarrow> u16 \<Rightarrow> 'h \<Rightarrow> 'h res" where
  "PciDevice_write16 vm d offset v h = res_bind (PciDevice_ptr d offset) (\<lambda>ptr. Inr (vm_write16 vm ptr v h))"

text \<open>The flags that \<open>PciCommand\<close> and \<open>PciStatus\<close> declare; \<open>from_bits_truncate\<close> drops the other bits.\<close>

definition flag_bits :: "nat list \<Rightarrow> u16" where
  "flag_bits bits = fold (\<lambda>n w. set_bit n w) bits 0"

definition PciCommand_bits :: "nat list" where
  "PciCommand_bits = [0, 1, 2, 3, 4, 5, 6, 8, 9, 10]"

definition PciStatus_bits :: "nat list" where
  "PciStatus_bits = [3, 4, 5, 7, 8, 11, 12, 13, 14, 15]"

definition CAPABILITIES_LIST :: nat where
  "CAPABILITIES_LIST = 4"

definition from_bits_truncate :: "nat list \<Rightarrow> u16 \<Rightarrow> u16" where
  "from_bits_truncate bits v = v AND flag_bits bits"

definition PciDevice_command :: "'h volatile_mem \<Rightarrow> 'cap PciDevice \<Rightarrow> 'h \<Rightarrow> (u16 \<times> 'h) res" where
  "PciDevice_command vm d h =
     res_bind (PciDevice_read16 vm d 0x04 h) (\<lambda>(v, h). Inr (from_bits_truncate PciCommand_bits v, h))"

definition PciDevice_set_command :: "'h volatile_mem \<Rightarrow> 'cap PciDevice \<Rightarrow> u16 \<Rightarrow> 'h \<Rightarrow> 'h res" where
  "PciDevice_set_command vm d cmd h = PciDevice_write16 vm d 0x04 cmd h"

definition PciDevice_status :: "'h volatile_mem \<Rightarrow> 'cap PciDevice \<Rightarrow> 'h \<Rightarrow> (u16 \<times> 'h) res" where
  "PciDevice_status vm d h =
     res_bind (PciDevice_read16 vm d 0x06 h) (\<lambda>(v, h). Inr (from_bits_truncate PciStatus_bits v, h))"

definition PciDevice_capabilities_offset :: "'h volatile_mem \<Rightarrow> 'cap PciDevice \<Rightarrow> 'h \<Rightarrow> (u8 option \<times> 'h) res" where
  "PciDevice_capabilities_offset vm d h =
     res_bind (PciDevice_status vm d h) (\<lambda>(status, h).
       if bit status CAPABILITIES_LIST
       then res_bind (PciDevice_read32 vm d 0x34 h) (\<lambda>(v, h). Inr (Some (ucast (v AND 0xFC)), h))
       else Inr (None, h))"

text \<open>
  \<open>PciDevice::name\<close>. The database of names (\<open>pci_ids\<close>) is a parameter: vendor and device name, and for a
  class and subclass its name with the names of the programming interfaces.
\<close>

record pci_names =
  pn_device :: "nat \<Rightarrow> nat \<Rightarrow> (string \<times> string) option"
  pn_subclass :: "nat \<Rightarrow> nat \<Rightarrow> (string \<times> (nat \<times> string) list) option"

definition PciDevice_name :: "pci_names \<Rightarrow> 'cap PciDevice \<Rightarrow> string" where
  "PciDevice_name pn d =
     (case pn_device pn (pd_vendor_id d) (pd_device_id d) of
        Some (vendor, name) \<Rightarrow> vendor @ '' '' @ name
      | None \<Rightarrow>
          (case pn_subclass pn (pd_class d) (pd_sub_class d) of
             None \<Rightarrow> ''Unknown Device''
           | Some (name, prog_ifs) \<Rightarrow>
               (case find (\<lambda>(i, _). i = pd_interface d) prog_ifs of Some (_, n) \<Rightarrow> n | None \<Rightarrow> name)))"

section \<open>The host of the ACPI interpreter\<close>

definition Host_pci_address :: "'cap pci_access \<Rightarrow> PciAddress \<Rightarrow> usize \<Rightarrow> usize res" where
  "Host_pci_address pa address offset =
     res_bind (unwrap (pa_physical_address pa address)) (\<lambda>base. usize_add base offset)"

definition Host_pci_readb :: "'h volatile_mem \<Rightarrow> 'cap pci_access \<Rightarrow> PciAddress \<Rightarrow> usize \<Rightarrow> 'h \<Rightarrow> (u8 \<times> 'h) res" where
  "Host_pci_readb vm pa address offset h = res_bind (Host_pci_address pa address offset) (\<lambda>ptr. Inr (vm_read8 vm ptr h))"

definition Host_pci_readw :: "'h volatile_mem \<Rightarrow> 'cap pci_access \<Rightarrow> PciAddress \<Rightarrow> usize \<Rightarrow> 'h \<Rightarrow> (u16 \<times> 'h) res" where
  "Host_pci_readw vm pa address offset h = res_bind (Host_pci_address pa address offset) (\<lambda>ptr. Inr (vm_read16 vm ptr h))"

definition Host_pci_readd :: "'h volatile_mem \<Rightarrow> 'cap pci_access \<Rightarrow> PciAddress \<Rightarrow> usize \<Rightarrow> 'h \<Rightarrow> (u32 \<times> 'h) res" where
  "Host_pci_readd vm pa address offset h = res_bind (Host_pci_address pa address offset) (\<lambda>ptr. Inr (vm_read32 vm ptr h))"

definition Host_pci_writeb :: "'h volatile_mem \<Rightarrow> 'cap pci_access \<Rightarrow> PciAddress \<Rightarrow> usize \<Rightarrow> u8 \<Rightarrow> 'h \<Rightarrow> 'h res" where
  "Host_pci_writeb vm pa address offset v h = res_bind (Host_pci_address pa address offset) (\<lambda>ptr. Inr (vm_write8 vm ptr v h))"

definition Host_pci_writew :: "'h volatile_mem \<Rightarrow> 'cap pci_access \<Rightarrow> PciAddress \<Rightarrow> usize \<Rightarrow> u16 \<Rightarrow> 'h \<Rightarrow> 'h res" where
  "Host_pci_writew vm pa address offset v h = res_bind (Host_pci_address pa address offset) (\<lambda>ptr. Inr (vm_write16 vm ptr v h))"

definition Host_pci_writed :: "'h volatile_mem \<Rightarrow> 'cap pci_access \<Rightarrow> PciAddress \<Rightarrow> usize \<Rightarrow> u32 \<Rightarrow> 'h \<Rightarrow> 'h res" where
  "Host_pci_writed vm pa address offset v h = res_bind (Host_pci_address pa address offset) (\<lambda>ptr. Inr (vm_write32 vm ptr v h))"

text \<open>
  \<open>Host::scan\<close>: the crate \<open>acpi\<close> finds a table and answers where its contents start; the interpreter wants
  the header in front of it. A signature that is not four bytes long is a panic.
\<close>

record acpi_tables =
  at_dsdt :: "usize option"
  at_find_sdt :: "u8 list \<Rightarrow> nat \<Rightarrow> usize option"

definition sizeof_SdtHeader :: usize where
  "sizeof_SdtHeader = 36"

definition DSDT :: "u8 list" where
  "DSDT = [0x44, 0x53, 0x44, 0x54]"

definition Host_scan :: "acpi_tables \<Rightarrow> u8 list \<Rightarrow> nat \<Rightarrow> usize res" where
  "Host_scan at signature index =
     res_bind (if signature = DSDT then Inr (case at_dsdt at of None \<Rightarrow> 0 | Some a \<Rightarrow> a)
               else res_bind (assert_that (length signature = 4)) (\<lambda>_.
                 Inr (case at_find_sdt at signature index of None \<Rightarrow> 0 | Some a \<Rightarrow> a))) (\<lambda>aml_table_ptr.
     if aml_table_ptr = 0 then Inr 0 else usize_sub aml_table_ptr sizeof_SdtHeader)"

text \<open>
  Turning the machine off and restarting it: requests to the interpreter, whose failure is a panic. The interrupt of the
  ACPI hardware turns the machine off when the power button was pressed.
\<close>

record 's lai_power =
  lp_enter_sleep_shutdown :: "'s \<Rightarrow> bool \<times> 's"
  lp_reset :: "'s \<Rightarrow> bool \<times> 's"
  lp_get_sci_event :: "'s \<Rightarrow> bool \<times> 's"

definition shutdown :: "'s lai_power \<Rightarrow> 's \<Rightarrow> 's res" where
  "shutdown lp s = (case lp_enter_sleep_shutdown lp s of (ok, s) \<Rightarrow> if ok then Inr s else Inl UnwrapFailed)"

definition reboot :: "'s lai_power \<Rightarrow> 's \<Rightarrow> 's res" where
  "reboot lp s = (case lp_reset lp s of (ok, s) \<Rightarrow> if ok then Inr s else Inl UnwrapFailed)"

definition acpi_handle_interrupt :: "'s lai_power \<Rightarrow> 's \<Rightarrow> 's res" where
  "acpi_handle_interrupt lp s =
     (case lp_get_sci_event lp s of (power_button, s) \<Rightarrow> if power_button then shutdown lp s else Inr s)"

text \<open>
  The other services of the host for the interpreter: ports, memory, which the boot loader has mapped already, time. A
  pause does not wait, and reading the timer is not implemented.
\<close>

record 'h port_io =
  po_out8 :: "nat \<Rightarrow> u8 \<Rightarrow> 'h \<Rightarrow> 'h"
  po_out16 :: "nat \<Rightarrow> u16 \<Rightarrow> 'h \<Rightarrow> 'h"
  po_out32 :: "nat \<Rightarrow> u32 \<Rightarrow> 'h \<Rightarrow> 'h"
  po_in8 :: "nat \<Rightarrow> 'h \<Rightarrow> u8 \<times> 'h"
  po_in16 :: "nat \<Rightarrow> 'h \<Rightarrow> u16 \<times> 'h"
  po_in32 :: "nat \<Rightarrow> 'h \<Rightarrow> u32 \<times> 'h"

definition Host_outb :: "'h port_io \<Rightarrow> nat \<Rightarrow> u8 \<Rightarrow> 'h \<Rightarrow> 'h" where "Host_outb po port v = po_out8 po port v"
definition Host_outw :: "'h port_io \<Rightarrow> nat \<Rightarrow> u16 \<Rightarrow> 'h \<Rightarrow> 'h" where "Host_outw po port v = po_out16 po port v"
definition Host_outd :: "'h port_io \<Rightarrow> nat \<Rightarrow> u32 \<Rightarrow> 'h \<Rightarrow> 'h" where "Host_outd po port v = po_out32 po port v"
definition Host_inb :: "'h port_io \<Rightarrow> nat \<Rightarrow> 'h \<Rightarrow> u8 \<times> 'h" where "Host_inb po port = po_in8 po port"
definition Host_inw :: "'h port_io \<Rightarrow> nat \<Rightarrow> 'h \<Rightarrow> u16 \<times> 'h" where "Host_inw po port = po_in16 po port"
definition Host_ind :: "'h port_io \<Rightarrow> nat \<Rightarrow> 'h \<Rightarrow> u32 \<times> 'h" where "Host_ind po port = po_in32 po port"

definition Host_map :: "usize \<Rightarrow> usize \<Rightarrow> usize" where "Host_map address n = address"
definition Host_unmap :: "usize \<Rightarrow> usize \<Rightarrow> 'h \<Rightarrow> 'h" where "Host_unmap address n h = h"
definition Host_sleep :: "nat \<Rightarrow> 'h \<Rightarrow> 'h" where "Host_sleep ms h = h"
definition Host_timer :: "'h \<Rightarrow> (nat \<times> 'h) res" where "Host_timer h = Inl ExplicitPanic"

text \<open>\<open>AcpiHandlerImpl\<close>: a mapping is the physical address itself, which must not be the null pointer.\<close>

definition map_physical_region :: "usize \<Rightarrow> usize \<Rightarrow> (usize \<times> usize \<times> usize) res" where
  "map_physical_region physical_address n =
     (if physical_address = 0 then Inl UnwrapFailed else Inr (physical_address, physical_address, n))"

text \<open>\<open>pci_route_pin\<close>: the interpreter routes the pin of the device (a parameter); the line is cut to a byte.\<close>

definition pci_route_pin :: "(PciAddress \<Rightarrow> nat \<Rightarrow> 'e + nat) \<Rightarrow> 'cap PciDevice \<Rightarrow> 'e + nat" where
  "pci_route_pin lai_pci_route_pin d =
     res_bind (lai_pci_route_pin (pd_address d) (pd_interrupt_pin d)) (\<lambda>base. Inr (base mod 256))"

section \<open>The virtio transport\<close>

definition ConfigAccess_physical_address :: "'cap pci_access \<Rightarrow> PciAddress \<Rightarrow> usize \<Rightarrow> usize res" where
  "ConfigAccess_physical_address pa address offset =
     res_bind (unwrap (pa_physical_address pa address)) (\<lambda>addr. usize_add addr offset)"

definition ConfigAccess_ptr ::
    "'cap pci_access \<Rightarrow> 'pt mapper_api \<Rightarrow> 'pt memory_state \<Rightarrow> PciAddress \<Rightarrow> u8 \<Rightarrow> usize res" where
  "ConfigAccess_ptr pa ma st address register_offset =
     res_bind (ConfigAccess_physical_address pa address (unat register_offset)) (\<lambda>addr.
     res_bind (phys_new addr) (\<lambda>addr. translate_phys_addr ma addr st))"

definition ConfigAccess_read_word ::
    "'h volatile_mem \<Rightarrow> 'cap pci_access \<Rightarrow> 'pt mapper_api \<Rightarrow> 'pt memory_state \<Rightarrow> PciAddress \<Rightarrow> u8 \<Rightarrow> 'h \<Rightarrow> (u32 \<times> 'h) res" where
  "ConfigAccess_read_word vm pa ma st address register_offset h =
     res_bind (ConfigAccess_ptr pa ma st address register_offset) (\<lambda>ptr. Inr (vm_read32 vm ptr h))"

definition ConfigAccess_write_word ::
    "'h volatile_mem \<Rightarrow> 'cap pci_access \<Rightarrow> 'pt mapper_api \<Rightarrow> 'pt memory_state \<Rightarrow> PciAddress \<Rightarrow> u8 \<Rightarrow> u32 \<Rightarrow> 'h \<Rightarrow> 'h res" where
  "ConfigAccess_write_word vm pa ma st address register_offset v h =
     res_bind (ConfigAccess_ptr pa ma st address register_offset) (\<lambda>ptr. Inr (vm_write32 vm ptr v h))"

section \<open>One configuration space\<close>

text \<open>
  The boot loader maps physical memory twice, at address zero and at the higher-half offset: an access
  through either mapping is the same access.
\<close>

definition mapped_twice :: "'h volatile_mem \<Rightarrow> usize \<Rightarrow> bool" where
  "mapped_twice vm offset \<longleftrightarrow>
     (\<forall>p h. vm_read32 vm (offset + p) h = vm_read32 vm p h) \<and> (\<forall>p v h. vm_write32 vm (offset + p) v h = vm_write32 vm p v h)"

lemma higher_half_pointers:
  assumes st: "mm_mapper st = Some pt" and phys: "pa_physical_address pa address = Some phys"
    and fits: "phys + 4096 \<le> 2 ^ 52" "canonical (pt_phys_offset ma pt + phys)" "canonical (pt_phys_offset ma pt + phys + unat r)"
    "pt_phys_offset ma pt + phys + 4096 \<le> 2 ^ 64" and r: "unat r < 256"
  shows "ConfigRegionAccess_ptr pa ma st address (unat r) = Inr (pt_phys_offset ma pt + (phys + unat r))"
    "ConfigAccess_ptr pa ma st address r = Inr (pt_phys_offset ma pt + (phys + unat r))"
    "Host_pci_address pa address (unat r) = Inr (phys + unat r)"
  using assms by (simp_all add: ConfigRegionAccess_ptr_def ConfigAccess_ptr_def ConfigAccess_physical_address_def Host_pci_address_def
      phys_new_def translate_phys_addr_def virt_add_def byte_add_def add.assoc)

text \<open>
  C36. All four accessors reach the same register: for a function that exists, at an offset below 256, the
  accessor of the enumeration, the device the enumeration recorded, the host of the ACPI interpreter
  and the accessor of the virtio transport read the same word from the same place and write to the same
  place, none of them panics, although two of them go through the higher half and two use the physical
  address as a pointer.
\<close>

theorem config_space_views_agree:
  assumes vm: "mapped_twice vm (pt_phys_offset ma pt)" and st: "mm_mapper st = Some pt"
    and phys: "pa_physical_address pa address = Some phys"
    and fits: "phys + 4096 \<le> 2 ^ 52" "pt_phys_offset ma pt + phys + 4096 \<le> 2 ^ 64"
      "canonical (pt_phys_offset ma pt + phys)" "canonical (pt_phys_offset ma pt + phys + unat r)"
  shows "ConfigRegionAccess_read vm pa ma st address (unat r) h = Inr (vm_read32 vm (phys + unat r) h)
    \<and> PciDevice_read32 vm (new_device pa offset address) (unat r) h = Inr (vm_read32 vm (phys + unat r) h)
    \<and> Host_pci_readd vm pa address (unat r) h = Inr (vm_read32 vm (phys + unat r) h)
    \<and> ConfigAccess_read_word vm pa ma st address r h = Inr (vm_read32 vm (phys + unat r) h)
    \<and> ConfigRegionAccess_write vm pa ma st address (unat r) v h = Inr (vm_write32 vm (phys + unat r) v h)
    \<and> Host_pci_writed vm pa address (unat r) v h = Inr (vm_write32 vm (phys + unat r) v h)
    \<and> ConfigAccess_write_word vm pa ma st address r v h = Inr (vm_write32 vm (phys + unat r) v h)"
proof -
  have r: "unat r < 256" using unsigned_less[of r] by simp
  note ptrs = higher_half_pointers[OF st phys fits(1,3,4,2) r]
  have dev: "PciDevice_ptr (new_device pa offset address) (unat r) = Inr (phys + unat r)"
    using phys fits(1) r by (simp add: PciDevice_ptr_def new_device_def case_prod_beta)
  show ?thesis using vm
    by (simp add: mapped_twice_def ConfigRegionAccess_read_def ConfigRegionAccess_write_def PciDevice_read32_def
        Host_pci_readd_def Host_pci_writed_def ConfigAccess_read_word_def ConfigAccess_write_word_def ptrs dev)
qed

text \<open>
  The capability pointer is believed only when the status register has its bit, whatever the other bits
  are, and is the byte at 0x34 without its two reserved bits.
\<close>

lemma status_capabilities: "bit (from_bits_truncate PciStatus_bits v) CAPABILITIES_LIST \<longleftrightarrow> bit v 4"
  by (simp add: from_bits_truncate_def flag_bits_def PciStatus_bits_def CAPABILITIES_LIST_def bit_simps)

lemma capabilities_offset_exact:
  assumes "pd_configuration_address d + 256 \<le> 2 ^ 64" "vm_read16 vm (pd_configuration_address d + 6) h = (status, h1)"
    "vm_read32 vm (pd_configuration_address d + 0x34) h1 = (v, h2)"
  shows "PciDevice_capabilities_offset vm d h =
    Inr (if bit status 4 then (Some (ucast v AND 0xFC), h2) else (None, h1))"
proof -
  have "(ucast (v AND 0xFC) :: u8) = ucast v AND 0xFC"
    by (rule bit_word_eqI) (auto simp: bit_simps)
  then show ?thesis using assms
    by (simp add: PciDevice_capabilities_offset_def PciDevice_status_def PciDevice_read16_def PciDevice_read32_def PciDevice_ptr_def
        status_capabilities)
qed

text \<open>
  What the interpreter gets for a table: the address of its header when the table exists (its contents
  start right behind the header), null when it does not, for signatures of four bytes.
\<close>

lemma acpi_scan_exact:
  assumes "length signature = 4"
    and "\<And>a. (if signature = DSDT then at_dsdt at else at_find_sdt at signature i) = Some a \<Longrightarrow> \<exists>hdr. 0 < hdr \<and> a = hdr + 36"
  shows "Host_scan at signature i =
    Inr (case (if signature = DSDT then at_dsdt at else at_find_sdt at signature i) of None \<Rightarrow> 0 | Some a \<Rightarrow> a - 36)"
  using assms(1) assms(2)
  by (auto simp: Host_scan_def sizeof_SdtHeader_def split: option.splits)

section \<open>A small machine\<close>

definition id_mem :: "nat volatile_mem" where
  "id_mem = \<lparr>vm_read8 = (\<lambda>_ h. (0, h)), vm_read16 = (\<lambda>_ h. (0, h)), vm_read32 = (\<lambda>p h. (of_nat (p mod 65536), h)),
     vm_write8 = (\<lambda>_ _ h. h), vm_write16 = (\<lambda>_ _ h. h), vm_write32 = (\<lambda>_ _ h. Suc h)\<rparr>"

definition one_function :: "unit pci_access" where
  "one_function = \<lparr>pa_segments = [0], pa_physical_address = (\<lambda>a. if a = (0, 0, 1, 0) then Some 32768 else None),
     pa_multiple = (\<lambda>_. False), pa_id = (\<lambda>_. (0x1AF4, 0x1041)), pa_revision_and_class = (\<lambda>_. (0, 2, 0, 0)),
     pa_header_type = (\<lambda>_. Endpoint), pa_subsystem = (\<lambda>_. (0, 0)), pa_bar = (\<lambda>_ _. None), pa_interrupt = (\<lambda>_. (1, 11)),
     pa_capabilities = (\<lambda>_. []), pa_secondary_bus = (\<lambda>_. 0), pa_subordinate_bus = (\<lambda>_. 0)\<rparr>"

definition high_mapper :: "(usize \<Rightarrow> usize option) mapper_api" where
  "high_mapper = fun_mapper\<lparr>pt_phys_offset := (\<lambda>_. 0xFFFF800000000000)\<rparr>"

theorem config_space_views_agree_witness:
  "ConfigRegionAccess_read id_mem one_function high_mapper small_state (0, 0, 1, 0) 4 7 = Inr (32772, 7)
   \<and> ConfigAccess_read_word id_mem one_function high_mapper small_state (0, 0, 1, 0) 4 7 = Inr (32772, 7)"
proof -
  have vm: "mapped_twice id_mem (pt_phys_offset high_mapper Map.empty)"
  proof -
    have "(0xFFFF800000000000 + p) mod 65536 = p mod 65536" for p :: nat
      by (subst mod_add_eq[symmetric]) simp
    then show ?thesis by (simp add: mapped_twice_def id_mem_def high_mapper_def)
  qed
  have st: "mm_mapper small_state = Some Map.empty" by (simp add: small_state_def)
  have phys: "pa_physical_address one_function (0, 0, 1, 0) = Some 32768" by (simp add: one_function_def)
  have four: "unat (4 :: u8) = 4" by simp
  show ?thesis
    using config_space_views_agree[OF vm st phys, of 4 7] unfolding four
    by (simp add: high_mapper_def canonical_def id_mem_def)
qed

end
