(* ===== verification/Virtio.thy ===== *)
theory Virtio
  imports Dma Config_Space Input_Queue
begin

text \<open>
  The virtio drivers (\<open>kernel/src/drivers/virtio\<close>): the services the crate \<open>virtio_drivers\<close> asks of the kernel
  (\<open>Hal\<close>), the transport, the network device with its tokens and its poll function, and the socket device.
  The crate itself is a parameter: \<open>virtio_net_api\<close> on an arbitrary device state, with the documented
  behaviour as the hypothesis \<open>virtio_net_spec\<close>.
\<close>

section \<open>Services for the crate\<close>

definition Hal_dma_alloc :: "'h dma_env \<Rightarrow> usize \<Rightarrow> 'h \<Rightarrow> ((usize \<times> usize) \<times> 'h) res" where
  "Hal_dma_alloc da pages h =
     res_bind (usize_mul pages 4096) (\<lambda>len.
     res_bind (Dma_new_zeroed_slice da (1, 1) len 4096 h) (\<lambda>(dma, h).
     res_bind (Dma_phys_addr da dma h) (\<lambda>phys.
     res_bind (unwrap (if Dma_leak dma = 0 then None else Some (Dma_leak dma))) (\<lambda>virt.
       Inr ((phys, virt), h)))))"

definition Hal_dma_dealloc :: "usize \<Rightarrow> usize \<Rightarrow> usize \<Rightarrow> 'h \<Rightarrow> int \<times> 'h" where
  "Hal_dma_dealloc paddr vaddr pages h = (0, h)"

definition Hal_mmio_phys_to_virt :: "'pt mapper_api \<Rightarrow> usize \<Rightarrow> usize \<Rightarrow> 'pt memory_state \<Rightarrow> (usize \<times> 'pt memory_state) res" where
  "Hal_mmio_phys_to_virt ma paddr sz st =
     res_bind (phys_new paddr) (\<lambda>paddr.
     res_bind (map_address ma paddr sz st) (\<lambda>(va, st).
       res_bind (unwrap (if va = 0 then None else Some va)) (\<lambda>va. Inr (va, st))))"

definition Hal_share :: "'pt mapper_api \<Rightarrow> usize \<Rightarrow> 'pt memory_state \<Rightarrow> usize res" where
  "Hal_share ma buffer st =
     res_bind (assert_that (canonical buffer)) (\<lambda>_.
     res_bind (translate_virt_addr ma buffer st) (\<lambda>pa. unwrap pa))"

definition Hal_unshare :: "usize \<Rightarrow> usize \<Rightarrow> 'h \<Rightarrow> 'h" where
  "Hal_unshare paddr buffer h = h"

section \<open>Transport and devices\<close>

datatype virtio_error = NotReady | OtherVirtioError nat

record ('t, 'd, 'rb, 'tb) virtio_net_api =
  vn_set_command :: "PciAddress \<Rightarrow> 't \<Rightarrow> 't"
  vn_transport :: "PciAddress \<Rightarrow> 't \<Rightarrow> nat + 't"
  vn_device :: "'t \<Rightarrow> usize \<Rightarrow> nat + 'd"
  vn_set_queue_msix_vector :: "nat \<Rightarrow> 'd \<Rightarrow> 'd"
  vn_get_queue_msix_vector :: "'d \<Rightarrow> nat"
  vn_enable_interrupts :: "'d \<Rightarrow> 'd"
  vn_mac_address :: "'d \<Rightarrow> u8 list"
  vn_can_recv :: "'d \<Rightarrow> bool"
  vn_receive :: "'d \<Rightarrow> (virtio_error + 'rb) \<times> 'd"
  vn_packet :: "'rb \<Rightarrow> u8 list"
  vn_recycle_rx_buffer :: "'rb \<Rightarrow> 'd \<Rightarrow> bool \<times> 'd"
  vn_new_tx_buffer :: "usize \<Rightarrow> 'd \<Rightarrow> 'tb \<times> 'd"
  vn_packet_mut :: "'tb \<Rightarrow> u8 list"
  vn_fill :: "u8 list \<Rightarrow> 'tb \<Rightarrow> 'tb"
  vn_send :: "'tb \<Rightarrow> 'd \<Rightarrow> bool \<times> 'd"

definition create_transport :: "('t, 'd, 'rb, 'tb) virtio_net_api \<Rightarrow> 'cap PciDevice \<Rightarrow> 't \<Rightarrow> nat + 't" where
  "create_transport vn header root =
     vn_transport vn (pd_address header) (vn_set_command vn (pd_address header) root)"

text \<open>The device behind its mutex; every operation below runs with the mutex held and interrupts disabled.\<close>

record ('d, 'w) WrapperInner =
  wi_device :: 'd
  wi_waker :: 'w

definition WrapperInner_handle_irq :: "'w waker_api \<Rightarrow> ('d, 'w) WrapperInner \<Rightarrow> bool \<times> ('d, 'w) WrapperInner" where
  "WrapperInner_handle_irq wa self =
     (case w_wake wa (wi_waker self) of (woken, w) \<Rightarrow> (woken, self\<lparr>wi_waker := w\<rparr>))"

text \<open>\<open>Wrapper::new\<close>; \<open>guard\<close> is the outcome of registering the handler as a message-signalled interrupt.\<close>

definition Wrapper_new ::
    "('t, 'd, 'rb, 'tb) virtio_net_api \<Rightarrow> 'w waker_api \<Rightarrow> 'g option \<Rightarrow> 'd \<Rightarrow> (('d, 'w) WrapperInner \<times> 'g) res" where
  "Wrapper_new vn wa guard device =
     res_bind (unwrap guard) (\<lambda>g.
     let device = vn_enable_interrupts vn (vn_set_queue_msix_vector vn 0 device) in
     res_bind (assert_that (vn_get_queue_msix_vector vn device = 0)) (\<lambda>_.
       Inr (\<lparr>wi_device = device, wi_waker = w_new wa\<rparr>, g)))"

definition Wrapper_receive ::
    "('t, 'd, 'rb, 'tb) virtio_net_api \<Rightarrow> ('d, 'w) WrapperInner \<Rightarrow> ('rb option \<times> nat option) \<times> ('d, 'w) WrapperInner" where
  "Wrapper_receive vn self =
     (case vn_receive vn (wi_device self) of (r, device) \<Rightarrow>
        ((case r of Inr buf \<Rightarrow> (Some buf, None) | Inl NotReady \<Rightarrow> (None, None) | Inl (OtherVirtioError e) \<Rightarrow> (None, Some e)),
         self\<lparr>wi_device := device\<rparr>))"

definition VirtioRxToken_consume ::
    "('t, 'd, 'rb, 'tb) virtio_net_api \<Rightarrow> 'rb \<Rightarrow> (u8 list \<Rightarrow> 'r) \<Rightarrow> ('d, 'w) WrapperInner \<Rightarrow> ('r \<times> ('d, 'w) WrapperInner) res" where
  "VirtioRxToken_consume vn buf f self =
     (let result = f (vn_packet vn buf) in
      case vn_recycle_rx_buffer vn buf (wi_device self) of (ok, device) \<Rightarrow>
        res_bind (assert_that ok) (\<lambda>_. Inr (result, self\<lparr>wi_device := device\<rparr>)))"

definition VirtioTxToken_consume ::
    "('t, 'd, 'rb, 'tb) virtio_net_api \<Rightarrow> usize \<Rightarrow> (u8 list \<Rightarrow> 'r \<times> u8 list) \<Rightarrow> ('d, 'w) WrapperInner
       \<Rightarrow> ('r \<times> ('d, 'w) WrapperInner) res" where
  "VirtioTxToken_consume vn len f self =
     (case vn_new_tx_buffer vn len (wi_device self) of (tx_buf, device) \<Rightarrow>
      case f (vn_packet_mut vn tx_buf) of (result, bytes) \<Rightarrow>
      case vn_send vn (vn_fill vn bytes tx_buf) device of (ok, device) \<Rightarrow>
        res_bind (assert_that ok) (\<lambda>_. Inr (result, self\<lparr>wi_device := device\<rparr>)))"

definition Wrapper_address :: "('t, 'd, 'rb, 'tb) virtio_net_api \<Rightarrow> ('d, 'w) WrapperInner \<Rightarrow> u8 list" where
  "Wrapper_address vn self = vn_mac_address vn (wi_device self)"

definition Wrapper_poll ::
    "('t, 'd, 'rb, 'tb) virtio_net_api \<Rightarrow> 'w waker_api \<Rightarrow> ('d, 'w) WrapperInner \<Rightarrow> unit poll \<times> ('d, 'w) WrapperInner" where
  "Wrapper_poll vn wa self =
     (let self = self\<lparr>wi_waker := w_register wa (wi_waker self)\<rparr>
      in (if vn_can_recv vn (wi_device self) then Ready () else Pending, self))"

text \<open>\<open>init\<close> of the network and of the socket device: which devices they take, and what they set up.\<close>

datatype virtio_init_error = TransportError nat | DeviceError nat | VirtioPanic panic

definition virtio_net_init ::
    "('t, 'd, 'rb, 'tb) virtio_net_api \<Rightarrow> 'w waker_api \<Rightarrow> 'g option \<Rightarrow> 'cap PciDevice \<Rightarrow> 't
       \<Rightarrow> virtio_init_error + (('d, 'w) WrapperInner \<times> 'g) option" where
  "virtio_net_init vn wa guard header root =
     (if pd_vendor_id header \<noteq> 0x1af4 \<or> (pd_device_id header \<noteq> 0x1000 \<and> pd_device_id header \<noteq> 0x1041) then Inr None
      else
        (case create_transport vn header root of
           Inl e \<Rightarrow> Inl (TransportError e)
         | Inr transport \<Rightarrow>
             (case vn_device vn transport 1600 of
                Inl e \<Rightarrow> Inl (DeviceError e)
              | Inr device \<Rightarrow>
                  (case Wrapper_new vn wa guard device of Inl p \<Rightarrow> Inl (VirtioPanic p) | Inr w \<Rightarrow> Inr (Some w)))))"

definition virtio_sock_init ::
    "('t, 'd, 'rb, 'tb) virtio_net_api \<Rightarrow> ('t \<Rightarrow> nat + 's) \<Rightarrow> 'cap PciDevice \<Rightarrow> 't \<Rightarrow> virtio_init_error + 's option" where
  "virtio_sock_init vn socket_new header root =
     (if pd_vendor_id header \<noteq> 0x1af4 \<or> pd_device_id header \<noteq> 0x1053 then Inr None
      else
        (case create_transport vn header root of
           Inl e \<Rightarrow> Inl (TransportError e)
         | Inr transport \<Rightarrow> (case socket_new transport of Inl e \<Rightarrow> Inl (DeviceError e) | Inr device \<Rightarrow> Inr (Some device))))"

section \<open>Receiving\<close>

text \<open>
  The documented behaviour of the network device of the crate: \<open>frames\<close> are the packets received and not yet
  taken, \<open>lent\<close> the buffers handed out and not yet given back.
\<close>

definition virtio_net_spec ::
    "('t, 'd, 'rb, 'tb) virtio_net_api \<Rightarrow> ('d \<Rightarrow> u8 list list) \<Rightarrow> ('d \<Rightarrow> 'rb list) \<Rightarrow> bool" where
  "virtio_net_spec vn frames lent \<longleftrightarrow>
     (\<forall>d. vn_can_recv vn d \<longleftrightarrow> frames d \<noteq> [])
   \<and> (\<forall>d. frames d = [] \<longrightarrow> vn_receive vn d = (Inl NotReady, d))
   \<and> (\<forall>d f fs. frames d = f # fs \<longrightarrow>
        (\<exists>buf d'. vn_receive vn d = (Inr buf, d') \<and> vn_packet vn buf = f \<and> frames d' = fs \<and> lent d' = buf # lent d))
   \<and> (\<forall>buf d. buf \<in> set (lent d) \<longrightarrow>
        (\<exists>d'. vn_recycle_rx_buffer vn buf d = (True, d') \<and> frames d' = frames d \<and> lent d' = remove1 buf (lent d)))"

text \<open>
  The network task, the interrupt handler and the device: frames arrive while a buffer is free and raise
  an interrupt; the handler runs; the task polls and, when that is pending, sleeps until its waker is
  called; while awake it receives and consumes.
\<close>

record ('d, 'w) vnet_system =
  vs_inner :: "('d, 'w) WrapperInner"
  vs_irq :: bool
  vs_asleep :: bool
  vs_notified :: bool
  vs_came :: "u8 list list"
  vs_got :: "u8 list list"

inductive vnet_step ::
    "('t, 'd, 'rb, 'tb) virtio_net_api \<Rightarrow> 'w waker_api \<Rightarrow> ('d \<Rightarrow> u8 list list) \<Rightarrow> ('d \<Rightarrow> 'rb list)
       \<Rightarrow> ('d, 'w) vnet_system \<Rightarrow> ('d, 'w) vnet_system \<Rightarrow> bool" for vn wa frames lent where
  arrive: "length (frames (wi_device (vs_inner s))) + length (lent (wi_device (vs_inner s))) < 16 \<Longrightarrow>
    frames d = frames (wi_device (vs_inner s)) @ [f] \<Longrightarrow> lent d = lent (wi_device (vs_inner s)) \<Longrightarrow>
    vnet_step vn wa frames lent s (s\<lparr>vs_inner := (vs_inner s)\<lparr>wi_device := d\<rparr>, vs_irq := True, vs_came := vs_came s @ [f]\<rparr>)"
| irq: "vs_irq s \<Longrightarrow> WrapperInner_handle_irq wa (vs_inner s) = (woken, w) \<Longrightarrow>
    vnet_step vn wa frames lent s (s\<lparr>vs_inner := w, vs_irq := False, vs_notified := vs_notified s \<or> woken\<rparr>)"
| poll: "\<not> vs_asleep s \<Longrightarrow> Wrapper_poll vn wa (vs_inner s) = (r, w) \<Longrightarrow>
    vnet_step vn wa frames lent s (s\<lparr>vs_inner := w, vs_asleep := (r = Pending)\<rparr>)"
| awake: "vs_asleep s \<Longrightarrow> vs_notified s \<Longrightarrow> vnet_step vn wa frames lent s (s\<lparr>vs_asleep := False, vs_notified := False\<rparr>)"
| take: "\<not> vs_asleep s \<Longrightarrow> Wrapper_receive vn (vs_inner s) = ((Some buf, e), w) \<Longrightarrow>
    VirtioRxToken_consume vn buf (\<lambda>p. p) w = Inr (bytes, w') \<Longrightarrow>
    vnet_step vn wa frames lent s (s\<lparr>vs_inner := w', vs_got := vs_got s @ [bytes]\<rparr>)"

definition vnet_start :: "('d \<Rightarrow> u8 list list) \<Rightarrow> ('d \<Rightarrow> 'rb list) \<Rightarrow> ('d, 'w) vnet_system \<Rightarrow> bool" where
  "vnet_start frames lent s \<longleftrightarrow> frames (wi_device (vs_inner s)) = [] \<and> lent (wi_device (vs_inner s)) = []
     \<and> \<not> vs_irq s \<and> \<not> vs_asleep s \<and> \<not> vs_notified s \<and> vs_came s = [] \<and> vs_got s = []"

inductive vnet_reach ::
    "('t, 'd, 'rb, 'tb) virtio_net_api \<Rightarrow> 'w waker_api \<Rightarrow> ('d \<Rightarrow> u8 list list) \<Rightarrow> ('d \<Rightarrow> 'rb list)
       \<Rightarrow> ('d, 'w) vnet_system \<Rightarrow> bool" for vn wa frames lent where
  vnet_begin: "vnet_start frames lent s \<Longrightarrow> vnet_reach vn wa frames lent s"
| vnet_more: "vnet_reach vn wa frames lent s \<Longrightarrow> vnet_step vn wa frames lent s s' \<Longrightarrow> vnet_reach vn wa frames lent s'"

definition vnet_inv :: "('w \<Rightarrow> bool) \<Rightarrow> ('d \<Rightarrow> u8 list list) \<Rightarrow> ('d \<Rightarrow> 'rb list) \<Rightarrow> ('d, 'w) vnet_system \<Rightarrow> bool" where
  "vnet_inv registered frames lent s \<longleftrightarrow>
     (let d = wi_device (vs_inner s) in
        lent d = [] \<and> length (frames d) \<le> 16 \<and> vs_came s = vs_got s @ frames d
      \<and> (vs_asleep s \<longrightarrow> vs_notified s \<or> registered (wi_waker (vs_inner s)))
      \<and> (vs_asleep s \<and> frames d \<noteq> [] \<longrightarrow> vs_notified s \<or> vs_irq s))"

lemma receive_consume:
  assumes spec: "virtio_net_spec vn frames lent" and inv: "lent (wi_device self) = []" "frames (wi_device self) = f # fs"
  shows "\<exists>buf w w'. Wrapper_receive vn self = ((Some buf, None), w) \<and> VirtioRxToken_consume vn buf g w = Inr (g f, w')
    \<and> frames (wi_device w') = fs \<and> lent (wi_device w') = [] \<and> wi_waker w' = wi_waker self"
proof -
  note sp = spec[unfolded virtio_net_spec_def, THEN conjunct2, THEN conjunct2]
  obtain buf d where r: "vn_receive vn (wi_device self) = (Inr buf, d)" "vn_packet vn buf = f" "frames d = fs" "lent d = [buf]"
    using sp[THEN conjunct1, rule_format, OF inv(2)] inv(1) by auto
  have "buf \<in> set (lent d)" using r(4) by simp
  then obtain d' where c: "vn_recycle_rx_buffer vn buf d = (True, d')" "frames d' = fs" "lent d' = []"
    using sp[THEN conjunct2, rule_format] r(3,4) by fastforce
  show ?thesis using r c by (simp add: Wrapper_receive_def VirtioRxToken_consume_def)
qed

lemma vnet_inv_step:
  assumes spec: "virtio_net_spec vn frames lent" and wk: "waker_spec wa registered"
    and step: "vnet_step vn wa frames lent s s'" and inv: "vnet_inv registered frames lent s"
  shows "vnet_inv registered frames lent s'"
  using step
proof cases
  case (arrive d f)
  then show ?thesis using inv by (auto simp: vnet_inv_def Let_def)
next
  case (irq woken w)
  then have "woken = registered (wi_waker (vs_inner s))" "wi_device w = wi_device (vs_inner s)"
    using waker_specD(3)[OF wk, of "wi_waker (vs_inner s)"] by (auto simp: WrapperInner_handle_irq_def split: prod.splits)
  then show ?thesis using irq(1) inv by (auto simp: vnet_inv_def Let_def)
next
  case (poll r w)
  then have "registered (wi_waker w)" "wi_device w = wi_device (vs_inner s)" "r = Pending \<longleftrightarrow> frames (wi_device (vs_inner s)) = []"
    using waker_specD(1)[OF wk] spec by (auto simp: Wrapper_poll_def Let_def virtio_net_spec_def split: if_splits)
  then show ?thesis using poll(1) inv by (auto simp: vnet_inv_def Let_def)
next
  case awake
  then show ?thesis using inv by (auto simp: vnet_inv_def Let_def)
next
  case (take buf e w bytes w')
  have l: "lent (wi_device (vs_inner s)) = []" using inv by (simp add: vnet_inv_def Let_def)
  show ?thesis
  proof (cases "frames (wi_device (vs_inner s))")
    case Nil
    then have "vn_receive vn (wi_device (vs_inner s)) = (Inl NotReady, wi_device (vs_inner s))"
      using spec unfolding virtio_net_spec_def by blast
    then show ?thesis using take(3) by (simp add: Wrapper_receive_def)
  next
    case (Cons f fs)
    then show ?thesis using receive_consume[OF spec l Cons, of "\<lambda>p. p"] take inv by (auto simp: vnet_inv_def Let_def)
  qed
qed

lemma vnet_reach_inv:
  assumes "virtio_net_spec vn frames lent" "waker_spec wa registered" "vnet_reach vn wa frames lent s"
  shows "vnet_inv registered frames lent s"
  using assms(3)
proof induction
  case (vnet_begin s)
  then show ?case by (simp add: vnet_start_def vnet_inv_def Let_def)
next
  case (vnet_more s s')
  then show ?case using vnet_inv_step[OF assms(1,2)] by blast
qed

text \<open>
  C33. The virtio network driver loses no frame and no wake-up: in every state that the device, the
  interrupt handler and the network task can reach, the frames that came are those delivered followed by
  at most 16 that wait; \<open>receive\<close> returns nothing exactly when none waits, and otherwise consuming its
  token does not panic, yields the oldest waiting frame and gives the buffer back; and a task that
  sleeps while a frame waits has been woken, or the interrupt that wakes it is pending.
\<close>

theorem virtio_rx_in_order:
  assumes spec: "virtio_net_spec vn frames lent" and wk: "waker_spec wa registered" and reach: "vnet_reach vn wa frames lent s"
  shows "\<exists>fs. vs_came s = vs_got s @ fs \<and> length fs \<le> 16 \<and> lent (wi_device (vs_inner s)) = []
    \<and> (fs = [] \<longleftrightarrow> fst (fst (Wrapper_receive vn (vs_inner s))) = None)
    \<and> (\<forall>f fs'. fs = f # fs' \<longrightarrow> (\<exists>buf w w'. Wrapper_receive vn (vs_inner s) = ((Some buf, None), w)
         \<and> VirtioRxToken_consume vn buf (\<lambda>p. p) w = Inr (f, w')))
    \<and> (vs_asleep s \<and> fs \<noteq> [] \<longrightarrow> vs_notified s
         \<or> (vs_irq s \<and> fst (WrapperInner_handle_irq wa (vs_inner s))))"
proof -
  let ?fs = "frames (wi_device (vs_inner s))"
  have inv: "lent (wi_device (vs_inner s)) = []" "vs_came s = vs_got s @ ?fs" "length ?fs \<le> 16"
    "vs_asleep s \<Longrightarrow> \<not> vs_notified s \<Longrightarrow> registered (wi_waker (vs_inner s))"
    "vs_asleep s \<Longrightarrow> ?fs \<noteq> [] \<Longrightarrow> \<not> vs_notified s \<Longrightarrow> vs_irq s"
    using vnet_reach_inv[OF spec wk reach] by (auto simp: vnet_inv_def Let_def)
  have none: "fst (fst (Wrapper_receive vn (vs_inner s))) = None" if "?fs = []"
    using spec that unfolding virtio_net_spec_def by (simp add: Wrapper_receive_def)
  have wake: "fst (WrapperInner_handle_irq wa (vs_inner s)) = registered (wi_waker (vs_inner s))"
    using waker_specD(3)[OF wk, of "wi_waker (vs_inner s)"] by (simp add: WrapperInner_handle_irq_def case_prod_beta)
  have some: "\<exists>buf w w'. Wrapper_receive vn (vs_inner s) = ((Some buf, None), w) \<and> VirtioRxToken_consume vn buf (\<lambda>p. p) w = Inr (f, w')"
    if "?fs = f # fs'" for f fs'
    using receive_consume[OF spec inv(1) that, of "\<lambda>p. p"] by blast
  show ?thesis
    using inv none wake some by (intro exI[of _ ?fs]) (cases ?fs; fastforce)
qed

section \<open>Buffers given to the device\<close>

text \<open>What \<open>dma_alloc\<close> hands out is page aligned and zero, and the physical address is that of its first page.\<close>

lemma dma_alloc_exact:
  assumes spec: "dma_spec da byte" and call: "Hal_dma_alloc da pages h = Inr ((phys, virt), h')"
  shows "4096 dvd virt \<and> virt \<noteq> 0 \<and> (\<forall>i<4096 * pages. byte (virt + i) h' = 0)
    \<and> (\<forall>i<4096. da_translate da (virt + i) h' = Some (phys + i))"
proof -
  obtain dma where d: "Dma_new_zeroed_slice da (1, 1) (pages * 4096) 4096 h = Inr (dma, h')"
    "Dma_phys_addr da dma h' = Inr phys" "virt = dm_ptr dma" "virt \<noteq> 0"
    using call by (auto simp: Hal_dma_alloc_def Dma_leak_def split: if_splits)
  show ?thesis using dma_page_buffer[OF spec d(1)] d(2-4) by (simp add: mult.commute)
qed

text \<open>
  \<open>share\<close> translates the first byte. The rest of the buffer is where the device looks for it as long as it
  is on the same page; on the next page that holds only if its frame is the next one, too.
\<close>

lemma share_pages:
  assumes st: "mm_mapper st = Some pt" and can: "canonical buffer" and off: "buffer mod 4096 = o1"
    and first: "\<And>a. align_down a 4096 = align_down buffer 4096 \<Longrightarrow> pt_translate ma pt a = Some (f1 + a mod 4096)"
    and second: "\<And>a. align_down a 4096 = align_down buffer 4096 + 4096 \<Longrightarrow> pt_translate ma pt a = Some (f2 + a mod 4096)"
  shows "Hal_share ma buffer st = Inr (f1 + o1)"
    "o1 + i < 4096 \<Longrightarrow> pt_translate ma pt (buffer + i) = Some (f1 + o1 + i)"
    "4096 \<le> o1 + i \<Longrightarrow> o1 + i < 8192 \<Longrightarrow> pt_translate ma pt (buffer + i) = Some (f2 + (o1 + i - 4096))"
proof -
  have pos: "buffer = align_down buffer 4096 + o1" "align_down buffer 4096 mod 4096 = 0" "o1 < 4096"
    using off by (auto simp: align_down_def minus_mod_eq_mult_div)
  show "Hal_share ma buffer st = Inr (f1 + o1)"
    using st can first[of buffer] off by (simp add: Hal_share_def translate_virt_addr_def)
  let ?p = "align_down buffer 4096"
  have at: "align_down (?p + j) 4096 = ?p \<and> (?p + j) mod 4096 = j" if "j < 4096" for j
  proof -
    have "(?p + j) mod 4096 = j" using pos(2) that by (metis add_cancel_left_left mod_add_left_eq mod_less)
    then show ?thesis by (simp add: align_down_def)
  qed
  have at2: "align_down (?p + j) 4096 = ?p + 4096 \<and> (?p + j) mod 4096 = j - 4096" if j: "4096 \<le> j" "j < 8192" for j
  proof -
    have "(?p + j) mod 4096 = j mod 4096" using pos(2) by (metis add_cancel_left_left mod_add_left_eq)
    moreover have "j mod 4096 = j - 4096" using j by (simp add: le_mod_geq)
    ultimately show ?thesis using j by (simp add: align_down_def)
  qed
  have b: "buffer + i = ?p + (o1 + i)" using pos(1) by linarith
  show "o1 + i < 4096 \<Longrightarrow> pt_translate ma pt (buffer + i) = Some (f1 + o1 + i)"
    using first[of "?p + (o1 + i)"] at[of "o1 + i"] unfolding b by (simp add: add.assoc)
  show "4096 \<le> o1 + i \<Longrightarrow> o1 + i < 8192 \<Longrightarrow> pt_translate ma pt (buffer + i) = Some (f2 + (o1 + i - 4096))"
    using second[of "?p + (o1 + i)"] at2[of "o1 + i"] unfolding b by (simp add: add.assoc)
qed

section \<open>A device of lists\<close>

definition list_vnet :: "(unit, u8 list list \<times> u8 list list, u8 list, u8 list) virtio_net_api" where
  "list_vnet = \<lparr>vn_set_command = (\<lambda>_ t. t), vn_transport = (\<lambda>_ t. Inr t), vn_device = (\<lambda>_ _. Inr ([], [])),
     vn_set_queue_msix_vector = (\<lambda>_ d. d), vn_get_queue_msix_vector = (\<lambda>_. 0), vn_enable_interrupts = (\<lambda>d. d),
     vn_mac_address = (\<lambda>_. [2, 0, 0, 0, 0, 1]), vn_can_recv = (\<lambda>d. fst d \<noteq> []),
     vn_receive = (\<lambda>d. case fst d of [] \<Rightarrow> (Inl NotReady, d) | f # fs \<Rightarrow> (Inr f, fs, f # snd d)),
     vn_packet = (\<lambda>b. b), vn_recycle_rx_buffer = (\<lambda>b d. (b \<in> set (snd d), fst d, remove1 b (snd d))),
     vn_new_tx_buffer = (\<lambda>n d. (replicate n 0, d)), vn_packet_mut = (\<lambda>b. b), vn_fill = (\<lambda>bs _. bs), vn_send = (\<lambda>_ d. (True, d))\<rparr>"

lemma list_vnet_spec: "virtio_net_spec list_vnet fst snd"
  by (simp add: virtio_net_spec_def list_vnet_def)

text \<open>The task polls, sleeps, and then a frame arrives.\<close>

abbreviation vnet_state :: "u8 list list \<Rightarrow> bool \<Rightarrow> bool \<Rightarrow> (u8 list list \<times> u8 list list, bool) vnet_system" where
  "vnet_state fs reg irq \<equiv> \<lparr>vs_inner = \<lparr>wi_device = (fs, []), wi_waker = reg\<rparr>, vs_irq = irq, vs_asleep = reg,
     vs_notified = False, vs_came = fs, vs_got = []\<rparr>"

lemma sleeping_vnet_reach: "vnet_reach list_vnet flag_waker fst snd (vnet_state [[7, 8]] True True)"
proof -
  let ?R = "vnet_reach list_vnet flag_waker fst snd"
  have "?R (vnet_state [] False False)" by (rule vnet_begin) (simp add: vnet_start_def)
  from vnet_more[OF this vnet_step.poll[of _ list_vnet flag_waker Pending "\<lparr>wi_device = ([], []), wi_waker = True\<rparr>"]]
  have "?R (vnet_state [] True False)" by (simp add: Wrapper_poll_def list_vnet_def flag_waker_def)
  from vnet_more[OF this vnet_step.arrive[of _ _ _ "([[7, 8]], [])" "[7, 8]"]]
  show ?thesis by simp
qed

theorem virtio_rx_in_order_witness:
  "\<exists>buf w w'. Wrapper_receive list_vnet (vs_inner (vnet_state [[7, 8]] True True)) = ((Some buf, None), w)
     \<and> VirtioRxToken_consume list_vnet buf (\<lambda>p. p) w = Inr ([7, 8], w')"
  using virtio_rx_in_order[OF list_vnet_spec flag_waker_spec sleeping_vnet_reach] by auto

end
