(* ===== verification/Sockets.thy ===== *)
theory Sockets
  imports Net
begin

text \<open>
  The life of sockets (\<open>kernel/src/net/mod.rs\<close>): every socket of the kernel lives in the set \<open>SOCKETS\<close> of the
  network stack under a handle, from its constructor to its \<open>Drop\<close>; a DNS query lives in its socket from
  \<open>start_query\<close> until its result is taken or \<open>DropQuery\<close> cancels it. Then the registration of a device, the
  loop of the interface task and the loop of IPv6 autoconfiguration.

  The socket set and the sockets of \<open>smoltcp\<close> are parameters. A method of theirs that documents a panic
  (an unknown handle, a socket of another kind, a query handle without a query) answers \<open>None\<close>.
\<close>

section \<open>The socket set\<close>

datatype socket_kind = KTcp | KDns | KDhcp4 | KIcmp

datatype ('t, 'd, 'p, 'i) any_socket = TcpSock 't | DnsSock 'd | Dhcp4Sock 'p | IcmpSock 'i

fun kind_of :: "('t, 'd, 'p, 'i) any_socket \<Rightarrow> socket_kind" where
  "kind_of (TcpSock _) = KTcp" | "kind_of (DnsSock _) = KDns" | "kind_of (Dhcp4Sock _) = KDhcp4" | "kind_of (IcmpSock _) = KIcmp"

record ('ss, 's) socket_set =
  ss_add :: "'s \<Rightarrow> 'ss \<Rightarrow> nat \<times> 'ss"
  ss_get :: "nat \<Rightarrow> 'ss \<Rightarrow> 's option"
  ss_put :: "nat \<Rightarrow> 's \<Rightarrow> 'ss \<Rightarrow> 'ss"
  ss_remove :: "nat \<Rightarrow> 'ss \<Rightarrow> 'ss option"

record ('t, 'd, 'p, 'i) sockets_api =
  sk_tcp_new :: 't
  sk_tcp_listen :: "IpAddress \<times> nat \<Rightarrow> 't \<Rightarrow> bool \<times> 't"
  sk_tcp_set_timeout :: "nat option \<Rightarrow> 't \<Rightarrow> 't"
  sk_dns_new :: "IpAddress list \<Rightarrow> 'd"
  sk_dns_update_servers :: "IpAddress list \<Rightarrow> 'd \<Rightarrow> 'd"
  sk_dns_start_query :: "string \<Rightarrow> nat \<Rightarrow> 'd \<Rightarrow> nat option \<times> 'd"
  sk_dns_get_query_result :: "nat \<Rightarrow> 'd \<Rightarrow> (IpAddress list dns_result \<times> 'd) option"
  sk_dns_cancel_query :: "nat \<Rightarrow> 'd \<Rightarrow> 'd option"
  sk_dhcp4_new :: 'p
  sk_icmp_new :: 'i
  sk_icmp_bind :: "nat option \<Rightarrow> 'i \<Rightarrow> bool \<times> 'i"
  sk_icmp_is_open :: "'i \<Rightarrow> bool"
  sk_icmp_set_hop_limit :: "nat \<Rightarrow> 'i \<Rightarrow> 'i"

text \<open>\<open>SOCKETS.lock().get_mut::<T>(handle)\<close> and what is done with the socket; an \<open>unwrap\<close> inside the library is a panic.\<close>

definition tcp_mut ::
    "('ss, ('t, 'd, 'p, 'i) any_socket) socket_set \<Rightarrow> nat \<Rightarrow> ('t \<Rightarrow> ('r \<times> 't) option) \<Rightarrow> 'ss \<Rightarrow> ('r \<times> 'ss) res" where
  "tcp_mut sa handle f ss =
     (case ss_get sa handle ss of
        Some (TcpSock s) \<Rightarrow> res_bind (unwrap (f s)) (\<lambda>(r, s'). Inr (r, ss_put sa handle (TcpSock s') ss))
      | _ \<Rightarrow> Inl ExplicitPanic)"

definition dns_mut ::
    "('ss, ('t, 'd, 'p, 'i) any_socket) socket_set \<Rightarrow> nat \<Rightarrow> ('d \<Rightarrow> ('r \<times> 'd) option) \<Rightarrow> 'ss \<Rightarrow> ('r \<times> 'ss) res" where
  "dns_mut sa handle f ss =
     (case ss_get sa handle ss of
        Some (DnsSock s) \<Rightarrow> res_bind (unwrap (f s)) (\<lambda>(r, s'). Inr (r, ss_put sa handle (DnsSock s') ss))
      | _ \<Rightarrow> Inl ExplicitPanic)"

definition icmp_mut ::
    "('ss, ('t, 'd, 'p, 'i) any_socket) socket_set \<Rightarrow> nat \<Rightarrow> ('i \<Rightarrow> ('r \<times> 'i) option) \<Rightarrow> 'ss \<Rightarrow> ('r \<times> 'ss) res" where
  "icmp_mut sa handle f ss =
     (case ss_get sa handle ss of
        Some (IcmpSock s) \<Rightarrow> res_bind (unwrap (f s)) (\<lambda>(r, s'). Inr (r, ss_put sa handle (IcmpSock s') ss))
      | _ \<Rightarrow> Inl ExplicitPanic)"

definition TcpSocket_new ::
    "('ss, ('t, 'd, 'p, 'i) any_socket) socket_set \<Rightarrow> ('t, 'd, 'p, 'i) sockets_api \<Rightarrow> 'ss \<Rightarrow> nat \<times> 'ss" where
  "TcpSocket_new sa sk ss = ss_add sa (TcpSock (sk_tcp_new sk)) ss"

definition TcpSocket_listen ::
    "('ss, ('t, 'd, 'p, 'i) any_socket) socket_set \<Rightarrow> ('t, 'd, 'p, 'i) sockets_api \<Rightarrow> IpAddress \<times> nat \<Rightarrow> nat \<Rightarrow> 'ss
       \<Rightarrow> ((net_error + unit) \<times> 'ss) res" where
  "TcpSocket_listen sa sk endpoint handle =
     tcp_mut sa handle (\<lambda>s. case sk_tcp_listen sk endpoint s of (ok, s') \<Rightarrow> Some (if ok then Inr () else Inl TcpListen, s'))"

definition TcpSocket_set_timeout ::
    "('ss, ('t, 'd, 'p, 'i) any_socket) socket_set \<Rightarrow> ('t, 'd, 'p, 'i) sockets_api \<Rightarrow> nat option \<Rightarrow> nat \<Rightarrow> 'ss
       \<Rightarrow> (unit \<times> 'ss) res" where
  "TcpSocket_set_timeout sa sk micros handle = tcp_mut sa handle (\<lambda>s. Some ((), sk_tcp_set_timeout sk micros s))"

text \<open>\<open>Drop\<close> of all four kinds.\<close>

definition Socket_drop :: "('ss, 's) socket_set \<Rightarrow> nat \<Rightarrow> 'ss \<Rightarrow> 'ss res" where
  "Socket_drop sa handle ss = unwrap (ss_remove sa handle ss)"

definition DnsSocket_create ::
    "('ss, ('t, 'd, 'p, 'i) any_socket) socket_set \<Rightarrow> ('t, 'd, 'p, 'i) sockets_api \<Rightarrow> 'r InterfaceInner option \<Rightarrow> 'ss
       \<Rightarrow> (nat \<times> 'ss) res" where
  "DnsSocket_create sa sk default_driver ss =
     res_bind (unwrap default_driver) (\<lambda>inner.
       Inr (ss_add sa (DnsSock (sk_dns_update_servers sk (ni_dns_servers inner) (sk_dns_new sk []))) ss))"

definition DnsSocket_update_servers ::
    "('ss, ('t, 'd, 'p, 'i) any_socket) socket_set \<Rightarrow> ('t, 'd, 'p, 'i) sockets_api \<Rightarrow> IpAddress list \<Rightarrow> nat \<Rightarrow> 'ss
       \<Rightarrow> (unit \<times> 'ss) res" where
  "DnsSocket_update_servers sa sk servers handle = dns_mut sa handle (\<lambda>s. Some ((), sk_dns_update_servers sk servers s))"

text \<open>\<open>query\<close>: its start, one poll of its result, and the guard that cancels it when the future is dropped.\<close>

definition DnsSocket_query_start ::
    "('ss, ('t, 'd, 'p, 'i) any_socket) socket_set \<Rightarrow> ('t, 'd, 'p, 'i) sockets_api \<Rightarrow> string \<Rightarrow> nat \<Rightarrow> nat \<Rightarrow> 'ss
       \<Rightarrow> ((net_error + nat) \<times> 'ss) res" where
  "DnsSocket_query_start sa sk name typ handle =
     dns_mut sa handle (\<lambda>s. case sk_dns_start_query sk name typ s of
       (Some q, s') \<Rightarrow> Some (Inr q, s') | (None, s') \<Rightarrow> Some (Inl DnsStartQuery, s'))"

definition DnsSocket_query_result ::
    "('ss, ('t, 'd, 'p, 'i) any_socket) socket_set \<Rightarrow> ('t, 'd, 'p, 'i) sockets_api \<Rightarrow> nat \<Rightarrow> nat \<Rightarrow> 'ss
       \<Rightarrow> ((net_error + IpAddress list) poll \<times> 'ss) res" where
  "DnsSocket_query_result sa sk query_handle handle =
     dns_mut sa handle (\<lambda>s. map_option (\<lambda>(r, s').
       ((case r of DnsResults results \<Rightarrow> Ready (Inr results) | DnsPending \<Rightarrow> Pending | DnsFailed \<Rightarrow> Ready (Inl DnsFinishQuery)), s'))
       (sk_dns_get_query_result sk query_handle s))"

definition DropQuery_drop ::
    "('ss, ('t, 'd, 'p, 'i) any_socket) socket_set \<Rightarrow> ('t, 'd, 'p, 'i) sockets_api \<Rightarrow> nat \<Rightarrow> nat \<Rightarrow> 'ss \<Rightarrow> 'ss res" where
  "DropQuery_drop sa sk query_handle handle ss =
     (case ss_get sa handle ss of
        Some (DnsSock s) \<Rightarrow> res_bind (unwrap (sk_dns_cancel_query sk query_handle s)) (\<lambda>s'. Inr (ss_put sa handle (DnsSock s') ss))
      | _ \<Rightarrow> Inr ss)"

definition Dhcp4Socket_new ::
    "('ss, ('t, 'd, 'p, 'i) any_socket) socket_set \<Rightarrow> ('t, 'd, 'p, 'i) sockets_api \<Rightarrow> 'ss \<Rightarrow> nat \<times> 'ss" where
  "Dhcp4Socket_new sa sk ss = ss_add sa (Dhcp4Sock (sk_dhcp4_new sk)) ss"

definition IcmpSocket_bind ::
    "('ss, ('t, 'd, 'p, 'i) any_socket) socket_set \<Rightarrow> ('t, 'd, 'p, 'i) sockets_api \<Rightarrow> nat option \<Rightarrow> 'ss \<Rightarrow> (nat \<times> 'ss) res" where
  "IcmpSocket_bind sa sk endpoint ss =
     (case sk_icmp_bind sk endpoint (sk_icmp_new sk) of (ok, s) \<Rightarrow>
        res_bind (unwrap (if ok then Some () else None)) (\<lambda>_.
        res_bind (assert_that (sk_icmp_is_open sk s)) (\<lambda>_. Inr (ss_add sa (IcmpSock s) ss))))"

definition IcmpSocket_set_hop_limit ::
    "('ss, ('t, 'd, 'p, 'i) any_socket) socket_set \<Rightarrow> ('t, 'd, 'p, 'i) sockets_api \<Rightarrow> nat \<Rightarrow> nat \<Rightarrow> 'ss \<Rightarrow> (unit \<times> 'ss) res" where
  "IcmpSocket_set_hop_limit sa sk limit handle = icmp_mut sa handle (\<lambda>s. Some ((), sk_icmp_set_hop_limit sk limit s))"

section \<open>No socket and no query outlives its owner\<close>

text \<open>
  The documented behaviour of the library: the set is a map from handles to sockets with fresh handles,
  a new ICMP socket can be bound and is then open, and a DNS socket has the queries that were started
  and neither finished nor cancelled.
\<close>

definition socket_set_spec :: "('ss, 's) socket_set \<Rightarrow> bool" where
  "socket_set_spec sa \<longleftrightarrow>
     (\<forall>s ss h ss'. ss_add sa s ss = (h, ss') \<longrightarrow> ss_get sa h ss = None \<and> (\<lambda>i. ss_get sa i ss') = (\<lambda>i. ss_get sa i ss)(h \<mapsto> s))
   \<and> (\<forall>h s ss. ss_get sa h ss \<noteq> None \<longrightarrow> (\<lambda>i. ss_get sa i (ss_put sa h s ss)) = (\<lambda>i. ss_get sa i ss)(h \<mapsto> s))
   \<and> (\<forall>h ss. ss_get sa h ss \<noteq> None \<longrightarrow>
        (\<exists>ss'. ss_remove sa h ss = Some ss' \<and> (\<lambda>i. ss_get sa i ss') = (\<lambda>i. ss_get sa i ss)(h := None)))"

definition sockets_spec :: "('t, 'd, 'p, 'i) sockets_api \<Rightarrow> ('d \<Rightarrow> nat set) \<Rightarrow> bool" where
  "sockets_spec sk queries \<longleftrightarrow>
     (\<forall>ep. fst (sk_icmp_bind sk ep (sk_icmp_new sk)) \<and> sk_icmp_is_open sk (snd (sk_icmp_bind sk ep (sk_icmp_new sk))))
   \<and> (\<forall>servers. queries (sk_dns_new sk servers) = {}) \<and> (\<forall>servers s. queries (sk_dns_update_servers sk servers s) = queries s)
   \<and> (\<forall>name typ s r s'. sk_dns_start_query sk name typ s = (r, s') \<longrightarrow>
        (case r of None \<Rightarrow> queries s' = queries s | Some q \<Rightarrow> q \<notin> queries s \<and> queries s' = insert q (queries s)))
   \<and> (\<forall>q s. q \<in> queries s \<longrightarrow> (\<exists>r s'. sk_dns_get_query_result sk q s = Some (r, s')
        \<and> queries s' = (if r = DnsPending then queries s else queries s - {q})))
   \<and> (\<forall>q s. q \<in> queries s \<longrightarrow> (\<exists>s'. sk_dns_cancel_query sk q s = Some s' \<and> queries s' = queries s - {q}))"

text \<open>
  What the tasks of the kernel do with sockets, and the ghost state of ownership: which handles are
  owned, their kinds, and the queries whose futures exist. A method is called on an owned handle of its
  kind; a future is polled or dropped only before it is finished; a socket is dropped when no future
  borrows it.
\<close>

datatype sock_op =
    NewTcp | NewDns | NewDhcp4 | BindIcmp "nat option" | Listen "IpAddress \<times> nat" nat | SetTimeout "nat option" nat
  | UpdateServers "IpAddress list" nat | SetHopLimit nat nat | StartQuery string nat nat | PollQuery nat nat | DropQuery nat nat
  | DropSocket nat

type_synonym owners = "nat \<rightharpoonup> socket_kind \<times> nat set"

fun allowed :: "owners \<Rightarrow> sock_op \<Rightarrow> bool" where
  "allowed live (Listen _ h) = (map_option fst (live h) = Some KTcp)"
| "allowed live (SetTimeout _ h) = (map_option fst (live h) = Some KTcp)"
| "allowed live (UpdateServers _ h) = (map_option fst (live h) = Some KDns)"
| "allowed live (StartQuery _ _ h) = (map_option fst (live h) = Some KDns)"
| "allowed live (PollQuery q h) = (\<exists>Q. live h = Some (KDns, Q) \<and> q \<in> Q)"
| "allowed live (DropQuery q h) = (\<exists>Q. live h = Some (KDns, Q) \<and> q \<in> Q)"
| "allowed live (SetHopLimit _ h) = (map_option fst (live h) = Some KIcmp)"
| "allowed live (DropSocket h) = (\<exists>k. live h = Some (k, {}))"
| "allowed live _ = True"

definition add_owner :: "nat \<Rightarrow> socket_kind \<Rightarrow> owners \<Rightarrow> owners" where
  "add_owner h k live = live(h \<mapsto> (k, {}))"

definition set_queries :: "(nat set \<Rightarrow> nat set) \<Rightarrow> nat \<Rightarrow> owners \<Rightarrow> owners" where
  "set_queries f h live = live(h := map_option (\<lambda>(k, Q). (k, f Q)) (live h))"

fun sock_run ::
    "('ss, ('t, 'd, 'p, 'i) any_socket) socket_set \<Rightarrow> ('t, 'd, 'p, 'i) sockets_api \<Rightarrow> 'r InterfaceInner \<Rightarrow> sock_op
       \<Rightarrow> 'ss \<times> owners \<Rightarrow> ('ss \<times> owners) res" where
  "sock_run sa sk inner NewTcp (ss, live) = (case TcpSocket_new sa sk ss of (h, ss') \<Rightarrow> Inr (ss', add_owner h KTcp live))"
| "sock_run sa sk inner NewDns (ss, live) =
     res_bind (DnsSocket_create sa sk (Some inner) ss) (\<lambda>(h, ss'). Inr (ss', add_owner h KDns live))"
| "sock_run sa sk inner NewDhcp4 (ss, live) = (case Dhcp4Socket_new sa sk ss of (h, ss') \<Rightarrow> Inr (ss', add_owner h KDhcp4 live))"
| "sock_run sa sk inner (BindIcmp ep) (ss, live) =
     res_bind (IcmpSocket_bind sa sk ep ss) (\<lambda>(h, ss'). Inr (ss', add_owner h KIcmp live))"
| "sock_run sa sk inner (Listen ep h) (ss, live) = res_bind (TcpSocket_listen sa sk ep h ss) (\<lambda>(_, ss'). Inr (ss', live))"
| "sock_run sa sk inner (SetTimeout t h) (ss, live) = res_bind (TcpSocket_set_timeout sa sk t h ss) (\<lambda>(_, ss'). Inr (ss', live))"
| "sock_run sa sk inner (UpdateServers s h) (ss, live) = res_bind (DnsSocket_update_servers sa sk s h ss) (\<lambda>(_, ss'). Inr (ss', live))"
| "sock_run sa sk inner (SetHopLimit l h) (ss, live) = res_bind (IcmpSocket_set_hop_limit sa sk l h ss) (\<lambda>(_, ss'). Inr (ss', live))"
| "sock_run sa sk inner (StartQuery name typ h) (ss, live) =
     res_bind (DnsSocket_query_start sa sk name typ h ss) (\<lambda>(r, ss').
       Inr (ss', case r of Inr q \<Rightarrow> set_queries (insert q) h live | Inl _ \<Rightarrow> live))"
| "sock_run sa sk inner (PollQuery q h) (ss, live) =
     res_bind (DnsSocket_query_result sa sk q h ss) (\<lambda>(r, ss').
       Inr (ss', case r of Pending \<Rightarrow> live | Ready _ \<Rightarrow> set_queries (\<lambda>Q. Q - {q}) h live))"
| "sock_run sa sk inner (DropQuery q h) (ss, live) =
     res_bind (DropQuery_drop sa sk q h ss) (\<lambda>ss'. Inr (ss', set_queries (\<lambda>Q. Q - {q}) h live))"
| "sock_run sa sk inner (DropSocket h) (ss, live) = res_bind (Socket_drop sa h ss) (\<lambda>ss'. Inr (ss', live(h := None)))"

inductive sock_reach ::
    "('ss, ('t, 'd, 'p, 'i) any_socket) socket_set \<Rightarrow> ('t, 'd, 'p, 'i) sockets_api \<Rightarrow> 'r InterfaceInner \<Rightarrow> 'ss \<times> owners \<Rightarrow> bool"
  for sa sk inner where
  empty: "(\<And>h. ss_get sa h ss = None) \<Longrightarrow> sock_reach sa sk inner (ss, Map.empty)"
| op: "sock_reach sa sk inner (ss, live) \<Longrightarrow> allowed live oper \<Longrightarrow> sock_run sa sk inner oper (ss, live) = Inr (ss', live') \<Longrightarrow>
    sock_reach sa sk inner (ss', live')"

text \<open>A socket and what its owner believes of it.\<close>

fun owned_as :: "('d \<Rightarrow> nat set) \<Rightarrow> ('t, 'd, 'p, 'i) any_socket \<Rightarrow> socket_kind \<times> nat set" where
  "owned_as queries (DnsSock s) = (KDns, queries s)"
| "owned_as queries s = (kind_of s, {})"

definition owners_of :: "('ss, ('t, 'd, 'p, 'i) any_socket) socket_set \<Rightarrow> ('d \<Rightarrow> nat set) \<Rightarrow> 'ss \<Rightarrow> owners" where
  "owners_of sa queries ss = (\<lambda>h. map_option (owned_as queries) (ss_get sa h ss))"

lemma owners_update:
  assumes "(\<lambda>i. ss_get sa i ss') = (\<lambda>i. ss_get sa i ss)(h \<mapsto> s)"
  shows "owners_of sa queries ss' = (owners_of sa queries ss)(h \<mapsto> owned_as queries s)"
  unfolding owners_of_def fun_eq_iff using fun_cong[OF assms] by simp

lemma owners_add:
  assumes "socket_set_spec sa" "ss_add sa s ss = (h, ss')"
  shows "owners_of sa queries ss' = (owners_of sa queries ss)(h \<mapsto> owned_as queries s)"
  using owners_update assms unfolding socket_set_spec_def by metis

lemma owners_put:
  assumes "socket_set_spec sa" "ss_get sa h ss = Some s0"
  shows "owners_of sa queries (ss_put sa h s ss) = (owners_of sa queries ss)(h \<mapsto> owned_as queries s)"
  using owners_update assms unfolding socket_set_spec_def by (metis option.distinct(1))

lemma owners_remove:
  assumes "socket_set_spec sa" "owners_of sa queries ss h \<noteq> None"
  shows "\<exists>ss'. ss_remove sa h ss = Some ss' \<and> owners_of sa queries ss' = (owners_of sa queries ss)(h := None)"
proof -
  have "ss_get sa h ss \<noteq> None" using assms(2) by (simp add: owners_of_def)
  then obtain ss' where "ss_remove sa h ss = Some ss'" and eq: "(\<lambda>i. ss_get sa i ss') = (\<lambda>i. ss_get sa i ss)(h := None)"
    using assms(1) unfolding socket_set_spec_def by blast
  moreover have "owners_of sa queries ss' = (owners_of sa queries ss)(h := None)"
    unfolding owners_of_def fun_eq_iff using fun_cong[OF eq] by simp
  ultimately show ?thesis by blast
qed

lemma owned_Dns: "owned_as queries s = (KDns, Q) \<longleftrightarrow> (\<exists>d. s = DnsSock d \<and> queries d = Q)"
  by (cases s) auto

lemma owned_Tcp: "owned_as queries s = (KTcp, Q) \<longleftrightarrow> (\<exists>d. s = TcpSock d) \<and> Q = {}"
  by (cases s) auto

lemma owned_Icmp: "owned_as queries s = (KIcmp, Q) \<longleftrightarrow> (\<exists>d. s = IcmpSock d) \<and> Q = {}"
  by (cases s) auto

lemma sockets_specD:
  assumes "sockets_spec sk queries"
  shows "fst (sk_icmp_bind sk ep (sk_icmp_new sk))" "sk_icmp_is_open sk (snd (sk_icmp_bind sk ep (sk_icmp_new sk)))"
    "queries (sk_dns_new sk servers) = {}" "queries (sk_dns_update_servers sk servers s) = queries s"
    "queries (snd (sk_dns_start_query sk name typ s)) =
       (case fst (sk_dns_start_query sk name typ s) of None \<Rightarrow> queries s | Some q \<Rightarrow> insert q (queries s))"
    "q \<in> queries s \<Longrightarrow> \<exists>r s'. sk_dns_get_query_result sk q s = Some (r, s') \<and> queries s' = (if r = DnsPending then queries s else queries s - {q})"
    "q \<in> queries s \<Longrightarrow> \<exists>s'. sk_dns_cancel_query sk q s = Some s' \<and> queries s' = queries s - {q}"
proof -
  note D = assms[unfolded sockets_spec_def]
  show "fst (sk_icmp_bind sk ep (sk_icmp_new sk))" "sk_icmp_is_open sk (snd (sk_icmp_bind sk ep (sk_icmp_new sk)))"
    using D[THEN conjunct1] by blast+
  show "queries (sk_dns_new sk servers) = {}" using D[THEN conjunct2, THEN conjunct1] by blast
  show "queries (sk_dns_update_servers sk servers s) = queries s" using D[THEN conjunct2, THEN conjunct2, THEN conjunct1] by blast
  show "queries (snd (sk_dns_start_query sk name typ s)) =
       (case fst (sk_dns_start_query sk name typ s) of None \<Rightarrow> queries s | Some q \<Rightarrow> insert q (queries s))"
    using D[THEN conjunct2, THEN conjunct2, THEN conjunct2, THEN conjunct1, rule_format,
        of name "typ" s "fst (sk_dns_start_query sk name typ s)" "snd (sk_dns_start_query sk name typ s)"]
    by (auto split: option.splits)
  show "q \<in> queries s \<Longrightarrow> \<exists>r s'. sk_dns_get_query_result sk q s = Some (r, s') \<and> queries s' = (if r = DnsPending then queries s else queries s - {q})"
    using D[THEN conjunct2, THEN conjunct2, THEN conjunct2, THEN conjunct2, THEN conjunct1] by blast
  show "q \<in> queries s \<Longrightarrow> \<exists>s'. sk_dns_cancel_query sk q s = Some s' \<and> queries s' = queries s - {q}"
    using D[THEN conjunct2, THEN conjunct2, THEN conjunct2, THEN conjunct2, THEN conjunct2] by blast
qed

text \<open>A method on an owned socket of its kind: it does not panic and the owner sees the change it makes to the queries.\<close>

lemma dns_mut_ok:
  assumes "socket_set_spec sa" "owners_of sa queries ss h = Some (KDns, Q)"
    and "\<And>d. queries d = Q \<Longrightarrow> \<exists>r d'. f d = Some (r, d') \<and> P r (queries d')"
  shows "\<exists>r ss' Q'. dns_mut sa h f ss = Inr (r, ss') \<and> P r Q' \<and> owners_of sa queries ss' = (owners_of sa queries ss)(h \<mapsto> (KDns, Q'))"
proof -
  obtain d where d: "ss_get sa h ss = Some (DnsSock d)" "queries d = Q"
    using assms(2) by (auto simp: owners_of_def owned_Dns)
  obtain r d' where f: "f d = Some (r, d')" "P r (queries d')" using assms(3) d(2) by blast
  show ?thesis using d f owners_put[OF assms(1) d(1), of queries "DnsSock d'"]
    by (intro exI[of _ r] exI[of _ "ss_put sa h (DnsSock d') ss"] exI[of _ "queries d'"]) (simp add: dns_mut_def)
qed

lemma tcp_mut_ok:
  assumes spec: "socket_set_spec sa" and own: "map_option fst (owners_of sa queries ss h) = Some KTcp"
    and f: "\<And>d. \<exists>r d'. f d = Some (r, d')"
  shows "\<exists>r ss'. tcp_mut sa h f ss = Inr (r, ss') \<and> owners_of sa queries ss' = owners_of sa queries ss"
proof -
  obtain d where d: "ss_get sa h ss = Some (TcpSock d)" using own by (auto simp: owners_of_def owned_Tcp)
  obtain r d' where fd: "f d = Some (r, d')" using f by blast
  have "owners_of sa queries (ss_put sa h (TcpSock d') ss) = owners_of sa queries ss"
    using owners_put[OF spec d, of queries "TcpSock d'"] d by (simp add: owners_of_def fun_upd_idem)
  then show ?thesis using d fd by (simp add: tcp_mut_def)
qed

lemma icmp_mut_ok:
  assumes spec: "socket_set_spec sa" and own: "map_option fst (owners_of sa queries ss h) = Some KIcmp"
    and f: "\<And>d. \<exists>r d'. f d = Some (r, d')"
  shows "\<exists>r ss'. icmp_mut sa h f ss = Inr (r, ss') \<and> owners_of sa queries ss' = owners_of sa queries ss"
proof -
  obtain d where d: "ss_get sa h ss = Some (IcmpSock d)" using own by (auto simp: owners_of_def owned_Icmp)
  obtain r d' where fd: "f d = Some (r, d')" using f by blast
  have "owners_of sa queries (ss_put sa h (IcmpSock d') ss) = owners_of sa queries ss"
    using owners_put[OF spec d, of queries "IcmpSock d'"] d by (simp add: owners_of_def fun_upd_idem)
  then show ?thesis using d fd by (simp add: icmp_mut_def)
qed

lemma query_start_ok:
  assumes "socket_set_spec sa" "sockets_spec sk queries" "owners_of sa queries ss h = Some (KDns, Q)"
  shows "\<exists>r ss'. DnsSocket_query_start sa sk name typ h ss = Inr (r, ss') \<and> owners_of sa queries ss' =
    (case r of Inr q \<Rightarrow> set_queries (insert q) h (owners_of sa queries ss) | Inl _ \<Rightarrow> owners_of sa queries ss)"
proof -
  let ?f = "\<lambda>s. case sk_dns_start_query sk name typ s of (Some q, s') \<Rightarrow> Some (Inr q, s') | (None, s') \<Rightarrow> Some (Inl DnsStartQuery, s')"
  let ?P = "\<lambda>r Q'. Q' = (case r of Inr q \<Rightarrow> insert q Q | Inl _ \<Rightarrow> Q)"
  have "\<exists>r d'. ?f d = Some (r, d') \<and> ?P r (queries d')" if "queries d = Q" for d
    using sockets_specD(5)[OF assms(2), of name "typ" d] that
    by (cases "sk_dns_start_query sk name typ d"; cases "fst (sk_dns_start_query sk name typ d)") auto
  from dns_mut_ok[where f = ?f and P = ?P, OF assms(1,3) this] obtain r ss' Q' where "DnsSocket_query_start sa sk name typ h ss = Inr (r, ss')" "?P r Q'"
    "owners_of sa queries ss' = (owners_of sa queries ss)(h \<mapsto> (KDns, Q'))"
    unfolding DnsSocket_query_start_def by blast
  then show ?thesis using assms(3) by (cases r) (auto simp: set_queries_def fun_upd_idem)
qed

lemma query_result_ok:
  assumes "socket_set_spec sa" "sockets_spec sk queries" "owners_of sa queries ss h = Some (KDns, Q)" "q \<in> Q"
  shows "\<exists>r ss'. DnsSocket_query_result sa sk q h ss = Inr (r, ss') \<and> owners_of sa queries ss' =
    (case r of Pending \<Rightarrow> owners_of sa queries ss | Ready _ \<Rightarrow> set_queries (\<lambda>Q. Q - {q}) h (owners_of sa queries ss))"
proof -
  let ?f = "\<lambda>s. map_option (\<lambda>(r, s'). ((case r of DnsResults results \<Rightarrow> Ready (Inr results) | DnsPending \<Rightarrow> Pending
      | DnsFailed \<Rightarrow> Ready (Inl DnsFinishQuery)), s')) (sk_dns_get_query_result sk q s)"
  let ?P = "\<lambda>r Q'. Q' = (case r of Pending \<Rightarrow> Q | Ready _ \<Rightarrow> Q - {q})"
  have "\<exists>r d'. ?f d = Some (r, d') \<and> ?P r (queries d')" if d: "queries d = Q" for d
  proof -
    obtain r s' where "sk_dns_get_query_result sk q d = Some (r, s')" "queries s' = (if r = DnsPending then Q else Q - {q})"
      using sockets_specD(6)[OF assms(2), of q d] assms(4) d by blast
    then show ?thesis by (cases r) auto
  qed
  from dns_mut_ok[where f = ?f and P = ?P, OF assms(1,3) this] obtain r ss' Q' where "DnsSocket_query_result sa sk q h ss = Inr (r, ss')" "?P r Q'"
    "owners_of sa queries ss' = (owners_of sa queries ss)(h \<mapsto> (KDns, Q'))"
    unfolding DnsSocket_query_result_def by blast
  then show ?thesis using assms(3) by (cases r) (auto simp: set_queries_def fun_upd_idem)
qed

lemma drop_query_ok:
  assumes "socket_set_spec sa" "sockets_spec sk queries" "owners_of sa queries ss h = Some (KDns, Q)" "q \<in> Q"
  shows "\<exists>ss'. DropQuery_drop sa sk q h ss = Inr ss' \<and> owners_of sa queries ss' = set_queries (\<lambda>Q. Q - {q}) h (owners_of sa queries ss)"
proof -
  obtain d where d: "ss_get sa h ss = Some (DnsSock d)" "queries d = Q" using assms(3) by (auto simp: owners_of_def owned_Dns)
  obtain d' where c: "sk_dns_cancel_query sk q d = Some d'" "queries d' = Q - {q}"
    using sockets_specD(7)[OF assms(2), of q d] assms(4) d(2) by blast
  show ?thesis using d c assms(3) owners_put[OF assms(1) d(1), of queries "DnsSock d'"]
    by (simp add: DropQuery_drop_def set_queries_def)
qed

lemma sock_run_ok:
  assumes sa: "socket_set_spec sa" and sk: "sockets_spec sk queries" and ok: "allowed (owners_of sa queries ss) oper"
  shows "\<exists>ss'. sock_run sa sk inner oper (ss, owners_of sa queries ss) = Inr (ss', owners_of sa queries ss')"
proof (cases oper)
  case NewTcp
  then show ?thesis using owners_add[OF sa, of _ ss] by (auto simp: TcpSocket_new_def add_owner_def split: prod.splits)
next
  case NewDns
  have "queries (sk_dns_update_servers sk s (sk_dns_new sk s')) = {}" for s s' using sockets_specD(3,4)[OF sk] by simp
  then show ?thesis using NewDns owners_add[OF sa, of _ ss]
    by (auto simp: DnsSocket_create_def add_owner_def res_bind_def split: prod.splits)
next
  case NewDhcp4
  then show ?thesis using owners_add[OF sa, of _ ss] by (auto simp: Dhcp4Socket_new_def add_owner_def split: prod.splits)
next
  case (BindIcmp ep)
  have "fst (sk_icmp_bind sk ep (sk_icmp_new sk))" "sk_icmp_is_open sk (snd (sk_icmp_bind sk ep (sk_icmp_new sk)))"
    using sockets_specD(1,2)[OF sk] .
  moreover obtain h ss' where "ss_add sa (IcmpSock (snd (sk_icmp_bind sk ep (sk_icmp_new sk)))) ss = (h, ss')" by fastforce
  ultimately show ?thesis using BindIcmp owners_add[OF sa, of _ ss h ss' queries]
    by (simp add: IcmpSocket_bind_def add_owner_def case_prod_beta)
next
  case (Listen ep h)
  then have own: "map_option fst (owners_of sa queries ss h) = Some KTcp" using ok by simp
  let ?f = "\<lambda>s. case sk_tcp_listen sk ep s of (ok, s') \<Rightarrow> Some (if ok then Inr () else Inl TcpListen, s')"
  have "\<exists>r d'. ?f d = Some (r, d')" for d by (simp split: prod.splits)
  from tcp_mut_ok[where f = ?f, OF sa own this] show ?thesis using Listen by (auto simp: TcpSocket_listen_def)
next
  case (SetTimeout m h)
  then have own: "map_option fst (owners_of sa queries ss h) = Some KTcp" using ok by simp
  have "\<exists>r d'. Some ((), sk_tcp_set_timeout sk m d) = Some (r, d')" for d by simp
  from tcp_mut_ok[where f = "\<lambda>d. Some ((), sk_tcp_set_timeout sk m d)", OF sa own this] show ?thesis
    using SetTimeout by (auto simp: TcpSocket_set_timeout_def)
next
  case (UpdateServers s h)
  then obtain Q where Q: "owners_of sa queries ss h = Some (KDns, Q)" using ok by auto
  have "\<exists>r d'. Some ((), sk_dns_update_servers sk s d) = Some (r, d') \<and> queries d' = Q" if "queries d = Q" for d
    using sockets_specD(4)[OF sk] that by simp
  from dns_mut_ok[where f = "\<lambda>d. Some ((), sk_dns_update_servers sk s d)" and P = "\<lambda>_ Q'. Q' = Q", OF sa Q this] show ?thesis
    using UpdateServers Q
    by (auto simp: DnsSocket_update_servers_def fun_upd_idem)
next
  case (SetHopLimit l h)
  then have own: "map_option fst (owners_of sa queries ss h) = Some KIcmp" using ok by simp
  have "\<exists>r d'. Some ((), sk_icmp_set_hop_limit sk l d) = Some (r, d')" for d by simp
  from icmp_mut_ok[where f = "\<lambda>d. Some ((), sk_icmp_set_hop_limit sk l d)", OF sa own this] show ?thesis
    using SetHopLimit by (auto simp: IcmpSocket_set_hop_limit_def)
next
  case (StartQuery nm ty h)
  then obtain Q where "owners_of sa queries ss h = Some (KDns, Q)" using ok by auto
  from query_start_ok[OF sa sk this, of nm ty] show ?thesis using StartQuery by auto
next
  case (PollQuery q h)
  then obtain Q where "owners_of sa queries ss h = Some (KDns, Q)" "q \<in> Q" using ok by auto
  from query_result_ok[OF sa sk this] show ?thesis using PollQuery by auto
next
  case (DropQuery q h)
  then obtain Q where "owners_of sa queries ss h = Some (KDns, Q)" "q \<in> Q" using ok by auto
  from drop_query_ok[OF sa sk this] show ?thesis using DropQuery by auto
next
  case (DropSocket h)
  then show ?thesis using ok owners_remove[OF sa, of queries ss h] by (auto simp: Socket_drop_def)
qed

lemma sock_reach_owners:
  assumes "socket_set_spec sa" "sockets_spec sk queries" "sock_reach sa sk inner s"
  shows "snd s = owners_of sa queries (fst s)"
  using assms(3)
proof induction
  case (empty ss)
  then show ?case by (simp add: owners_of_def fun_eq_iff)
next
  case (op ss live oper ss' live')
  then have live: "live = owners_of sa queries ss" by simp
  from sock_run_ok[OF assms(1,2), of ss oper inner] op(2,3) show ?case unfolding live by auto
qed


section \<open>The interface\<close>

text \<open>
  \<open>register\<close>: the first device becomes the default; its three tasks are spawned. The cell is written once, so
  a second network device is a panic.
\<close>

datatype net_task = Dhcp4Task | Auto6Task | InterfaceTask

definition net_register :: "'i \<Rightarrow> 'i option \<Rightarrow> ('i option \<times> net_task list) res" where
  "net_register interface default_driver =
     res_bind (unwrap (case default_driver of None \<Rightarrow> Some (Some interface) | Some _ \<Rightarrow> None)) (\<lambda>d.
       Inr (d, [Dhcp4Task, Auto6Task, InterfaceTask]))"

text \<open>
  \<open>Interface::run\<close>: one round polls the stack (\<open>stack_poll\<close>) and asks it when to poll again (\<open>poll_delay\<close>). With a
  delay the task waits for the device, for another task or for the delay; without one it starts the next
  round at once. \<open>interface_run\<close> is the task up to the next time it waits; \<open>None\<close> when it never does.
\<close>

partial_function (option) interface_run :: "('s \<Rightarrow> 's) \<Rightarrow> ('s \<Rightarrow> nat option) \<Rightarrow> 's \<Rightarrow> (nat \<times> 's) option" where
  "interface_run stack_poll poll_delay s =
     (let s = stack_poll s in
      case poll_delay s of
        Some delay \<Rightarrow> Some (delay, s)
      | None \<Rightarrow> interface_run stack_poll poll_delay s)"

lemma interface_run_waits:
  assumes "poll_delay ((stack_poll ^^ Suc n) s) = Some delay" "\<And>k. k < n \<Longrightarrow> poll_delay ((stack_poll ^^ Suc k) s) = None"
  shows "interface_run stack_poll poll_delay s = Some (delay, (stack_poll ^^ Suc n) s)"
  using assms
proof (induction n arbitrary: s)
  case 0
  then show ?case by (subst interface_run.simps) (simp add: Let_def)
next
  case (Suc n)
  have sh: "(stack_poll ^^ Suc k) (stack_poll s) = (stack_poll ^^ Suc (Suc k)) s" for k
    by (simp only: funpow_Suc_right o_apply)
  have now: "poll_delay (stack_poll s) = None" using Suc.prems(2)[of 0] by simp
  have "poll_delay ((stack_poll ^^ Suc n) (stack_poll s)) = Some delay" using Suc.prems(1) unfolding sh .
  moreover have "poll_delay ((stack_poll ^^ Suc k) (stack_poll s)) = None" if "k < n" for k
    using Suc.prems(2)[of "Suc k"] that unfolding sh by simp
  ultimately have "interface_run stack_poll poll_delay (stack_poll s) = Some (delay, (stack_poll ^^ Suc n) (stack_poll s))"
    by (rule Suc.IH)
  then show ?case using now unfolding sh by (subst interface_run.simps) (simp add: Let_def)
qed

text \<open>The outcome of a run: some round was the last, and its answer is the delay.\<close>

definition waited :: "('s \<Rightarrow> 's) \<Rightarrow> ('s \<Rightarrow> nat option) \<Rightarrow> 's \<Rightarrow> nat \<times> 's \<Rightarrow> bool" where
  "waited stack_poll poll_delay s r \<longleftrightarrow> (\<exists>n. snd r = (stack_poll ^^ Suc n) s \<and> poll_delay (snd r) = Some (fst r))"

lemma interface_run_Some: "interface_run stack_poll poll_delay s = Some r \<Longrightarrow> waited stack_poll poll_delay s r"
proof (rule interface_run.raw_induct[of waited])
  fix run :: "('s \<Rightarrow> 's) \<Rightarrow> ('s \<Rightarrow> nat option) \<Rightarrow> 's \<Rightarrow> (nat \<times> 's) option" and sp pd s r
  assume IH: "\<And>sp pd s r. run sp pd s = Some r \<Longrightarrow> waited sp pd s r"
    and step: "(let s = sp s in case pd s of None \<Rightarrow> run sp pd s | Some delay \<Rightarrow> Some (delay, s)) = Some r"
  show "waited sp pd s r"
  proof (cases "pd (sp s)")
    case None
    then have "waited sp pd (sp s) r" using IH[of sp pd "sp s" r] step by (simp add: Let_def)
    then obtain n where "snd r = (sp ^^ Suc n) (sp s)" "pd (snd r) = Some (fst r)" unfolding waited_def by blast
    then show ?thesis unfolding waited_def by (intro exI[of _ "Suc n"]) (simp only: funpow_Suc_right o_apply simp_thms)
  next
    case (Some delay)
    then show ?thesis using step unfolding waited_def by (intro exI[of _ 0]) (auto simp: Let_def)
  qed
qed


text \<open>
  The loop of \<open>auto6\<close> over what its socket receives: packets over IPv4, malformed ones (a panic), those the
  stack cannot parse, other messages, and router advertisements, of which the first ends the task. An
  error of the socket ends it, too. The flag says whether the task has ended.
\<close>

datatype auto6_read = FromV4 | Malformed | Unparsable | OtherMessage | Advert ipv6 RouterAdvert | ReadFailed

fun auto6_loop :: "'r iface_api \<Rightarrow> ipv6 \<Rightarrow> auto6_read list \<Rightarrow> 'r InterfaceInner \<Rightarrow> (bool \<times> 'r InterfaceInner) res" where
  "auto6_loop ia link_ip [] inner = Inr (False, inner)"
| "auto6_loop ia link_ip (r # rs) inner =
     (case r of
        Malformed \<Rightarrow> Inl UnwrapFailed
      | Advert src_ip ra \<Rightarrow> Inr (True, auto6_advert ia link_ip src_ip ra inner)
      | ReadFailed \<Rightarrow> Inr (True, inner)
      | _ \<Rightarrow> auto6_loop ia link_ip rs inner)"

text \<open>Messages that are no advertisement change nothing; the first one is applied and later ones are not.\<close>

lemma auto6_first_advert:
  assumes "set rs \<subseteq> {FromV4, Unparsable, OtherMessage}"
  shows "auto6_loop ia link_ip (rs @ Advert src ra # rest) inner = Inr (True, auto6_advert ia link_ip src ra inner)"
    "auto6_loop ia link_ip rs inner = Inr (False, inner)"
  using assms by (induction rs) auto

text \<open>
  \<open>auto6\<close> as a whole. The router solicitation goes to all routers, from the link-local address and with the
  hardware address in it; \<open>emit\<close> of the stack makes the bytes. An error of the socket there is only logged.
\<close>

datatype NdiscRepr = RouterSolicit "u8 list option"

definition ALL_ROUTERS :: ipv6 where "ALL_ROUTERS = [0xFF02, 0, 0, 0, 0, 0, 0, 2]"

definition auto6_solicit :: "(ipv6 \<Rightarrow> ipv6 \<Rightarrow> NdiscRepr \<Rightarrow> u8 list) \<Rightarrow> ipv6 \<Rightarrow> u8 list \<Rightarrow> u8 list \<times> ipv6" where
  "auto6_solicit emit link_ip mac = (emit link_ip ALL_ROUTERS (RouterSolicit (Some mac)), ALL_ROUTERS)"

definition auto6 ::
    "'r iface_api \<Rightarrow> (ipv6 \<Rightarrow> ipv6 \<Rightarrow> NdiscRepr \<Rightarrow> u8 list) \<Rightarrow> auto6_read list \<Rightarrow> 'r InterfaceInner
     \<Rightarrow> (bool \<times> (u8 list \<times> ipv6) list \<times> 'r InterfaceInner) res" where
  "auto6 ia emit reads inner =
     (case (ni_hardware_addr inner, auto6_start ia inner) of
        (Ethernet mac, Some (link_ip, inner)) \<Rightarrow>
          res_bind (auto6_loop ia link_ip reads inner) (\<lambda>(ended, inner). Inr (ended, [auto6_solicit emit link_ip mac], inner))
      | _ \<Rightarrow> Inr (True, [], inner))"

text \<open>
  \<open>Interface::new\<close>: the stack makes the interface (\<open>iface_new\<close>) from the device's address, a random seed and the
  uptime, whose microseconds are cut to 64 bits.
\<close>

definition Interface_new ::
    "(HardwareAddress \<Rightarrow> u64 \<Rightarrow> int \<Rightarrow> IpCidr list \<times> 'r) \<Rightarrow> HardwareAddress \<Rightarrow> u64 \<Rightarrow> nat \<Rightarrow> 'r InterfaceInner" where
  "Interface_new iface_new address random_seed micros =
     (case iface_new address random_seed (sint (of_nat micros :: u64)) of (ip_addrs, routes) \<Rightarrow>
       \<lparr>ni_hardware_addr = address, ni_ip_addrs = ip_addrs, ni_routes = routes, ni_dns_servers = []\<rparr>)"

text \<open>
  From a new interface of an Ethernet device to its configuration: one solicitation is sent, and the first
  advertisement with a prefix leaves exactly the link-local address and the address in the prefix, the route
  to the router and its name servers.
\<close>

lemma auto6_configures:
  assumes "iface_spec ia cap" "1 < cap" "iface_new (Ethernet mac) seed (sint (of_nat micros :: u64)) = ([], routes)"
    and "set rs \<subseteq> {FromV4, Unparsable, OtherMessage}" "ra_prefix_info ra = Some (prefix, len)" "ra_recursive_dns ra = Some servers"
  shows "\<exists>inner. auto6 ia emit (rs @ Advert src ra # rest) (Interface_new iface_new (Ethernet mac) seed micros)
      = Inr (True, [(emit (auto6_link_ip mac) ALL_ROUTERS (RouterSolicit (Some mac)), ALL_ROUTERS)], inner)
    \<and> ni_ip_addrs inner = [CidrV6 (auto6_link_ip mac) 64, CidrV6 (auto6_segments (auto6_link_ip mac) prefix) len]
    \<and> ni_routes inner = if_add_default_ipv6 ia src routes \<and> ni_dns_servers inner = map Ipv6 servers"
  using assms(1-3,5,6)
  by (simp add: auto6_def Interface_new_def auto6_start_def auto6_solicit_def auto6_first_advert(1)[OF assms(4)] auto6_advert_def
      iface_spec_def Let_def)

section \<open>A socket set as a list\<close>

definition list_set :: "('s option list, 's) socket_set" where
  "list_set = \<lparr>ss_add = (\<lambda>s ss. (length ss, ss @ [Some s])), ss_get = (\<lambda>h ss. if h < length ss then ss ! h else None),
     ss_put = (\<lambda>h s ss. ss[h := Some s]),
     ss_remove = (\<lambda>h ss. if h < length ss \<and> ss ! h \<noteq> None then Some (ss[h := None]) else None)\<rparr>"

lemma list_set_spec: "socket_set_spec list_set"
  by (auto simp: socket_set_spec_def list_set_def fun_eq_iff nth_append nth_list_update split: if_splits)

definition list_sockets :: "(unit, nat list, unit, unit) sockets_api" where
  "list_sockets = \<lparr>sk_tcp_new = (), sk_tcp_listen = (\<lambda>_ s. (True, s)), sk_tcp_set_timeout = (\<lambda>_ s. s),
     sk_dns_new = (\<lambda>_. []), sk_dns_update_servers = (\<lambda>_ s. s), sk_dns_start_query = (\<lambda>_ _ s. (Some (Suc (sum_list s)), Suc (sum_list s) # s)),
     sk_dns_get_query_result = (\<lambda>q s. if q \<in> set s then Some (DnsFailed, removeAll q s) else None),
     sk_dns_cancel_query = (\<lambda>q s. if q \<in> set s then Some (removeAll q s) else None),
     sk_dhcp4_new = (), sk_icmp_new = (), sk_icmp_bind = (\<lambda>_ s. (True, s)), sk_icmp_is_open = (\<lambda>_. True), sk_icmp_set_hop_limit = (\<lambda>_ s. s)\<rparr>"

lemma list_sockets_spec: "sockets_spec list_sockets set"
proof -
  have "Suc (sum_list s) \<notin> set s" for s :: "nat list" using member_le_sum_list[of "Suc (sum_list s)" s] by force
  then show ?thesis by (auto simp: sockets_spec_def list_sockets_def)
qed

text \<open>A DNS socket with one query in flight.\<close>

lemma one_query_reach:
  "sock_reach list_set list_sockets inner ([Some (DnsSock [1])], [0 \<mapsto> (KDns, {1})])"
proof -
  let ?R = "sock_reach list_set list_sockets inner"
  have "?R ([], Map.empty)" by (rule sock_reach.empty) (simp add: list_set_def)
  from sock_reach.op[OF this, of NewDns] have "?R ([Some (DnsSock [])], [0 \<mapsto> (KDns, {})])"
    by (simp add: DnsSocket_create_def add_owner_def list_set_def list_sockets_def)
  from sock_reach.op[OF this, of "StartQuery ''a'' 1 0"] show ?thesis
    by (simp add: DnsSocket_query_start_def dns_mut_def set_queries_def list_set_def list_sockets_def)
qed

definition plain_inner :: "unit InterfaceInner" where
  "plain_inner = \<lparr>ni_hardware_addr = HwIp, ni_ip_addrs = [], ni_routes = (), ni_dns_servers = []\<rparr>"


end
