(* ===== verification/Cpu_Setup.thy ===== *)
theory Cpu_Setup
  imports Memory
begin

text \<open>
  What a core needs before it runs kernel code: the segment descriptors and the stacks of its exceptions
  (\<open>kernel/src/arch/x86_64/gdt.rs\<close>), the start of the other cores (\<open>kernel/src/arch/x86_64/mod.rs\<close>), the
  per-core data behind the segment register GS (\<open>kernel/src/arch/x86_64/local.rs\<close>), and the debug port
  (\<open>crates/e9\<close>). The descriptor table of the crate \<open>x86_64\<close> is a parameter.
\<close>

section \<open>Segment descriptors\<close>

datatype Descriptor = KernelCodeSegment | KernelDataSegment | UserCodeSegment | UserDataSegment | TssSegment usize

record 'g gdt_api =
  ga_new :: 'g
  ga_add_entry :: "Descriptor \<Rightarrow> 'g \<Rightarrow> (nat \<times> 'g) res"

record Selectors =
  se_kernel_code :: nat
  se_kernel_data :: nat
  se_user_code :: nat
  se_user_data :: nat
  se_tss :: nat

definition gdt_build :: "'g gdt_api \<Rightarrow> usize \<Rightarrow> ('g \<times> Selectors) res" where
  "gdt_build ga tss =
     res_bind (ga_add_entry ga KernelCodeSegment (ga_new ga)) (\<lambda>(kernel_code, gdt).
     res_bind (ga_add_entry ga KernelDataSegment gdt) (\<lambda>(kernel_data, gdt).
     res_bind (ga_add_entry ga UserDataSegment gdt) (\<lambda>(user_data, gdt).
     res_bind (ga_add_entry ga UserCodeSegment gdt) (\<lambda>(user_code, gdt).
     res_bind (ga_add_entry ga (TssSegment tss) gdt) (\<lambda>(tss, gdt).
       Inr (gdt, \<lparr>se_kernel_code = kernel_code, se_kernel_data = kernel_data, se_user_code = user_code,
                  se_user_data = user_data, se_tss = tss\<rparr>))))))"

text \<open>\<open>load\<close>: the segment registers of the core, and the task register.\<close>

record segments =
  sg_cs :: nat
  sg_ds :: nat
  sg_es :: nat
  sg_fs :: nat
  sg_gs :: nat
  sg_ss :: nat
  sg_tr :: nat

definition gdt_load :: "Selectors \<Rightarrow> segments" where
  "gdt_load s = \<lparr>sg_cs = se_kernel_code s, sg_ds = se_kernel_data s, sg_es = se_kernel_data s, sg_fs = se_kernel_data s,
     sg_gs = se_kernel_data s, sg_ss = se_kernel_data s, sg_tr = se_tss s\<rparr>"

section \<open>Stacks for exceptions\<close>

definition STACK_SIZE :: usize where
  "STACK_SIZE = 65535"

record TaskStateSegment =
  ts_privilege_stack_0 :: usize
  ts_double_fault_stack :: usize
  ts_page_fault_stack :: usize

text \<open>
  The macro \<open>tss!\<close> evaluates its argument once for each of the three stacks. An argument is evaluated in a
  state (the heap) and yields a pointer.
\<close>

definition tss_macro :: "(nat \<Rightarrow> 'h \<Rightarrow> (usize \<times> 'h) res) \<Rightarrow> 'h \<Rightarrow> (TaskStateSegment \<times> 'h) res" where
  "tss_macro stack h =
     res_bind (stack 0 h) (\<lambda>(p0, h).
     res_bind (virt_add p0 STACK_SIZE) (\<lambda>s0.
     res_bind (stack 1 h) (\<lambda>(p1, h).
     res_bind (virt_add p1 STACK_SIZE) (\<lambda>s1.
     res_bind (stack 2 h) (\<lambda>(p2, h).
     res_bind (virt_add p2 STACK_SIZE) (\<lambda>s2.
       Inr (\<lparr>ts_privilege_stack_0 = s0, ts_double_fault_stack = s1, ts_page_fault_stack = s2\<rparr>, h)))))))"

text \<open>
  The boot core uses a static buffer, one for each expansion. For the others the argument is a reference
  to the slice that \<open>leak\<close> returns: the slice itself is a temporary of the calling function, at the address
  \<open>temp k\<close> of its stack frame, and the pointer is the address of that temporary.
\<close>

definition BP_TSS :: "(nat \<Rightarrow> usize) \<Rightarrow> 'h \<Rightarrow> (TaskStateSegment \<times> 'h) res" where
  "BP_TSS statics h = tss_macro (\<lambda>k h. Inr (statics k, h)) h"

definition ref_to_leaked :: "(usize \<Rightarrow> 'h \<Rightarrow> (usize \<times> 'h) res) \<Rightarrow> (nat \<Rightarrow> usize) \<Rightarrow> nat \<Rightarrow> 'h \<Rightarrow> (usize \<times> 'h) res" where
  "ref_to_leaked alloc_zeroed temp k h = res_bind (alloc_zeroed STACK_SIZE h) (\<lambda>(buf, h). Inr (temp k, h))"

definition gdt_init :: "'g gdt_api \<Rightarrow> (nat \<Rightarrow> usize) \<Rightarrow> usize \<Rightarrow> 'h \<Rightarrow> (segments \<times> 'h) res" where
  "gdt_init ga statics tss_addr h =
     res_bind (BP_TSS statics h) (\<lambda>(_, h).
     res_bind (gdt_build ga tss_addr) (\<lambda>(_, selectors). Inr (gdt_load selectors, h)))"

text \<open>The sizes of a task state segment and of a descriptor table of eight entries.\<close>

definition TSS_SIZE :: usize where "TSS_SIZE = 104"
definition GDT_SIZE :: usize where "GDT_SIZE = 72"

definition allocate_for_ap ::
    "'g gdt_api \<Rightarrow> (usize \<Rightarrow> 'h \<Rightarrow> (usize \<times> 'h) res) \<Rightarrow> (usize \<Rightarrow> 'h \<Rightarrow> (usize \<times> 'h) res) \<Rightarrow> (nat \<Rightarrow> usize)
       \<Rightarrow> 'h \<Rightarrow> ((TaskStateSegment \<times> 'g \<times> Selectors) \<times> 'h) res" where
  "allocate_for_ap ga alloc_zeroed box temp h =
     res_bind (tss_macro (ref_to_leaked alloc_zeroed temp) h) (\<lambda>(tss, h).
     res_bind (box TSS_SIZE h) (\<lambda>(ptr, h).
     res_bind (gdt_build ga ptr) (\<lambda>(gdt, selectors).
     res_bind (box GDT_SIZE h) (\<lambda>(_, h). Inr ((tss, gdt, selectors), h)))))"

definition gdt_init_smp :: "TaskStateSegment \<times> 'g \<times> Selectors \<Rightarrow> segments" where
  "gdt_init_smp ap_info = (case ap_info of (_, _, selectors) \<Rightarrow> gdt_load selectors)"

section \<open>Starting the other cores\<close>

record SmpInfo =
  si_processor_id :: nat
  si_lapic_id :: nat
  si_starts :: bool

text \<open>\<open>init_smp\<close>: one set of descriptors per core, in the order of the boot loader's list, and an entry point for all but the boot core.\<close>

definition init_smp :: "nat \<Rightarrow> SmpInfo list \<Rightarrow> SmpInfo list" where
  "init_smp bsp_lapic_id cpus =
     map (\<lambda>cpu. if si_lapic_id cpu = bsp_lapic_id then cpu else cpu\<lparr>si_starts := True\<rparr>) cpus"

text \<open>\<open>start_smp\<close>: the core picks its descriptors by its processor number; the executor gets the number cut to a byte.\<close>

definition start_smp :: "'a list \<Rightarrow> SmpInfo \<Rightarrow> ('a \<times> nat) res" where
  "start_smp ap_info boot_info =
     res_bind (index_at ap_info (si_processor_id boot_info)) (\<lambda>info. Inr (info, si_processor_id boot_info mod 256))"

text \<open>
  \<open>init_sse\<close>: instructions on \<open>ax\<close> change the low sixteen bits of \<open>rax\<close> only. The arguments are the control registers
  \<open>cr0\<close> and \<open>cr4\<close>.
\<close>

definition on_ax :: "(u16 \<Rightarrow> u16) \<Rightarrow> u64 \<Rightarrow> u64" where
  "on_ax f rax = (rax AND NOT 0xFFFF) OR ucast (f (ucast rax))"

definition init_sse :: "u64 \<times> u64 \<Rightarrow> u64 \<times> u64" where
  "init_sse crs =
     (case crs of (cr0, cr4) \<Rightarrow>
       (on_ax (\<lambda>ax. ax OR 0x2) (on_ax (\<lambda>ax. ax AND 0xFFFB) cr0), on_ax (\<lambda>ax. ax OR push_bit 9 3) cr4))"

text \<open>Exactly the bits of SSE change: \<open>EM\<close> is off and \<open>MP\<close> on in \<open>cr0\<close>, \<open>OSFXSR\<close> and \<open>OSXMMEXCPT\<close> are on in \<open>cr4\<close>.\<close>

lemma low_word_bits:
  "list_all (\<lambda>n. bit (0xFFFF :: u64) n \<longleftrightarrow> n < 16) [0..<64]"
  "list_all (\<lambda>n. bit (0xFFFB :: u16) n \<longleftrightarrow> n \<noteq> 2) [0..<16]"
  "list_all (\<lambda>n. bit (2 :: u16) n \<longleftrightarrow> n = 1) [0..<16]"
  "list_all (\<lambda>n. bit (push_bit 9 3 :: u16) n \<longleftrightarrow> n = 9 \<or> n = 10) [0..<16]"
  by code_simp+

lemma bit_on_ax: "n < 64 \<Longrightarrow> bit (on_ax f rax) n \<longleftrightarrow> (if n < 16 then bit (f (ucast rax)) n else bit rax n)"
  using low_word_bits(1) by (auto simp: on_ax_def list_all_iff bit_simps dest: bit_imp_le_length)

lemma init_sse_bits:
  assumes "n < 64"
  shows "bit (fst (init_sse (cr0, cr4))) n \<longleftrightarrow> n = 1 \<or> (n \<noteq> 2 \<and> bit cr0 n)"
    "bit (snd (init_sse (cr0, cr4))) n \<longleftrightarrow> n = 9 \<or> n = 10 \<or> bit cr4 n"
proof -
  show "bit (fst (init_sse (cr0, cr4))) n \<longleftrightarrow> n = 1 \<or> (n \<noteq> 2 \<and> bit cr0 n)"
    using assms low_word_bits(2,3) by (auto simp: init_sse_def bit_on_ax list_all_iff bit_or_iff bit_and_iff bit_ucast_iff)
  show "bit (snd (init_sse (cr0, cr4))) n \<longleftrightarrow> n = 9 \<or> n = 10 \<or> bit cr4 n"
    using assms low_word_bits(4) by (auto simp: init_sse_def bit_on_ax list_all_iff bit_or_iff bit_and_iff bit_ucast_iff)
qed
section \<open>Data of a core\<close>

record GsLocalData =
  gl_self :: usize
  gl_magic :: usize

definition GsLocalData_MAGIC :: usize where
  "GsLocalData_MAGIC = 0xDEADBEEF"

definition GsLocalData_new :: GsLocalData where
  "GsLocalData_new = \<lparr>gl_self = 0, gl_magic = GsLocalData_MAGIC\<rparr>"

text \<open>
  \<open>get\<close> reads the pointer at the base of GS, the first field of the structure; \<open>init\<close> boxes a new structure
  at \<open>ptr\<close>, makes it point at itself and loads the base. \<open>mem\<close> are the structures in memory by address.
\<close>

definition GsLocalData_get :: "usize \<Rightarrow> (usize \<rightharpoonup> GsLocalData) \<Rightarrow> usize option" where
  "GsLocalData_get gs_base mem =
     (case mem gs_base of
        None \<Rightarrow> None
      | Some d \<Rightarrow>
          (if gl_self d = 0 then None
           else (case mem (gl_self d) of
                   None \<Rightarrow> None
                 | Some this \<Rightarrow> if gl_magic this \<noteq> GsLocalData_MAGIC then None else Some (gl_self d))))"

definition gs_local_init :: "usize \<Rightarrow> (usize \<rightharpoonup> GsLocalData) \<Rightarrow> usize \<times> (usize \<rightharpoonup> GsLocalData)" where
  "gs_local_init ptr mem = (ptr, mem(ptr \<mapsto> GsLocalData_new\<lparr>gl_self := ptr\<rparr>))"

text \<open>
  The registers of a core by their number. \<open>set_pid\<close> writes the register that the instruction behind \<open>get_pid\<close>
  reads (its upper half is reserved); \<open>init\<close> also loads both bases of GS with the address of the new structure.
\<close>

type_synonym msrs = "nat \<Rightarrow> u64"

definition set_pid :: "u64 \<Rightarrow> msrs \<Rightarrow> msrs" where
  "set_pid pid msrs = msrs(0xc0000103 := pid)"

definition get_pid :: "msrs \<Rightarrow> u64" where
  "get_pid msrs = msrs 0xc0000103 AND mask 32"

definition gs_bases :: "usize \<Rightarrow> msrs \<Rightarrow> msrs res" where
  "gs_bases ptr msrs =
     (if canonical ptr then Inr (msrs(0xc0000101 := word_of_nat ptr, 0xc0000102 := word_of_nat ptr))
      else Inl ExplicitPanic)"

section \<open>The debug port\<close>

text \<open>\<open>write_byte\<close> calls itself for the carriage return in front of a newline; the port keeps what was written.\<close>

function e9_write_byte :: "u8 \<Rightarrow> u8 list \<Rightarrow> u8 list" where
  "e9_write_byte b out = (if b = 10 then e9_write_byte 13 out else out) @ [b]"
  by auto
termination by (relation "measure (\<lambda>(b, _). if b = 10 then 1 else 0)") auto

definition e9_write_str :: "u8 list \<Rightarrow> u8 list \<Rightarrow> u8 list" where
  "e9_write_str s out = fold e9_write_byte s out"

text \<open>\<open>print\<close>: a string without arguments is written directly, others piece by piece as they are formatted.\<close>

definition e9_print :: "u8 list option \<Rightarrow> u8 list list \<Rightarrow> u8 list \<Rightarrow> u8 list" where
  "e9_print as_str pieces out =
     (case as_str of Some s \<Rightarrow> fold e9_write_byte s out | None \<Rightarrow> fold e9_write_str pieces out)"

text \<open>\<open>print\<close> of \<open>kernel/src/arch/x86_64/mod.rs\<close>: only when reading the port gives its own number, as emulators do.\<close>

definition e9_detect :: "(nat \<Rightarrow> u8) \<Rightarrow> bool" where
  "e9_detect inb \<longleftrightarrow> inb 0xe9 = 0xe9"

definition arch_print :: "(nat \<Rightarrow> u8) \<Rightarrow> u8 list option \<Rightarrow> u8 list list \<Rightarrow> u8 list \<Rightarrow> u8 list" where
  "arch_print inb as_str pieces out = (if e9_detect inb then e9_print as_str pieces out else out)"

section \<open>What holds\<close>

text \<open>
  The documented behaviour of the descriptor table: it has eight slots, the first is the null
  descriptor, a segment takes one slot and a task state segment two; the selector is the offset of the
  slot with the privilege level in its low bits; a full table is a panic.
\<close>

fun slots_of :: "Descriptor \<Rightarrow> nat" where
  "slots_of (TssSegment _) = 2" | "slots_of _ = 1"

fun privilege_of :: "Descriptor \<Rightarrow> nat" where
  "privilege_of UserCodeSegment = 3" | "privilege_of UserDataSegment = 3" | "privilege_of _ = 0"

definition gdt_spec :: "'g gdt_api \<Rightarrow> ('g \<Rightarrow> nat) \<Rightarrow> bool" where
  "gdt_spec ga used \<longleftrightarrow> used (ga_new ga) = 1
     \<and> (\<forall>d g. used g + slots_of d \<le> 8 \<longrightarrow>
          (\<exists>g'. ga_add_entry ga d g = Inr (8 * used g + privilege_of d, g') \<and> used g' = used g + slots_of d))"

lemma gdt_build_exact:
  assumes "gdt_spec ga used"
  shows "\<exists>gdt. gdt_build ga tss = Inr (gdt, \<lparr>se_kernel_code = 8, se_kernel_data = 16, se_user_code = 35, se_user_data = 27, se_tss = 40\<rparr>)
    \<and> used gdt = 7"
proof -
  have D: "\<exists>g'. ga_add_entry ga d g = Inr (8 * used g + privilege_of d, g') \<and> used g' = used g + slots_of d"
    if "used g + slots_of d \<le> 8" for d g
    using assms that unfolding gdt_spec_def by blast
  have n: "used (ga_new ga) = 1" using assms unfolding gdt_spec_def by blast
  obtain g1 where 1: "ga_add_entry ga KernelCodeSegment (ga_new ga) = Inr (8, g1)" "used g1 = 2"
    using D[of "ga_new ga" KernelCodeSegment] n by auto
  obtain g2 where 2: "ga_add_entry ga KernelDataSegment g1 = Inr (16, g2)" "used g2 = 3"
    using D[of g1 KernelDataSegment] 1(2) by auto
  obtain g3 where 3: "ga_add_entry ga UserDataSegment g2 = Inr (27, g3)" "used g3 = 4"
    using D[of g2 UserDataSegment] 2(2) by auto
  obtain g4 where 4: "ga_add_entry ga UserCodeSegment g3 = Inr (35, g4)" "used g4 = 5"
    using D[of g3 UserCodeSegment] 3(2) by auto
  obtain g5 where 5: "ga_add_entry ga (TssSegment tss) g4 = Inr (40, g5)" "used g5 = 7"
    using D[of g4 "TssSegment tss"] 4(2) by auto
  show ?thesis using 1 2 3 4 5 by (simp add: gdt_build_def)
qed

text \<open>
  The descriptors are where the instructions for system calls expect them: the table does not overflow,
  the kernel's data segment follows its code segment, the user's code segment follows its data segment
  at the user's privilege level, and loading puts the kernel's selectors into all segment registers.
\<close>

theorem gdt_selectors:
  assumes "gdt_spec ga used"
  shows "\<exists>gdt s. gdt_build ga tss = Inr (gdt, s) \<and> used gdt \<le> 8
    \<and> se_kernel_data s = se_kernel_code s + 8 \<and> se_user_code s = se_user_data s + 8 \<and> se_user_data s mod 4 = 3
    \<and> gdt_load s = \<lparr>sg_cs = 0x08, sg_ds = 0x10, sg_es = 0x10, sg_fs = 0x10, sg_gs = 0x10, sg_ss = 0x10, sg_tr = 0x28\<rparr>"
proof -
  obtain gdt where "gdt_build ga tss = Inr (gdt, \<lparr>se_kernel_code = 8, se_kernel_data = 16, se_user_code = 35, se_user_data = 27, se_tss = 40\<rparr>)"
    "used gdt = 7"
    using gdt_build_exact[OF assms] by blast
  then show ?thesis by (simp add: gdt_load_def)
qed

lemma virt_add_low: "p + STACK_SIZE < 2 ^ 47 \<Longrightarrow> virt_add p STACK_SIZE = Inr (p + STACK_SIZE)"
  by (simp add: virt_add_def canonical_def)

text \<open>
  The exception stacks of the other cores are not their own. While the boot core's stacks end behind
  its static buffers, those of every other core end 65535 bytes above temporaries of the function that
  sets them up, whatever buffers were allocated.
\<close>

theorem ap_stacks_from_temporaries:
  assumes temp: "\<forall>k<3. temp k + STACK_SIZE < 2 ^ 47" and statics: "\<forall>k<3. statics k + STACK_SIZE < 2 ^ 47"
    and call: "allocate_for_ap ga alloc_zeroed box temp h = Inr ((tss, gdt, selectors), h')"
  shows "BP_TSS statics h = Inr (\<lparr>ts_privilege_stack_0 = statics 0 + STACK_SIZE, ts_double_fault_stack = statics 1 + STACK_SIZE,
      ts_page_fault_stack = statics 2 + STACK_SIZE\<rparr>, h)
    \<and> tss = \<lparr>ts_privilege_stack_0 = temp 0 + STACK_SIZE, ts_double_fault_stack = temp 1 + STACK_SIZE,
          ts_page_fault_stack = temp 2 + STACK_SIZE\<rparr>"
proof -
  have t: "virt_add (temp 0) STACK_SIZE = Inr (temp 0 + STACK_SIZE)" "virt_add (temp 1) STACK_SIZE = Inr (temp 1 + STACK_SIZE)"
    "virt_add (temp 2) STACK_SIZE = Inr (temp 2 + STACK_SIZE)" using temp by (auto intro: virt_add_low)
  have s: "virt_add (statics 0) STACK_SIZE = Inr (statics 0 + STACK_SIZE)" "virt_add (statics 1) STACK_SIZE = Inr (statics 1 + STACK_SIZE)"
    "virt_add (statics 2) STACK_SIZE = Inr (statics 2 + STACK_SIZE)" using statics by (auto intro: virt_add_low)
  have "tss = \<lparr>ts_privilege_stack_0 = temp 0 + STACK_SIZE, ts_double_fault_stack = temp 1 + STACK_SIZE,
      ts_page_fault_stack = temp 2 + STACK_SIZE\<rparr>"
    using call t by (auto simp: allocate_for_ap_def tss_macro_def ref_to_leaked_def)
  then show ?thesis using s by (simp add: BP_TSS_def tss_macro_def)
qed

text \<open>
  Every core but the boot core gets an entry point, and when the processor numbers are those below the
  number of cores each finds descriptors of its own; a processor number that is not below it is a panic
  of that core.
\<close>

theorem smp_start:
  assumes "length infos = length cpus" "distinct (map si_processor_id cpus)"
  shows "(\<forall>cpu\<in>set cpus. si_lapic_id cpu \<noteq> bsp \<longrightarrow> cpu\<lparr>si_starts := True\<rparr> \<in> set (init_smp bsp cpus))
    \<and> (\<forall>cpu\<in>set (init_smp bsp cpus). (si_processor_id cpu < length cpus \<longrightarrow>
          start_smp infos cpu = Inr (infos ! si_processor_id cpu, si_processor_id cpu mod 256))
        \<and> (length cpus \<le> si_processor_id cpu \<longrightarrow> start_smp infos cpu = Inl IndexOutOfBounds))
    \<and> distinct (map si_processor_id (init_smp bsp cpus))"
proof -
  have ids: "map si_processor_id (init_smp bsp cpus) = map si_processor_id cpus" by (simp add: init_smp_def)
  have "cpu\<lparr>si_starts := True\<rparr> \<in> set (init_smp bsp cpus)" if "cpu \<in> set cpus" "si_lapic_id cpu \<noteq> bsp" for cpu
    unfolding init_smp_def set_map by (rule image_eqI[OF _ that(1)]) (simp add: that(2))
  then show ?thesis using assms unfolding ids by (simp add: start_smp_def)
qed

text \<open>After \<open>init\<close> a core finds its own data; before it, with GS at zero or at unrelated memory, it finds none.\<close>

lemma gs_local_exact:
  assumes "ptr \<noteq> 0"
  shows "GsLocalData_get (fst (gs_local_init ptr mem)) (snd (gs_local_init ptr mem)) = Some ptr"
    "mem gs = None \<or> gl_self (the (mem gs)) = 0 \<Longrightarrow> GsLocalData_get gs mem = None"
  using assms by (auto simp: gs_local_init_def GsLocalData_get_def GsLocalData_new_def split: option.splits)

text \<open>
  Later a core still knows its number: loading the bases of GS leaves it alone, and the core that was started as
  processor \<open>i\<close> finds its own descriptors and its own wake-up byte at that index. The base it loads is the
  address of its data.
\<close>

lemma core_knows_itself:
  assumes "gs_bases ptr (set_pid (word_of_nat i) msrs) = Inr regs" "i < 2 ^ 32"
  shows "unat (get_pid regs) = i" "unat (regs 0xc0000101) = ptr" "regs 0xc0000102 = regs 0xc0000101"
proof -
  show "unat (get_pid regs) = i"
    using assms by (auto simp: gs_bases_def set_pid_def get_pid_def unat_of_nat unsigned_take_bit_eq take_bit_nat_eq_self
        simp flip: take_bit_eq_mask split: if_splits)
  show "unat (regs 0xc0000101) = ptr" "regs 0xc0000102 = regs 0xc0000101"
    using assms(1) by (auto simp: gs_bases_def canonical_def unat_of_nat split: if_splits)
qed

text \<open>
  What reaches the debug port: every newline preceded by a carriage return, the same whether the text was
  written at once or in pieces.
\<close>

lemma e9_write_byte_out: "e9_write_byte b out = out @ (if b = 10 then [13, 10] else [b])"
  by (subst e9_write_byte.simps, subst e9_write_byte.simps) simp

lemma e9_write_str_out: "e9_write_str s out = out @ concat (map (\<lambda>b. if b = 10 then [13, 10] else [b]) s)"
  unfolding e9_write_str_def
  by (induction s arbitrary: out) (simp_all add: e9_write_byte_out del: e9_write_byte.simps)

lemma e9_print_exact:
  "e9_print (Some (concat pieces)) [] out = e9_print None pieces out"
  "e9_print None pieces out = out @ concat (map (\<lambda>b. if b = 10 then [13, 10] else [b]) (concat pieces))"
proof -
  show "e9_print None pieces out = out @ concat (map (\<lambda>b. if b = 10 then [13, 10] else [b]) (concat pieces))"
    unfolding e9_print_def by (induction pieces arbitrary: out) (simp_all add: e9_write_str_out)
  then show "e9_print (Some (concat pieces)) [] out = e9_print None pieces out"
    using e9_write_str_out[of "concat pieces" out] by (simp add: e9_print_def e9_write_str_def)
qed

section \<open>A table as a counter\<close>

definition count_gdt :: "nat gdt_api" where
  "count_gdt = \<lparr>ga_new = 1, ga_add_entry = (\<lambda>d n. if n + slots_of d \<le> 8 then Inr (8 * n + privilege_of d, n + slots_of d) else Inl ExplicitPanic)\<rparr>"

lemma count_gdt_spec: "gdt_spec count_gdt (\<lambda>n. n)"
  by (simp add: gdt_spec_def count_gdt_def)

theorem gdt_selectors_witness:
  "\<exists>s. gdt_build count_gdt 4096 = Inr (7, s) \<and> se_user_code s = se_user_data s + 8"
proof -
  have "gdt_build count_gdt 4096 = Inr (7, \<lparr>se_kernel_code = 8, se_kernel_data = 16, se_user_code = 35, se_user_data = 27, se_tss = 40\<rparr>)"
    by (simp add: gdt_build_def count_gdt_def)
  then show ?thesis using gdt_selectors[OF count_gdt_spec, of 4096] by auto
qed

theorem ap_stacks_from_temporaries_witness:
  "\<exists>gdt s h'. allocate_for_ap count_gdt (\<lambda>n h. Inr (1000000 * Suc h, Suc h)) (\<lambda>_ h. Inr (8, h)) (\<lambda>k. 4096 + 16 * k) (0 :: nat) =
     Inr ((\<lparr>ts_privilege_stack_0 = 69631, ts_double_fault_stack = 69647, ts_page_fault_stack = 69663\<rparr>, gdt, s), h')"
proof -
  let ?call = "allocate_for_ap count_gdt (\<lambda>n h. Inr (1000000 * Suc h, Suc h)) (\<lambda>_ h. Inr (8, h)) (\<lambda>k. 4096 + 16 * k) (0 :: nat)"
  have 1: "\<forall>k<3. 4096 + 16 * k + STACK_SIZE < 2 ^ 47" and 2: "\<forall>k<3. 8 * k + STACK_SIZE < 2 ^ 47"
    by (simp_all add: STACK_SIZE_def)
  obtain tss gdt s h' where c: "?call = Inr ((tss, gdt, s), h')"
    by (auto simp: allocate_for_ap_def tss_macro_def ref_to_leaked_def gdt_build_def count_gdt_def virt_add_def canonical_def STACK_SIZE_def)
  from this ap_stacks_from_temporaries[OF 1 2 c] show ?thesis by (simp add: STACK_SIZE_def)
qed

definition two_cpus :: "SmpInfo list" where
  "two_cpus = [\<lparr>si_processor_id = 0, si_lapic_id = 5, si_starts = False\<rparr>, \<lparr>si_processor_id = 7, si_lapic_id = 6, si_starts = False\<rparr>]"

theorem smp_start_witness:
  "start_smp [10 :: nat, 11] \<lparr>si_processor_id = 7, si_lapic_id = 6, si_starts = True\<rparr> = Inl IndexOutOfBounds"
proof -
  have 1: "length [10 :: nat, 11] = length two_cpus" "distinct (map si_processor_id two_cpus)" by (simp_all add: two_cpus_def)
  have 2: "\<lparr>si_processor_id = 7, si_lapic_id = 6, si_starts = True\<rparr> \<in> set (init_smp 5 two_cpus)" by (simp add: init_smp_def two_cpus_def)
  show ?thesis using smp_start[OF 1, of 5] 2 by (auto simp: two_cpus_def)
qed

end
