(* ===== verification/Float64.thy ===== *)
theory Float64
  imports Prelude "HOL-Library.Log_Nat" Complex_Main
begin

text \<open>
  The arithmetic of Rust's \<open>f64\<close> (IEEE 754, binary64) as far as the kernel uses it. A value is the rational
  number it denotes; every operation is the exact one followed by rounding to the nearest number of 53
  significant bits, ties to even. Infinities, NaN and numbers below the normal range are left out: all the values
  computed in the kernel are zero or lie between \<open>2 ^ -70\<close> and \<open>2 ^ 80\<close>.
\<close>

section \<open>Operations\<close>

type_synonym f64 = rat

text \<open>The exponent of a positive number: the largest power of two that is not above it.\<close>

definition f64_exponent :: "rat \<Rightarrow> int" where
  "f64_exponent x = (if 1 \<le> x then int (floorlog 2 (nat \<lfloor>x\<rfloor>)) - 1 else - int (ceillog2 (nat \<lceil>1 / x\<rceil>)))"

definition round_ties_even :: "rat \<Rightarrow> int" where
  "round_ties_even y =
     (let n = \<lfloor>y\<rfloor>; d = y - of_int n
      in if d < 1 / 2 then n else if d > 1 / 2 then n + 1 else if even n then n else n + 1)"

definition f64_ulp :: "rat \<Rightarrow> rat" where
  "f64_ulp x = 2 powi (f64_exponent x - 52)"

definition f64_round :: "rat \<Rightarrow> f64" where
  "f64_round x =
     (if x = 0 then 0
      else if 0 < x then f64_ulp x * of_int (round_ties_even (x / f64_ulp x))
      else - (f64_ulp (- x) * of_int (round_ties_even (- x / f64_ulp (- x)))))"

definition f64_add :: "f64 \<Rightarrow> f64 \<Rightarrow> f64" where "f64_add x y = f64_round (x + y)"
definition f64_sub :: "f64 \<Rightarrow> f64 \<Rightarrow> f64" where "f64_sub x y = f64_round (x - y)"
definition f64_mul :: "f64 \<Rightarrow> f64 \<Rightarrow> f64" where "f64_mul x y = f64_round (x * y)"
definition f64_div :: "f64 \<Rightarrow> f64 \<Rightarrow> f64" where "f64_div x y = f64_round (x / y)"

lemmas f64_ops = f64_add_def f64_sub_def f64_mul_def f64_div_def

text \<open>Conversions: from an unsigned integer, and to one of \<open>w\<close> bits (towards zero, saturating).\<close>

definition f64_of_nat :: "nat \<Rightarrow> f64" where
  "f64_of_nat n = f64_round (of_nat n)"

definition f64_to_unsigned :: "nat \<Rightarrow> f64 \<Rightarrow> nat" where
  "f64_to_unsigned w x = min (nat \<lfloor>x\<rfloor>) (2 ^ w - 1)"

section \<open>Rounding\<close>

lemma f64_exponent_bounds:
  assumes "0 < x"
  shows "2 powi (f64_exponent x) \<le> x" "x < 2 powi (f64_exponent x + 1)"
proof -
  have "2 powi (f64_exponent x) \<le> x \<and> x < 2 powi (f64_exponent x + 1)"
  proof (cases "1 \<le> x")
    case True
    define n where "n = nat \<lfloor>x\<rfloor>"
    have n: "1 \<le> n" "rat_of_nat n \<le> x" "x < rat_of_nat n + 1"
      using True by (simp_all add: n_def) linarith+
    define k where "k = floorlog 2 n"
    have k: "2 ^ (k - 1) \<le> n" "n < 2 ^ k" "1 \<le> k"
      using floorlog_bounds[of n 2] floorlog_eq_zero_iff[of 2 n] n(1) by (auto simp: k_def)
    have "(2 :: rat) ^ (k - 1) \<le> rat_of_nat n" "rat_of_nat n + 1 \<le> 2 ^ k"
      using of_nat_mono[of "2 ^ (k - 1)" n, where 'a = rat] of_nat_mono[of "n + 1" "2 ^ k", where 'a = rat] k by simp_all
    moreover have "f64_exponent x = int (k - 1)" using True k(3) by (simp add: f64_exponent_def n_def k_def)
    moreover have "2 powi (int (k - 1) + 1) = (2 :: rat) ^ k"
      using k(3) by (metis Suc_pred' add.commute of_nat_Suc power_int_of_nat Suc_le_eq One_nat_def)
    ultimately show ?thesis using n(2,3) by (simp only: power_int_of_nat) linarith
  next
    case False
    define n where "n = nat \<lceil>1 / x\<rceil>"
    have "1 < 1 / x" using False assms by simp
    then have n: "2 \<le> n" "1 / x \<le> rat_of_nat n" "rat_of_nat n - 1 < 1 / x"
      by (simp_all add: n_def) linarith+
    define c where "c = ceillog2 n"
    have c: "n \<le> 2 ^ c" "2 ^ (c - 1) < n" "1 \<le> c"
      using le_two_power_ceillog2[of n] two_power_ceillog2_gt[of n] n(1) unfolding c_def
      by (cases "ceillog2 n"; auto)+
    have "rat_of_nat n \<le> 2 ^ c" "2 ^ (c - 1) + 1 \<le> rat_of_nat n"
      using of_nat_mono[OF c(1), where 'a = rat] of_nat_mono[of "2 ^ (c - 1) + 1" n, where 'a = rat] c by simp_all
    then have "1 / x \<le> 2 ^ c" "2 ^ (c - 1) < 1 / x" using n by linarith+
    then have "1 / 2 ^ c \<le> x" "x < 1 / 2 ^ (c - 1)"
      using assms by (simp_all add: field_simps)
    moreover have "f64_exponent x = - int c" using False by (simp add: f64_exponent_def n_def c_def)
    moreover have "- int c + 1 = - int (c - 1)" using c(3) by simp
    ultimately show ?thesis by (simp only: power_int_minus power_int_of_nat inverse_eq_divide simp_thms)
  qed
  then show "2 powi (f64_exponent x) \<le> x" "x < 2 powi (f64_exponent x + 1)" by blast+
qed

lemma round_ties_even_near: "\<bar>of_int (round_ties_even y) - y\<bar> \<le> 1 / 2"
proof -
  have "of_int \<lfloor>y\<rfloor> \<le> y" "y < of_int \<lfloor>y\<rfloor> + 1" using floor_correct[of y] by auto
  then show ?thesis unfolding round_ties_even_def Let_def abs_le_iff
    by (simp split: if_split) linarith
qed

lemma round_ties_even_mono:
  assumes "y \<le> z"
  shows "round_ties_even y \<le> round_ties_even z"
proof (cases "\<lfloor>y\<rfloor> = \<lfloor>z\<rfloor>")
  case True
  then show ?thesis using assms unfolding round_ties_even_def Let_def by auto
next
  case False
  then have "\<lfloor>y\<rfloor> + 1 \<le> \<lfloor>z\<rfloor>" using floor_mono[OF assms] by simp
  then show ?thesis unfolding round_ties_even_def Let_def by auto
qed

lemma round_ties_even_int [simp]: "round_ties_even (of_int n) = n"
  by (simp add: round_ties_even_def)

lemma f64_ulp_pos [simp]: "0 < f64_ulp x"
  by (simp add: f64_ulp_def)

lemma f64_round_0 [simp]: "f64_round 0 = 0"
  by (simp add: f64_round_def)

lemma f64_round_minus: "f64_round (- x) = - f64_round x"
  by (simp add: f64_round_def)

text \<open>The relative error of a rounding is at most \<open>2 ^ -53\<close>.\<close>

lemma f64_round_near_pos:
  assumes "0 < x"
  shows "\<bar>f64_round x - x\<bar> \<le> x / 2 ^ 53"
proof -
  let ?u = "f64_ulp x"
  have "f64_round x - x = ?u * (of_int (round_ties_even (x / ?u)) - x / ?u)"
    using assms less_imp_neq[OF f64_ulp_pos[of x]] by (simp add: f64_round_def right_diff_distrib)
  then have "\<bar>f64_round x - x\<bar> = ?u * \<bar>of_int (round_ties_even (x / ?u)) - x / ?u\<bar>"
    using less_imp_le[OF f64_ulp_pos[of x]] by (simp add: abs_mult abs_of_nonneg)
  also have "\<dots> \<le> ?u * (1 / 2)"
    by (rule mult_left_mono[OF round_ties_even_near]) (simp add: less_imp_le)
  also have "?u = 2 powi (f64_exponent x) / 2 ^ 52"
    by (simp add: f64_ulp_def power_int_diff)
  also have "2 powi (f64_exponent x) / 2 ^ 52 * (1 / 2) \<le> x / 2 ^ 53"
    using f64_exponent_bounds(1)[OF assms] by simp
  finally show ?thesis .
qed

lemma f64_round_near: "\<bar>f64_round x - x\<bar> \<le> \<bar>x\<bar> / 2 ^ 53"
  using f64_round_near_pos[of x] f64_round_near_pos[of "- x"] by (cases "0 :: rat" x rule: linorder_cases) (auto simp: f64_round_minus)

text \<open>Rounding is monotone: between two powers of two by that of rounding to integers, across them because powers of two are exact.\<close>

lemma f64_round_scaled:
  assumes "0 < x" "f64_exponent x = e"
  shows "f64_round x = 2 powi (e - 52) * of_int (round_ties_even (x / 2 powi (e - 52)))"
  using assms by (simp add: f64_round_def f64_ulp_def)

lemma f64_round_above:
  assumes "0 < x"
  shows "2 powi (f64_exponent x) \<le> f64_round x"
proof -
  let ?e = "f64_exponent x" and ?u = "2 powi (f64_exponent x - 52) :: rat"
  have u: "?u * 2 ^ 52 = 2 powi ?e" by (simp add: power_int_diff)
  have "of_int (2 ^ 52) \<le> x / ?u"
    using f64_exponent_bounds(1)[OF assms] u by (simp add: pos_le_divide_eq mult.commute)
  from round_ties_even_mono[OF this] have "2 ^ 52 \<le> round_ties_even (x / ?u)" by (simp only: round_ties_even_int)
  then have "?u * of_int (2 ^ 52) \<le> ?u * of_int (round_ties_even (x / ?u))"
    by (intro mult_left_mono) (auto simp only: of_int_le_iff, simp)
  then show ?thesis unfolding f64_round_scaled[OF assms refl] u[symmetric] by (simp only: of_int_power of_int_numeral)
qed

lemma f64_round_below:
  assumes "0 < x"
  shows "f64_round x \<le> 2 powi (f64_exponent x + 1)"
proof -
  let ?e = "f64_exponent x" and ?u = "2 powi (f64_exponent x - 52) :: rat"
  have u: "?u * 2 ^ 53 = 2 powi (?e + 1)" by (simp add: power_int_diff power_int_add)
  have "x / ?u \<le> of_int (2 ^ 53)"
    using f64_exponent_bounds(2)[OF assms] u by (simp add: pos_divide_le_eq mult.commute)
  from round_ties_even_mono[OF this] have "round_ties_even (x / ?u) \<le> 2 ^ 53" by (simp only: round_ties_even_int)
  then have "?u * of_int (round_ties_even (x / ?u)) \<le> ?u * of_int (2 ^ 53)"
    by (intro mult_left_mono) (auto simp only: of_int_le_iff, simp)
  then show ?thesis unfolding f64_round_scaled[OF assms refl] u[symmetric] by (simp only: of_int_power of_int_numeral)
qed

lemma f64_round_mono_pos:
  assumes "0 < x" "x \<le> y"
  shows "f64_round x \<le> f64_round y"
proof -
  let ?e = "f64_exponent x" and ?f = "f64_exponent y"
  have y: "0 < y" using assms by simp
  have pm: "2 powi i \<le> (2 powi j :: rat)" if "i \<le> j" for i j
    using that by (simp add: power_int_increasing)
  consider "?e = ?f" | "?e + 1 \<le> ?f" | "?f + 1 \<le> ?e" by linarith
  then show ?thesis
  proof cases
    case 1
    then have "round_ties_even (x / 2 powi (?f - 52)) \<le> round_ties_even (y / 2 powi (?f - 52))"
      using assms by (intro round_ties_even_mono divide_right_mono) simp_all
    then show ?thesis
      unfolding f64_round_scaled[OF assms(1) 1] f64_round_scaled[OF y refl] by (intro mult_left_mono) simp_all
  next
    case 2
    then show ?thesis using f64_round_below[OF assms(1)] pm[OF 2] f64_round_above[OF y] by linarith
  next
    case 3
    then show ?thesis
      using f64_exponent_bounds(1)[OF assms(1)] f64_exponent_bounds(2)[OF y] pm[OF 3] assms(2) by linarith
  qed
qed

lemma f64_round_pos: "0 < x \<Longrightarrow> 0 < f64_round x"
  using f64_round_above[of x] by (meson less_le_trans zero_less_power_int zero_less_numeral)

lemma f64_round_nonneg: "0 \<le> x \<Longrightarrow> 0 \<le> f64_round x"
  using f64_round_pos[of x] by (cases "x = 0") auto

lemma f64_round_mono: "0 \<le> x \<Longrightarrow> x \<le> y \<Longrightarrow> f64_round x \<le> f64_round y"
  using f64_round_mono_pos[of x y] f64_round_nonneg[of y] by (cases "x = 0") auto

text \<open>A whole number of at most 53 bits is exact.\<close>

lemma f64_round_of_nat:
  assumes "n < 2 ^ 53"
  shows "f64_round (of_nat n) = of_nat n"
proof (cases "n = 0")
  case False
  let ?x = "rat_of_nat n" and ?e = "f64_exponent (rat_of_nat n)"
  have x: "0 < ?x" using False by simp
  have "?x < rat_of_nat (2 ^ 53)" using assms by (simp only: of_nat_less_iff)
  then have "2 powi ?e < (2 powi 53 :: rat)" using f64_exponent_bounds(1)[OF x] by simp
  then have "?e < 53" using power_int_increasing[of 53 ?e "2 :: rat"] by (meson leD leI one_le_numeral zero_less_numeral order.strict_implies_order)
  then obtain k where k: "52 - ?e = int k" using zero_le_imp_eq_int[of "52 - ?e"] by auto
  have u: "2 powi (?e - 52) = 1 / (2 :: rat) ^ k"
    using k by (simp add: power_int_minus_divide flip: power_int_of_nat minus_diff_eq[of 52])
  have "?x / 2 powi (?e - 52) = of_int (int (n * 2 ^ k))" unfolding u by simp
  then show ?thesis using f64_round_scaled[OF x refl] unfolding u by (simp only: round_ties_even_int) simp
qed simp

lemma f64_of_nat_exact: "n < 2 ^ 53 \<Longrightarrow> f64_of_nat n = of_nat n"
  by (simp add: f64_of_nat_def f64_round_of_nat)

text \<open>Computing a rounding from the number of binary places it leaves.\<close>

lemma f64_exponent_eqI:
  assumes "2 powi e \<le> x" "x < 2 powi (e + 1)"
  shows "f64_exponent x = e"
proof -
  have "0 < x" using assms(1) by (meson less_le_trans zero_less_power_int zero_less_numeral)
  note b = f64_exponent_bounds[OF this]
  have pm: "2 powi i \<le> (2 powi j :: rat)" if "i \<le> j" for i j
    using that by (simp add: power_int_increasing)
  have "\<not> f64_exponent x + 1 \<le> e" "\<not> e + 1 \<le> f64_exponent x"
    using pm[of "f64_exponent x + 1" e] pm[of "e + 1" "f64_exponent x"] assms b by (auto simp del: power_int_add_1)
  then show ?thesis by linarith
qed

lemma round_ties_evenI:
  assumes "\<bar>of_int n - y\<bar> < 1 / 2 \<or> \<bar>of_int n - y\<bar> = 1 / 2 \<and> even n"
  shows "round_ties_even y = n"
proof (cases "of_int n \<le> y")
  case True
  then have "\<lfloor>y\<rfloor> = n" using assms by (intro floor_unique) auto
  then show ?thesis using assms True by (auto simp: round_ties_even_def)
next
  case False
  then have "\<lfloor>y\<rfloor> = n - 1" using assms by (intro floor_unique) auto
  then show ?thesis using assms False by (auto simp: round_ties_even_def)
qed

lemma f64_round_places:
  assumes "2 ^ 52 \<le> x * 2 ^ k" "x * 2 ^ k < 2 ^ 53"
    "\<bar>of_int n - x * 2 ^ k\<bar> < 1 / 2 \<or> \<bar>of_int n - x * 2 ^ k\<bar> = 1 / 2 \<and> even n"
  shows "f64_round x = of_int n / 2 ^ k"
proof -
  have p: "2 powi (52 - int k) = 2 ^ 52 / (2 ^ k :: rat)" "2 powi (52 - int k + 1) = 2 ^ 53 / (2 ^ k :: rat)"
    "2 powi (52 - int k - 52) = 1 / (2 ^ k :: rat)"
    by (simp_all add: power_int_diff power_int_add power_int_minus_divide power_int_of_nat)
  have "0 < x * 2 ^ k" using assms(1) by (meson less_le_trans zero_less_power zero_less_numeral)
  then have x: "0 < x" by (simp add: zero_less_mult_iff)
  have "f64_exponent x = 52 - int k"
    by (rule f64_exponent_eqI; unfold p; use assms(1,2) in \<open>simp add: pos_divide_le_eq pos_less_divide_eq\<close>)
  from f64_round_scaled[OF x this] show ?thesis unfolding p using round_ties_evenI[OF assms(3)] by simp
qed

section \<open>Accumulated errors\<close>

text \<open>\<open>y\<close> is \<open>x\<close> up to \<open>n\<close> roundings.\<close>

definition rounded :: "nat \<Rightarrow> rat \<Rightarrow> rat \<Rightarrow> bool" where
  "rounded n x y \<longleftrightarrow> (1 - 1 / 2 ^ 53) ^ n * x \<le> y \<and> y \<le> (1 + 1 / 2 ^ 53) ^ n * x"

lemma rounded_refl: "rounded 0 x x"
  by (simp add: rounded_def)

lemma rounded_mult: "rounded n x y \<Longrightarrow> 0 \<le> c \<Longrightarrow> rounded n (c * x) (c * y)"
  unfolding rounded_def using mult_left_mono[of _ _ c] by (simp add: mult.left_commute)

lemma rounded_divide: "rounded n x y \<Longrightarrow> 0 \<le> c \<Longrightarrow> rounded n (x / c) (y / c)"
  using rounded_mult[of n x y "1 / c"] by simp

lemma rounded_nonneg:
  assumes "rounded n x y" "0 \<le> x"
  shows "0 \<le> y"
proof -
  have "0 \<le> (1 - 1 / 2 ^ 53) ^ n * x" using assms(2) by (intro mult_nonneg_nonneg zero_le_power) simp_all
  then show ?thesis using assms(1) unfolding rounded_def by linarith
qed

lemma rounded_round:
  assumes "rounded n x y" "0 \<le> x"
  shows "rounded (Suc n) x (f64_round y)"
proof -
  let ?u = "1 / 2 ^ 53 :: rat"
  have y: "0 \<le> y" by (rule rounded_nonneg[OF assms])
  have "(1 - ?u) * y \<le> f64_round y" "f64_round y \<le> (1 + ?u) * y"
    using f64_round_near[of y] y unfolding abs_of_nonneg[OF y] abs_le_iff by (simp_all add: left_diff_distrib distrib_right)
  moreover have "(1 - ?u) * ((1 - ?u) ^ n * x) \<le> (1 - ?u) * y" "(1 + ?u) * y \<le> (1 + ?u) * ((1 + ?u) ^ n * x)"
    using assms(1) unfolding rounded_def by (intro mult_left_mono; simp)+
  ultimately show ?thesis unfolding rounded_def power_Suc mult.assoc by linarith
qed

lemma rounded_times:
  assumes "rounded n x y" "rounded m u v" "0 \<le> x" "0 \<le> u"
  shows "rounded (n + m) (x * u) (y * v)"
proof -
  let ?l = "1 - 1 / 2 ^ 53 :: rat" and ?h = "1 + 1 / 2 ^ 53 :: rat"
  have l: "0 \<le> ?l ^ k" "0 \<le> ?h ^ k" for k by (intro zero_le_power; simp)+
  have 1: "0 \<le> ?l ^ n * x" "0 \<le> ?h ^ n * x" "0 \<le> ?l ^ m * u" using l assms(3,4) by (auto intro: mult_nonneg_nonneg)
  have v: "0 \<le> v" by (rule rounded_nonneg[OF assms(2,4)])
  have "(?l ^ n * x) * (?l ^ m * u) \<le> y * v" "y * v \<le> (?h ^ n * x) * (?h ^ m * u)"
    using assms(1,2) 1 v unfolding rounded_def by (auto intro: mult_mono order.trans)
  then show ?thesis unfolding rounded_def power_add by (simp only: ac_simps)
qed

lemma rounded_add: "rounded n x y \<Longrightarrow> rounded n u v \<Longrightarrow> rounded n (x + u) (y + v)"
  unfolding rounded_def distrib_left by linarith

lemma rounded_Suc:
  assumes "rounded n x y" "0 \<le> x"
  shows "rounded (Suc n) x y"
proof -
  let ?l = "1 - 1 / 2 ^ 53 :: rat" and ?h = "1 + 1 / 2 ^ 53 :: rat"
  have "?l ^ Suc n * x \<le> ?l ^ n * x" "?h ^ n * x \<le> ?h ^ Suc n * x"
    using assms(2) by (intro mult_right_mono power_decreasing power_increasing; simp)+
  then show ?thesis using assms(1) unfolding rounded_def by linarith
qed

lemma rounded_near:
  assumes "rounded n x y" "n \<le> 5" "0 \<le> x"
  shows "\<bar>y - x\<bar> \<le> x / 2 ^ 50"
proof -
  have "(1 - 1 / 2 ^ 53 :: rat) ^ 5 \<le> (1 - 1 / 2 ^ 53) ^ n" "(1 + 1 / 2 ^ 53 :: rat) ^ n \<le> (1 + 1 / 2 ^ 53) ^ 5"
    using assms(2) by (intro power_decreasing power_increasing; simp)+
  moreover have "1 - 1 / 2 ^ 50 \<le> (1 - 1 / 2 ^ 53 :: rat) ^ 5" "(1 + 1 / 2 ^ 53 :: rat) ^ 5 \<le> 1 + 1 / 2 ^ 50"
    by (simp_all add: power_numeral_reduce)
  ultimately have "(1 - 1 / 2 ^ 50) * x \<le> (1 - 1 / 2 ^ 53) ^ n * x" "(1 + 1 / 2 ^ 53) ^ n * x \<le> (1 + 1 / 2 ^ 50) * x"
    using assms(3) by (intro mult_right_mono; linarith)+
  then have "(1 - 1 / 2 ^ 50) * x \<le> y" "y \<le> (1 + 1 / 2 ^ 50) * x" using assms(1) unfolding rounded_def by linarith+
  then show ?thesis unfolding abs_le_iff by (simp add: left_diff_distrib distrib_right)
qed

end
