(* ===== verification/Lapic.thy ===== *)
theory Lapic
  imports Interrupts Pit Float64
begin

text \<open>
  The local interrupt controller and its timer (\<open>kernel/src/arch/x86_64/interrupts.rs\<close>): the frequency of
  the timer, its initial count, and the order in which a core sets up its interrupts; and the divisor of
  the interval timer (\<open>kernel/src/arch/x86_64/pit.rs\<close>). What is written to the controllers is a list of
  operations, in order. Parameters are what the processor reports about itself and \<open>libm::round\<close>.
\<close>

section \<open>Operations on the controllers\<close>

datatype TimerMode = OneShot | Periodic

datatype hw_op =
    IdtLoad
  | PicsInitialize nat nat
  | PicsDisable
  | LapicEnable
  | LapicDivide16
  | LapicInitial nat
  | LapicMode TimerMode
  | LapicEnableTimer
  | LapicDisableTimer
  | PitSleep nat
  | SendIpiAllExcludingSelf nat
  | EnableInterrupts

definition PIC_1_OFFSET :: nat where "PIC_1_OFFSET = 32"
definition PIC_2_OFFSET :: nat where "PIC_2_OFFSET = PIC_1_OFFSET + 8"

text \<open>The interval of the timer, in milliseconds.\<close>

definition TIMER_INTERVAL :: nat where "TIMER_INTERVAL = 5"

definition disable_pics :: "hw_op list" where
  "disable_pics = [PicsInitialize PIC_1_OFFSET PIC_2_OFFSET, PicsDisable]"

text \<open>\<open>get_lapic\<close>: the vectors of the controller and the address of its registers.\<close>

record LocalApic =
  lx_timer_vector :: nat
  lx_error_vector :: nat
  lx_spurious_vector :: nat
  lx_xapic_base :: usize

definition get_lapic :: "usize \<Rightarrow> LocalApic" where
  "get_lapic lapic_address =
     \<lparr>lx_timer_vector = LOCAL_APIC_TIMER, lx_error_vector = LOCAL_APIC_ERROR,
      lx_spurious_vector = LOCAL_APIC_SPURIOUS, lx_xapic_base = lapic_address\<rparr>"

definition init_lapic :: "hw_op list" where
  "init_lapic = [LapicEnable, LapicDisableTimer]"

section \<open>The frequency of the timer\<close>

text \<open>
  What the processor reports: a hypervisor, the frequency of the controller in kHz; the processor, that
  of its crystal in Hz.
\<close>

record cpuid =
  ci_hypervisor_apic_frequency :: "nat option"
  ci_tsc_nominal_frequency :: "nat option"

text \<open>One measurement: the count runs down from the largest \<open>u32\<close> for the interval.\<close>

definition measure_ops :: "hw_op list" where
  "measure_ops = [LapicDivide16, LapicInitial (2 ^ 32 - 1), LapicMode OneShot, LapicEnableTimer,
     PitSleep TIMER_INTERVAL, LapicDisableTimer]"

definition ticks_of :: "u32 \<Rightarrow> nat" where
  "ticks_of current = unat (- 1 - current)"

text \<open>\<open>timer_frequency_hz\<close>; \<open>readings\<close> are the counts found after the measurements.\<close>

definition calibrate :: "u32 list \<Rightarrow> (f64 \<times> hw_op list) res" where
  "calibrate readings =
     res_bind (average_without_some_outliers (map ticks_of readings)) (\<lambda>(acc_sum, kept).
     let average = f64_div (f64_of_nat acc_sum) (f64_of_nat kept)
     in Inr (f64_mul average (f64_div 1000 (f64_of_nat TIMER_INTERVAL)), concat (map (\<lambda>_. measure_ops) readings)))"

definition timer_frequency_hz :: "cpuid \<Rightarrow> u32 list \<Rightarrow> (f64 \<times> hw_op list) res" where
  "timer_frequency_hz ci readings =
     (let hypervisor = (case ci_hypervisor_apic_frequency ci of
            Some undivided_freq_khz \<Rightarrow> f64_div (f64_div (f64_of_nat undivided_freq_khz) 1000) 16
          | None \<Rightarrow> 0);
          tsc = (case ci_tsc_nominal_frequency ci of
            Some undivided_freq_hz \<Rightarrow> f64_div (f64_of_nat undivided_freq_hz) 16
          | None \<Rightarrow> 0)
      in if hypervisor > 0 then Inr (hypervisor, [])
         else if tsc > 0 then Inr (tsc, [])
         else calibrate readings)"

definition ticks_per_interval :: "(f64 \<Rightarrow> f64) \<Rightarrow> f64 \<Rightarrow> nat" where
  "ticks_per_interval libm_round hz =
     (let ticks_per_ms = f64_div hz 1000
      in f64_to_unsigned 32 (libm_round (f64_mul (f64_of_nat TIMER_INTERVAL) ticks_per_ms)))"

definition periodic_ops :: "nat \<Rightarrow> hw_op list" where
  "periodic_ops n = [LapicDivide16, LapicInitial n, LapicMode Periodic, LapicEnableTimer]"

definition init_timing :: "(f64 \<Rightarrow> f64) \<Rightarrow> cpuid \<Rightarrow> u32 list \<Rightarrow> hw_op list res" where
  "init_timing libm_round ci readings =
     res_bind (timer_frequency_hz ci readings) (\<lambda>(hz, ops).
       Inr (ops @ periodic_ops (ticks_per_interval libm_round hz)))"

section \<open>Setting up the interrupts of a core\<close>

record apic_info =
  ap_also_has_legacy_pics :: bool
  ap_local_apic_address :: usize
  ap_io_apics :: "io_apic_info list"
  ap_overrides :: "source_override list"

datatype InterruptModel = ApicModel apic_info | OtherModel

text \<open>
  The statics: whether the interrupt table's timer wheel is the global one, whether the machine has legacy
  controllers, where the local controller is, and the lazily built \<open>PIT\<close>, which registers its handler when
  it is first used.
\<close>

record intr_statics =
  in_timer_set :: bool
  in_legacy_pics :: bool
  in_lapic_address :: usize
  in_pit :: bool

definition timer_init :: "intr_statics \<Rightarrow> intr_statics res" where
  "timer_init s = (if in_timer_set s then Inl UnwrapFailed else Inr (s\<lparr>in_timer_set := True\<rparr>))"

definition pit_static ::
    "'io ioapic_api \<Rightarrow> source_override list \<Rightarrow> 'f \<Rightarrow> intr_statics \<times> ('f, 'io) irq_state
       \<Rightarrow> (intr_statics \<times> ('f, 'io) irq_state) res" where
  "pit_static ia isos pit_tick p =
     (case p of (s, st) \<Rightarrow>
        if in_pit s then Inr (s, st)
        else res_bind (set_interrupt_static ia isos 0 EdgeHigh pit_tick st :: (unit InterruptGuard \<times> _) res)
          (\<lambda>(_, st). Inr (s\<lparr>in_pit := True\<rparr>, st)))"

text \<open>The calibration, where it runs, is the first use of \<open>PIT\<close>.\<close>

definition timing ::
    "'io ioapic_api \<Rightarrow> source_override list \<Rightarrow> 'f \<Rightarrow> (f64 \<Rightarrow> f64) \<Rightarrow> cpuid \<Rightarrow> u32 list
       \<Rightarrow> intr_statics \<times> ('f, 'io) irq_state \<Rightarrow> (hw_op list \<times> intr_statics \<times> ('f, 'io) irq_state) res" where
  "timing ia isos pit_tick libm_round ci readings p =
     res_bind (init_timing libm_round ci readings) (\<lambda>ops.
     res_bind (if PitSleep TIMER_INTERVAL \<in> set ops then pit_static ia isos pit_tick p else Inr p) (\<lambda>(s, st).
       Inr (ops, s, st)))"

definition interrupts_init ::
    "'io ioapic_api \<Rightarrow> 'pt mapper_api \<Rightarrow> 'f \<Rightarrow> (f64 \<Rightarrow> f64) \<Rightarrow> cpuid \<Rightarrow> u32 list \<Rightarrow> InterruptModel
       \<Rightarrow> intr_statics \<Rightarrow> ('f, 'io) irq_state \<times> 'pt memory_state
       \<Rightarrow> (hw_op list \<times> intr_statics \<times> ('f, 'io) irq_state \<times> 'pt memory_state) res" where
  "interrupts_init ia ma pit_tick libm_round ci readings model s p =
     (case model of
        OtherModel \<Rightarrow> Inl ExplicitPanic
      | ApicModel info \<Rightarrow>
          let pics = (if ap_also_has_legacy_pics info then disable_pics else []);
              s = (if ap_also_has_legacy_pics info then s\<lparr>in_legacy_pics := True\<rparr> else s);
              s = s\<lparr>in_lapic_address := ap_local_apic_address info\<rparr>
          in
          res_bind (init_ioapic ia ma (ap_io_apics info) p) (\<lambda>(st, mem).
          res_bind (timer_init s) (\<lambda>s.
          res_bind (timing ia (ap_overrides info) pit_tick libm_round ci readings (s, st)) (\<lambda>(ops, s, st).
            Inr ([IdtLoad] @ pics @ init_lapic @ ops @ [EnableInterrupts], s, st, mem)))))"

definition interrupts_init_smp ::
    "'io ioapic_api \<Rightarrow> source_override list \<Rightarrow> 'f \<Rightarrow> (f64 \<Rightarrow> f64) \<Rightarrow> cpuid \<Rightarrow> u32 list
       \<Rightarrow> intr_statics \<times> ('f, 'io) irq_state \<Rightarrow> (hw_op list \<times> intr_statics \<times> ('f, 'io) irq_state) res" where
  "interrupts_init_smp ia isos pit_tick libm_round ci readings p =
     (let pics = (if in_legacy_pics (fst p) then disable_pics else []) in
      res_bind (timing ia isos pit_tick libm_round ci readings p) (\<lambda>(ops, s, st).
        Inr ([IdtLoad] @ pics @ init_lapic @ ops @ [EnableInterrupts], s, st)))"

definition send_flush_tlb :: "hw_op list" where
  "send_flush_tlb = [SendIpiAllExcludingSelf LOCAL_APIC_TLB_FLUSH]"

section \<open>The divisor of the interval timer\<close>

definition pit_divisor :: "(f64 \<Rightarrow> f64) \<Rightarrow> u64 \<Rightarrow> u16" where
  "pit_divisor libm_round ms =
     (let duration_ms = f64_of_nat (unat ms);
          ticks_per_ms = f64_div (f64_of_nat BASE_FREQUENCY_HZ) 1000;
          target_time = f64_mul ticks_per_ms duration_ms
      in of_nat (f64_to_unsigned 16 (libm_round target_time)))"

section \<open>Rates\<close>

text \<open>\<open>libm::round\<close> as documented, for the numbers it is called with: to the nearest integer, half away from zero.\<close>

definition libm_round_spec :: "(f64 \<Rightarrow> f64) \<Rightarrow> bool" where
  "libm_round_spec r \<longleftrightarrow> (\<forall>x\<ge>0. r x = of_int \<lfloor>x + 1 / 2\<rfloor>)"

lemma libm_roundD: "libm_round_spec r \<Longrightarrow> 0 \<le> x \<Longrightarrow> r x = of_int \<lfloor>x + 1 / 2\<rfloor>"
  by (simp add: libm_round_spec_def)

lemma round_to_unsigned:
  assumes "libm_round_spec r" "0 \<le> x"
  shows "f64_to_unsigned w (r x) = min (nat \<lfloor>x + 1 / 2\<rfloor>) (2 ^ w - 1)"
  using assms by (simp add: libm_roundD f64_to_unsigned_def)

lemma round_near:
  assumes "libm_round_spec r" "0 \<le> x" "x < 2 ^ w - 1"
  shows "\<bar>of_nat (f64_to_unsigned w (r x)) - x\<bar> \<le> 1 / 2"
proof -
  have b: "of_int \<lfloor>x + 1 / 2\<rfloor> \<le> x + 1 / 2" "x + 1 / 2 < of_int \<lfloor>x + 1 / 2\<rfloor> + 1" by linarith+
  have n: "0 \<le> \<lfloor>x + 1 / 2\<rfloor>" using assms(2) by simp
  have "\<lfloor>x + 1 / 2\<rfloor> < 2 ^ w" unfolding floor_less_iff using assms(3) by simp
  then have "nat \<lfloor>x + 1 / 2\<rfloor> \<le> 2 ^ w - 1"
    using n by (simp add: nat_le_iff of_nat_diff)
  then have "rat_of_nat (f64_to_unsigned w (r x)) = of_int \<lfloor>x + 1 / 2\<rfloor>"
    using n unfolding round_to_unsigned[OF assms(1,2)] by (simp add: min_absorb1)
  then show ?thesis using b unfolding abs_le_iff by linarith
qed

lemma f64_div_rounded: "rounded n x y \<Longrightarrow> 0 \<le> x \<Longrightarrow> 0 \<le> c \<Longrightarrow> rounded (Suc n) (x / c) (f64_div y c)"
  unfolding f64_div_def by (intro rounded_round rounded_divide) simp_all

lemma f64_mul_rounded: "rounded n x y \<Longrightarrow> 0 \<le> x \<Longrightarrow> 0 \<le> c \<Longrightarrow> rounded (Suc n) (c * x) (f64_mul c y)"
  unfolding f64_mul_def by (intro rounded_round rounded_mult) simp_all

lemma interval_f64: "f64_of_nat TIMER_INTERVAL = 5"
  by (simp add: TIMER_INTERVAL_def f64_of_nat_exact)

lemma ticks_per_interval_eq:
  "ticks_per_interval r hz = f64_to_unsigned 32 (r (f64_mul 5 (f64_div hz 1000)))"
  by (simp add: ticks_per_interval_def interval_f64)

text \<open>The count for a frequency that is exact up to three roundings.\<close>

lemma ticks_per_interval_near:
  assumes r: "libm_round_spec r" and hz: "rounded n x hz" and "n \<le> 3" "0 \<le> x" "x \<le> 2 ^ 39"
  shows "\<bar>rat_of_nat (ticks_per_interval r hz) - x / 200\<bar> \<le> 1 / 2 + x / 2 ^ 57"
proof -
  let ?y = "f64_mul 5 (f64_div hz 1000)"
  have "rounded (Suc (Suc n)) (5 * (x / 1000)) ?y"
    using assms by (intro f64_mul_rounded f64_div_rounded) simp_all
  then have "\<bar>?y - 5 * (x / 1000)\<bar> \<le> 5 * (x / 1000) / 2 ^ 50"
    using rounded_near[of "Suc (Suc n)" "5 * (x / 1000)" ?y] assms(3,4) by linarith
  then have near: "\<bar>?y - x / 200\<bar> \<le> x / 200 / 2 ^ 50" by simp
  then have y: "0 \<le> ?y" "?y < 2 ^ 32 - 1" using assms(4,5) unfolding abs_le_iff by simp_all
  have "\<bar>rat_of_nat (ticks_per_interval r hz) - ?y\<bar> \<le> 1 / 2"
    using round_near[OF r y] unfolding ticks_per_interval_eq .
  moreover have "x / 200 / 2 ^ 50 \<le> x / 2 ^ 57" using assms(4) by simp
  ultimately show ?thesis using near unfolding abs_le_iff by linarith
qed

lemma f64_div_mono: "0 \<le> x \<Longrightarrow> x \<le> y \<Longrightarrow> 0 \<le> c \<Longrightarrow> f64_div x c \<le> f64_div y c"
  unfolding f64_div_def by (intro f64_round_mono divide_right_mono) simp_all

lemma f64_div_nonneg: "0 \<le> x \<Longrightarrow> 0 \<le> c \<Longrightarrow> 0 \<le> f64_div x c"
  unfolding f64_div_def by (intro f64_round_nonneg) simp

lemma f64_div_pos: "0 < x \<Longrightarrow> 0 < c \<Longrightarrow> 0 < f64_div x c"
  unfolding f64_div_def by (intro f64_round_pos) simp

text \<open>From 1.6 GHz on the count is at least one half: exactly one half there, since a tenth is rounded up.\<close>

lemma f64_tenth: "1 / 10 \<le> f64_round (1 / 10)"
  by code_simp

lemma f64_half: "f64_round (1 / 2) = 1 / 2"
  by code_simp

lemma hypervisor_half:
  assumes "1600000 \<le> khz"
  shows "1 / 2 \<le> f64_mul 5 (f64_div (f64_div (f64_div (rat_of_nat khz) 1000) 16) 1000)"
proof -
  have "f64_div 1600000 1000 = 1600" "f64_div 1600 16 = 100"
    using f64_round_of_nat[of 1600] f64_round_of_nat[of 100] by (simp_all add: f64_div_def)
  moreover have "f64_div (f64_div 1600000 1000) 16 \<le> f64_div (f64_div (rat_of_nat khz) 1000) 16"
    using assms by (intro f64_div_mono f64_div_nonneg) simp_all
  ultimately have "f64_div 100 1000 \<le> f64_div (f64_div (f64_div (rat_of_nat khz) 1000) 16) 1000"
    by (intro f64_div_mono) simp_all
  then have "1 / 10 \<le> f64_div (f64_div (f64_div (rat_of_nat khz) 1000) 16) 1000"
    using f64_tenth by (simp add: f64_div_def)
  then have "f64_round (1 / 2) \<le> f64_mul 5 (f64_div (f64_div (f64_div (rat_of_nat khz) 1000) 16) 1000)"
    unfolding f64_mul_def by (intro f64_round_mono) simp_all
  then show ?thesis unfolding f64_half .
qed

lemma hypervisor_count:
  assumes r: "libm_round_spec r" and khz: "khz < 4800000"
  shows "ticks_per_interval r (f64_div (f64_div (rat_of_nat khz) 1000) 16) = (if khz < 1600000 then 0 else 1)"
proof -
  let ?hz = "f64_div (f64_div (rat_of_nat khz) 1000) 16" and ?x = "rat_of_nat khz / 1000 / 16"
  let ?n = "ticks_per_interval r ?hz"
  have k: "rat_of_nat khz \<le> 4799999" using of_nat_le_iff[of khz 4799999, where 'a = rat] khz by simp
  have "rounded 2 ?x ?hz" using f64_div_rounded[OF f64_div_rounded[OF rounded_refl[of "rat_of_nat khz"]], of 1000 16]
    by (simp add: numeral_2_eq_2)
  from ticks_per_interval_near[OF r this] k
  have "\<bar>rat_of_nat ?n - ?x / 200\<bar> \<le> 1 / 2 + ?x / 2 ^ 57" by simp
  then have near: "rat_of_nat ?n \<le> 1 / 2 + rat_of_nat khz / 3200000 + 1 / 1000000000" using k unfolding abs_le_iff by simp
  show ?thesis
  proof (cases "khz < 1600000")
    case True
    then have "rat_of_nat khz \<le> 1599999" using of_nat_le_iff[of khz 1599999, where 'a = rat] by simp
    then have "rat_of_nat ?n < 1" using near by simp
    then show ?thesis using True by simp
  next
    case False
    let ?y = "f64_mul 5 (f64_div ?hz 1000)"
    have "1 / 2 \<le> ?y" using hypervisor_half False by simp
    then have "1 \<le> \<lfloor>?y + 1 / 2\<rfloor>" "0 \<le> ?y" by (simp_all add: le_floor_iff)
    then have "1 \<le> ?n" using round_to_unsigned[OF r, of ?y 32] unfolding ticks_per_interval_eq
      by (simp add: le_nat_iff)
    moreover have "rat_of_nat ?n < 2" using near k by linarith
    ultimately show ?thesis using False by simp
  qed
qed


section \<open>The divisor of the interval timer\<close>

lemma f64_of_nat_rounded: "rounded 1 (of_nat n) (f64_of_nat n)"
  using rounded_round[OF rounded_refl[of "of_nat n"]] by (simp add: f64_of_nat_def)

lemma pit_target_rounded:
  "rounded 4 (1193182 / 1000 * of_nat n) (f64_mul (f64_div (f64_of_nat BASE_FREQUENCY_HZ) 1000) (f64_of_nat n))"
proof -
  have "rounded 2 (1193182 / 1000) (f64_div (f64_of_nat BASE_FREQUENCY_HZ) 1000)"
    using f64_div_rounded[OF f64_of_nat_rounded, of BASE_FREQUENCY_HZ 1000] by (simp add: BASE_FREQUENCY_HZ_def numeral_2_eq_2)
  from rounded_round[OF rounded_times[OF this f64_of_nat_rounded]] show ?thesis
    by (simp add: f64_mul_def eval_nat_numeral)
qed

lemma pit_target_divisor:
  assumes r: "libm_round_spec r" and y: "rounded 4 (1193182 / 1000 * rat_of_nat n) y"
  shows "n \<le> 54 \<Longrightarrow> \<bar>rat_of_nat (f64_to_unsigned 16 (r y)) - 1193182 / 1000 * rat_of_nat n\<bar> \<le> 1"
    and "55 \<le> n \<Longrightarrow> f64_to_unsigned 16 (r y) = 65535"
proof -
  define x where "x = 1193182 / 1000 * rat_of_nat n"
  have x: "0 \<le> x" "rounded 4 x y" using y by (simp_all add: x_def)
  have near: "y - x \<le> x / 2 ^ 50" "x - y \<le> x / 2 ^ 50" using rounded_near[OF x(2) _ x(1)] unfolding abs_le_iff by linarith+
  have y0: "0 \<le> y" by (rule rounded_nonneg[OF x(2,1)])
  show "\<bar>rat_of_nat (f64_to_unsigned 16 (r y)) - 1193182 / 1000 * rat_of_nat n\<bar> \<le> 1" if "n \<le> 54"
  proof -
    have "x \<le> 64432" using that of_nat_le_iff[of n 54, where 'a = rat] by (simp add: x_def)
    then have "y < 2 ^ 16 - 1" "x / 2 ^ 50 \<le> 1 / 2" using near by simp_all
    with round_near[OF r y0 this(1)] near show ?thesis unfolding abs_le_iff x_def[symmetric] by linarith
  qed
  show "f64_to_unsigned 16 (r y) = 65535" if "55 \<le> n"
  proof -
    have "65625 \<le> x" using that of_nat_le_iff[of 55 n, where 'a = rat] by (simp add: x_def)
    then have "65535 \<le> y" using near by simp
    then have "65535 \<le> \<lfloor>y + 1 / 2\<rfloor>" unfolding le_floor_iff by simp
    then have "65535 \<le> nat \<lfloor>y + 1 / 2\<rfloor>" by linarith
    then show ?thesis unfolding round_to_unsigned[OF r y0] by (simp add: min_absorb2)
  qed
qed

text \<open>
  The divisor \<open>sleep\<close> programs is right to within one period of the timer up to 54 milliseconds, the longest
  time its 16 bits can hold; for any longer time it is the largest divisor, and the sleep ends after 55
  milliseconds. The interval of the kernel's timer is 5966 periods.
\<close>

theorem pit_divisor_rate:
  assumes "libm_round_spec libm_round"
  shows "if unat ms \<le> 54 then \<bar>rat_of_nat (unat (pit_divisor libm_round ms)) - 1193182 / 1000 * rat_of_nat (unat ms)\<bar> \<le> 1
    else unat (pit_divisor libm_round ms) = 65535"
proof -
  have "unat (pit_divisor libm_round ms) =
      f64_to_unsigned 16 (libm_round (f64_mul (f64_div (f64_of_nat BASE_FREQUENCY_HZ) 1000) (f64_of_nat (unat ms))))"
    by (simp add: pit_divisor_def Let_def f64_to_unsigned_def unat_of_nat take_bit_eq_mod)
  note d = this
  show ?thesis
  proof (cases "unat ms \<le> 54")
    case True
    then show ?thesis using pit_target_divisor(1)[OF assms pit_target_rounded True] unfolding d by (simp only: if_True)
  next
    case False
    then have "55 \<le> unat ms" by linarith
    then show ?thesis using False pit_target_divisor(2)[OF assms pit_target_rounded, of "unat ms"] unfolding d by (simp only: if_False)
  qed
qed

section \<open>The order of the set-up\<close>

lemma periodic_quiet: "EnableInterrupts \<notin> set (periodic_ops n)"
  by (simp add: periodic_ops_def)

lemma frequency_quiet: "timer_frequency_hz ci readings = Inr (hz, ops) \<Longrightarrow> EnableInterrupts \<notin> set ops"
  by (auto simp: timer_frequency_hz_def calibrate_def measure_ops_def Let_def split: if_splits)

lemma init_timing_shape:
  assumes "init_timing r ci readings = Inr ops"
  shows "\<exists>before n. ops = before @ periodic_ops n \<and> EnableInterrupts \<notin> set before"
  using assms frequency_quiet by (fastforce simp: init_timing_def)

lemma timing_again:
  assumes "timing ia isos f r ci readings p = Inr (ops, p')"
  shows "timing ia isos f r ci readings p' = Inr (ops, p') \<and> init_timing r ci readings = Inr ops \<and> in_legacy_pics (fst p') = in_legacy_pics (fst p)
    \<and> in_timer_set (fst p') = in_timer_set (fst p)"
  using assms by (auto simp: timing_def pit_static_def split: if_splits prod.splits)

text \<open>
  Setting up interrupts. When the boot core returns from it, the interrupt table was loaded first, the legacy
  controllers, where there are any, were disabled and the local controller enabled before its timer
  was started, and interrupts were enabled last of all. Every other core that later sees the same processor then
  performs the very same operations, without registering anything a second time. A machine without an APIC is a
  panic, and so is a second call.
\<close>

theorem interrupts_setup:
  assumes boot: "interrupts_init ia ma pit_tick libm_round ci readings (ApicModel info) s (st, mem) = Inr (ops, s', st', mem')"
    and s: "\<not> in_legacy_pics s"
  shows "(\<exists>before n. ops = [IdtLoad] @ (if ap_also_has_legacy_pics info then disable_pics else []) @ init_lapic
          @ before @ periodic_ops n @ [EnableInterrupts] \<and> EnableInterrupts \<notin> set before)
    \<and> interrupts_init_smp ia (ap_overrides info) pit_tick libm_round ci readings (s', st') = Inr (ops, s', st')
    \<and> interrupts_init ia ma pit_tick libm_round ci readings OtherModel s (st, mem) = Inl ExplicitPanic
    \<and> (\<forall>x. interrupts_init ia ma pit_tick libm_round ci readings (ApicModel info) s' (st', mem') \<noteq> Inr x)"
proof -
  let ?s = "(if ap_also_has_legacy_pics info then s\<lparr>in_legacy_pics := True\<rparr> else s)\<lparr>in_lapic_address := ap_local_apic_address info\<rparr>"
  obtain st1 t where t: "timing ia (ap_overrides info) pit_tick libm_round ci readings (?s\<lparr>in_timer_set := True\<rparr>, st1) = Inr (t, s', st')"
    and ops: "ops = [IdtLoad] @ (if ap_also_has_legacy_pics info then disable_pics else []) @ init_lapic @ t @ [EnableInterrupts]"
    using boot by (auto simp: interrupts_init_def timer_init_def Let_def split: if_splits)
  from timing_again[OF t] have again: "timing ia (ap_overrides info) pit_tick libm_round ci readings (s', st') = Inr (t, s', st')"
      "init_timing libm_round ci readings = Inr t" "in_timer_set s'" "in_legacy_pics s' = ap_also_has_legacy_pics info"
    using s by auto
  obtain before n where "t = before @ periodic_ops n" "EnableInterrupts \<notin> set before"
    using init_timing_shape[OF again(2)] by blast
  then have "\<exists>before n. ops = [IdtLoad] @ (if ap_also_has_legacy_pics info then disable_pics else []) @ init_lapic
      @ before @ periodic_ops n @ [EnableInterrupts] \<and> EnableInterrupts \<notin> set before"
    unfolding ops by fastforce
  then show ?thesis using again ops
    by (auto simp: interrupts_init_smp_def interrupts_init_def timer_init_def Let_def split: sum.splits)
qed

section \<open>A processor\<close>

definition nearest :: "f64 \<Rightarrow> f64" where
  "nearest x = of_int \<lfloor>x + 1 / 2\<rfloor>"

lemma nearest_spec: "libm_round_spec nearest"
  by (simp add: libm_round_spec_def nearest_def)

definition five_readings :: "u32 list" where
  "five_readings = [4294967245, 4294967285, 4294967243, 4294967244, 4294967205]"

lemma five_average: "average_without_some_outliers (map ticks_of five_readings) = Inr (153, 3)"
proof -
  have "map ticks_of five_readings = [50, 10, 52, 51, 90]" by code_simp
  moreover have "sort [50, 10, 52, 51, 90 :: nat] = [10, 50, 51, 52, 90]" by simp
  ultimately show ?thesis
    by (simp add: average_without_some_outliers_def index_at_def add_sample_def u32_add_def Let_def)
qed


theorem pit_divisor_rate_witness: "\<bar>rat_of_nat (unat (pit_divisor nearest 5)) - 5965\<bar> \<le> 2"
  using pit_divisor_rate[OF nearest_spec, of 5] unfolding abs_le_iff by simp

definition no_statics :: intr_statics where
  "no_statics = \<lparr>in_timer_set = False, in_legacy_pics = False, in_lapic_address = 0, in_pit = False\<rparr>"

definition desktop_info :: apic_info where
  "desktop_info = \<lparr>ap_also_has_legacy_pics = True, ap_local_apic_address = 0xFEE00000,
     ap_io_apics = [\<lparr>ii_address = 0xFEC00000, ii_base = 0\<rparr>], ap_overrides = []\<rparr>"

theorem interrupts_setup_witness:
  "\<exists>ops s' st' mem'. interrupts_init fun_ioapic fun_mapper (0 :: nat) nearest
       \<lparr>ci_hypervisor_apic_frequency = Some 1000000, ci_tsc_nominal_frequency = None\<rparr> [] (ApicModel desktop_info) no_statics
       (irq_static, small_state) = Inr (ops, s', st', mem')
     \<and> interrupts_init_smp fun_ioapic [] 0 nearest
       \<lparr>ci_hypervisor_apic_frequency = Some 1000000, ci_tsc_nominal_frequency = None\<rparr> [] (s', st') = Inr (ops, s', st')"
proof -
  let ?ci = "\<lparr>ci_hypervisor_apic_frequency = Some 1000000, ci_tsc_nominal_frequency = None\<rparr>"
  obtain st1 mem1 where c: "init_ioapic fun_ioapic fun_mapper [\<lparr>ii_address = 0xFEC00000, ii_base = 0\<rparr>]
     (irq_static :: (nat, nat \<Rightarrow> table_entry) irq_state, small_state) = Inr (st1, mem1)" using init_call by blast
  have "0 < f64_div (f64_div 1000000 1000) 16" by (intro f64_div_pos) simp_all
  then have "timer_frequency_hz ?ci [] = Inr (f64_div (f64_div 1000000 1000) 16, [])"
    using f64_of_nat_exact[of 1000000] by (simp add: timer_frequency_hz_def)
  then obtain ops s' where "interrupts_init fun_ioapic fun_mapper (0 :: nat) nearest ?ci [] (ApicModel desktop_info) no_statics
      (irq_static, small_state) = Inr (ops, s', st1, mem1)"
    using c by (auto simp: interrupts_init_def desktop_info_def no_statics_def timer_init_def timing_def init_timing_def periodic_ops_def Let_def)
  from this interrupts_setup[OF this] show ?thesis by (auto simp: no_statics_def desktop_info_def)
qed

end
