(* ===== verification/Pixels.thy ===== *)
theory Pixels
  imports Framebuffer Float64
begin

text \<open>
  The floating-point computations of the framebuffer console (\<open>write_pixel\<close> of \<open>kernel/src/framebuffer.rs\<close>):
  blending a pixel with the one below it, and the threshold of one-bit displays.
\<close>

definition blend :: "u8 \<Rightarrow> u8 \<Rightarrow> u8 \<Rightarrow> u8" where
  "blend a old new =
     (let alpha = f64_div (f64_of_nat (unat a)) 255;
          x = f64_mul alpha (f64_of_nat (unat new));
          z = f64_mul (f64_sub 1 alpha) (f64_of_nat (unat old))
      in of_nat (f64_to_unsigned 8 (f64_add x z)))"

definition luminance :: "u8 \<Rightarrow> u8 \<Rightarrow> u8 \<Rightarrow> f64" where
  "luminance r g b =
     f64_add (f64_add (f64_mul (f64_round 0.2126) (f64_of_nat (unat r))) (f64_mul (f64_round 0.7125) (f64_of_nat (unat g))))
       (f64_mul (f64_round 0.722) (f64_of_nat (unat b)))"

definition kernel_float :: fb_float where
  "kernel_float = \<lparr>fl_blend = blend, fl_bright = (\<lambda>r g b. luminance r g b > 200)\<rparr>"

section \<open>Blending\<close>

lemma f64_alpha:
  assumes "n \<le> 255"
  defines "alpha \<equiv> f64_div (f64_of_nat n) 255"
  shows "0 \<le> alpha" "alpha \<le> 1" "rounded 1 (1 - alpha) (f64_sub 1 alpha)"
proof -
  have e: "f64_of_nat n = rat_of_nat n" using assms(1) by (intro f64_of_nat_exact) simp
  have "rat_of_nat n / 255 \<le> 1" using of_nat_le_iff[of n 255, where 'a = rat] assms(1) by simp
  from f64_round_mono[OF _ this] show le: "0 \<le> alpha" "alpha \<le> 1"
    using f64_round_of_nat[of 1] unfolding alpha_def e f64_div_def by (simp_all add: f64_round_nonneg)
  then show "rounded 1 (1 - alpha) (f64_sub 1 alpha)"
    using rounded_round[OF rounded_refl[of "1 - alpha"]] by (simp add: f64_sub_def)
qed

text \<open>The sum before the cast, three roundings away from a convex combination.\<close>

lemma blend_rounded:
  assumes "n \<le> 255" "old \<le> 255" "new \<le> 255"
  defines "alpha \<equiv> f64_div (f64_of_nat n) 255"
  shows "rounded 3 (alpha * rat_of_nat new + (1 - alpha) * rat_of_nat old)
    (f64_add (f64_mul alpha (f64_of_nat new)) (f64_mul (f64_sub 1 alpha) (f64_of_nat old)))"
proof -
  note al = f64_alpha[OF assms(1), folded alpha_def]
  have e: "f64_of_nat old = rat_of_nat old" "f64_of_nat new = rat_of_nat new"
    using assms(2,3) by (intro f64_of_nat_exact; simp)+
  have "rounded 1 (alpha * rat_of_nat new) (f64_mul alpha (rat_of_nat new))"
    using rounded_round[OF rounded_refl[of "alpha * rat_of_nat new"]] al by (simp add: f64_mul_def)
  then have x: "rounded 2 (alpha * rat_of_nat new) (f64_mul alpha (rat_of_nat new))"
    using rounded_Suc al(1) by (simp add: numeral_2_eq_2)
  have z: "rounded 2 ((1 - alpha) * rat_of_nat old) (f64_mul (f64_sub 1 alpha) (rat_of_nat old))"
    using rounded_round[OF rounded_times[OF al(3) rounded_refl[of "rat_of_nat old"]]] al
    by (simp add: f64_mul_def numeral_2_eq_2)
  show ?thesis using rounded_round[OF rounded_add[OF x z]] al unfolding e
    by (simp add: f64_add_def numeral_3_eq_3 numeral_2_eq_2)
qed

lemma convex_bounds:
  assumes "0 \<le> (alpha :: rat)" "alpha \<le> 1"
  shows "min x y \<le> alpha * x + (1 - alpha) * y" "alpha * x + (1 - alpha) * y \<le> max x y"
proof -
  have "alpha * min x y \<le> alpha * x" "(1 - alpha) * min x y \<le> (1 - alpha) * y"
    "alpha * x \<le> alpha * max x y" "(1 - alpha) * y \<le> (1 - alpha) * max x y"
    using assms by (intro mult_left_mono; simp)+
  then show "min x y \<le> alpha * x + (1 - alpha) * y" "alpha * x + (1 - alpha) * y \<le> max x y"
    by (simp_all add: left_diff_distrib)
qed

lemma u8_le: "unat (a :: u8) \<le> 255"
  using unsigned_less[of a, where 'a = nat] by simp

lemma blend_between:
  "min (unat old) (unat new) \<le> unat (blend a old new) + 1 \<and> unat (blend a old new) \<le> max (unat old) (unat new)"
proof -
  let ?alpha = "f64_div (f64_of_nat (unat a)) 255" and ?o = "unat old" and ?n = "unat new"
  define y where "y = f64_add (f64_mul ?alpha (f64_of_nat ?n)) (f64_mul (f64_sub 1 ?alpha) (f64_of_nat ?o))"
  define x where "x = ?alpha * rat_of_nat ?n + (1 - ?alpha) * rat_of_nat ?o"
  note al = f64_alpha[OF u8_le[of a]]
  have b: "min (rat_of_nat ?n) (rat_of_nat ?o) \<le> x" "x \<le> max (rat_of_nat ?n) (rat_of_nat ?o)"
    unfolding x_def using convex_bounds[OF al(1,2)] by blast+
  have m: "max (rat_of_nat ?n) (rat_of_nat ?o) = of_nat (max ?o ?n)" "min (rat_of_nat ?n) (rat_of_nat ?o) = of_nat (min ?o ?n)"
    by (simp_all only: of_nat_max of_nat_min max.commute min.commute)
  have x: "0 \<le> x" "x \<le> 255" using b u8_le[of old] u8_le[of new] unfolding m
    by (auto intro: order.trans[OF of_nat_0_le_iff] order.trans[OF _ of_nat_mono[of _ 255, simplified]])
  have "\<bar>y - x\<bar> \<le> x / 2 ^ 50"
    using rounded_near[OF blend_rounded[OF u8_le[of a] u8_le[of old] u8_le[of new], folded x_def y_def]] x by simp
  moreover have "x / 2 ^ 50 < 1" using x(2) by simp
  ultimately have near: "y < x + 1" "x - 1 < y" unfolding abs_le_iff by linarith+
  have "unat (blend a old new) = f64_to_unsigned 8 y"
    by (simp add: blend_def y_def Let_def f64_to_unsigned_def unat_of_nat take_bit_eq_mod)
  moreover have "nat \<lfloor>y\<rfloor> \<le> max ?o ?n"
  proof -
    have "y < rat_of_nat (max ?o ?n) + 1" using near b x unfolding m by linarith
    then show ?thesis by linarith
  qed
  moreover have "min ?o ?n \<le> nat \<lfloor>y\<rfloor> + 1"
  proof -
    have "rat_of_nat (min ?o ?n) - 1 \<le> y" using near b x unfolding m by linarith
    then show ?thesis by linarith
  qed
  moreover have "max ?o ?n \<le> 255" using u8_le[of old] u8_le[of new] by simp
  ultimately show ?thesis by (simp add: f64_to_unsigned_def)
qed

text \<open>The computation for white on white with an opacity of 43: the complement of the opacity is rounded down.\<close>

lemma blend_white_43: "blend 43 255 255 = 254"
proof -
  have 1: "f64_div 43 255 = 6075444203197846 / 2 ^ 55"
    unfolding f64_div_def by (subst f64_round_places[where n = 6075444203197846 and k = 55]) simp_all
  have 2: "f64_mul (6075444203197846 / 2 ^ 55) 255 = 43"
    unfolding f64_mul_def by (subst f64_round_places[where n = 6051711999279104 and k = 47]) simp_all
  have 3: "f64_sub 1 (6075444203197846 / 2 ^ 55) = 7488338203941530 / 2 ^ 53"
    unfolding f64_sub_def by (subst f64_round_places[where n = 7488338203941530 and k = 53]) simp_all
  have 4: "f64_mul (7488338203941530 / 2 ^ 53) 255 = 7459086882832383 / 2 ^ 45"
    unfolding f64_mul_def by (subst f64_round_places[where n = 7459086882832383 and k = 45]) simp_all
  have 5: "f64_add 43 (7459086882832383 / 2 ^ 45) = 8972014882652159 / 2 ^ 45"
    unfolding f64_add_def by (subst f64_round_places[where n = 8972014882652159 and k = 45]) simp_all
  have e: "f64_of_nat (unat (43 :: u8)) = 43" "f64_of_nat (unat (255 :: u8)) = 255"
    by (simp_all add: f64_of_nat_exact)
  have "\<lfloor>8972014882652159 / 2 ^ 45 :: rat\<rfloor> = 254" by (rule floor_unique) simp_all
  then show ?thesis unfolding blend_def Let_def e 1 2 3 4 5 f64_to_unsigned_def by simp
qed

lemma blend_transparent: "blend 0 old new = old"
proof -
  have "f64_sub 1 0 = 1" "f64_div 0 255 = 0" "f64_mul 0 y = 0" for y
    using f64_round_of_nat[of 1] by (simp_all add: f64_ops)
  moreover have "f64_mul 1 (f64_of_nat (unat old)) = rat_of_nat (unat old)"
    "f64_add 0 (rat_of_nat (unat old)) = rat_of_nat (unat old)" "f64_of_nat (unat old) = rat_of_nat (unat old)"
    using f64_round_of_nat[of "unat old"] f64_of_nat_exact[of "unat old"] u8_le[of old] by (simp_all add: f64_ops del: of_nat_unat)
  moreover have "f64_of_nat (unat (0 :: u8)) = 0" by (simp add: f64_of_nat_def)
  ultimately show ?thesis using u8_le[of old]
    by (simp add: blend_def f64_to_unsigned_def min_absorb1 del: of_nat_unat) simp
qed

section \<open>The threshold of one-bit displays\<close>

lemma term_rounded:
  assumes "0 \<le> q" "n \<le> 255"
  shows "rounded 2 (q * rat_of_nat n) (f64_mul (f64_round q) (f64_of_nat n))"
proof -
  have "rounded (Suc (Suc 0 + 0)) (q * rat_of_nat n) (f64_round (f64_round q * rat_of_nat n))"
    using assms(1) by (intro rounded_round rounded_times rounded_refl) simp_all
  moreover have "f64_of_nat n = rat_of_nat n" using assms(2) by (intro f64_of_nat_exact) simp
  ultimately show ?thesis by (simp add: f64_mul_def numeral_2_eq_2)
qed

lemma luminance_rounded:
  "rounded 4 (0.2126 * rat_of_nat (unat r) + 0.7125 * rat_of_nat (unat g) + 0.722 * rat_of_nat (unat b)) (luminance r g b)"
proof -
  have "rounded 3 (0.2126 * rat_of_nat (unat r) + 0.7125 * rat_of_nat (unat g))
      (f64_add (f64_mul (f64_round 0.2126) (f64_of_nat (unat r))) (f64_mul (f64_round 0.7125) (f64_of_nat (unat g))))"
    using rounded_round[OF rounded_add[OF term_rounded[OF _ u8_le[of r], of "0.2126"] term_rounded[OF _ u8_le[of g], of "0.7125"]]]
    by (simp add: f64_add_def numeral_3_eq_3 numeral_2_eq_2 del: of_nat_unat)
  moreover have "rounded 3 (0.722 * rat_of_nat (unat b)) (f64_mul (f64_round 0.722) (f64_of_nat (unat b)))"
    using rounded_Suc[OF term_rounded[OF _ u8_le[of b], of "0.722"]] by (simp add: numeral_3_eq_3 numeral_2_eq_2 del: of_nat_unat)
  ultimately have "rounded (Suc 3) (0.2126 * rat_of_nat (unat r) + 0.7125 * rat_of_nat (unat g) + 0.722 * rat_of_nat (unat b)) (luminance r g b)"
    unfolding luminance_def f64_add_def[of "f64_add _ _"]
    by (rule rounded_round[OF rounded_add]) (intro add_nonneg_nonneg mult_nonneg_nonneg of_nat_0_le_iff; simp)
  then show ?thesis by (simp add: eval_nat_numeral)
qed

lemma luminance_near:
  defines "x r g b \<equiv> 0.2126 * rat_of_nat (unat r) + 0.7125 * rat_of_nat (unat g) + 0.722 * rat_of_nat (unat b)"
  shows "\<bar>luminance r g b - x r g b\<bar> < 1 / 1000"
proof -
  have le: "rat_of_nat (unat v) \<le> 255" for v :: u8
    using of_nat_le_iff[of "unat v" 255, where 'a = rat] u8_le[of v] by (simp del: of_nat_unat)
  have ge: "0 \<le> rat_of_nat (unat v)" for v :: u8 by (rule of_nat_0_le_iff)
  have x: "0 \<le> x r g b" "x r g b \<le> 421"
    unfolding x_def using le[of r] le[of g] le[of b] ge[of r] ge[of g] ge[of b] by (simp_all del: of_nat_unat)
  have "\<bar>luminance r g b - x r g b\<bar> \<le> x r g b / 2 ^ 50"
    using rounded_near[OF luminance_rounded[of r g b, folded x_def]] x by simp
  moreover have "x r g b / 2 ^ 50 < 1 / 1000" using x by simp
  ultimately show ?thesis by linarith
qed

text \<open>
  The colours of the console. Blending returns a colour between the old and the new one, except
  that it may be one below the smaller of the two (white over white at opacity 43 is 254), and a
  transparent pixel keeps the old colour. The weights of the luminance do not add up to one, so a
  one-bit display shows every grey from 122 of 255 on as light although the threshold is 200.
\<close>

theorem pixel_colours:
  "min (unat old) (unat new) \<le> unat (fl_blend kernel_float a old new) + 1
   \<and> unat (fl_blend kernel_float a old new) \<le> max (unat old) (unat new)
   \<and> fl_blend kernel_float 0 old new = old
   \<and> fl_blend kernel_float 43 255 255 = 254
   \<and> (fl_bright kernel_float v v v \<longleftrightarrow> 122 \<le> unat v)"
proof -
  define y where "y = rat_of_nat (unat v)"
  have "\<bar>luminance v v v - (0.2126 * y + 0.7125 * y + 0.722 * y)\<bar> < 1 / 1000"
    using luminance_near[of v v v] unfolding y_def .
  then have near: "luminance v v v < 1.6471 * y + 1 / 1000" "1.6471 * y - 1 / 1000 < luminance v v v"
    unfolding abs_less_iff by simp_all
  have "luminance v v v > 200 \<longleftrightarrow> 122 \<le> unat v"
  proof (cases "122 \<le> unat v")
    case True
    then have "122 \<le> y" using of_nat_le_iff[of 122 "unat v", where 'a = rat] by (simp add: y_def del: of_nat_unat)
    then show ?thesis using True near by simp
  next
    case False
    then have "y \<le> 121" using of_nat_le_iff[of "unat v" 121, where 'a = rat] by (simp add: y_def del: of_nat_unat)
    then show ?thesis using False near by simp
  qed
  then show ?thesis using blend_between[of old new a] blend_transparent blend_white_43 by (simp add: kernel_float_def)
qed

end
