(* ===== verification/Boot.thy ===== *)
theory Boot
  imports Snalloc Cpu_Setup Lapic Hpet Pci Panic Logo
begin

text \<open>
  The boot of the kernel: \<open>arch::init\<close> and the start of the other cores
  (\<open>kernel/src/arch/x86_64/mod.rs\<close>), the tables of the firmware (\<open>kernel/src/arch/x86_64/acpi.rs\<close>) and
  the two stages of the panic handler (\<open>kernel/src/panic.rs\<close>), composed from the models of the
  components in the order of the code. What the boot loader and the firmware answer, and the libraries, are
  parameters.
\<close>

section \<open>The machine\<close>

text \<open>The tables of the firmware, as the crate \<open>acpi\<close> reads them.\<close>

record acpi_tables =
  ac_platform_info :: "InterruptModel option"
  ac_fadt_sci_interrupt :: "nat option"
  ac_hpet :: "Hpet option"

record ('fb, 'f, 'io, 'pt, 'cap, 'g) machine =
  ma_memmap :: "MemmapEntry list option"
  ma_hhdm :: "usize option"
  ma_rsdp :: "usize option"
  ma_smp :: "(nat \<times> SmpInfo list) option"
  ma_kernel_file :: "kernel_file option option"
  ma_kernel_address :: "usize option"
  ma_from_rsdp :: "usize \<Rightarrow> acpi_tables option"
  ma_rtc :: u64
  ma_level_4_table :: 'pt
  ma_iter_layout :: Layout
  ma_frame_buffer :: usize
  ma_statics :: "nat \<Rightarrow> usize"
  ma_temporaries :: "nat \<Rightarrow> usize"
  ma_cpuid :: cpuid
  ma_readings :: "u32 list"
  ma_pci :: "'cap pci_access"
  ma_mapper :: "'pt mapper_api"
  ma_ioapic :: "'io ioapic_api"
  ma_fallback :: "'fb fallback_api"
  ma_gdt :: "'g gdt_api"
  ma_bitfield :: "u64 bitfield"
  ma_libm_round :: "f64 \<Rightarrow> f64"
  ma_pit_tick :: 'f
  ma_sci_handler :: 'f

text \<open>The statics of the kernel and the registers of the boot core.\<close>

record ('fb, 'f, 'io, 'pt, 'cap, 'g) kernel =
  ke_pid :: nat
  ke_segments :: "segments option"
  ke_memory :: "'pt memory_state"
  ke_kernel_file :: "kernel_file option"
  ke_kernel_base :: usize
  ke_acpi :: "acpi_tables option"
  ke_intr :: intr_statics
  ke_irq :: "('f, 'io) irq_state"
  ke_ops :: "hw_op list"
  ke_heap :: "'fb Inner \<times> memory"
  ke_display :: Display
  ke_clock :: clock
  ke_panic :: panic_state
  ke_devices :: "'cap devices"
  ke_ap_info :: "(TaskStateSegment \<times> 'g \<times> Selectors) list option"
  ke_cpus :: "SmpInfo list"

definition kernel_static :: "'fb fallback_api \<Rightarrow> 'pt memory_state \<Rightarrow> Display \<Rightarrow> ('fb, 'f, 'io, 'pt, 'cap, 'g) kernel" where
  "kernel_static api mem display =
     \<lparr>ke_pid = 0, ke_segments = None, ke_memory = mem, ke_kernel_file = None, ke_kernel_base = 0, ke_acpi = None,
      ke_intr = \<lparr>in_timer_set = False, in_legacy_pics = False, in_lapic_address = 0, in_pit = False\<rparr>,
      ke_irq = irq_static, ke_ops = [], ke_heap = (Allocator_new api, \<lambda>_. 0), ke_display = display, ke_clock = clock_static,
      ke_panic = \<lparr>ps_full = False, ps_cores = Map.empty, ps_log = []\<rparr>, ke_devices = Map.empty, ke_ap_info = None, ke_cpus = []\<rparr>"

section \<open>Allocation\<close>

text \<open>An allocation that fails is a panic, the default of the language's library. \<open>alloc_zeroed\<close> clears the block.\<close>

definition alloc_block :: "'fb fallback_api \<Rightarrow> Layout \<Rightarrow> 'fb Inner \<times> memory \<Rightarrow> (usize \<times> 'fb Inner \<times> memory) res" where
  "alloc_block api l h =
     res_bind (Allocator_alloc api (fst h) l (snd h)) (\<lambda>(p, h). if p = 0 then Inl ExplicitPanic else Inr (p, h))"

definition box_block :: "'fb fallback_api \<Rightarrow> usize \<Rightarrow> 'fb Inner \<times> memory \<Rightarrow> (usize \<times> 'fb Inner \<times> memory) res" where
  "box_block api n h = alloc_block api \<lparr>lsize = n, lalign = 8\<rparr> h"

definition zeroed_block :: "'fb fallback_api \<Rightarrow> usize \<Rightarrow> 'fb Inner \<times> memory \<Rightarrow> (usize \<times> 'fb Inner \<times> memory) res" where
  "zeroed_block api n h =
     res_bind (alloc_block api \<lparr>lsize = n, lalign = 1\<rparr> h) (\<lambda>(p, inner, m).
       Inr (p, inner, \<lambda>a. if p \<le> a \<and> a < p + n then 0 else m a))"

section \<open>The steps\<close>

definition panic_init :: "('fb, 'f, 'io, 'pt, 'cap, 'g) machine \<Rightarrow> ('fb, 'f, 'io, 'pt, 'cap, 'g) kernel \<Rightarrow> ('fb, 'f, 'io, 'pt, 'cap, 'g) kernel res" where
  "panic_init mc k =
     res_bind (unwrap (ma_kernel_file mc)) (\<lambda>kernel_slice.
     let k = k\<lparr>ke_kernel_file := kernel_slice\<rparr> in
     res_bind (unwrap (ma_kernel_address mc)) (\<lambda>virtual_base. Inr (k\<lparr>ke_kernel_base := virtual_base\<rparr>)))"

definition panic_late_init :: "panic_state \<Rightarrow> panic_state" where
  "panic_late_init st = st\<lparr>ps_full := True\<rparr>"

definition get_tables :: "('fb, 'f, 'io, 'pt, 'cap, 'g) kernel \<Rightarrow> acpi_tables res" where
  "get_tables k = unwrap (ke_acpi k)"

definition get_platform_info :: "('fb, 'f, 'io, 'pt, 'cap, 'g) kernel \<Rightarrow> InterruptModel res" where
  "get_platform_info k = res_bind (get_tables k) (\<lambda>t. unwrap (ac_platform_info t))"

definition acpi_early_init ::
    "('fb, 'f, 'io, 'pt, 'cap, 'g) machine \<Rightarrow> usize \<Rightarrow> ('fb, 'f, 'io, 'pt, 'cap, 'g) kernel
       \<Rightarrow> (InterruptModel \<times> ('fb, 'f, 'io, 'pt, 'cap, 'g) kernel) res" where
  "acpi_early_init mc rsdp_address k =
     res_bind (if ke_acpi k \<noteq> None then Inl UnwrapFailed
               else res_bind (unwrap (ma_from_rsdp mc rsdp_address)) (\<lambda>t. Inr (k\<lparr>ke_acpi := Some t\<rparr>))) (\<lambda>k.
     res_bind (get_platform_info k) (\<lambda>model. Inr (model, k)))"

definition overrides_of :: "InterruptModel \<Rightarrow> source_override list res" where
  "overrides_of model = (case model of ApicModel info \<Rightarrow> Inr (ap_overrides info) | OtherModel \<Rightarrow> Inl ExplicitPanic)"

text \<open>Registering the handler of the firmware's interrupt; the guard is forgotten.\<close>

definition acpi_late_init ::
    "('fb, 'f, 'io, 'pt, 'cap, 'g) machine \<Rightarrow> ('fb, 'f, 'io, 'pt, 'cap, 'g) kernel \<Rightarrow> ('fb, 'f, 'io, 'pt, 'cap, 'g) kernel res" where
  "acpi_late_init mc k =
     res_bind (get_tables k) (\<lambda>t.
     res_bind (unwrap (ac_fadt_sci_interrupt t)) (\<lambda>sci.
     res_bind (get_platform_info k) (\<lambda>model.
     res_bind (overrides_of model) (\<lambda>isos.
     res_bind (set_interrupt_static (ma_ioapic mc) isos (sci mod 256) LevelLow (ma_sci_handler mc) (ke_irq k) :: (unit InterruptGuard \<times> _) res)
       (\<lambda>(_, st). Inr (k\<lparr>ke_irq := st\<rparr>))))))"

text \<open>\<open>late_init\<close> of the framebuffer copies it to the heap; an empty slice needs no memory.\<close>

definition framebuffer_late_init ::
    "('fb, 'f, 'io, 'pt, 'cap, 'g) machine \<Rightarrow> ('fb, 'f, 'io, 'pt, 'cap, 'g) kernel \<Rightarrow> ('fb, 'f, 'io, 'pt, 'cap, 'g) kernel res" where
  "framebuffer_late_init mc k =
     (let n = length (fb_buffer (ke_display k)) in
      res_bind (if n = 0 then Inr (0, ke_heap k) else alloc_block (ma_fallback mc) \<lparr>lsize = n, lalign = 1\<rparr> (ke_heap k)) (\<lambda>(_, h).
        Inr (k\<lparr>ke_heap := h, ke_display := late_init (ke_display k)\<rparr>)))"

text \<open>\<open>local::init\<close>: a box of 48 bytes (a pointer, the magic number, a lock and the map) behind the core's GS register.\<close>

definition core_local_init ::
    "'fb fallback_api \<Rightarrow> nat \<Rightarrow> ('fb, 'f, 'io, 'pt, 'cap, 'g) kernel \<Rightarrow> ('fb, 'f, 'io, 'pt, 'cap, 'g) kernel res" where
  "core_local_init api core k =
     res_bind (box_block api 48 (ke_heap k)) (\<lambda>(ptr, h).
       Inr (k\<lparr>ke_heap := h, ke_panic := (ke_panic k)\<lparr>ps_cores := local_init core (ps_cores (ke_panic k))\<rparr>\<rparr>))"

text \<open>\<open>init_smp\<close>: the descriptors of all cores, and the entry points.\<close>

fun ap_infos ::
    "('fb, 'f, 'io, 'pt, 'cap, 'g) machine \<Rightarrow> SmpInfo list \<Rightarrow> 'fb Inner \<times> memory
       \<Rightarrow> ((TaskStateSegment \<times> 'g \<times> Selectors) list \<times> 'fb Inner \<times> memory) res" where
  "ap_infos mc [] h = Inr ([], h)"
| "ap_infos mc (cpu # cpus) h =
     res_bind (allocate_for_ap (ma_gdt mc) (zeroed_block (ma_fallback mc)) (box_block (ma_fallback mc)) (ma_temporaries mc) h) (\<lambda>(info, h).
     res_bind (ap_infos mc cpus h) (\<lambda>(infos, h). Inr (info # infos, h)))"

definition boot_init_smp ::
    "('fb, 'f, 'io, 'pt, 'cap, 'g) machine \<Rightarrow> ('fb, 'f, 'io, 'pt, 'cap, 'g) kernel \<Rightarrow> ('fb, 'f, 'io, 'pt, 'cap, 'g) kernel res" where
  "boot_init_smp mc k =
     res_bind (unwrap (ma_smp mc)) (\<lambda>(bsp_lapic_id, cpus).
     res_bind (ap_infos mc cpus (ke_heap k)) (\<lambda>(infos, h).
     if ke_ap_info k \<noteq> None then Inl UnwrapFailed
     else Inr (k\<lparr>ke_heap := h, ke_ap_info := Some infos, ke_cpus := init_smp bsp_lapic_id cpus\<rparr>)))"

text \<open>\<open>arch::init\<close> up to the heap, and from there on.\<close>

definition arch_init_early ::
    "('fb, 'f, 'io, 'pt, 'cap, 'g) machine \<Rightarrow> ('fb, 'f, 'io, 'pt, 'cap, 'g) kernel
       \<Rightarrow> (InterruptModel \<times> ('fb, 'f, 'io, 'pt, 'cap, 'g) kernel) res" where
  "arch_init_early mc k =
     (let k = k\<lparr>ke_pid := 0\<rparr> in
      res_bind (gdt_init (ma_gdt mc) (ma_statics mc) 0 ()) (\<lambda>(segs, _).
      let k = k\<lparr>ke_segments := Some segs\<rparr> in
      res_bind (unwrap (ma_memmap mc)) (\<lambda>memmap.
      res_bind (unwrap (ma_hhdm mc)) (\<lambda>physical_memory_offset.
      res_bind (memory_init (ma_level_4_table mc) (ma_iter_layout mc) memmap (StackAllocator_new (ma_frame_buffer mc) 2048) (ke_memory k)) (\<lambda>mem.
      let k = k\<lparr>ke_memory := mem\<rparr> in
      res_bind (panic_init mc k) (\<lambda>k.
      res_bind (unwrap (ma_rsdp mc)) (\<lambda>rsdp_addr.
        acpi_early_init mc rsdp_addr k)))))))"

definition arch_init ::
    "('fb, 'f, 'io, 'pt, 'cap, 'g) machine \<Rightarrow> ('fb, 'f, 'io, 'pt, 'cap, 'g) kernel \<Rightarrow> ('fb, 'f, 'io, 'pt, 'cap, 'g) kernel res" where
  "arch_init mc k =
     res_bind (arch_init_early mc k) (\<lambda>(model, k).
     res_bind (interrupts_init (ma_ioapic mc) (ma_mapper mc) (ma_pit_tick mc) (ma_libm_round mc) (ma_cpuid mc) (ma_readings mc) model
         (ke_intr k) (ke_irq k, ke_memory k)) (\<lambda>(ops, intr, irq, mem).
     let k = k\<lparr>ke_ops := ke_ops k @ ops, ke_intr := intr, ke_irq := irq, ke_memory := mem\<rparr> in
     res_bind (allocator_init (ma_fallback mc) (snd (ke_heap k))) (\<lambda>h.
     let k = k\<lparr>ke_heap := h\<rparr> in
     res_bind (framebuffer_late_init mc k) (\<lambda>k.
     res_bind (acpi_late_init mc k) (\<lambda>k.
     res_bind (get_tables k) (\<lambda>t.
     let k = k\<lparr>ke_clock := time_init (ma_rtc mc) (hpet_init (ma_bitfield mc) (ac_hpet t) (ke_clock k))\<rparr> in
     res_bind (core_local_init (ma_fallback mc) 0 k) (\<lambda>k.
     let k = k\<lparr>ke_panic := panic_late_init (ke_panic k)\<rparr> in
     res_bind (unwrap (ma_hhdm mc)) (\<lambda>physical_memory_offset.
     res_bind (unwrap (pci_init (ma_pci mc) physical_memory_offset 256 (ke_devices k))) (\<lambda>devices.
       boot_init_smp mc (k\<lparr>ke_devices := devices\<rparr>))))))))))"

text \<open>
  \<open>start_smp\<close> on another core: its descriptors, its interrupts, its local data. The result has the segments
  and the operations of that core and the number it hands to \<open>ap_main\<close>.
\<close>

definition ap_start ::
    "('fb, 'f, 'io, 'pt, 'cap, 'g) machine \<Rightarrow> SmpInfo \<Rightarrow> ('fb, 'f, 'io, 'pt, 'cap, 'g) kernel
       \<Rightarrow> (segments \<times> hw_op list \<times> nat \<times> ('fb, 'f, 'io, 'pt, 'cap, 'g) kernel) res" where
  "ap_start mc boot_info k =
     res_bind (unwrap (ke_ap_info k)) (\<lambda>ap_info.
     res_bind (start_smp ap_info boot_info) (\<lambda>(info, ap_id).
     let segs = gdt_init_smp info in
     res_bind (get_platform_info k) (\<lambda>model.
     res_bind (overrides_of model) (\<lambda>isos.
     res_bind (interrupts_init_smp (ma_ioapic mc) isos (ma_pit_tick mc) (ma_libm_round mc) (ma_cpuid mc) (ma_readings mc) (ke_intr k, ke_irq k))
       (\<lambda>(ops, intr, irq).
     res_bind (core_local_init (ma_fallback mc) (si_processor_id boot_info) (k\<lparr>ke_intr := intr, ke_irq := irq\<rparr>)) (\<lambda>k.
       Inr (segs, ops, ap_id, k)))))))"

section \<open>The heap during the boot\<close>

text \<open>A heap that the running kernel can have (\<open>heap_reach\<close>), with some blocks handed out.\<close>

definition kernel_heap :: "'fb fallback_api \<Rightarrow> ('fb \<Rightarrow> usize) \<Rightarrow> 'fb Inner \<times> memory \<Rightarrow> bool" where
  "kernel_heap api bottom h \<longleftrightarrow> (\<exists>live. heap_reach api bottom \<lparr>hp_inner = fst h, hp_mem = snd h, hp_live = live\<rparr>)"

lemma fallback_spec_alloc:
  assumes "fallback_spec api bottom" "fb_alloc api f l m = (r, f', m')"
  shows "bottom f' = bottom f" "r = Some p \<Longrightarrow> bottom f \<le> p"
  using assms unfolding fallback_spec_def by blast+

text \<open>Allocating, and then writing inside the block, are steps of the heap.\<close>

lemma alloc_then_write:
  assumes spec: "fallback_spec api bottom" and heap: "kernel_heap api bottom h"
    and call: "alloc_block api l h = Inr (p, inner, m)" and w: "writes_only p (lsize l) m m'"
  shows "kernel_heap api bottom (inner, m')"
proof -
  obtain live where r: "heap_reach api bottom \<lparr>hp_inner = fst h, hp_mem = snd h, hp_live = live\<rparr>"
    using heap unfolding kernel_heap_def by blast
  have al: "Allocator_alloc api (fst h) l (snd h) = Inr (p, inner, m)" "p \<noteq> 0"
    using call by (auto simp: alloc_block_def split: if_splits)
  show ?thesis
  proof (cases "Inner_slab (fst h) l")
    case (Some i)
    let ?h = "\<lparr>hp_inner = inner, hp_mem = m, hp_live = live(i := (live i)(p \<mapsto> l))\<rparr>"
    have "heap_step api bottom \<lparr>hp_inner = fst h, hp_mem = snd h, hp_live = live\<rparr> ?h"
      using step_alloc[of "\<lparr>hp_inner = fst h, hp_mem = snd h, hp_live = live\<rparr>" l i api p inner m] Some al by simp
    then have "heap_reach api bottom ?h" by (rule heap_next[OF r])
    moreover have "heap_step api bottom ?h (?h\<lparr>hp_mem := m'\<rparr>)"
      using w by (intro step_write[where i = i and p = p and l = l]) simp_all
    ultimately have "heap_reach api bottom (?h\<lparr>hp_mem := m'\<rparr>)" by (rule heap_next)
    then show ?thesis unfolding kernel_heap_def by auto
  next
    case None
    let ?h = "\<lparr>hp_inner = inner, hp_mem = m, hp_live = live\<rparr>"
    have "heap_step api bottom \<lparr>hp_inner = fst h, hp_mem = snd h, hp_live = live\<rparr> ?h"
      using step_alloc_fallback[of "\<lparr>hp_inner = fst h, hp_mem = snd h, hp_live = live\<rparr>" l api p inner m] None al by simp
    then have "heap_reach api bottom ?h" by (rule heap_next[OF r])
    moreover have "bottom (in_fallback inner) \<le> p"
      using al None fallback_spec_alloc[OF spec] by (auto simp: Allocator_alloc_def split: prod.splits option.splits)
    then have "heap_step api bottom ?h (?h\<lparr>hp_mem := m'\<rparr>)"
      using w by (intro step_write_fallback) (auto simp: writes_only_def)
    ultimately have "heap_reach api bottom (?h\<lparr>hp_mem := m'\<rparr>)" by (rule heap_next)
    then show ?thesis unfolding kernel_heap_def by auto
  qed
qed

lemma alloc_block_heap:
  "fallback_spec api bottom \<Longrightarrow> kernel_heap api bottom h \<Longrightarrow> alloc_block api l h = Inr (p, h') \<Longrightarrow> kernel_heap api bottom h'"
  using alloc_then_write[of api bottom h l p "fst h'" "snd h'" "snd h'"] by (simp add: writes_only_def)

lemma box_block_heap:
  "fallback_spec api bottom \<Longrightarrow> kernel_heap api bottom h \<Longrightarrow> box_block api n h = Inr (p, h') \<Longrightarrow> kernel_heap api bottom h'"
  unfolding box_block_def by (rule alloc_block_heap)

lemma zeroed_block_heap:
  assumes "fallback_spec api bottom" "kernel_heap api bottom h" "zeroed_block api n h = Inr (p, h')"
  shows "kernel_heap api bottom h'"
proof -
  obtain inner m where c: "alloc_block api \<lparr>lsize = n, lalign = 1\<rparr> h = Inr (p, inner, m)"
    and h': "h' = (inner, \<lambda>a. if p \<le> a \<and> a < p + n then 0 else m a)"
    using assms(3) by (auto simp: zeroed_block_def)
  show ?thesis unfolding h' by (rule alloc_then_write[OF assms(1,2) c]) (auto simp: writes_only_def)
qed

lemma ap_infos_heap:
  assumes spec: "fallback_spec (ma_fallback mc) bottom"
  shows "kernel_heap (ma_fallback mc) bottom h \<Longrightarrow> ap_infos mc cpus h = Inr (infos, h')
    \<Longrightarrow> kernel_heap (ma_fallback mc) bottom h' \<and> length infos = length cpus"
proof (induction cpus arbitrary: h infos)
  case (Cons cpu cpus)
  obtain info h1 infos' where a: "allocate_for_ap (ma_gdt mc) (zeroed_block (ma_fallback mc)) (box_block (ma_fallback mc)) (ma_temporaries mc) h
      = Inr (info, h1)" and b: "ap_infos mc cpus h1 = Inr (infos', h')" and i: "infos = info # infos'"
    using Cons.prems(2) by auto
  obtain ha hb hc hd pa pb pc pd pe where
    "zeroed_block (ma_fallback mc) STACK_SIZE h = Inr (pa, ha)" "zeroed_block (ma_fallback mc) STACK_SIZE ha = Inr (pb, hb)"
    "zeroed_block (ma_fallback mc) STACK_SIZE hb = Inr (pc, hc)" "box_block (ma_fallback mc) TSS_SIZE hc = Inr (pd, hd)"
    "box_block (ma_fallback mc) GDT_SIZE hd = Inr (pe, h1)"
    using a by (auto simp: allocate_for_ap_def tss_macro_def ref_to_leaked_def)
  then have "kernel_heap (ma_fallback mc) bottom h1"
    using Cons.prems(1) zeroed_block_heap[OF spec] box_block_heap[OF spec] by blast
  from Cons.IH[OF this b] show ?case by (simp add: i)
qed simp

section \<open>The booted kernel\<close>

lemma arch_init_early_Inr:
  assumes "arch_init_early mc k = Inr (model, k')"
  shows "ke_heap k' = ke_heap k \<and> ke_irq k' = ke_irq k \<and> ke_intr k' = ke_intr k \<and> ke_ops k' = ke_ops k \<and> ke_panic k' = ke_panic k
    \<and> ke_devices k' = ke_devices k \<and> get_platform_info k' = Inr model \<and> ma_kernel_file mc = Some (ke_kernel_file k')
    \<and> ke_display k' = ke_display k"
  using assms
  by (auto simp: arch_init_early_def gdt_init_def panic_init_def acpi_early_init_def get_platform_info_def get_tables_def Let_def
      split: if_splits)

lemma timing_wf:
  assumes "ioapic_spec ia" "irq_wf ia st" "timing ia isos f r ci readings (s, st) = Inr (ops, s', st')"
  shows "irq_wf ia st'"
  using assms(2,3)
  by (auto simp: timing_def pit_static_def set_interrupt_static_def split: if_splits prod.splits dest!: set_interrupt_wf[OF assms(1,2)])

lemma interrupts_init_wf:
  assumes "ioapic_spec ia" "interrupts_init ia ma f r ci readings model s (irq_static, mem) = Inr (ops, s', st', mem')"
  shows "irq_wf ia st' \<and> (\<exists>info. model = ApicModel info) \<and> ops \<noteq> [] \<and> hd ops = IdtLoad \<and> last ops = EnableInterrupts"
proof (cases model)
  case (ApicModel info)
  obtain st1 mem1 s1 t where i: "init_ioapic ia ma (ap_io_apics info) (irq_static, mem) = Inr (st1, mem1)"
    "timing ia (ap_overrides info) f r ci readings (s1, st1) = Inr (t, s', st')"
    and o: "ops = [IdtLoad] @ (if ap_also_has_legacy_pics info then disable_pics else []) @ init_lapic @ t @ [EnableInterrupts]"
    using assms(2) ApicModel by (auto simp: interrupts_init_def Let_def)
  have "irq_wf ia st1" using init_ioapic_inv[OF assms(1) i(1)] by blast
  from timing_wf[OF assms(1) this i(2)] show ?thesis using ApicModel o by simp
qed (use assms(2) in \<open>simp add: interrupts_init_def\<close>)

lemma framebuffer_late_init_Inr:
  assumes "fallback_spec (ma_fallback mc) bottom" "kernel_heap (ma_fallback mc) bottom (ke_heap k)" "framebuffer_late_init mc k = Inr k'"
  shows "kernel_heap (ma_fallback mc) bottom (ke_heap k') \<and> ke_irq k' = ke_irq k \<and> ke_ops k' = ke_ops k \<and> ke_panic k' = ke_panic k
    \<and> ke_devices k' = ke_devices k \<and> ke_acpi k' = ke_acpi k"
  using assms(2,3) by (auto simp: framebuffer_late_init_def Let_def split: if_splits dest: alloc_block_heap[OF assms(1,2)])

lemma acpi_late_init_Inr:
  assumes "ioapic_spec (ma_ioapic mc)" "irq_wf (ma_ioapic mc) (ke_irq k)" "acpi_late_init mc k = Inr k'"
  shows "irq_wf (ma_ioapic mc) (ke_irq k') \<and> (\<exists>line<224. ir_handlers (ke_irq k') ! line = HStatic (ma_sci_handler mc))
    \<and> ke_heap k' = ke_heap k \<and> ke_ops k' = ke_ops k \<and> ke_panic k' = ke_panic k \<and> ke_devices k' = ke_devices k"
proof -
  obtain isos sci and guard :: "unit InterruptGuard" and st where
    c: "set_interrupt (ma_ioapic mc) isos sci LevelLow (HStatic (ma_sci_handler mc)) (ke_irq k) = Inr (guard, st)" "k' = k\<lparr>ke_irq := st\<rparr>"
    using assms(3) by (auto simp: acpi_late_init_def set_interrupt_static_def)
  have "length (ir_handlers (ke_irq k)) = 224" using assms(2) by (simp add: irq_wf_def)
  then show ?thesis using set_interrupt_wf[OF assms(1,2) c(1)] c(2) by auto
qed

lemma core_local_init_Inr:
  assumes "fallback_spec api bottom" "kernel_heap api bottom (ke_heap k)" "core_local_init api core k = Inr k'"
  shows "kernel_heap api bottom (ke_heap k') \<and> ke_irq k' = ke_irq k \<and> ke_ops k' = ke_ops k \<and> ke_devices k' = ke_devices k
    \<and> ps_cores (ke_panic k') = local_init core (ps_cores (ke_panic k))"
  using assms(2,3) by (auto simp: core_local_init_def dest: box_block_heap[OF assms(1,2)])

lemma boot_init_smp_Inr:
  assumes "fallback_spec (ma_fallback mc) bottom" "kernel_heap (ma_fallback mc) bottom (ke_heap k)" "boot_init_smp mc k = Inr k'"
  shows "kernel_heap (ma_fallback mc) bottom (ke_heap k') \<and> ke_irq k' = ke_irq k \<and> ke_ops k' = ke_ops k \<and> ke_panic k' = ke_panic k
    \<and> ke_devices k' = ke_devices k \<and> (\<exists>infos. ke_ap_info k' = Some infos \<and> length infos = length (ke_cpus k'))"
  using assms(2,3) by (auto simp: boot_init_smp_def init_smp_def split: if_splits dest!: ap_infos_heap[OF assms(1,2)])

lemma arch_init_Inr:
  assumes spec: "fallback_spec (ma_fallback mc) bottom" "ioapic_spec (ma_ioapic mc)"
    and call: "arch_init mc (kernel_static (ma_fallback mc) mem display) = Inr k"
  shows "kernel_heap (ma_fallback mc) bottom (ke_heap k)
    \<and> irq_wf (ma_ioapic mc) (ke_irq k) \<and> (\<exists>line<224. ir_handlers (ke_irq k) ! line = HStatic (ma_sci_handler mc))
    \<and> hd (ke_ops k) = IdtLoad \<and> last (ke_ops k) = EnableInterrupts
    \<and> ps_full (ke_panic k) \<and> ps_cores (ke_panic k) = local_init 0 Map.empty
    \<and> (\<exists>offset. ma_hhdm mc = Some offset \<and> pci_init (ma_pci mc) offset 256 Map.empty = Some (ke_devices k))
    \<and> (\<exists>infos. ke_ap_info k = Some infos \<and> length infos = length (ke_cpus k))"
proof -
  let ?api = "ma_fallback mc" and ?k0 = "kernel_static (ma_fallback mc) mem display"
  obtain model k1 ops intr irq m1 h where k1: "arch_init_early mc ?k0 = Inr (model, k1)"
    and ii: "interrupts_init (ma_ioapic mc) (ma_mapper mc) (ma_pit_tick mc) (ma_libm_round mc) (ma_cpuid mc) (ma_readings mc) model
         (ke_intr k1) (ke_irq k1, ke_memory k1) = Inr (ops, intr, irq, m1)"
    and h: "allocator_init ?api (snd (ke_heap k1)) = Inr h"
    and rest: "res_bind (framebuffer_late_init mc (k1\<lparr>ke_ops := ke_ops k1 @ ops, ke_intr := intr, ke_irq := irq, ke_memory := m1, ke_heap := h\<rparr>)) (\<lambda>k.
     res_bind (acpi_late_init mc k) (\<lambda>k.
     res_bind (get_tables k) (\<lambda>t.
     res_bind (core_local_init ?api 0 (k\<lparr>ke_clock := time_init (ma_rtc mc) (hpet_init (ma_bitfield mc) (ac_hpet t) (ke_clock k))\<rparr>)) (\<lambda>k.
     res_bind (unwrap (ma_hhdm mc)) (\<lambda>offset.
     res_bind (unwrap (pci_init (ma_pci mc) offset 256 (ke_devices k))) (\<lambda>devices.
       boot_init_smp mc (k\<lparr>ke_panic := panic_late_init (ke_panic k), ke_devices := devices\<rparr>))))))) = Inr k"
    using call by (auto simp: arch_init_def Let_def)
  note e = arch_init_early_Inr[OF k1]
  have s: "ke_heap k1 = (Allocator_new ?api, \<lambda>_. 0)" "ke_irq k1 = irq_static" "ke_ops k1 = []" "ke_devices k1 = Map.empty"
    "ps_cores (ke_panic k1) = Map.empty"
    using e by (simp_all add: kernel_static_def)
  have wf: "irq_wf (ma_ioapic mc) irq" "ops \<noteq> []" "hd ops = IdtLoad" "last ops = EnableInterrupts"
    using interrupts_init_wf[OF spec(2) ii[unfolded s(2)]] by auto
  have h0: "kernel_heap ?api bottom h"
    using heap_start[of ?api "fst h" "snd h" bottom] h unfolding s(1) kernel_heap_def by auto
  obtain k2 k3 k4 offset devices and t :: acpi_tables where
    2: "framebuffer_late_init mc (k1\<lparr>ke_ops := ke_ops k1 @ ops, ke_intr := intr, ke_irq := irq, ke_memory := m1, ke_heap := h\<rparr>) = Inr k2"
    and 3: "acpi_late_init mc k2 = Inr k3"
    and 4: "core_local_init ?api 0 (k3\<lparr>ke_clock := time_init (ma_rtc mc) (hpet_init (ma_bitfield mc) (ac_hpet t) (ke_clock k3))\<rparr>) = Inr k4"
    and off: "ma_hhdm mc = Some offset" and dev: "pci_init (ma_pci mc) offset 256 (ke_devices k4) = Some devices"
    and 5: "boot_init_smp mc (k4\<lparr>ke_panic := panic_late_init (ke_panic k4), ke_devices := devices\<rparr>) = Inr k"
    using rest unfolding res_bind_eq_Inr unwrap_eq_Inr by blast
  note f2 = framebuffer_late_init_Inr[OF spec(1) _ 2]
  have f3: "irq_wf (ma_ioapic mc) (ke_irq k3)" "\<exists>line<224. ir_handlers (ke_irq k3) ! line = HStatic (ma_sci_handler mc)"
    "kernel_heap ?api bottom (ke_heap k3)" "ke_ops k3 = ops" "ke_panic k3 = ke_panic k1" "ke_devices k3 = Map.empty"
    using f2 h0 wf s acpi_late_init_Inr[OF spec(2) _ 3] by auto
  have f4: "kernel_heap ?api bottom (ke_heap k4)" "ke_irq k4 = ke_irq k3" "ke_ops k4 = ops" "ke_devices k4 = Map.empty"
    "ps_cores (ke_panic k4) = local_init 0 Map.empty"
    using core_local_init_Inr[OF spec(1) _ 4] f3 s(5) by auto
  show ?thesis using boot_init_smp_Inr[OF spec(1) _ 5] f4 f3 wf off dev by (auto simp: panic_late_init_def)
qed


text \<open>Before \<open>allocator::init\<close> every slab is empty.\<close>

lemma no_heap_yet:
  assumes "max (lsize l) (lalign l) \<le> 2048"
  shows "alloc_block api l (Allocator_new api, m) = Inl ExplicitPanic"
proof -
  let ?in = "Allocator_new api"
  have "in_slabs ?in = map SlabAllocator_new class_sizes" "length class_sizes = 7" by (simp_all add: Allocator_new_def class_sizes_def)
  then have sl: "in_slabs ?in ! i = SlabAllocator_new (class_sizes ! i)" if "i < 7" for i
    using that by (simp only: nth_map)
  have len: "length (in_slabs ?in) = 7" by (simp add: Allocator_new_def)
  have "Inner_slab ?in l = class_of l"
    unfolding Inner_slab_def class_of_def Let_def len by (rule find_cong) (simp_all add: sl, simp add: SlabAllocator_new_def)
  then obtain i where i: "Inner_slab ?in l = Some i" "class_of l = Some i" using class_of_bound[of l] assms by fastforce
  have "SlabAllocator_alloc (in_slabs ?in ! i) l m = Inr (0, in_slabs ?in ! i, m)"
    using class_of_Some[OF i(2)] by (simp add: sl SlabAllocator_alloc_def SlabAllocator_new_def)
  then show ?thesis using i(1) by (simp add: alloc_block_def Allocator_alloc_def)
qed

text \<open>
  Which cores advance the clocks: those with number 0. That is the boot core, which numbers itself 0, and in
  addition the core that the firmware calls 0, if that is another one; then time runs twice as fast.
\<close>

lemma clock_cores:
  assumes "gs_bases ptr (set_pid (word_of_nat i) msrs) = Inr regs" "i < 2 ^ 32"
  shows "TimeTick \<in> set (apic_timer_interrupt_handler (unat (get_pid regs)) :: 'f action list) \<longleftrightarrow> i = 0"
  using core_knows_itself(1)[OF assms] by (simp add: apic_timer_interrupt_handler_def prologue_def epilogue_def)


section \<open>A machine that boots\<close>

text \<open>A fallback heap that hands out memory from its bottom upwards.\<close>

definition bump_api :: "(usize \<times> usize) fallback_api" where
  "bump_api = \<lparr>fb_empty = (0, 0), fb_init = (\<lambda>_ st _ m. ((st, 0), m)),
     fb_alloc = (\<lambda>f l m. (Some (fst f + snd f), (fst f, snd f + lsize l), m)),
     fb_dealloc = (\<lambda>f _ _ m. (f, m)), fb_used = snd, fb_size = (\<lambda>_. 0)\<rparr>"

lemma bump_spec: "fallback_spec bump_api fst"
  by (simp add: fallback_spec_def bump_api_def)

definition desk_inner :: "nat \<Rightarrow> nat \<Rightarrow> usize \<Rightarrow> usize \<Rightarrow> (usize \<times> usize) Inner" where
  "desk_inner n2 n3 used3 f = \<lparr>in_start = MANAGED_START, in_size = MANAGED_END - MANAGED_START,
     in_slabs = [kernel_slab 0, kernel_slab 1,
        (kernel_slab 2)\<lparr>sl_next := sl_start (kernel_slab 2) + 64 * n2, sl_used := 48 * n2\<rparr>,
        (kernel_slab 3)\<lparr>sl_next := sl_start (kernel_slab 3) + 128 * n3, sl_used := used3\<rparr>, kernel_slab 4, kernel_slab 5, kernel_slab 6],
     in_fallback = (kernel_fallback, f)\<rparr>"

lemma desk_init: "allocator_init bump_api (\<lambda>_. 0) = Inr (desk_inner 0 0 0 0, \<lambda>_. 0)"
  by (simp add: kernel_init bump_api_def desk_inner_def upt_7 kernel_slab_def)

lemma desk_local:
  assumes "n2 < 10"
  shows "\<exists>p. box_block bump_api 48 (desk_inner n2 n3 u f, \<lambda>_. 0) = Inr (p, desk_inner (Suc n2) n3 u f, \<lambda>_. 0)"
proof -
  have "Inner_slab (desk_inner n2 n3 u f) \<lparr>lsize = 48, lalign = 8\<rparr> = Some 2"
    by (simp add: Inner_slab_def desk_inner_def upt_7 kernel_consts)
  then show ?thesis using assms
    by (simp add: box_block_def alloc_block_def Allocator_alloc_def SlabAllocator_alloc_def desk_inner_def kernel_consts fun_upd_idem)
qed

lemma desk_box:
  assumes "n3 < 10" "u < 10000" "n = 72 \<or> n = 104"
  shows "\<exists>p. box_block bump_api n (desk_inner n2 n3 u f, \<lambda>_. 0) = Inr (p, desk_inner n2 (Suc n3) (u + n) f, \<lambda>_. 0)"
proof -
  have "Inner_slab (desk_inner n2 n3 u f) \<lparr>lsize = n, lalign = 8\<rparr> = Some 3"
    using assms by (auto simp: Inner_slab_def desk_inner_def upt_7 kernel_consts)
  then show ?thesis using assms
    by (auto simp: box_block_def alloc_block_def Allocator_alloc_def SlabAllocator_alloc_def desk_inner_def kernel_consts fun_upd_idem)
qed

lemma desk_zeroed: "\<exists>p. zeroed_block bump_api STACK_SIZE (desk_inner n2 n3 u f, \<lambda>_. 0) = Inr (p, desk_inner n2 n3 u (f + STACK_SIZE), \<lambda>_. 0)"
proof -
  have "Inner_slab (desk_inner n2 n3 u f) \<lparr>lsize = STACK_SIZE, lalign = 1\<rparr> = None"
    by (simp add: Inner_slab_def desk_inner_def upt_7 kernel_consts STACK_SIZE_def)
  then show ?thesis
    by (simp add: zeroed_block_def alloc_block_def Allocator_alloc_def bump_api_def desk_inner_def kernel_consts)
qed

definition desk :: "(usize \<times> usize, nat, nat \<Rightarrow> table_entry, usize \<Rightarrow> usize option, unit, nat) machine" where
  "desk = \<lparr>ma_memmap = Some small_map, ma_hhdm = Some 0, ma_rsdp = Some 4096,
     ma_smp = Some (0, [\<lparr>si_processor_id = 0, si_lapic_id = 0, si_starts = False\<rparr>, \<lparr>si_processor_id = 1, si_lapic_id = 1, si_starts = False\<rparr>]),
     ma_kernel_file = Some None, ma_kernel_address = Some 0xffffffff80000000,
     ma_from_rsdp = (\<lambda>_. Some \<lparr>ac_platform_info = Some (ApicModel desktop_info), ac_fadt_sci_interrupt = Some 9, ac_hpet = None\<rparr>),
     ma_rtc = 0, ma_level_4_table = Map.empty, ma_iter_layout = small_layout, ma_frame_buffer = 4096,
     ma_statics = (\<lambda>k. 65536 * k), ma_temporaries = (\<lambda>k. 4096 + 16 * k),
     ma_cpuid = \<lparr>ci_hypervisor_apic_frequency = Some 1000000, ci_tsc_nominal_frequency = None\<rparr>, ma_readings = [],
     ma_pci = one_card, ma_mapper = fun_mapper, ma_ioapic = fun_ioapic, ma_fallback = bump_api, ma_gdt = count_gdt,
     ma_bitfield = packed, ma_libm_round = nearest, ma_pit_tick = 0, ma_sci_handler = 1\<rparr>"

abbreviation desk_static :: "(usize \<times> usize, nat, nat \<Rightarrow> table_entry, usize \<Rightarrow> usize option, unit, nat) kernel" where
  "desk_static \<equiv> kernel_static bump_api \<lparr>mm_mapper = None, mm_frames = None, mm_bytes = (\<lambda>_. 0), mm_flushes = 0\<rparr> DISPLAY"

lemma desk_early:
  "\<exists>k1 fr. arch_init_early desk desk_static = Inr (ApicModel desktop_info, k1)
     \<and> mm_mapper (ke_memory k1) = Some Map.empty \<and> mm_frames (ke_memory k1) = Some fr \<and> ke_ap_info k1 = None
     \<and> ke_acpi k1 = ma_from_rsdp desk 4096"
proof -
  have "\<exists>segs. gdt_init count_gdt (\<lambda>k. 65536 * k) 0 () = Inr (segs, ())"
    by (simp add: gdt_init_def BP_TSS_def tss_macro_def gdt_build_def count_gdt_def virt_add_def canonical_def STACK_SIZE_def)
  moreover have "\<exists>fr. BootInfoFrameAllocator_init small_layout small_map (StackAllocator_new 4096 2048) = Inr fr"
    by (simp add: BootInfoFrameAllocator_init_def small_map_def small_layout_def StackAllocator_new_def StackAllocator_allocate_def)
  ultimately show ?thesis
    by (auto simp: arch_init_early_def desk_def kernel_static_def memory_init_def panic_init_def acpi_early_init_def
        get_platform_info_def get_tables_def Let_def)
qed

lemma desk_timing:
  "\<exists>n. timing fun_ioapic isos f nearest \<lparr>ci_hypervisor_apic_frequency = Some 1000000, ci_tsc_nominal_frequency = None\<rparr> [] p = Inr (periodic_ops n, p)"
proof -
  have "0 < f64_div (f64_div 1000000 1000) 16" by (intro f64_div_pos) simp_all
  then have "timer_frequency_hz \<lparr>ci_hypervisor_apic_frequency = Some 1000000, ci_tsc_nominal_frequency = None\<rparr> []
      = Inr (f64_div (f64_div 1000000 1000) 16, [])"
    using f64_of_nat_exact[of 1000000] by (simp add: timer_frequency_hz_def)
  then show ?thesis by (auto simp: timing_def init_timing_def periodic_ops_def split: prod.splits)
qed

lemma desk_ap:
  assumes "n3 < 8" "u < 5000"
  shows "\<exists>info. allocate_for_ap count_gdt (zeroed_block bump_api) (box_block bump_api) (\<lambda>k. 4096 + 16 * k) (desk_inner n2 n3 u f, \<lambda>_. 0)
    = Inr (info, desk_inner n2 (Suc (Suc n3)) (u + 176) (f + STACK_SIZE + STACK_SIZE + STACK_SIZE), \<lambda>_. 0)"
proof -
  obtain p1 p2 where
    1: "box_block bump_api TSS_SIZE (desk_inner n2 n3 u (f + STACK_SIZE + STACK_SIZE + STACK_SIZE), \<lambda>_. 0)
      = Inr (p1, desk_inner n2 (Suc n3) (u + 104) (f + STACK_SIZE + STACK_SIZE + STACK_SIZE), \<lambda>_. 0)"
    and 2: "box_block bump_api GDT_SIZE (desk_inner n2 (Suc n3) (u + 104) (f + STACK_SIZE + STACK_SIZE + STACK_SIZE), \<lambda>_. 0)
      = Inr (p2, desk_inner n2 (Suc (Suc n3)) (u + 104 + 72) (f + STACK_SIZE + STACK_SIZE + STACK_SIZE), \<lambda>_. 0)"
    using desk_box[of n3 u 104 n2 "f + STACK_SIZE + STACK_SIZE + STACK_SIZE"]
      desk_box[of "Suc n3" "u + 104" 72 n2 "f + STACK_SIZE + STACK_SIZE + STACK_SIZE"] assms
    unfolding TSS_SIZE_def GDT_SIZE_def by auto
  obtain gdt s where g: "gdt_build count_gdt p1 = Inr (gdt, s)" using gdt_build_exact[OF count_gdt_spec] by blast
  obtain q1 q2 q3 where z:
    "zeroed_block bump_api STACK_SIZE (desk_inner n2 n3 u f, \<lambda>_. 0) = Inr (q1, desk_inner n2 n3 u (f + STACK_SIZE), \<lambda>_. 0)"
    "zeroed_block bump_api STACK_SIZE (desk_inner n2 n3 u (f + STACK_SIZE), \<lambda>_. 0) = Inr (q2, desk_inner n2 n3 u (f + STACK_SIZE + STACK_SIZE), \<lambda>_. 0)"
    "zeroed_block bump_api STACK_SIZE (desk_inner n2 n3 u (f + STACK_SIZE + STACK_SIZE), \<lambda>_. 0)
      = Inr (q3, desk_inner n2 n3 u (f + STACK_SIZE + STACK_SIZE + STACK_SIZE), \<lambda>_. 0)"
    using desk_zeroed[of n2 n3 u f] desk_zeroed[of n2 n3 u "f + STACK_SIZE"] desk_zeroed[of n2 n3 u "f + STACK_SIZE + STACK_SIZE"] by auto
  have v: "virt_add (4096 + 16 * k) STACK_SIZE = Inr (4096 + 16 * k + STACK_SIZE)" if "k < 3" for k :: nat
    using that by (intro virt_add_low) (simp add: STACK_SIZE_def)
  show ?thesis using z 1 2 g v[of 0] v[of 1] v[of 2]
    by (simp add: allocate_for_ap_def tss_macro_def ref_to_leaked_def) (simp add: add.commute)
qed

lemma desk_smp:
  "\<exists>infos f'. ap_infos desk [c1, c2] (desk_inner n2 0 0 f, \<lambda>_. 0) = Inr (infos, desk_inner n2 4 352 f', \<lambda>_. 0) \<and> length infos = 2"
proof -
  let ?f = "f + STACK_SIZE + STACK_SIZE + STACK_SIZE"
  obtain i1 i2 where
    "allocate_for_ap count_gdt (zeroed_block bump_api) (box_block bump_api) (\<lambda>k. 4096 + 16 * k) (desk_inner n2 0 0 f, \<lambda>_. 0)
      = Inr (i1, desk_inner n2 2 176 ?f, \<lambda>_. 0)"
    "allocate_for_ap count_gdt (zeroed_block bump_api) (box_block bump_api) (\<lambda>k. 4096 + 16 * k) (desk_inner n2 2 176 ?f, \<lambda>_. 0)
      = Inr (i2, desk_inner n2 4 352 (?f + STACK_SIZE + STACK_SIZE + STACK_SIZE), \<lambda>_. 0)"
    using desk_ap[of 0 0 n2 f] desk_ap[of 2 176 n2 ?f] by (auto simp: eval_nat_numeral)
  then show ?thesis by (auto simp: desk_def)
qed

lemma desk_pci: "\<exists>devices. pci_init one_card 0 256 Map.empty = Some devices"
proof -
  have "bridges_ascend one_card" by (simp add: bridges_ascend_def one_card_def)
  then show ?thesis by (simp add: pci_init_def resolve_adds)
qed

lemma desk_boots:
  "\<exists>k infos. arch_init desk desk_static = Inr k \<and> ke_ap_info k = Some infos \<and> length infos = 2
     \<and> (\<exists>f. ke_heap k = (desk_inner 1 4 352 f, \<lambda>_. 0)) \<and> ke_acpi k = ma_from_rsdp desk 4096
     \<and> (\<exists>w rest. ir_io_apics (ke_irq k) = Some w # rest \<and> iw_base w = 0) \<and> length (ir_handlers (ke_irq k)) = 224"
proof -
  obtain k1 fr where k1: "arch_init_early desk desk_static = Inr (ApicModel desktop_info, k1)"
    "mm_mapper (ke_memory k1) = Some Map.empty" "mm_frames (ke_memory k1) = Some fr" "ke_ap_info k1 = None"
    "ke_acpi k1 = ma_from_rsdp desk 4096" using desk_early by blast
  note e = arch_init_early_Inr[OF k1(1)]
  have s: "ke_heap k1 = (Allocator_new bump_api, \<lambda>_. 0)" "ke_irq k1 = irq_static" "ke_devices k1 = Map.empty" "ke_display k1 = DISPLAY"
    "\<not> in_timer_set (ke_intr k1)"
    using e by (simp_all add: kernel_static_def)
  obtain io mem' where io: "init_ioapic fun_ioapic fun_mapper [\<lparr>ii_address = 0xFEC00000, ii_base = 0\<rparr>] (irq_static :: (nat, _) irq_state, ke_memory k1)
      = Inr (\<lparr>ir_handlers = replicate 224 HNone, ir_io_apics = Some \<lparr>iw_io_apic = io, iw_base = 0\<rparr> # replicate 31 None, ir_first_free = 55\<rparr>, mem')"
    using init_call_at[OF k1(2,3)] by blast
  let ?irq = "\<lparr>ir_handlers = replicate 224 HNone, ir_io_apics = Some \<lparr>iw_io_apic = io, iw_base = 0\<rparr> # replicate 31 None, ir_first_free = 55\<rparr>
      :: (nat, nat \<Rightarrow> table_entry) irq_state"
  have "\<exists>ops intr. interrupts_init (ma_ioapic desk) (ma_mapper desk) (ma_pit_tick desk) (ma_libm_round desk) (ma_cpuid desk) (ma_readings desk)
      (ApicModel desktop_info) (ke_intr k1) (ke_irq k1, ke_memory k1) = Inr (ops, intr, ?irq, mem')"
    using io s(2,5) desk_timing[of "[]" 0] by (fastforce simp: desk_def interrupts_init_def desktop_info_def timer_init_def Let_def)
  then obtain ops intr where ii: "interrupts_init (ma_ioapic desk) (ma_mapper desk) (ma_pit_tick desk) (ma_libm_round desk) (ma_cpuid desk) (ma_readings desk)
      (ApicModel desktop_info) (ke_intr k1) (ke_irq k1, ke_memory k1) = Inr (ops, intr, ?irq, mem')" by blast
  have "\<exists>(guard :: unit InterruptGuard) st. set_interrupt_static fun_ioapic [] 9 LevelLow 1 ?irq = Inr (guard, st)
      \<and> (\<exists>w rest. ir_io_apics st = Some w # rest \<and> iw_base w = 0) \<and> length (ir_handlers st) = 224"
    by (simp add: set_interrupt_static_def set_interrupt_def get_io_apic_def fun_ioapic_def store_at_def put_io_apic_def Let_def)
  then obtain guard :: "unit InterruptGuard" and st w rest where sci: "set_interrupt_static fun_ioapic [] 9 LevelLow 1 ?irq = Inr (guard, st)"
    "ir_io_apics st = Some w # rest" "iw_base w = 0" "length (ir_handlers st) = 224" by blast
  obtain p where p: "box_block bump_api 48 (desk_inner 0 0 0 0, \<lambda>_. 0) = Inr (p, desk_inner (Suc 0) 0 0 0, \<lambda>_. 0)" using desk_local[of 0 0 0 0] by auto
  obtain devices where d: "pci_init one_card 0 256 Map.empty = Some devices" using desk_pci by blast
  obtain infos f' where inf: "ap_infos desk [\<lparr>si_processor_id = 0, si_lapic_id = 0, si_starts = False\<rparr>, \<lparr>si_processor_id = 1, si_lapic_id = 1, si_starts = False\<rparr>]
      (desk_inner (Suc 0) 0 0 0, \<lambda>_. 0) = Inr (infos, desk_inner (Suc 0) 4 352 f', \<lambda>_. 0)" "length infos = 2"
    using desk_smp by blast
  have D: "ma_fallback desk = bump_api" "ma_ioapic desk = fun_ioapic" "ma_sci_handler desk = 1" "ma_hhdm desk = Some 0" "ma_pci desk = one_card"
    "ma_smp desk = Some (0, [\<lparr>si_processor_id = 0, si_lapic_id = 0, si_starts = False\<rparr>, \<lparr>si_processor_id = 1, si_lapic_id = 1, si_starts = False\<rparr>])"
    "ma_from_rsdp desk 4096 = Some \<lparr>ac_platform_info = Some (ApicModel desktop_info), ac_fadt_sci_interrupt = Some 9, ac_hpet = None\<rparr>"
    "ap_overrides desktop_info = []" "fb_buffer DISPLAY = []"
    by (simp_all add: desk_def desktop_info_def DISPLAY_def)
  show ?thesis
    using ii k1 s desk_init sci p d inf D
    by (auto simp: arch_init_def framebuffer_late_init_def acpi_late_init_def get_tables_def get_platform_info_def overrides_of_def
        core_local_init_def boot_init_smp_def late_init_def Let_def del: ap_infos.simps)
qed


definition second_cpu :: SmpInfo where
  "second_cpu = \<lparr>si_processor_id = 1, si_lapic_id = 1, si_starts = True\<rparr>"

lemma desk_second_cpu:
  assumes "ke_ap_info k = Some infos" "length infos = 2" "ke_heap k = (desk_inner 1 4 352 f, \<lambda>_. 0)" "ke_acpi k = ma_from_rsdp desk 4096"
  shows "\<exists>segs ops ap_id k'. ap_start desk second_cpu k = Inr (segs, ops, ap_id, k')"
proof -
  obtain p where "box_block bump_api 48 (desk_inner 1 4 352 f, \<lambda>_. 0) = Inr (p, desk_inner (Suc 1) 4 352 f, \<lambda>_. 0)"
    using desk_local[of 1 4 352 f] by auto
  moreover obtain n where "timing fun_ioapic [] 0 nearest \<lparr>ci_hypervisor_apic_frequency = Some 1000000, ci_tsc_nominal_frequency = None\<rparr> []
      (ke_intr k, ke_irq k) = Inr (periodic_ops n, ke_intr k, ke_irq k)"
    using desk_timing[of "[]" 0 "(ke_intr k, ke_irq k)"] by blast
  ultimately show ?thesis using assms
    by (simp add: ap_start_def start_smp_def index_at_def second_cpu_def get_platform_info_def get_tables_def overrides_of_def
        interrupts_init_smp_def core_local_init_def desk_def desktop_info_def Let_def)
qed

definition no_panic_fmt :: panic_fmt where
  "no_panic_fmt = \<lparr>pf_hex16 = (\<lambda>_. []), pf_hex = (\<lambda>_. []), pf_dec = (\<lambda>_. []), pf_demangle = id\<rparr>"

definition panic_on :: "nat \<Rightarrow> panic_call" where
  "panic_on core = \<lparr>pc_core = core, pc_info = [], pc_stack = [], pc_can_unwind = True, pc_begin = None\<rparr>"


end
