(* ===== verification/Idle.thy ===== *)
theory Idle
  imports Executor
begin

text \<open>
  The idle loop of a core: \<open>Executor::run\<close> of \<open>kernel/src/task/executor.rs\<close> instruction by instruction
  around its halt, and \<open>enable_interrupts_and_halt\<close> of \<open>kernel/src/arch/x86_64/mod.rs\<close>.

  Between the tick that finds no work and the halt, interrupts are delivered; and other cores put tasks
  into the core's scheduler at any time. Waking a task is \<open>maitake\<close>'s: \<open>schedule\<close>, a parameter, puts the
  task into the scheduler it belongs to (\<open>schedule_spec\<close>).
\<close>

section \<open>A core between its instructions\<close>

text \<open>
  \<open>Deciding\<close>: the tick has returned \<open>false\<close> and the core has not halted yet. \<open>Waiting\<close>: the core is in
  \<open>mwait\<close> with the \<open>wake\<close> byte of the given entry of \<open>AP_INFO\<close> monitored, or in \<open>hlt\<close>.
\<close>

datatype core_phase = Ticking | Deciding | Waiting "usize option" | Ended

record ('q, 'j, 'g) core =
  co_rt :: "('q, 'j) Runtime"
  co_ex :: "'g Executor"
  co_phase :: core_phase
  co_interrupts :: bool

definition enable_interrupts_and_halt :: "'a list option \<Rightarrow> usize \<Rightarrow> ('q, 'j, 'g) core \<Rightarrow> ('q, 'j, 'g) core res" where
  "enable_interrupts_and_halt AP_INFO get_pid c =
     (case AP_INFO of
        Some aps \<Rightarrow>
          res_bind (index_at aps get_pid) (\<lambda>_.
          Inr (c\<lparr>co_interrupts := True, co_phase := Waiting (Some get_pid)\<rparr>))
      | None \<Rightarrow> Inr (c\<lparr>co_interrupts := True, co_phase := Waiting None\<rparr>))"

text \<open>One stretch of the loop: a tick, or the halt that follows a tick without work.\<close>

definition run_step ::
    "('q, 'j, 't) sched_api \<Rightarrow> (usize \<Rightarrow> 'g \<Rightarrow> usize \<times> 'g) \<Rightarrow> 'a list option \<Rightarrow> usize
     \<Rightarrow> ('q, 'j, 'g) core \<Rightarrow> ('q, 'j, 'g) core res" where
  "run_step sa gen_range AP_INFO get_pid c =
     (case co_phase c of
        Ticking \<Rightarrow>
          res_bind (run_round sa gen_range (co_ex c) (co_rt c)) (\<lambda>(r, ex, rt).
          Inr (c\<lparr>co_ex := ex, co_rt := rt,
                 co_phase := (case r of Continues \<Rightarrow> Ticking | Returned \<Rightarrow> Ended | Halted \<Rightarrow> Deciding)\<rparr>))
      | Deciding \<Rightarrow> enable_interrupts_and_halt AP_INFO get_pid c
      | _ \<Rightarrow> Inr c)"

section \<open>What happens to a core\<close>

text \<open>
  Besides its own instructions: an interrupt whose handler wakes tasks of this core, another core that
  wakes tasks of this core, and a store of another core to the \<open>wake\<close> byte of some entry of \<open>AP_INFO\<close>.
  An interrupt ends \<open>hlt\<close> and \<open>mwait\<close>; a store ends \<open>mwait\<close> when it is to the byte monitored.
\<close>

datatype 't occurrence = Run | Interrupt "'t list" | Remote "'t list" | Store usize

definition wakes :: "('t \<Rightarrow> 'q \<Rightarrow> 'q) \<Rightarrow> 't list \<Rightarrow> ('q, 'j, 'g) core \<Rightarrow> ('q, 'j, 'g) core res" where
  "wakes schedule ts c =
     res_bind (own_scheduler (co_ex c) (co_rt c)) (\<lambda>own.
     Inr (c\<lparr>co_rt := (co_rt c)\<lparr>rt_cores := (rt_cores (co_rt c))[ex_id (co_ex c) := Some (fold schedule ts own)]\<rparr>\<rparr>))"

definition resume :: "('q, 'j, 'g) core \<Rightarrow> ('q, 'j, 'g) core" where
  "resume c = (case co_phase c of Waiting _ \<Rightarrow> c\<lparr>co_phase := Ticking\<rparr> | _ \<Rightarrow> c)"

fun core_event ::
    "('q, 'j, 't) sched_api \<Rightarrow> (usize \<Rightarrow> 'g \<Rightarrow> usize \<times> 'g) \<Rightarrow> ('t \<Rightarrow> 'q \<Rightarrow> 'q) \<Rightarrow> 'a list option \<Rightarrow> usize
     \<Rightarrow> 't occurrence \<Rightarrow> ('q, 'j, 'g) core \<Rightarrow> ('q, 'j, 'g) core res" where
  "core_event sa gen_range schedule AP_INFO get_pid Run c = run_step sa gen_range AP_INFO get_pid c"
| "core_event sa gen_range schedule AP_INFO get_pid (Interrupt ts) c =
     (if co_interrupts c then res_bind (wakes schedule ts c) (\<lambda>c. Inr (resume c)) else Inr c)"
| "core_event sa gen_range schedule AP_INFO get_pid (Remote ts) c = wakes schedule ts c"
| "core_event sa gen_range schedule AP_INFO get_pid (Store i) c =
     Inr (if co_phase c = Waiting (Some i) then resume c else c)"

definition schedule_spec :: "('t \<Rightarrow> 'q \<Rightarrow> 'q) \<Rightarrow> ('q \<Rightarrow> 't multiset) \<Rightarrow> bool" where
  "schedule_spec schedule qt \<longleftrightarrow> (\<forall>t q. qt (schedule t q) = add_mset t (qt q))"

text \<open>The tasks that a list of events brings to the core, and the tasks waiting in its scheduler.\<close>

definition brought :: "'t occurrence list \<Rightarrow> 't multiset" where
  "brought evs = (\<Sum>ev\<leftarrow>evs. case ev of Interrupt ts \<Rightarrow> mset ts | Remote ts \<Rightarrow> mset ts | _ \<Rightarrow> {#})"

definition queued :: "('q \<Rightarrow> 't multiset) \<Rightarrow> ('q, 'j, 'g) core \<Rightarrow> 't multiset" where
  "queued qt c = core_tasks qt (co_rt c) (ex_id (co_ex c))"

section \<open>The invariant of a core\<close>

text \<open>The core has its scheduler, and it never waits with interrupts off.\<close>

definition core_ok :: "('q, 'j, 'g) core \<Rightarrow> bool" where
  "core_ok c \<longleftrightarrow> runtime_ok (co_rt c) \<and> ex_id (co_ex c) < rt_initialized (co_rt c)
     \<and> (case co_phase c of Waiting _ \<Rightarrow> co_interrupts c | _ \<Rightarrow> True)"

lemma core_okD:
  assumes "core_ok c"
  shows "ex_id (co_ex c) < length (rt_cores (co_rt c))" "\<exists>q. rt_cores (co_rt c) ! ex_id (co_ex c) = Some q"
    "co_phase c = Waiting w \<Longrightarrow> co_interrupts c"
  using assms by (fastforce simp: core_ok_def runtime_ok_def)+

lemma fold_schedule:
  assumes "schedule_spec schedule qt"
  shows "qt (fold schedule ts q) = qt q + mset ts"
  using assms by (induction ts arbitrary: q) (simp_all add: schedule_spec_def)

lemma wakes_Inr:
  assumes "core_ok c" "schedule_spec schedule qt"
  shows "\<exists>c'. wakes schedule ts c = Inr c' \<and> core_ok c' \<and> queued qt c' = queued qt c + mset ts
    \<and> co_phase c' = co_phase c \<and> co_interrupts c' = co_interrupts c"
proof -
  obtain q where q: "rt_cores (co_rt c) ! ex_id (co_ex c) = Some q" using core_okD(2)[OF assms(1)] by auto
  have i: "ex_id (co_ex c) < rt_initialized (co_rt c)" and r: "runtime_ok (co_rt c)"
    and p: "case co_phase c of Waiting _ \<Rightarrow> co_interrupts c | _ \<Rightarrow> True"
    using assms(1) by (auto simp: core_ok_def)
  let ?c = "c\<lparr>co_rt := (co_rt c)\<lparr>rt_cores := (rt_cores (co_rt c))[ex_id (co_ex c) := Some (fold schedule ts q)]\<rparr>\<rparr>"
  have "wakes schedule ts c = Inr ?c" using q core_okD(1)[OF assms(1)] by (simp add: wakes_def own_scheduler_def)
  moreover have "core_ok ?c" using runtime_ok_update[OF r i, of "fold schedule ts q"] i p by (simp add: core_ok_def split: core_phase.splits)
  moreover have "queued qt ?c = queued qt c + mset ts"
    using q core_okD(1)[OF assms(1)] fold_schedule[OF assms(2)] by (simp add: queued_def core_tasks_def)
  ultimately show ?thesis by auto
qed

lemma core_ok_resume: "core_ok c \<Longrightarrow> core_ok (resume c)"
  by (auto simp: resume_def core_ok_def split: core_phase.splits)

lemma queued_resume [simp]: "queued qt (resume c) = queued qt c"
  by (simp add: resume_def queued_def split: core_phase.splits)

section \<open>Asleep with work to do\<close>

text \<open>Events that do not end the wait on an entry.\<close>

definition ignored :: "usize option \<Rightarrow> 't occurrence \<Rightarrow> bool" where
  "ignored w ev = (case ev of Interrupt _ \<Rightarrow> False | Store i \<Rightarrow> w \<noteq> Some i | _ \<Rightarrow> True)"

lemma brought_simps [simp]:
  "brought [] = {#}" "brought (Run # evs) = brought evs" "brought (Store i # evs) = brought evs"
  "brought (Interrupt ts # evs) = mset ts + brought evs" "brought (Remote ts # evs) = mset ts + brought evs"
  by (simp_all add: brought_def)

lemma core_waits:
  assumes "schedule_spec schedule qt" "core_ok c" "co_phase c = Waiting w" "\<forall>ev\<in>set evs. ignored w ev"
  shows "\<exists>c'. res_fold (core_event sa gen_range schedule AP_INFO get_pid) evs c = Inr c' \<and> core_ok c'
    \<and> co_phase c' = Waiting w \<and> queued qt c' = queued qt c + brought evs"
  using assms(2-4)
proof (induction evs arbitrary: c)
  case (Cons ev evs)
  have step: "\<exists>c1. core_event sa gen_range schedule AP_INFO get_pid ev c = Inr c1 \<and> core_ok c1
      \<and> co_phase c1 = Waiting w \<and> queued qt c1 + brought evs = queued qt c + brought (ev # evs)"
  proof (cases ev)
    case (Remote ts)
    then show ?thesis using wakes_Inr[OF Cons.prems(1) assms(1), of ts] Cons.prems(2) by (auto simp: ac_simps)
  qed (use Cons.prems in \<open>auto simp: run_step_def ignored_def\<close>)
  then show ?case using Cons.IH Cons.prems(3) by fastforce
qed simp


text \<open>On one core with the schedulers of lists: the task woken after the tick waits, and so does a remote one.\<close>

definition idle_core :: "(nat list, nat list, unit) core" where
  "idle_core = \<lparr>co_rt = \<lparr>rt_cores = Some [] # replicate 31 None, rt_injector = [], rt_initialized = 1\<rparr>,
     co_ex = \<lparr>ex_id = 0, ex_running = True, ex_rng = ()\<rparr>, co_phase = Ticking, co_interrupts = True\<rparr>"


end
