(* ===== verification/Input_Start.thy ===== *)
theory Input_Start
  imports Input_Queue Interrupts Pci
begin

text \<open>
  The start of the drivers: \<open>init\<close> of \<open>kernel/src/drivers/i8042.rs\<close>, which sets the 8042 controller up, makes
  the two queues and registers the two interrupt lines, and \<open>init\<close> of \<open>kernel/src/drivers/mod.rs\<close>, which calls it
  before it offers the PCI devices to the drivers.
\<close>

section \<open>Model\<close>

text \<open>
  \<open>closure irq\<close> is the function that calls \<open>interrupt(irq)\<close>. The guards of the two registrations are forgotten,
  so they are never dropped. \<open>None\<close>: the controller keeps the flush loop of the driver busy for ever.
\<close>

type_synonym ('h, 'k1, 'k2, 'kq, 'mq, 'w, 'f, 'io) input_state =
  "('h, 'k1, 'k2) Driver8042 \<times> ('kq, 'w) channel \<times> ('mq, 'w) channel \<times> ('f, 'io) irq_state"

definition i8042_register ::
    "'io ioapic_api \<Rightarrow> source_override list \<Rightarrow> (Irq \<Rightarrow> 'f) \<Rightarrow> ('f, 'io) irq_state \<Rightarrow> ('f, 'io) irq_state res" where
  "i8042_register ia isos closure st =
     res_bind (set_interrupt_static ia isos 1 LevelLow (closure Irq1) st) (\<lambda>(_ :: unit InterruptGuard, st).
     res_bind (set_interrupt_static ia isos 12 LevelLow (closure Irq12) st) (\<lambda>(_ :: unit InterruptGuard, st).
     Inr st))"

definition i8042_start ::
    "'h impl_8042 \<Rightarrow> ('kq, 'key) queue_api \<Rightarrow> ('mq, MouseState) queue_api \<Rightarrow> 'io ioapic_api \<Rightarrow> source_override list
     \<Rightarrow> (Irq \<Rightarrow> 'f) \<Rightarrow> ('h, 'k1, 'k2, 'kq, 'mq, 'w, 'f, 'io) input_state
     \<Rightarrow> ('h, 'k1, 'k2, 'kq, 'mq, 'w, 'f, 'io) input_state res option" where
  "i8042_start im kq mq ia isos closure s =
     (case s of (d, keys, mice, st) \<Rightarrow>
      map_option (\<lambda>(r, d).
        case r of
          Inl _ \<Rightarrow> Inl UnwrapFailed
        | Inr _ \<Rightarrow>
            res_bind (channel_init kq keys) (\<lambda>keys.
            res_bind (channel_init mq mice) (\<lambda>mice.
            res_bind (i8042_register ia isos closure st) (\<lambda>st.
            Inr (d, keys, mice, st)))))
        (Driver8042_init im d))"

text \<open>The state of the PCI drivers is beside that of the input devices.\<close>

definition drivers_start ::
    "('i \<Rightarrow> 'i res option) \<Rightarrow> ('cap, 's) driver_init list \<Rightarrow> 'cap PciDevice list \<Rightarrow> 'i \<times> 's \<Rightarrow> ('i \<times> 's) res option" where
  "drivers_start i8042_init inits devices s =
     (case s of (input, pci) \<Rightarrow>
      map_option (\<lambda>r. res_bind r (\<lambda>input. Inr (input, drivers_init inits devices pci))) (i8042_init input))"

section \<open>Both lines reach their handler\<close>

text \<open>The entry of a global line in some IO-APIC is unmasked, has the flags, and its vector runs the handler.\<close>

definition line_runs ::
    "'io ioapic_api \<Rightarrow> nat \<Rightarrow> InterruptType \<Rightarrow> 'f \<Rightarrow> ('f, 'io) irq_state \<Rightarrow> bool" where
  "line_runs ia line ty f st \<longleftrightarrow>
     line < length (ir_handlers st) \<and> ir_handlers st ! line = HStatic f
     \<and> (\<exists>k w fl. k < length (ir_io_apics st) \<and> ir_io_apics st ! k = Some w \<and> iw_base w \<le> line
          \<and> line - iw_base w \<le> ia_max_table_entry ia (iw_io_apic w)
          \<and> te_vector (ia_table_entry ia (line - iw_base w) (iw_io_apic w)) = IOAPIC_START + line
          \<and> te_flags (ia_table_entry ia (line - iw_base w) (iw_io_apic w)) = type_flags ty fl - {MASKED})"

lemma line_runs_entry:
  assumes "line_runs ia line ty f st" "line < 220"
  shows "interrupt_entry ma pid addr (IOAPIC_START + line) (ir_handlers st) mem = Inr ([SwapGs, CallHandler f, EndOfInterrupt, SwapGs], mem)"
  using assms by (simp add: line_runs_def interrupt_entry_def IDT_general handle_interrupt_def prologue_def epilogue_def IOAPIC_START_def)

lemma set_interrupt_runs:
  assumes spec: "ioapic_spec ia" and wf: "irq_wf ia st"
    and call: "set_interrupt ia isos gsi itype (HStatic f) st = Inr (guard, st')"
    and ov: "apply_override isos gsi itype = (line, ty)"
  shows "irq_wf ia st' \<and> line_runs ia line ty f st' \<and> (\<forall>l ty' g. l \<noteq> line \<longrightarrow> line_runs ia l ty' g st \<longrightarrow> line_runs ia l ty' g st')"
proof -
  obtain k w io where kw: "get_io_apic ia line st = Inr (k, w)" "line < 224"
    and st': "st' = put_io_apic k w io (st\<lparr>ir_handlers := (ir_handlers st)[line := HStatic f]\<rparr>)"
    and mx: "ia_max_table_entry ia io = ia_max_table_entry ia (iw_io_apic w)"
    and ent: "\<forall>i\<le>ia_max_table_entry ia io. ia_table_entry ia i io =
         (if i = line - iw_base w
          then (ia_table_entry ia i (iw_io_apic w))\<lparr>te_flags := type_flags ty (te_flags (ia_table_entry ia i (iw_io_apic w))) - {MASKED}\<rparr>
          else ia_table_entry ia i (iw_io_apic w))"
    using set_interrupt_Inr[OF spec wf call ov] by auto
  note g = get_io_apic_Inr[OF kw(1)]
  have wf': "irq_wf ia st'" using set_interrupt_wf[OF spec wf call] by blast
  have "apic_routed ia w" using wf g(1,2) unfolding irq_wf_def by (metis nth_mem)
  then have "te_vector (ia_table_entry ia (line - iw_base w) (iw_io_apic w)) = IOAPIC_START + line"
    using g(3,4) by (simp add: apic_routed_def)
  then have "line_runs ia line ty f st'"
    using kw(2) wf g mx ent unfolding line_runs_def st' put_io_apic_def irq_wf_def
    by (auto intro!: exI[of _ k])
  moreover have "line_runs ia l ty' g' st'" if l: "l \<noteq> line" "line_runs ia l ty' g' st" for l ty' g'
  proof -
    obtain k' w' fl where o: "k' < length (ir_io_apics st)" "ir_io_apics st ! k' = Some w'" "iw_base w' \<le> l"
        "l - iw_base w' \<le> ia_max_table_entry ia (iw_io_apic w')"
        "te_vector (ia_table_entry ia (l - iw_base w') (iw_io_apic w')) = IOAPIC_START + l"
        "te_flags (ia_table_entry ia (l - iw_base w') (iw_io_apic w')) = type_flags ty' fl - {MASKED}"
      using l(2) by (auto simp: line_runs_def)
    have "\<exists>v. ir_io_apics st' ! k' = Some v \<and> iw_base v = iw_base w'
        \<and> ia_max_table_entry ia (iw_io_apic v) = ia_max_table_entry ia (iw_io_apic w')
        \<and> ia_table_entry ia (l - iw_base w') (iw_io_apic v) = ia_table_entry ia (l - iw_base w') (iw_io_apic w')"
    proof (cases "k' = k")
      case True
      then have "w' = w" using o(2) g(2) by simp
      moreover have "l - iw_base w \<noteq> line - iw_base w" using l(1) o(3) g(3) \<open>w' = w\<close> by auto
      ultimately show ?thesis using True g(1) mx ent o(4) by (auto simp: st' put_io_apic_def)
    qed (use o in \<open>simp add: st' put_io_apic_def\<close>)
    then show ?thesis using o l by (fastforce simp: line_runs_def st' put_io_apic_def)
  qed
  ultimately show ?thesis using wf' by blast
qed

lemma i8042_register_runs:
  assumes "ioapic_spec ia" "irq_wf ia st" "i8042_register ia isos closure st = Inr st'"
    and "apply_override isos 1 LevelLow = (l1, ty1)" "apply_override isos 12 LevelLow = (l12, ty12)" "l1 \<noteq> l12"
  shows "irq_wf ia st' \<and> line_runs ia l1 ty1 (closure Irq1) st' \<and> line_runs ia l12 ty12 (closure Irq12) st'"
proof -
  obtain g1 :: "unit InterruptGuard" and st1 and g2 :: "unit InterruptGuard"
    where c: "set_interrupt ia isos 1 LevelLow (HStatic (closure Irq1)) st = Inr (g1, st1)"
      "set_interrupt ia isos 12 LevelLow (HStatic (closure Irq12)) st1 = Inr (g2, st')"
    using assms(3) by (auto simp: i8042_register_def set_interrupt_static_def)
  have 1: "irq_wf ia st1 \<and> line_runs ia l1 ty1 (closure Irq1) st1" using set_interrupt_runs[OF assms(1,2) c(1) assms(4)] by blast
  then show ?thesis using set_interrupt_runs[OF assms(1) _ c(2) assms(5)] assms(6) by blast
qed


section \<open>A machine with a controller\<close>

definition claim_none :: "(unit, nat) driver_init" where
  "claim_none device n = (Inr False, Suc n)"


end
