(* ===== verification/Heap_Pool.thy ===== *)
theory Heap_Pool
  imports Snalloc Pool
begin

text \<open>
  Each size class of the kernel heap (\<open>crates/snalloc/src/lib.rs\<close>) is a pool: its resources are the cells of the
  class, a request is a layout of the class, and whatever happens to the other classes and to the fallback
  leaves it alone. The operations are those of the global allocator, with the null pointer read as a refusal
  and the ghost record of live blocks kept beside them.
\<close>

section \<open>The operations of a class\<close>

definition class_take :: "'f fallback_api \<Rightarrow> nat \<Rightarrow> Layout \<Rightarrow> 'f heap \<Rightarrow> (usize option \<times> 'f heap) res" where
  "class_take api i l h =
     res_bind (Allocator_alloc api (hp_inner h) l (hp_mem h)) (\<lambda>(p, inner, m).
     Inr (if p = 0 then (None, h\<lparr>hp_inner := inner, hp_mem := m\<rparr>)
          else (Some p, h\<lparr>hp_inner := inner, hp_mem := m, hp_live := (hp_live h)(i := (hp_live h i)(p \<mapsto> l))\<rparr>)))"

text \<open>A block is given back with the layout it was asked with.\<close>

definition class_give :: "'f fallback_api \<Rightarrow> nat \<Rightarrow> usize \<Rightarrow> 'f heap \<Rightarrow> 'f heap res" where
  "class_give api i p h =
     res_bind (unwrap (hp_live h i p)) (\<lambda>l.
     res_bind (Allocator_dealloc api (hp_inner h) p l (hp_mem h)) (\<lambda>(inner, m).
     Inr (h\<lparr>hp_inner := inner, hp_mem := m, hp_live := (hp_live h)(i := (hp_live h i)(p := None))\<rparr>)))"

text \<open>Every other step of the heap that does not touch the blocks of the class, writes into blocks among them.\<close>

definition class_other :: "'f fallback_api \<Rightarrow> ('f \<Rightarrow> usize) \<Rightarrow> nat \<Rightarrow> 'f heap \<Rightarrow> 'f heap \<Rightarrow> bool" where
  "class_other api bottom i h h' \<longleftrightarrow> heap_step api bottom h h' \<and> hp_live h' i = hp_live h i"

section \<open>The regions of the classes do not move\<close>

definition kernel_shape :: "'f Inner \<Rightarrow> bool" where
  "kernel_shape inner \<longleftrightarrow> length (in_slabs inner) = 7 \<and> (\<forall>j<7. same_slab (kernel_slab j) (in_slabs inner ! j))"

lemma kernel_shape_update:
  assumes "kernel_shape inner" "same_slab (in_slabs inner ! i) s'"
  shows "kernel_shape (inner\<lparr>in_slabs := (in_slabs inner)[i := s']\<rparr>)"
  using assms by (cases "i < 7") (auto simp: kernel_shape_def same_slab_def nth_list_update)

lemma SlabAllocator_alloc_shape: "SlabAllocator_alloc s l m = Inr (p, s', m') \<Longrightarrow> same_slab s s'"
  by (auto simp: SlabAllocator_alloc_def same_slab_def Let_def split: if_splits)

lemma SlabAllocator_dealloc_shape: "SlabAllocator_dealloc s p l m = Inr (s', m') \<Longrightarrow> same_slab s s'"
  by (auto simp: SlabAllocator_dealloc_def same_slab_def Let_def)

lemma Allocator_alloc_shape:
  assumes "kernel_shape inner" "Allocator_alloc api inner l m = Inr (p, inner', m')"
  shows "kernel_shape inner'"
proof (cases "Inner_slab inner l")
  case None
  then show ?thesis using assms by (auto simp: Allocator_alloc_def kernel_shape_def split: prod.splits option.splits)
next
  case (Some i)
  then show ?thesis using assms kernel_shape_update SlabAllocator_alloc_shape by (fastforce simp: Allocator_alloc_def)
qed

lemma Allocator_dealloc_shape:
  assumes "kernel_shape inner" "Allocator_dealloc api inner p l m = Inr (inner', m')"
  shows "kernel_shape inner'"
proof (cases "Inner_slab inner l")
  case None
  then show ?thesis using assms by (auto simp: Allocator_dealloc_def kernel_shape_def split: prod.splits if_splits)
next
  case (Some i)
  then show ?thesis using assms kernel_shape_update SlabAllocator_dealloc_shape by (fastforce simp: Allocator_dealloc_def)
qed

lemma heap_step_shape:
  "heap_step api bottom h h' \<Longrightarrow> kernel_shape (hp_inner h) \<Longrightarrow> kernel_shape (hp_inner h')"
  by (cases rule: heap_step.cases) (auto dest: Allocator_alloc_shape Allocator_dealloc_shape)

lemma heap_reach_shape: "heap_reach api bottom h \<Longrightarrow> kernel_shape (hp_inner h)"
proof (induction rule: heap_reach.induct)
  case (heap_start inner m)
  then have "in_slabs inner = map kernel_slab [0..<7]" by (auto simp: kernel_init split: prod.splits)
  then show ?case by (simp add: kernel_shape_def same_slab_def)
qed (auto dest: heap_step_shape)

section \<open>A class is a pool\<close>

definition class_rel :: "'f fallback_api \<Rightarrow> ('f \<Rightarrow> usize) \<Rightarrow> nat \<Rightarrow> 'f heap \<Rightarrow> usize set \<Rightarrow> bool" where
  "class_rel api bottom i h T \<longleftrightarrow>
     fallback_spec api bottom \<and> heap_inv bottom h \<and> kernel_shape (hp_inner h) \<and> i < 7 \<and> T = dom (hp_live h i)"

lemma class_cells: "kernel_shape inner \<Longrightarrow> i < 7 \<Longrightarrow> all_cells (in_slabs inner ! i) = all_cells (kernel_slab i)"
  using same_slab_cells by (auto simp: kernel_shape_def)

lemma kernel_cell_aligned:
  assumes "i < 6" "p \<in> all_cells (kernel_slab i)"
  shows "class_sizes ! i dvd p"
proof -
  let ?slabs = "map kernel_slab [0..<7]"
  have g: "good_slabs ?slabs kernel_fallback" by (rule kernel_slabs_good)
  have k: "?slabs ! i = kernel_slab i" using assms(1) by (subst nth_map) simp_all
  have "map sl_size ?slabs ! i = class_sizes ! i" using g by (simp only: good_slabs_def)
  moreover have "map sl_size ?slabs ! i = sl_size (?slabs ! i)" by (rule nth_map) (use assms(1) in simp)
  ultimately show ?thesis using cell_inside(2)[OF g assms(1), of p] assms(2) unfolding k by simp
qed

interpretation size_class: pool "all_cells (kernel_slab i)" "class_rel api bottom i" "\<lambda>l. class_of l = Some i"
    "class_take api i" "class_give api i" "class_other api bottom i"
  for api :: "'f fallback_api" and bottom i
proof
  fix h :: "'f heap" and T l
  assume rel: "class_rel api bottom i h T" and cls: "class_of l = Some i"
  then have inv: "heap_inv bottom h" and sh: "kernel_shape (hp_inner h)" and i: "i < 7" and T: "T = dom (hp_live h i)"
    and spec: "fallback_spec api bottom" by (auto simp: class_rel_def)
  from inv cls show "\<exists>r s'. class_take api i l h = Inr (r, s')
      \<and> (case r of None \<Rightarrow> all_cells (kernel_slab i) \<subseteq> T \<and> class_rel api bottom i s' T
         | Some x \<Rightarrow> x \<in> all_cells (kernel_slab i) \<and> x \<notin> T \<and> class_rel api bottom i s' (insert x T))"
  proof (cases rule: heap_alloc_cases[where api = api])
    case (cell p inner' m')
    have h': "h\<lparr>hp_inner := inner', hp_mem := m', hp_live := (hp_live h)(i := (hp_live h i)(p \<mapsto> l))\<rparr>
        = \<lparr>hp_inner = inner', hp_mem = m', hp_live = (hp_live h)(i := (hp_live h i)(p \<mapsto> l))\<rparr>" by simp
    have "kernel_shape inner'" using Allocator_alloc_shape[OF sh cell(1)] .
    then show ?thesis using cell class_cells[OF sh i] i T spec by (auto simp: class_take_def class_rel_def h')
  next
    case full
    then show ?thesis using class_cells[OF sh i] rel T by (auto simp: class_take_def class_rel_def)
  qed
next
  fix h h' :: "'f heap" and T p
  assume rel: "class_rel api bottom i h T" and p: "p \<in> T" and give: "class_give api i p h = Inr h'"
  then obtain l where l: "hp_live h i p = Some l" by (auto simp: class_rel_def)
  have inv: "heap_inv bottom h" using rel by (simp add: class_rel_def)
  obtain inner' m' where d: "Allocator_dealloc api (hp_inner h) p l (hp_mem h) = Inr (inner', m')"
    "heap_inv bottom \<lparr>hp_inner = inner', hp_mem = m', hp_live = (hp_live h)(i := (hp_live h i)(p := None))\<rparr>"
    using heap_dealloc_ok[OF inv l] .
  have "h' = \<lparr>hp_inner = inner', hp_mem = m', hp_live = (hp_live h)(i := (hp_live h i)(p := None))\<rparr>"
    using give l d(1) by (auto simp: class_give_def)
  then show "class_rel api bottom i h' (T - {p})"
    using d rel Allocator_dealloc_shape[OF _ d(1)] by (auto simp: class_rel_def)
next
  fix h h' :: "'f heap" and T
  assume "class_rel api bottom i h T" "class_other api bottom i h h'"
  then show "class_rel api bottom i h' T" using heap_step_inv heap_step_shape by (auto simp: class_rel_def class_other_def)
qed

text \<open>
  C2. Every size class of the kernel heap implements a pool of its cells. In any run from a reachable state, with
  the rest of the kernel working on the other classes and writing into its blocks in between, and with clients
  that give back only what they hold: a block handed out is a cell of the class that is not held, a request is
  refused only when all cells are held, the blocks held at the end are those of the pool, and no block is
  handed out twice without having been given back in between. A request never panics. The cells of the
  classes up to 512 bytes are aligned to their size, hence to every power of two up to it.
\<close>

theorem heap_class_refines_pool:
  assumes "fallback_spec api bottom" "heap_reach api bottom h" "i < 7"
    and "impl_run (\<lambda>l. class_of l = Some i) (class_take api i) (class_give api i) (class_other api bottom i) h es h'"
    and "client_ok (dom (hp_live h i)) es"
  shows "pool_run (all_cells (kernel_slab i)) (dom (hp_live h i)) es (dom (hp_live h' i)) \<and> exclusive_use es
    \<and> (\<forall>l. class_of l = Some i \<longrightarrow> (\<exists>r h''. class_take api i l h' = Inr (r, h'')))
    \<and> (i < 6 \<longrightarrow> (\<forall>p\<in>all_cells (kernel_slab i). class_sizes ! i dvd p))"
proof -
  have rel: "class_rel api bottom i h (dom (hp_live h i))"
    using assms(1-3) heap_reach_inv heap_reach_shape by (auto simp: class_rel_def)
  obtain T' where T': "pool_run (all_cells (kernel_slab i)) (dom (hp_live h i)) es T'" "class_rel api bottom i h' T'"
    using size_class.refines[OF assms(4) rel assms(5)] by blast
  moreover have "\<exists>r h''. class_take api i l h' = Inr (r, h'')" if "class_of l = Some i" for l
    using size_class.never_stuck[OF T'(2) that] .
  moreover have "class_sizes ! i dvd p" if "i < 6" "p \<in> all_cells (kernel_slab i)" for p
    using kernel_cell_aligned[OF that] .
  ultimately show ?thesis using pool_run_exclusive[OF T'(1)] by (auto simp: class_rel_def)
qed

text \<open>On a fresh heap: two blocks of twelve bytes are taken, the first is given back.\<close>

lemma demo_take: "n < 10 \<Longrightarrow> class_take demo_api 0 demo_layout (demo_heap n) = Inr (Some (MANAGED_START + 16 * n), demo_heap (Suc n))"
  by (simp add: class_take_def demo_alloc) (simp add: demo_heap_def kernel_consts)

theorem heap_class_refines_pool_witness:
  "\<exists>h'. impl_run (\<lambda>l. class_of l = Some 0) (class_take demo_api 0) (class_give demo_api 0) (class_other demo_api id 0)
      (demo_heap 0) [Taken MANAGED_START, Taken (MANAGED_START + 16), Given MANAGED_START] h'
    \<and> dom (hp_live h' 0) = {MANAGED_START + 16}"
proof -
  have live: "hp_live (demo_heap 2) 0 MANAGED_START = Some demo_layout" by (simp add: demo_heap_def numeral_2_eq_2)
  obtain h' where h': "class_give demo_api 0 MANAGED_START (demo_heap 2) = Inr h'"
    using heap_dealloc_ok[OF heap_reach_inv[OF demo_reach[of 2] demo_spec] live, of demo_api] live by (force simp: class_give_def)
  have run: "impl_run (\<lambda>l. class_of l = Some 0) (class_take demo_api 0) (class_give demo_api 0) (class_other demo_api id 0)
      (demo_heap 0) [Taken MANAGED_START, Taken (MANAGED_START + 16), Given MANAGED_START] h'"
    using demo_take[of 0] demo_take[of 1] h'
    demo_class by (intro impl_taken[of _ demo_layout] impl_given) (auto simp: numeral_2_eq_2 impl_stop)
  then have "pool_run (all_cells (kernel_slab 0)) (dom (hp_live (demo_heap 0) 0))
      [Taken MANAGED_START, Taken (MANAGED_START + 16), Given MANAGED_START] (dom (hp_live h' 0))"
    using heap_class_refines_pool[OF demo_spec demo_reach[of 0] _ run] by (simp add: demo_heap_def)
  then show ?thesis using run by (auto simp: demo_heap_def intro!: exI[of _ h'])
qed

end
