(* ===== verification/Start.thy ===== *)
theory Start
  imports Boot Input_Start Sockets Idle "HOL-Library.Product_Lexorder"
begin

text \<open>
  The start of the kernel as a whole: \<open>start\<close> and \<open>ap_main\<close> of \<open>kernel/src/main.rs\<close>, \<open>start\<close> of
  \<open>kernel/src/shell.rs\<close>, \<open>start\<close> of \<open>kernel/src/task/mod.rs\<close>, and the registration of network devices by
  their drivers, composed from the models of the components.

  Tasks are spawned before any core runs its executor, so they go to the injection queue. What the
  hardware answers to the drivers that probe it is an argument.
\<close>

section \<open>Model\<close>

text \<open>
  The end of \<open>init\<close> of a network driver: a device that is taken is registered with the network, which spawns
  three tasks. The state is the default interface and the executor, or a panic.
\<close>

type_synonym ('cap, 'q, 'j) driver_state = "('cap PciDevice option \<times> ('q, 'j) Runtime) res"

definition register_device ::
    "('q, 'j, 't) sched_api \<Rightarrow> (net_task \<Rightarrow> 't) \<Rightarrow> 'cap PciDevice \<Rightarrow> 'cap PciDevice option \<times> ('q, 'j) Runtime
     \<Rightarrow> ('cap, 'q, 'j) driver_state" where
  "register_device sa task_of device s =
     (case s of (default_driver, rt) \<Rightarrow>
      res_bind (net_register device default_driver) (\<lambda>(default_driver, tasks).
      res_bind (res_fold (executor_spawn sa None) (map task_of tasks) rt) (\<lambda>rt.
      Inr (default_driver, rt))))"

definition nic_init ::
    "('q, 'j, 't) sched_api \<Rightarrow> (net_task \<Rightarrow> 't) \<Rightarrow> ('cap PciDevice \<Rightarrow> string + bool) \<Rightarrow> ('cap, ('cap, 'q, 'j) driver_state) driver_init" where
  "nic_init sa task_of probe device s =
     (case s of
        Inl p \<Rightarrow> (Inl '''', Inl p)
      | Inr st \<Rightarrow>
          (case probe device of
             Inr True \<Rightarrow> (Inr True, register_device sa task_of device st)
           | r \<Rightarrow> (r, Inr st)))"

text \<open>The socket device is set up without registering anything.\<close>

definition sock_init :: "('cap PciDevice \<Rightarrow> string + bool) \<Rightarrow> ('cap, ('cap, 'q, 'j) driver_state) driver_init" where
  "sock_init probe device s = (case s of Inl p \<Rightarrow> (Inl '''', Inl p) | Inr st \<Rightarrow> (probe device, Inr st))"

definition DRIVER_INITS ::
    "('q, 'j, 't) sched_api \<Rightarrow> (net_task \<Rightarrow> 't) \<Rightarrow> ('cap PciDevice \<Rightarrow> string + bool) \<Rightarrow> ('cap PciDevice \<Rightarrow> string + bool)
     \<Rightarrow> ('cap PciDevice \<Rightarrow> string + bool) \<Rightarrow> ('cap, ('cap, 'q, 'j) driver_state) driver_init list" where
  "DRIVER_INITS sa task_of nic vnet vsock =
     [nic_init sa task_of nic, nic_init sa task_of vnet, sock_init vsock]"

text \<open>The devices in the order of the tree they are kept in.\<close>

definition get_devices :: "'cap devices \<Rightarrow> 'cap PciDevice list" where
  "get_devices devices = map (\<lambda>a. the (devices a)) (sorted_list_of_set (dom devices))"

definition shell_start_task :: "('q, 'j, 't) sched_api \<Rightarrow> 't \<Rightarrow> debug_log \<times> ('q, 'j) Runtime \<Rightarrow> (debug_log \<times> ('q, 'j) Runtime) res" where
  "shell_start_task sa shell s =
     (case s of (dlog, rt) \<Rightarrow>
      let dlog = set_print shell_print dlog
      in res_bind (executor_spawn sa None shell rt) (\<lambda>rt. Inr (dlog, rt)))"

text \<open>
  \<open>start\<close> of \<open>main.rs\<close>, up to \<open>ap_main\<close>. The printer of the framebuffer leaves the shell's buffer alone. \<open>None\<close> when the
  controller of the keyboard keeps the kernel busy for ever.
\<close>

definition start_early ::
    "('fb, 'f, 'io, 'pt, 'cap, 'g) machine \<Rightarrow> fb_float \<Rightarrow> u8 list \<Rightarrow> framebuffer_info list \<Rightarrow> ('q, 'j, 't) sched_api \<Rightarrow> 't \<Rightarrow> 'j
     \<Rightarrow> 'pt memory_state \<Rightarrow> Display \<Rightarrow> (('fb, 'f, 'io, 'pt, 'cap, 'g) kernel \<times> debug_log \<times> ('q, 'j) Runtime) res" where
  "start_early mc fl logo_text infos sa shell injector mem display =
     res_bind (early_init fl logo_text infos display) (\<lambda>display.
     let dlog = set_print (\<lambda>_ debug. debug) debug_log_static in
     res_bind (arch_init mc (kernel_static (ma_fallback mc) mem display)) (\<lambda>k.
     res_bind (shell_start_task sa shell (dlog, RUNTIME injector)) (\<lambda>(dlog, rt).
     Inr (k, dlog, rt))))"

definition start_drivers ::
    "('h impl_8042 \<times> ('kq, 'key) queue_api \<times> ('mq, MouseState) queue_api \<times> 'w waker_api) \<Rightarrow> (Irq \<Rightarrow> 'f)
     \<Rightarrow> ('cap, ('cap, 'q, 'j) driver_state) driver_init list \<Rightarrow> ('h, 'k1, 'k2) Driver8042
     \<Rightarrow> ('fb, 'f, 'io, 'pt, 'cap, 'g) machine \<Rightarrow> ('fb, 'f, 'io, 'pt, 'cap, 'g) kernel \<times> debug_log \<times> ('q, 'j) Runtime
     \<Rightarrow> (('h, 'k1, 'k2, 'kq, 'mq, 'w, 'f, 'io) input_state \<times> debug_log \<times> 'cap PciDevice option \<times> ('q, 'j) Runtime) res option" where
  "start_drivers devs closure inits d mc s =
     (case (devs, s) of ((im, kq, mq, wa), (k, dlog, rt)) \<Rightarrow>
      case res_bind (get_platform_info k) overrides_of of
        Inl p \<Rightarrow> Some (Inl p)
      | Inr isos \<Rightarrow>
          map_option (\<lambda>r. res_bind r (\<lambda>(input, pci). res_bind pci (\<lambda>(default_driver, rt). Inr (input, dlog, default_driver, rt))))
            (drivers_start (i8042_start im kq mq (ma_ioapic mc) isos closure) inits (get_devices (ke_devices k))
               ((d, channel_static wa, channel_static wa, ke_irq k), Inr (None, rt))))"

definition kernel_start ::
    "('fb, 'f, 'io, 'pt, 'cap, 'g) machine \<Rightarrow> fb_float \<Rightarrow> u8 list \<Rightarrow> framebuffer_info list \<Rightarrow> ('q, 'j, 't) sched_api \<Rightarrow> 't \<Rightarrow> 'j
     \<Rightarrow> 'pt memory_state \<Rightarrow> Display
     \<Rightarrow> ('h impl_8042 \<times> ('kq, 'key) queue_api \<times> ('mq, MouseState) queue_api \<times> 'w waker_api) \<Rightarrow> (Irq \<Rightarrow> 'f)
     \<Rightarrow> ('cap, ('cap, 'q, 'j) driver_state) driver_init list \<Rightarrow> ('h, 'k1, 'k2) Driver8042
     \<Rightarrow> (('h, 'k1, 'k2, 'kq, 'mq, 'w, 'f, 'io) input_state \<times> debug_log \<times> 'cap PciDevice option \<times> ('q, 'j) Runtime) res option" where
  "kernel_start mc fl logo_text infos sa shell injector mem display devs closure inits d =
     (case start_early mc fl logo_text infos sa shell injector mem display of
        Inl p \<Rightarrow> Some (Inl p)
      | Inr s \<Rightarrow> start_drivers devs closure inits d mc s)"

text \<open>\<open>task::start\<close>: a new executor, whose \<open>run\<close> begins with the round given here. \<open>ap_main\<close> halts when it returns.\<close>

definition task_start ::
    "('q, 'j, 't) sched_api \<Rightarrow> (usize \<Rightarrow> 'g \<Rightarrow> usize \<times> 'g) \<Rightarrow> 'g \<Rightarrow> ('q, 'j) Runtime \<Rightarrow> (run_outcome \<times> 'g Executor \<times> ('q, 'j) Runtime) res" where
  "task_start sa gen_range seed rt =
     (case Executor_new sa seed rt of
        (Inl p, _) \<Rightarrow> Inl p
      | (Inr ex, rt) \<Rightarrow>
          (case run_start ex of
             (Returned, ex) \<Rightarrow> Inr (Returned, ex, rt)
           | (_, ex) \<Rightarrow> run_round sa gen_range ex rt))"

definition ap_main ::
    "('q, 'j, 't) sched_api \<Rightarrow> (usize \<Rightarrow> 'g \<Rightarrow> usize \<times> 'g) \<Rightarrow> 'g \<Rightarrow> ('q, 'j) Runtime \<Rightarrow> (run_outcome \<times> 'g Executor \<times> ('q, 'j) Runtime) res" where
  "ap_main sa gen_range seed rt =
     res_bind (task_start sa gen_range seed rt) (\<lambda>(r, ex, rt). Inr (case r of Returned \<Rightarrow> Halted | _ \<Rightarrow> r, ex, rt))"

text \<open>Messages of the ACPI interpreter go to the log, \<open>log\<close> of its host (\<open>kernel/src/arch/x86_64/acpi.rs\<close>).\<close>

datatype LogLevel = LaiDebug | LaiWarn

definition Host_log :: "LogLevel \<Rightarrow> nat list \<Rightarrow> debug_log \<Rightarrow> debug_log" where
  "Host_log level message dlog =
     Collector_event (case level of LaiDebug \<Rightarrow> lit ''DEBUG'' | LaiWarn \<Rightarrow> lit ''WARN'')
       [(lit ''message'', lit ''[LAI] '' @ message)] dlog"

section \<open>The tasks of the boot\<close>

text \<open>
  What the schedulers promise beyond \<open>sched_spec\<close>: the injection queue can be stolen from when it has tasks, a
  thief takes as many as it may, and a tick of a scheduler without tasks leaves it without tasks and reports
  that none are left.
\<close>

definition steal_spec :: "('q, 'j, 't) sched_api \<Rightarrow> ('q \<Rightarrow> 't multiset) \<Rightarrow> ('j \<Rightarrow> 't multiset) \<Rightarrow> bool" where
  "steal_spec sa qt jt \<longleftrightarrow>
     (\<forall>j. ij_try_steal sa j \<longleftrightarrow> jt j \<noteq> {#})
     \<and> (\<forall>j q n. fst (ij_spawn_n sa j q n) = min n (size (jt j)))
     \<and> (\<forall>q. qt q = {#} \<longrightarrow> \<not> fst (sa_tick sa q) \<and> qt (snd (sa_tick sa q)) = {#})"

definition boot_tasks :: "'t \<Rightarrow> (net_task \<Rightarrow> 't) \<Rightarrow> 'i option \<Rightarrow> 't multiset" where
  "boot_tasks shell task_of default_driver =
     add_mset shell (case default_driver of None \<Rightarrow> {#} | Some _ \<Rightarrow> {#task_of Dhcp4Task, task_of Auto6Task, task_of InterfaceTask#})"

text \<open>No core has an executor yet, and the injection queue has the tasks spawned so far.\<close>

definition drivers_ok ::
    "('j \<Rightarrow> 't multiset) \<Rightarrow> 't \<Rightarrow> (net_task \<Rightarrow> 't) \<Rightarrow> ('cap, 'q, 'j) driver_state \<Rightarrow> bool" where
  "drivers_ok jt shell task_of s =
     (case s of
        Inl _ \<Rightarrow> True
      | Inr (default_driver, rt) \<Rightarrow>
          rt_cores rt = replicate MAX_CORES None \<and> rt_initialized rt = 0 \<and> jt (rt_injector rt) = boot_tasks shell task_of default_driver)"

lemma register_device_ok:
  assumes "sched_spec sa qt jt" "drivers_ok jt shell task_of (Inr st)"
  shows "drivers_ok jt shell task_of (register_device sa task_of device st)"
    "snd st = rt \<Longrightarrow> (\<exists>p. register_device sa task_of device st = Inl p) \<longleftrightarrow> fst st \<noteq> None"
  using assms
  by (auto simp: drivers_ok_def register_device_def net_register_def executor_spawn_def boot_tasks_def sched_spec_def
      split: prod.splits option.splits)

lemma nic_init_ok:
  assumes "sched_spec sa qt jt" "drivers_ok jt shell task_of s"
  shows "drivers_ok jt shell task_of (snd (nic_init sa task_of probe device s))"
  using assms register_device_ok(1)[OF assms(1)]
  by (auto simp: nic_init_def split: sum.splits bool.splits)

lemma try_drivers_ok:
  assumes "\<And>init s. init \<in> set inits \<Longrightarrow> P s \<Longrightarrow> P (snd (init device s))" "P s"
  shows "P (try_drivers inits device s)"
  using assms
proof (induction inits arbitrary: s)
  case (Cons init inits)
  obtain r s' where r: "init device s = (r, s')" by (cases "init device s")
  then have "P s'" using Cons.prems(1)[of init s] Cons.prems(2) by simp
  moreover have "P (try_drivers inits device s')" using Cons.IH Cons.prems(1) \<open>P s'\<close> by simp
  ultimately show ?case using r by (auto split: sum.splits bool.splits)
qed simp

lemma drivers_init_ok:
  assumes "\<And>init device s. init \<in> set inits \<Longrightarrow> P s \<Longrightarrow> P (snd (init device s))" "P s"
  shows "P (drivers_init inits devices s)"
  unfolding drivers_init_def using assms try_drivers_ok[of inits P] by (induction devices arbitrary: s) auto

lemma snd_sock_init [simp]: "snd (sock_init probe device s) = s"
  by (simp add: sock_init_def split: sum.splits)

lemma DRIVER_INITS_ok:
  assumes "sched_spec sa qt jt" "init \<in> set (DRIVER_INITS sa task_of nic vnet vsock)" "drivers_ok jt shell task_of s"
  shows "drivers_ok jt shell task_of (snd (init device s))"
  using assms(2,3) nic_init_ok[OF assms(1,3)] by (auto simp: DRIVER_INITS_def)

lemma start_drivers_ok:
  assumes "sched_spec sa qt jt" "rt_cores rt = replicate MAX_CORES None" "rt_initialized rt = 0" "jt (rt_injector rt) = {#shell#}"
    and "start_drivers devs closure (DRIVER_INITS sa task_of nic vnet vsock) d mc (k, dlog, rt) = Some (Inr (input, dlog', default_driver, rt'))"
  shows "dlog' = dlog \<and> drivers_ok jt shell task_of (Inr (default_driver, rt'))"
proof -
  let ?inits = "DRIVER_INITS sa task_of nic vnet vsock"
  have "drivers_ok jt shell task_of (drivers_init ?inits (get_devices (ke_devices k)) (Inr (None, rt)))"
  proof (rule drivers_init_ok)
    show "drivers_ok jt shell task_of (Inr (None, rt))" using assms(2-4) by (simp add: drivers_ok_def boot_tasks_def)
  qed (rule DRIVER_INITS_ok[OF assms(1)])
  then show ?thesis using assms(5)
    by (auto simp: start_drivers_def drivers_start_def split: prod.splits sum.splits)
qed

lemma start_early_ok:
  assumes "sched_spec sa qt jt" "jt injector = {#}"
    and "start_early mc fl logo_text infos sa shell injector mem display = Inr (k, dlog, rt)"
  shows "dl_print dlog = Some shell_print \<and> rt_cores rt = replicate MAX_CORES None \<and> rt_initialized rt = 0 \<and> jt (rt_injector rt) = {#shell#}
    \<and> (\<exists>display'. early_init fl logo_text infos display = Inr display' \<and> arch_init mc (kernel_static (ma_fallback mc) mem display') = Inr k)"
  using assms
  by (auto simp: start_early_def shell_start_task_def executor_spawn_def RUNTIME_def set_print_def sched_spec_def Let_def)

text \<open>The first round of the first core takes everything that was spawned before.\<close>

lemma ap_main_takes:
  assumes spec: "sched_spec sa qt jt" "steal_spec sa qt jt" and ok: "drivers_ok jt shell task_of (Inr (default_driver, rt))"
  shows "\<exists>ex rt'. ap_main sa gen_range seed rt = Inr (Continues, ex, rt') \<and> ex_id ex = 0 \<and> ex_running ex
    \<and> core_tasks qt rt' 0 = boot_tasks shell task_of default_driver \<and> jt (rt_injector rt') = {#}"
proof -
  have rt: "rt_cores rt = replicate MAX_CORES None" "rt_initialized rt = 0" "jt (rt_injector rt) = boot_tasks shell task_of default_driver"
    using ok by (auto simp: drivers_ok_def)
  define q where "q = snd (sa_tick sa (sa_new sa))"
  have new: "qt (sa_new sa) = {#}" using spec(1) by (simp add: sched_spec_def)
  then have tk: "sa_tick sa (sa_new sa) = (False, q)" and q: "qt q = {#}"
    using spec(2) by (auto simp: steal_spec_def q_def prod_eq_iff)
  have sz: "size (boot_tasks shell task_of default_driver) \<le> MAX_STOLEN_PER_TICK" "0 < size (boot_tasks shell task_of default_driver)"
    by (auto simp: boot_tasks_def MAX_STOLEN_PER_TICK_def split: option.splits)
  obtain n j' q' where sn: "ij_spawn_n sa (rt_injector rt) q MAX_STOLEN_PER_TICK = (n, j', q')" by (metis prod_cases3)
  then have n: "n = size (boot_tasks shell task_of default_driver)"
    using spec(2) rt(3) sz by (simp add: steal_spec_def) (metis fst_conv min.absorb2)
  obtain moved where m: "size moved = n" "jt (rt_injector rt) = jt j' + moved" "qt q' = qt q + moved"
    using sched_specD(2)[OF spec(1) sn] by blast
  then have mv: "jt j' = {#}" "qt q' = boot_tasks shell task_of default_driver"
    using n q rt(3) by (metis add_cancel_left_left size_eq_0_iff_empty size_union, metis (no_types) add_0 add_cancel_left_left n rt(3) size_eq_0_iff_empty size_union)
  have c: "0 < length (rt_cores rt)" "rt_cores rt ! 0 = None" using rt(1) by (simp_all add: MAX_CORES_def)
  have st: "ij_try_steal sa (rt_injector rt)" using spec(2) rt(3) by (auto simp: steal_spec_def boot_tasks_def)
  show ?thesis
    using rt c tk sn st mv n sz(2)
    by (auto simp: ap_main_def task_start_def Executor_new_def new_scheduler_def run_start_def run_round_def tick_def try_steal_def steal_injected_def
        own_scheduler_def core_tasks_def Let_def MAX_CORES_def)
qed


section \<open>A second network device\<close>

text \<open>What the drivers leave behind: a panic of the unwrap in \<open>register\<close>, or the interface of the first device.\<close>

definition nic_state :: "bool \<Rightarrow> ('cap, 'q, 'j) driver_state \<Rightarrow> bool" where
  "nic_state one s = (case s of Inl p \<Rightarrow> p = UnwrapFailed | Inr (default_driver, _) \<Rightarrow> one \<longrightarrow> default_driver \<noteq> None)"

lemma register_device_cases:
  "register_device sa task_of device (None, rt) = Inr (Some device, rt\<lparr>rt_injector := ij_spawn sa (task_of InterfaceTask)
      (ij_spawn sa (task_of Auto6Task) (ij_spawn sa (task_of Dhcp4Task) (rt_injector rt)))\<rparr>)"
  "register_device sa task_of device (Some i, rt) = Inl UnwrapFailed"
  by (simp_all add: register_device_def net_register_def executor_spawn_def)

lemma register_device_state: "nic_state True (register_device sa task_of device st)"
  by (cases st; cases "fst st") (auto simp: nic_state_def register_device_cases)

lemma nic_state_weaken: "nic_state True s \<Longrightarrow> nic_state one s"
  by (auto simp: nic_state_def split: sum.splits)

lemma DRIVER_INITS_state:
  assumes "init \<in> set (DRIVER_INITS sa task_of nic vnet vsock)" "nic_state one s"
  shows "nic_state one (snd (init device s))"
proof -
  have "nic_state one (snd (nic_init sa task_of probe device s))" for probe
    using assms(2) register_device_state[of sa task_of device] nic_state_weaken
    by (auto simp: nic_init_def split: sum.splits bool.splits)
  then show ?thesis using assms by (auto simp: DRIVER_INITS_def)
qed

lemma try_drivers_card:
  assumes "nic device = Inr True" "nic_state one s"
  shows "nic_state True (try_drivers (DRIVER_INITS sa task_of nic vnet vsock) device s)"
    "one \<Longrightarrow> try_drivers (DRIVER_INITS sa task_of nic vnet vsock) device s = Inl UnwrapFailed"
proof -
  have "nic_state True (snd (nic_init sa task_of nic device s))"
    using assms register_device_state[of sa task_of device]
    by (cases s) (simp_all add: nic_init_def, simp add: nic_state_def)
  moreover have "try_drivers (DRIVER_INITS sa task_of nic vnet vsock) device s = snd (nic_init sa task_of nic device s)"
    using assms(1) by (simp add: DRIVER_INITS_def nic_init_def split: sum.splits)
  ultimately show "nic_state True (try_drivers (DRIVER_INITS sa task_of nic vnet vsock) device s)" by simp
next
  show "one \<Longrightarrow> try_drivers (DRIVER_INITS sa task_of nic vnet vsock) device s = Inl UnwrapFailed"
    using assms by (auto simp: DRIVER_INITS_def nic_init_def nic_state_def register_device_cases split: sum.splits)
qed

text \<open>With two network cards of the first driver the start of the drivers panics, whatever else is there.\<close>

lemma two_cards_panic:
  assumes "nic x = Inr True" "nic y = Inr True"
  shows "drivers_init (DRIVER_INITS sa task_of nic vnet vsock) (as @ x # bs @ y # cs) (Inr (None, rt)) = Inl UnwrapFailed"
proof -
  let ?inits = "DRIVER_INITS sa task_of nic vnet vsock"
  let ?run = "\<lambda>ds s. drivers_init ?inits ds s"
  have keep: "nic_state one s \<Longrightarrow> nic_state one (?run ds s)" for one ds and s :: "('a, 'b, 'c) driver_state"
    by (rule drivers_init_ok[where P = "nic_state one"]) (auto intro: DRIVER_INITS_state)
  have over: "?run ds (Inl UnwrapFailed) = Inl UnwrapFailed" for ds
    by (induction ds) (simp_all add: drivers_init_def DRIVER_INITS_def nic_init_def)
  have "nic_state False (?run as (Inr (None, rt)))" by (rule keep) (simp add: nic_state_def)
  then have "nic_state True (try_drivers ?inits x (?run as (Inr (None, rt))))" by (rule try_drivers_card(1)[where nic = nic, OF assms(1)])
  then have "nic_state True (?run bs (try_drivers ?inits x (?run as (Inr (None, rt)))))" by (rule keep)
  from try_drivers_card(2)[where nic = nic and sa = sa and task_of = task_of and vnet = vnet and vsock = vsock, OF assms(2) this] show ?thesis using over by (simp add: drivers_init_def)
qed

section \<open>The desk machine starts\<close>

lemma list_sched_steal: "steal_spec list_sched mset mset"
  by (auto simp: steal_spec_def list_sched_def)

lemma drivers_pass:
  assumes "\<forall>init\<in>set inits. \<forall>device. init device s = (Inr False, s)"
  shows "drivers_init inits devices s = s"
proof -
  have "try_drivers inits device s = s" for device using assms by (induction inits) auto
  then show ?thesis by (induction devices) (simp_all add: drivers_init_def)
qed

lemma desk_registers:
  fixes st :: "(nat, nat \<Rightarrow> table_entry) irq_state"
  assumes "ir_io_apics st = Some w # rest" "iw_base w = 0" "length (ir_handlers st) = 224"
  shows "\<exists>st'. i8042_register fun_ioapic [] closure st = Inr st'"
  using assms by (auto simp: i8042_register_def set_interrupt_static_def set_interrupt_def get_io_apic_def fun_ioapic_def put_io_apic_def Let_def)


end
