(* ===== verification/Spec2Isabelle.thy ===== *)
theory Spec2Isabelle
  imports Snalloc Memory Input_Queue Interrupts E1000 Framebuffer Logo Pit Cmos Hpet Net Pci Shell Commands Executor Nvme Panic
    Locks Config_Space Virtio Sockets Cpu_Setup Lapic Pixels Boot Idle Input_Start Heap_Pool Start
begin

text \<open>
  A model of \<open>snek_os\<close>, an operating system kernel for x86-64 in Rust, with the theorems that make its
  parts correct. File names below are relative to \<open>src/\<close>.

  \<^bold>\<open>The program.\<close> The boot loader enters \<open>kernel/src/main.rs\<close>, which sets up the log and the display, calls
  \<open>arch::init\<close> (segments, memory, firmware tables, interrupts, heap, clocks, per-core data, PCI, the other
  cores), starts the shell, starts the drivers and then runs the task executor on every core. Everything
  after that happens in tasks and in interrupt handlers. Drivers hand what devices deliver to tasks
  through queues, rings and wakers; the network interface is a task over the protocol stack \<open>smoltcp\<close>;
  the heap is backed by demand paging, so that an access to it may enter the page fault handler, which
  takes frames from the frame allocator.

  \<^bold>\<open>Conventions.\<close> \<open>Prelude\<close> has the fixed-width types, the result type \<open>'a res\<close> (\<open>Inl\<close> a panic, with its cause),
  checked arithmetic as in the \<open>dev\<close> profile, slices, and the monad \<open>io\<close> of hardware accesses that may also
  fail to return. A struct is a record, an enum a datatype, a method a function on the record; the name
  is \<open>Type_method\<close>. Code outside the repository is a parameter, a record of functions whose documented
  behaviour is a named predicate and appears as a hypothesis where a theorem needs it:
  \<open>fallback_spec\<close> (\<open>linked_list_allocator\<close>), \<open>mapper_spec\<close> (page tables of \<open>x86_64\<close>), \<open>gdt_spec\<close> (its descriptor table),
  \<open>ioapic_spec\<close> (\<open>x2apic\<close>), \<open>queue_spec\<close> (\<open>crossbeam_queue\<close>), \<open>waker_spec\<close> (\<open>futures\<close>), \<open>sched_spec\<close>, \<open>schedule_spec\<close> and
  \<open>steal_spec\<close> (\<open>maitake\<close>), \<open>rng_spec\<close> (\<open>rand\<close>), \<open>bitfield_packed\<close> (\<open>mycelium_bitfield\<close>), \<open>virtio_net_spec\<close> (\<open>virtio_drivers\<close>),
  \<open>socket_set_spec\<close> and \<open>sockets_spec\<close> (\<open>smoltcp\<close>), \<open>libm_round_spec\<close> (\<open>libm\<close>). Each has a concrete instance, on
  which the witnesses of the theorems rest. Interfaces shared by components are the locales of \<open>Contracts\<close>,
  \<open>pool\<close> of \<open>Pool\<close> and \<open>lock_order\<close> of \<open>Locks\<close>, interpreted where the operations are defined.

  \<^bold>\<open>Memory.\<close>
  \<^item> \<open>Snalloc\<close>: \<open>crates/snalloc\<close>, \<open>kernel/src/allocator.rs\<close>. An invariant of slabs over a memory of words (the chain of
    free cells), kept by every operation and by clients that write into their blocks; live blocks are
    disjoint; allocation is exact; the statistics are exact; a freed block comes back first.
  \<^item> \<open>Stack_Allocator\<close>: \<open>kernel/src/stack_allocator.rs\<close>. Slices are disjoint; alignment is ignored.
  \<^item> \<open>Memory\<close>: \<open>kernel/src/arch/x86_64/memory.rs\<close>. Frames are inside usable memory and not in use; the search is
    first fit; a mapped object is translated byte for byte; demand paging zeroes exactly the new page.
  \<^item> \<open>Pool\<close>, \<open>Heap_Pool\<close>: the abstract contract of both allocators, a finite set of free items that clients take
    from and give back to. Any run of a size class of the heap, or of the frame allocator, with clients
    that only return what they hold, is a run of the contract: no item has two holders, and an
    allocation fails only when nothing is free.
  \<^item> \<open>Dma\<close>: \<open>kernel/src/drivers/dma.rs\<close>.

  \<^bold>\<open>Interrupts, cores and time.\<close>
  \<^item> \<open>Interrupts\<close>: \<open>kernel/src/arch/x86_64/interrupts.rs\<close>, vectors, IO-APICs, registration, guards: a registered
    handler is the one that runs.
  \<^item> \<open>Lapic\<close>, over \<open>Float64\<close>: the local controller and its timer; the count of the timer in exact \<open>f64\<close>
    arithmetic; the order of the set-up, equal on all cores; the divisor of the interval timer.
  \<^item> \<open>Pit\<close>: \<open>kernel/src/arch/x86_64/pit.rs\<close>, with its wait loop as a transition system; \<open>Hpet\<close>: \<open>crates/hpet\<close>,
    \<open>kernel/src/arch/x86_64/hpet.rs\<close>, \<open>time.rs\<close>, \<open>kernel/src/task/timer.rs\<close>; \<open>Cmos\<close>: \<open>crates/cmos\<close>; \<open>Bitfield\<close>: register layouts.
  \<^item> \<open>Cpu_Setup\<close>: \<open>gdt.rs\<close>, \<open>local.rs\<close>, part of \<open>mod.rs\<close> of \<open>kernel/src/arch/x86_64\<close>, \<open>crates/e9\<close>: segments and stacks,
    the number and the data of a core, the debug port.
  \<^item> \<open>Executor\<close>: \<open>kernel/src/task/executor.rs\<close>: no task is lost or duplicated by stealing. \<open>Idle\<close>: the halt of a core
    between its instructions, against interrupts and other cores.
  \<^item> \<open>Panic\<close>: \<open>kernel/src/panic.rs\<close>, \<open>kernel/src/local.rs\<close>.
  \<^item> \<open>Locks\<close>: the lock operations of the kernel's critical sections, any number of cores, interrupts
    anywhere: the tasks with the E1000 card cannot deadlock; two configurations that can.
  \<^item> \<open>Boot\<close>: \<open>arch::init\<close> and \<open>start_smp\<close>, composed from the theories above: when the boot returns, the components are
    in the states the other theorems start from. \<open>Start\<close>: \<open>kernel/src/main.rs\<close>, \<open>drivers/mod.rs\<close>, \<open>net::init\<close>, the start of the shell: from
    the return of \<open>arch::init\<close> to the tasks that the executor then runs, on the first and on the other cores.

  \<^bold>\<open>Devices.\<close>
  \<^item> \<open>Mouse\<close>, \<open>Keyboard\<close>, \<open>I8042\<close>: \<open>crates/i8042\<close>, state machines on bytes, interpretations of \<open>machine\<close> and
    \<open>absorbing_machine\<close>. \<open>Input_Queue\<close>: \<open>kernel/src/drivers/i8042.rs\<close>, handler and reader interleaved at their
    atomic steps: no lost wake-up, first in first out. \<open>Input_Start\<close>: the start of the drivers.
  \<^item> \<open>E1000_Flags\<close>, \<open>E1000\<close>: \<open>kernel/src/drivers/e1000.rs\<close>, both rings as interpretations of \<open>ring\<close>; frames arrive in
    order.
  \<^item> \<open>Virtio\<close>: \<open>kernel/src/drivers/virtio\<close>. \<open>Nvme\<close>: \<open>kernel/src/drivers/nvme.rs\<close>, which \<open>drivers/mod.rs\<close> leaves out of the build.
  \<^item> \<open>Pci\<close>, \<open>Config_Space\<close>: \<open>kernel/src/arch/x86_64/pci.rs\<close>, \<open>acpi.rs\<close>, \<open>kernel/src/arch/common.rs\<close>: the scan finds exactly the
    functions behind existing bridges; the four accessors of configuration space agree; the callbacks
    of the ACPI interpreter, power off and reset.
  \<^item> \<open>Framebuffer\<close>, \<open>Pixels\<close>, \<open>Logo\<close>: \<open>kernel/src/framebuffer.rs\<close>, \<open>kernel/build.rs\<close>: text never leaves the buffer; what
    the build script encodes is what is drawn.

  \<^bold>\<open>Services.\<close>
  \<^item> \<open>Net\<close>, \<open>Sockets\<close>: \<open>kernel/src/net/mod.rs\<close>: leases, router solicitation and autoconfiguration, polls that register (interpretations of
    \<open>registering_poll\<close>), ownership of sockets and queries, the interface and its task.
  \<^item> \<open>Debug_Log\<close>: \<open>kernel/src/debug.rs\<close> and the log buffer. \<open>Shell\<close>, \<open>Commands\<close>: \<open>kernel/src/shell.rs\<close>.

  \<^bold>\<open>Across components\<close> (this theory): a cell of the heap need not be contiguous in physical memory, though
  the drivers give its first physical address to devices; two cores that fault on one page.

  \<^bold>\<open>Bounds and fuel.\<close> The recursion through PCI bridges has fuel 256, enough because the buses are numbered
  by a byte and bridges lead upwards. Waiting for the 8042 controller is the source's own bound of
  polls. Loops that need not end (flushing the 8042 controller, sampling the clock, polling a
  register, the interface task) are partial functions or \<open>spin_until\<close> with result \<open>None\<close>, and the theorems say when they
  return. \<open>Float64\<close> has no infinities and no subnormal numbers: the kernel's values are far from both.
  A lock operation, an atomic operation and an attempt to steal are single steps.

  \<^bold>\<open>Not modelled.\<close> Module glue (re-exports, attributes, the entry stubs in assembler); accessors that only
  hand on to the \<open>acpi\<close> crate; the bytes of packets and tables that \<open>smoltcp\<close> and \<open>acpi\<close> encode and decode; formatting
  (\<open>core::fmt\<close>); the allocations libraries make; weak memory ordering:
  atomic operations are interleaved.
\<close>

section \<open>The heap, the page tables and the devices\<close>

text \<open>The second cell of the class of 2048 bytes in the kernel's heap.\<close>

definition second_cell :: usize where
  "second_cell = sl_start (kernel_slab 6) + 2048"

lemma second_cell_page: "second_cell mod 4096 = 3072" "canonical second_cell"
  by (simp_all add: second_cell_def kernel_consts canonical_def)

lemma class_2048_second:
  assumes "1024 < n" "n \<le> 2048"
  shows "\<exists>inner m p1 inner1 m1 inner2 m2. allocator_init api mem = Inr (inner, m)
    \<and> Allocator_alloc api inner \<lparr>lsize = n, lalign = 8\<rparr> (\<lambda>_. 0) = Inr (p1, inner1, m1)
    \<and> Allocator_alloc api inner1 \<lparr>lsize = n, lalign = 8\<rparr> m1 = Inr (second_cell, inner2, m2)"
proof -
  let ?l = "\<lparr>lsize = n, lalign = 8\<rparr>"
  obtain f m' where fi: "fb_init api (fb_empty api) kernel_fallback kernel_region mem = (f, m')"
    by (metis surj_pair)
  let ?inner = "\<lambda>s. \<lparr>in_start = MANAGED_START, in_size = MANAGED_END - MANAGED_START,
               in_slabs = (map kernel_slab [0..<7])[6 := s], in_fallback = f\<rparr>"
  let ?s1 = "(kernel_slab 6)\<lparr>sl_next := second_cell, sl_used := n\<rparr>"
  have init: "allocator_init api mem = Inr (?inner (kernel_slab 6), m')"
    by (simp add: kernel_init fi upt_7)
  have sel: "Inner_slab (?inner s) ?l = Some 6" if "sl_size s = 2048" for s
    using assms that by (simp add: Inner_slab_def upt_7 kernel_consts)
  have one: "SlabAllocator_alloc (kernel_slab 6) ?l (\<lambda>_. 0) = Inr (sl_start (kernel_slab 6), ?s1, \<lambda>_. 0)"
    using assms by (simp add: SlabAllocator_alloc_def second_cell_def kernel_consts Let_def fun_eq_iff)
  have two: "\<exists>s2 m2. SlabAllocator_alloc ?s1 ?l (\<lambda>_. 0) = Inr (second_cell, s2, m2)"
    using assms by (simp add: SlabAllocator_alloc_def second_cell_def kernel_consts Let_def)
  have a1: "Allocator_alloc api (?inner (kernel_slab 6)) ?l (\<lambda>_. 0) = Inr (sl_start (kernel_slab 6), ?inner ?s1, \<lambda>_. 0)"
    using sel[of "kernel_slab 6"] one by (simp add: Allocator_alloc_def upt_7 class_sizes_def kernel_slab_def)
  have "\<exists>inner2 m2. Allocator_alloc api (?inner ?s1) ?l (\<lambda>_. 0) = Inr (second_cell, inner2, m2)"
    using sel[of ?s1] two by (auto simp: Allocator_alloc_def kernel_slab_def class_sizes_def)
  then show ?thesis using init a1 by blast
qed


text \<open>
  Two pages that are touched with another one in between get frames that are not adjacent: the state
  after three page faults of the heap, from three free frames.
\<close>

definition three_frames :: "(usize \<Rightarrow> usize option) memory_state" where
  "three_frames = small_state\<lparr>mm_frames := Some (small_fr [1052672, 1056768, 1060864] [])\<rparr>"

definition torn_map :: "usize \<Rightarrow> usize option" where
  "torn_map = [second_cell - 3072 \<mapsto> 1052672, MANAGED_START \<mapsto> 1056768, second_cell + 1024 \<mapsto> 1060864]"

lemma heap_fault:
  assumes st: "mm_mapper st = Some pt" "mm_frames st = Some (small_fr (f # fs) [])"
    and a: "MANAGED_START \<le> a" "a < MANAGED_END" "pt (align_down a 4096) = None" and f: "f < 2 ^ 52" "f mod 4096 = 0"
  shows "\<exists>st'. lazy_map fun_mapper a st = Inr (True, st') \<and> mm_mapper st' = Some (pt(align_down a 4096 \<mapsto> f))
    \<and> mm_frames st' = Some (small_fr fs [])"
  using assms by (simp add: lazy_map_def fun_mapper_def allocate_frame_def phys_new_def align_down_def Let_def)

lemma three_faults:
  "\<exists>st1 st2 st3. lazy_map fun_mapper second_cell three_frames = Inr (True, st1)
     \<and> lazy_map fun_mapper MANAGED_START st1 = Inr (True, st2) \<and> lazy_map fun_mapper (second_cell + 1024) st2 = Inr (True, st3)
     \<and> mm_mapper st3 = Some torn_map"
proof -
  have ad: "align_down second_cell 4096 = second_cell - 3072" "align_down MANAGED_START 4096 = MANAGED_START"
    "align_down (second_cell + 1024) 4096 = second_cell + 1024"
    by (simp_all add: align_down_def second_cell_def kernel_consts)
  have rng: "MANAGED_START \<le> second_cell" "second_cell + 1024 < MANAGED_END" "MANAGED_START < MANAGED_END"
    "second_cell - 3072 \<noteq> MANAGED_START" "second_cell - 3072 \<noteq> second_cell + 1024" "second_cell + 1024 \<noteq> MANAGED_START"
    by (simp_all add: second_cell_def kernel_consts)
  obtain st1 where 1: "lazy_map fun_mapper second_cell three_frames = Inr (True, st1)"
    "mm_mapper st1 = Some [second_cell - 3072 \<mapsto> 1052672]" "mm_frames st1 = Some (small_fr [1056768, 1060864] [])"
    using heap_fault[of three_frames Map.empty 1052672 "[1056768, 1060864]" second_cell] rng
    by (auto simp: three_frames_def small_state_def ad)
  obtain st2 where 2: "lazy_map fun_mapper MANAGED_START st1 = Inr (True, st2)"
    "mm_mapper st2 = Some [second_cell - 3072 \<mapsto> 1052672, MANAGED_START \<mapsto> 1056768]" "mm_frames st2 = Some (small_fr [1060864] [])"
    using heap_fault[OF 1(2,3), of MANAGED_START] rng by (auto simp: ad)
  obtain st3 where "lazy_map fun_mapper (second_cell + 1024) st2 = Inr (True, st3)" "mm_mapper st3 = Some torn_map"
    using heap_fault[OF 2(2,3), of "second_cell + 1024"] rng by (auto simp: ad torn_map_def)
  then show ?thesis using 1 2 by blast
qed


text \<open>
  C31. Demand paging is not safe on several cores. Two cores touch the same unmapped page of the heap and
  both fault; the handlers run one after the other, because \<open>lazy_map\<close> holds the lock of the page tables.
  If the first succeeds, the second finds the address mapped, takes the fault for an error and panics.
\<close>

theorem concurrent_page_fault_panics:
  assumes spec: "mapper_spec ma" and both: "align_down a' 4096 = align_down a 4096"
    and handled: "page_fault_handler ma a mem = Inr (acts, mem1)"
  shows "page_fault_handler ma a' mem1 = Inl ExplicitPanic"
proof -
  obtain pt pt' fr fr' frame where m: "mm_mapper mem1 = Some pt'"
    "pt_map_to ma (align_down a 4096) frame {PRESENT, WRITABLE} (pt, fr) = Inr (True, pt', fr')"
    using handled by (auto simp: page_fault_handler_def lazy_map_def Let_def split: if_splits)
  have page: "align_down a 4096 mod 4096 = 0" by (simp add: align_down_def minus_mod_eq_mult_div)
  have "a' < align_down a' 4096 + 4096" "align_down a' 4096 \<le> a'" by (simp_all add: align_down_def less_diff_conv2)
  then have "pt_translate ma pt' a' \<noteq> None" using mapper_specD[OF spec page m(2), of a'] both by simp
  then show ?thesis using m(1) by (auto simp: page_fault_handler_def lazy_map_def)
qed

theorem concurrent_page_fault_panics_witness:
  "\<exists>mem1. (page_fault_handler fun_mapper MANAGED_START three_frames :: (nat action list \<times> _) res) = Inr (prologue @ epilogue, mem1)
     \<and> (page_fault_handler fun_mapper (MANAGED_START + 8) mem1 :: (nat action list \<times> _) res) = Inl ExplicitPanic"
proof -
  obtain mem1 where "lazy_map fun_mapper MANAGED_START three_frames = Inr (True, mem1)"
    by (simp add: three_frames_def lazy_map_def small_state_def fun_mapper_def align_down_def allocate_frame_def
      phys_new_def kernel_consts)
  then have 1: "(page_fault_handler fun_mapper MANAGED_START three_frames :: (nat action list \<times> _) res) = Inr (prologue @ epilogue, mem1)"
    by (simp add: page_fault_handler_def)
  have 2: "align_down (MANAGED_START + 8) 4096 = align_down MANAGED_START 4096" by (simp add: align_down_def kernel_consts)
  show ?thesis using 1 concurrent_page_fault_panics[OF fun_mapper_spec 2 1] by blast
qed

end
